(* ===== verification/Prelude.thy ===== *)
theory Prelude
  imports Main "HOL-Library.Word"
begin

section \<open>Prelude: outcomes of a computation, arrays, shared lemmas\<close>

text \<open>
  What every component of the development uses: the ways a call can end, the monadic bind over
  them, bounds-checked arrays, and generic facts on words and lists.

  A C++ function of the repository either returns or stops the process. It stops the process
  through \<^verbatim>\<open>ASSERT\<close> and \<^verbatim>\<open>FATAL\<close> (\<^verbatim>\<open>common/Macros.hpp\<close>), through
  \<^verbatim>\<open>std::array::at\<close> out of range (the exception leaves a \<^verbatim>\<open>noexcept\<close> function, so
  \<^verbatim>\<open>std::terminate\<close> runs), or it has undefined behaviour: a null pointer is followed or a
  vector is indexed past its end. Each of them is a value of \<open>err\<close>.
\<close>

datatype err =
    AssertFailed string \<comment> \<open>\<^verbatim>\<open>ASSERT(false, msg)\<close>\<close>
  | FatalError string   \<comment> \<open>\<^verbatim>\<open>FATAL(msg)\<close>\<close>
  | OutOfRange          \<comment> \<open>\<^verbatim>\<open>std::out_of_range\<close> from \<^verbatim>\<open>at()\<close>\<close>
  | NullDeref           \<comment> \<open>undefined behaviour: \<^verbatim>\<open>nullptr\<close> followed\<close>
  | SignedOverflow      \<comment> \<open>undefined behaviour: overflow of a signed integer\<close>
  | OutOfBounds         \<comment> \<open>undefined behaviour: \<^verbatim>\<open>operator[]\<close> past the end\<close>
  | Diverges            \<comment> \<open>a pointer-chasing loop that does not come back\<close>

type_synonym 'a res = "err + 'a"

definition bindE :: "'a res \<Rightarrow> ('a \<Rightarrow> 'b res) \<Rightarrow> 'b res" where
  "bindE m f = (case m of Inl e \<Rightarrow> Inl e | Inr x \<Rightarrow> f x)"

text \<open>\<^verbatim>\<open>ASSERT\<close> and \<^verbatim>\<open>FATAL\<close> of \<^verbatim>\<open>common/Macros.hpp\<close>.\<close>

definition ASSERT :: "bool \<Rightarrow> string \<Rightarrow> unit res" where
  "ASSERT cond msg = (if \<not> cond then Inl (AssertFailed msg) else Inr ())"

definition FATAL :: "string \<Rightarrow> 'a res" where
  "FATAL msg = Inl (FatalError msg)"

text \<open>\<open>std::array<T, n>\<close> is a function on indices; \<open>at\<close> checks the index against \<open>n\<close>.\<close>

definition arr_at :: "nat \<Rightarrow> (nat \<Rightarrow> 'a) \<Rightarrow> nat \<Rightarrow> 'a res" where
  "arr_at n a i = (if i < n then Inr (a i) else Inl OutOfRange)"

definition arr_set :: "nat \<Rightarrow> (nat \<Rightarrow> 'a) \<Rightarrow> nat \<Rightarrow> 'a \<Rightarrow> (nat \<Rightarrow> 'a) res" where
  "arr_set n a i x = (if i < n then Inr (a(i := x)) else Inl OutOfRange)"

text \<open>
  The development's rule collections: \<open>res_simps\<close> for the outcome type, \<open>ptr_simps\<close> for reads
  and writes through pool pointers, \<open>word_facts\<close> for quantities read as numbers.
\<close>

named_theorems res_simps
named_theorems ptr_simps
named_theorems word_facts

subsection \<open>Outcomes\<close>

lemma bindE_Inl [simp, res_simps]: "bindE (Inl e) f = Inl e"
  by (simp add: bindE_def)

lemma bindE_Inr [simp, res_simps]: "bindE (Inr x) f = f x"
  by (simp add: bindE_def)

lemma bindE_eq_Inr_iff [res_simps]: "bindE m f = Inr y \<longleftrightarrow> (\<exists>x. m = Inr x \<and> f x = Inr y)"
  by (cases m) auto

lemma bindE_assoc [res_simps]: "bindE (bindE m f) g = bindE m (\<lambda>x. bindE (f x) g)"
  by (cases m) auto

lemma bindE_if [res_simps]: "bindE (if c then m else n) f = (if c then bindE m f else bindE n f)"
  by simp

lemma bindE_cong [fundef_cong]:
  assumes "m = m'" and "\<And>x. m' = Inr x \<Longrightarrow> f x = f' x"
  shows "bindE m f = bindE m' f'"
  using assms by (cases m') auto

lemma bindE_InrE:
  assumes "bindE m f = Inr y"
  obtains x where "m = Inr x" and "f x = Inr y"
  using assms by (auto simp: bindE_eq_Inr_iff)

lemma ASSERT_True [simp, res_simps]: "ASSERT True msg = Inr ()"
  by (simp add: ASSERT_def)

lemma ASSERT_False [simp, res_simps]: "ASSERT False msg = Inl (AssertFailed msg)"
  by (simp add: ASSERT_def)

lemma ASSERT_Inr_iff [res_simps]: "ASSERT c msg = Inr u \<longleftrightarrow> c"
  by (simp add: ASSERT_def)

lemma FATAL_neq_Inr [simp, res_simps]: "FATAL msg \<noteq> Inr x"
  by (simp add: FATAL_def)

lemma arr_at_Inr_iff [res_simps]: "arr_at n a i = Inr x \<longleftrightarrow> i < n \<and> a i = x"
  by (auto simp: arr_at_def)

lemma arr_at_in [simp, res_simps]: "i < n \<Longrightarrow> arr_at n a i = Inr (a i)"
  by (simp add: arr_at_def)

lemma arr_at_out [simp, res_simps]: "\<not> i < n \<Longrightarrow> arr_at n a i = Inl OutOfRange"
  by (simp add: arr_at_def)

lemma arr_set_Inr_iff [res_simps]: "arr_set n a i x = Inr a' \<longleftrightarrow> i < n \<and> a' = a(i := x)"
  by (auto simp: arr_set_def)

lemma arr_set_in [simp, res_simps]: "i < n \<Longrightarrow> arr_set n a i x = Inr (a(i := x))"
  by (simp add: arr_set_def)

lemma arr_set_out [simp, res_simps]: "\<not> i < n \<Longrightarrow> arr_set n a i x = Inl OutOfRange"
  by (simp add: arr_set_def)

text \<open>A loop whose body may fail.\<close>

fun fold_res :: "('a \<Rightarrow> 's \<Rightarrow> 's res) \<Rightarrow> 'a list \<Rightarrow> 's \<Rightarrow> 's res" where
  "fold_res body [] s = Inr s"
| "fold_res body (x # xs) s = bindE (body x s) (\<lambda>s'. fold_res body xs s')"

lemma fold_res_append: "fold_res f (xs @ ys) s = bindE (fold_res f xs s) (fold_res f ys)"
proof (induction xs arbitrary: s)
  case (Cons x xs)
  then show ?case by (cases "f x s") simp_all
qed simp

subsection \<open>Lists\<close>

lemma split_list_distinct:
  assumes "x \<in> set xs" and "distinct xs"
  obtains us vs where "xs = us @ x # vs" and "x \<notin> set us" and "x \<notin> set vs"
  using assms by (metis distinct.simps(2) distinct_append split_list not_distinct_conv_prefix)

lemma sorted_wrt_distinct: "sorted_wrt R xs \<Longrightarrow> (\<And>x. \<not> R x x) \<Longrightarrow> distinct xs"
  by (induction xs) auto

lemma last_rotate_prefix: "us \<noteq> [] \<Longrightarrow> last (vs @ us) = last us"
  by simp

subsection \<open>Words read as numbers\<close>

lemma unat_min_word [word_facts]: "unat (min a b) = min (unat a) (unat b)"
  by (simp add: min_def word_le_nat_alt)

lemma unat_minus_min [word_facts]:
  "unat (a - min a b) = unat a - unat (min a b)"
  by (rule unat_sub) simp

lemma unat_minus_min2 [word_facts]:
  "unat (b - min a b) = unat b - unat (min a b)"
  by (rule unat_sub) simp

end
