(* ===== verification/CommonTypes.thy ===== *)
theory CommonTypes
  imports Prelude
begin

section \<open>The domain types of \<^verbatim>\<open>common/Types.hpp\<close>\<close>

text \<open>
  The typedefs, enumerations and limits every component shares, with their printers. Unsigned
  typedefs are words of their C++ width, so their arithmetic wraps as it does in the code.
  \<^verbatim>\<open>Price\<close> (\<^verbatim>\<open>int64_t\<close>) is an \<open>int\<close>: signed overflow is undefined in C++, and the code only
  compares prices, prints them and reduces them modulo the number of price levels.
\<close>

type_synonym OrderID = "64 word"
type_synonym TickerID = "32 word"
type_synonym ClientID = "32 word"
type_synonym Price = int
type_synonym Quantity = "32 word"
type_synonym Priority = "64 word"
type_synonym Nanos = int

datatype Side = Side_INVALID | Side_BUY | Side_SELL | Side_MAX

datatype AlgoType = Algo_INVALID | Algo_RANDOM | Algo_MAKER | Algo_TAKER | Algo_MAX

definition MATCHING_ENGINE_MAX_TICKERS :: nat where
  "MATCHING_ENGINE_MAX_TICKERS = 8"

definition MATCHING_ENGINE_MAX_CLIENT_UPDATES :: nat where
  "MATCHING_ENGINE_MAX_CLIENT_UPDATES = 256 * 1024"

definition MATCHING_ENGINE_MAX_MARKET_UPDATES :: nat where
  "MATCHING_ENGINE_MAX_MARKET_UPDATES = 256 * 1024"

definition MATCHING_ENGINE_MAX_NUM_CLIENTS :: nat where
  "MATCHING_ENGINE_MAX_NUM_CLIENTS = 256"

definition MATCHING_ENGINE_MAX_ORDER_IDS :: nat where
  "MATCHING_ENGINE_MAX_ORDER_IDS = 1024 * 1024"

definition MATCHING_ENGINE_MAX_PRICE_LEVELS :: nat where
  "MATCHING_ENGINE_MAX_PRICE_LEVELS = 256"

definition ORDER_ID_INVALID :: OrderID where
  "ORDER_ID_INVALID = - 1"

definition TICKER_ID_INVALID :: TickerID where
  "TICKER_ID_INVALID = - 1"

definition CLIENT_ID_INVALID :: ClientID where
  "CLIENT_ID_INVALID = - 1"

definition PRICE_INVALID :: Price where
  "PRICE_INVALID = 2 ^ 63 - 1"

definition QUANTITY_INVALID :: Quantity where
  "QUANTITY_INVALID = - 1"

definition PRIORITY_INVALID :: Priority where
  "PRIORITY_INVALID = - 1"

subsection \<open>Printing\<close>

text \<open>\<^verbatim>\<open>std::to_string\<close> on unsigned and on signed integers: decimal digits, a minus sign.\<close>

definition digit_char :: "nat \<Rightarrow> char" where
  "digit_char d = char_of (48 + d)"

fun to_string_nat :: "nat \<Rightarrow> string" where
  "to_string_nat n =
     (if n < 10 then [digit_char n] else to_string_nat (n div 10) @ [digit_char (n mod 10)])"

declare to_string_nat.simps [simp del]

definition to_string_int :: "int \<Rightarrow> string" where
  "to_string_int i = (if i < 0 then CHR ''-'' # to_string_nat (nat (- i)) else to_string_nat (nat i))"

definition orderIdToString :: "OrderID \<Rightarrow> string" where
  "orderIdToString order_id =
     (if order_id = ORDER_ID_INVALID then ''INVALID'' else to_string_nat (unat order_id))"

definition tickerIdToString :: "TickerID \<Rightarrow> string" where
  "tickerIdToString ticker_id =
     (if ticker_id = TICKER_ID_INVALID then ''INVALID'' else to_string_nat (unat ticker_id))"

definition clientIdToString :: "ClientID \<Rightarrow> string" where
  "clientIdToString client_id =
     (if client_id = CLIENT_ID_INVALID then ''INVALID'' else to_string_nat (unat client_id))"

definition priceToString :: "Price \<Rightarrow> string" where
  "priceToString price =
     (if price = PRICE_INVALID then ''INVALID'' else to_string_int price)"

definition quantityToString :: "Quantity \<Rightarrow> string" where
  "quantityToString quantity =
     (if quantity = QUANTITY_INVALID then ''INVALID'' else to_string_nat (unat quantity))"

definition priorityToString :: "Priority \<Rightarrow> string" where
  "priorityToString priority =
     (if priority = PRIORITY_INVALID then ''INVALID'' else to_string_nat (unat priority))"

subsection \<open>Sides and algorithms\<close>

text \<open>
  The enumerators' underlying values (\<^verbatim>\<open>int8_t\<close>): \<^verbatim>\<open>INVALID = 0, BUY = 1, SELL = -1, MAX = 2\<close>.
  \<open>sideToIndex\<close> casts to \<^verbatim>\<open>size_t\<close> first, so \<^verbatim>\<open>SELL\<close> becomes \<open>2 ^ 64 - 1\<close> and the
  increment wraps to 0.
\<close>

fun sideToValue :: "Side \<Rightarrow> int" where
  "sideToValue Side_INVALID = 0"
| "sideToValue Side_BUY = 1"
| "sideToValue Side_SELL = - 1"
| "sideToValue Side_MAX = 2"

definition sideToIndex :: "Side \<Rightarrow> nat" where
  "sideToIndex side = unat ((word_of_int (sideToValue side) :: 64 word) + 1)"

fun sideToString :: "Side \<Rightarrow> string" where
  "sideToString Side_BUY = ''BUY''"
| "sideToString Side_SELL = ''SELL''"
| "sideToString Side_INVALID = ''INVALID''"
| "sideToString Side_MAX = ''MAX''"

fun algoTypeToString :: "AlgoType \<Rightarrow> string" where
  "algoTypeToString Algo_INVALID = ''INVALID''"
| "algoTypeToString Algo_RANDOM = ''RANDOM''"
| "algoTypeToString Algo_MAKER = ''MAKER''"
| "algoTypeToString Algo_TAKER = ''TAKER''"
| "algoTypeToString Algo_MAX = ''MAX''"

text \<open>The loop of \<open>stringToAlgoType\<close> runs over the enumerators from 0 to 4, in order.\<close>

definition algo_types :: "AlgoType list" where
  "algo_types = [Algo_INVALID, Algo_RANDOM, Algo_MAKER, Algo_TAKER, Algo_MAX]"

fun find_algo :: "string \<Rightarrow> AlgoType list \<Rightarrow> AlgoType" where
  "find_algo str [] = Algo_INVALID"
| "find_algo str (a # as) = (if algoTypeToString a = str then a else find_algo str as)"

definition stringToAlgoType :: "string \<Rightarrow> AlgoType" where
  "stringToAlgoType str = find_algo str algo_types"

lemmas limit_defs =
  MATCHING_ENGINE_MAX_TICKERS_def MATCHING_ENGINE_MAX_CLIENT_UPDATES_def
  MATCHING_ENGINE_MAX_MARKET_UPDATES_def MATCHING_ENGINE_MAX_NUM_CLIENTS_def
  MATCHING_ENGINE_MAX_ORDER_IDS_def MATCHING_ENGINE_MAX_PRICE_LEVELS_def

lemmas invalid_defs =
  ORDER_ID_INVALID_def TICKER_ID_INVALID_def CLIENT_ID_INVALID_def PRICE_INVALID_def
  QUANTITY_INVALID_def PRIORITY_INVALID_def

lemma sideToIndex_simps [simp]:
  "sideToIndex Side_INVALID = 1" "sideToIndex Side_BUY = 2"
  "sideToIndex Side_SELL = 0" "sideToIndex Side_MAX = 3"
  by (simp_all add: sideToIndex_def)

end
