(* ===== verification/MemPool.thy ===== *)
theory MemPool
  imports CommonTypes
begin

section \<open>The memory pool of \<^verbatim>\<open>common/Mempool.hpp\<close>\<close>

text \<open>
  A pool is a fixed vector of blocks, each an object and a free flag, with the index of the next
  free block. A \<^verbatim>\<open>T*\<close> handed out by the pool is the index of its block (\<open>None\<close> is
  \<^verbatim>\<open>nullptr\<close>), so the pools double as the heap of the order books built on them: following a
  pointer reads the block's object, whether or not the block is free, as the C++ does.
\<close>

type_synonym ptr = "nat option"

record 'a block =
  object :: 'a
  is_free :: bool

record 'a mempool =
  store :: "nat \<Rightarrow> 'a block"
  pool_size :: nat
  next_free_index :: nat

text \<open>\<^verbatim>\<open>MemPool(num_elems)\<close>: every block holds \<^verbatim>\<open>T()\<close> and is free.\<close>

definition MemPool :: "'a \<Rightarrow> nat \<Rightarrow> 'a mempool" where
  "MemPool dflt num_elems =
     \<lparr>store = (\<lambda>_. \<lparr>object = dflt, is_free = True\<rparr>), pool_size = num_elems, next_free_index = 0\<rparr>"

text \<open>
  The loop of \<open>updateNextFreeIndex\<close>, from \<open>next\<close>: it goes round the vector at most once, since
  coming back to the index it started from is an assertion failure.
\<close>

function next_free_loop :: "'a mempool \<Rightarrow> nat \<Rightarrow> nat \<Rightarrow> nat res" where
  "next_free_loop p initial_free_index next =
     (if pool_size p \<le> initial_free_index \<or> pool_size p \<le> next then Inl OutOfBounds
      else if is_free (store p next) then Inr next
      else let next' = (if next + 1 = pool_size p then 0 else next + 1)
           in if initial_free_index = next' then Inl (AssertFailed ''Memory Pool out of space.'')
              else next_free_loop p initial_free_index next')"
  by pat_completeness auto
termination
  by (relation "measure (\<lambda>(p, i, n). if n < i then i - n else i + pool_size p - n)")
     (auto split: if_splits)

declare next_free_loop.simps [simp del]

definition updateNextFreeIndex :: "'a mempool \<Rightarrow> 'a mempool res" where
  "updateNextFreeIndex p =
     bindE (next_free_loop p (next_free_index p) (next_free_index p))
       (\<lambda>i. Inr (p\<lparr>next_free_index := i\<rparr>))"

definition allocate :: "'a \<Rightarrow> 'a mempool \<Rightarrow> (nat \<times> 'a mempool) res" where
  "allocate x p =
     (let i = next_free_index p in
      if pool_size p \<le> i then Inl OutOfBounds
      else bindE (ASSERT (is_free (store p i)) ''Expected free block'') (\<lambda>_.
           bindE (updateNextFreeIndex
                    (p\<lparr>store := (store p)(i := \<lparr>object = x, is_free = False\<rparr>)\<rparr>)) (\<lambda>p'.
           Inr (i, p'))))"

text \<open>A null pointer is below the vector, so its index fails the first assertion.\<close>

definition deallocate :: "ptr \<Rightarrow> 'a mempool \<Rightarrow> 'a mempool res" where
  "deallocate elem p =
     (case elem of
        None \<Rightarrow> Inl (AssertFailed ''Element being deallocated does not belong to this memory pool. '')
      | Some i \<Rightarrow>
          bindE (ASSERT (i < pool_size p)
                   ''Element being deallocated does not belong to this memory pool. '') (\<lambda>_.
          bindE (ASSERT (\<not> is_free (store p i)) ''Expected in use Object block'') (\<lambda>_.
          Inr (p\<lparr>store := (store p)(i := (store p i)\<lparr>is_free := True\<rparr>)\<rparr>))))"

text \<open>\<^verbatim>\<open>*p\<close> and \<^verbatim>\<open>p->field = v\<close> for a pointer into the pool.\<close>

definition get_obj :: "'a mempool \<Rightarrow> ptr \<Rightarrow> 'a res" where
  "get_obj p q = (case q of None \<Rightarrow> Inl NullDeref | Some i \<Rightarrow> Inr (object (store p i)))"

definition upd_obj :: "ptr \<Rightarrow> ('a \<Rightarrow> 'a) \<Rightarrow> 'a mempool \<Rightarrow> 'a mempool res" where
  "upd_obj q f p =
     (case q of
        None \<Rightarrow> Inl NullDeref
      | Some i \<Rightarrow> Inr (p\<lparr>store := (store p)(i := (store p i)\<lparr>object := f (object (store p i))\<rparr>)\<rparr>))"

text \<open>A run of allocations, one after the other.\<close>

fun allocate_all :: "'a list \<Rightarrow> 'a mempool \<Rightarrow> (nat list \<times> 'a mempool) res" where
  "allocate_all [] p = Inr ([], p)"
| "allocate_all (x # xs) p =
     bindE (allocate x p) (\<lambda>(i, p'). bindE (allocate_all xs p') (\<lambda>(is, p''). Inr (i # is, p'')))"

text \<open>The object behind an address, the blocks in use and the well-formedness of a pool.\<close>

abbreviation obj :: "'a mempool \<Rightarrow> nat \<Rightarrow> 'a" where
  "obj p i \<equiv> object (store p i)"

definition live :: "'a mempool \<Rightarrow> nat set" where
  "live p = {i. i < pool_size p \<and> \<not> is_free (store p i)}"

definition pool_inv :: "'a mempool \<Rightarrow> bool" where
  "pool_inv p \<longleftrightarrow> next_free_index p < pool_size p \<and> is_free (store p (next_free_index p))"

definition set_obj :: "nat \<Rightarrow> ('a \<Rightarrow> 'a) \<Rightarrow> 'a mempool \<Rightarrow> 'a mempool" where
  "set_obj i f p = p\<lparr>store := (store p)(i := (store p i)\<lparr>object := f (object (store p i))\<rparr>)\<rparr>"

subsection \<open>Reads and writes through pointers\<close>

lemma get_obj_simps [simp, ptr_simps]:
  "get_obj p None = Inl NullDeref" "get_obj p (Some i) = Inr (obj p i)"
  by (simp_all add: get_obj_def)

lemma upd_obj_simps [simp, ptr_simps]:
  "upd_obj None f p = Inl NullDeref" "upd_obj (Some i) f p = Inr (set_obj i f p)"
  by (simp_all add: upd_obj_def set_obj_def)

lemma obj_set_obj [simp, ptr_simps]:
  "obj (set_obj i f p) j = (if i = j then f (obj p j) else obj p j)"
  by (simp add: set_obj_def)

lemma set_obj_frame [simp, ptr_simps]:
  "pool_size (set_obj i f p) = pool_size p"
  "next_free_index (set_obj i f p) = next_free_index p"
  "is_free (store (set_obj i f p) j) = is_free (store p j)"
  "live (set_obj i f p) = live p"
  "pool_inv (set_obj i f p) = pool_inv p"
  by (auto simp: set_obj_def live_def pool_inv_def)

lemma finite_live [simp]: "finite (live p)"
  by (simp add: live_def)

lemma card_live_le: "card (live p) \<le> pool_size p"
proof -
  have "card (live p) \<le> card {..<pool_size p}"
    by (rule card_mono) (auto simp: live_def)
  then show ?thesis by simp
qed

subsection \<open>The search for the next free block\<close>

text \<open>The indices still to be visited by the loop, seen from \<open>next\<close>.\<close>

definition ahead :: "nat \<Rightarrow> nat \<Rightarrow> nat \<Rightarrow> nat set" where
  "ahead n initial next = (if next < initial then {next..<initial} else {next..<n} \<union> {..<initial})"

lemma ahead_start: "i < n \<Longrightarrow> ahead n i i = {..<n}"
  by (auto simp: ahead_def)

lemma ahead_step:
  assumes "initial < n" and "next < n"
    and "next' = (if next + 1 = n then 0 else next + 1)" and "initial \<noteq> next'"
  shows "ahead n initial next = insert next (ahead n initial next')"
  using assms by (auto simp: ahead_def split: if_splits)

lemma ahead_last:
  assumes "initial < n" and "next < n" and "initial = (if next + 1 = n then 0 else next + 1)"
  shows "ahead n initial next = {next}"
  using assms by (auto simp: ahead_def split: if_splits)

lemma next_free_loop_busy:
  assumes "initial < pool_size p" and "next < pool_size p" and "\<not> is_free (store p next)"
    and "next' = (if next + 1 = pool_size p then 0 else next + 1)"
  shows "next_free_loop p initial next =
    (if initial = next' then Inl (AssertFailed ''Memory Pool out of space.'')
     else next_free_loop p initial next')"
  using assms by (subst next_free_loop.simps) (simp add: Let_def)

lemma next_free_loop_found:
  assumes "initial < pool_size p" and "next < pool_size p"
    and "\<exists>j \<in> ahead (pool_size p) initial next. is_free (store p j)"
  shows "\<exists>i < pool_size p. next_free_loop p initial next = Inr i \<and> is_free (store p i)"
  using assms
proof (induction p initial "next" rule: next_free_loop.induct)
  case (1 p initial "next")
  define next' where next': "next' = (if next + 1 = pool_size p then 0 else next + 1)"
  show ?case
  proof (cases "is_free (store p next)")
    case True
    with "1.prems" show ?thesis by (auto simp: next_free_loop.simps [of p initial "next"])
  next
    case busy: False
    have neq: "initial \<noteq> next'"
    proof
      assume "initial = next'"
      then have "ahead (pool_size p) initial next = {next}"
        using ahead_last "1.prems"(1,2) next' by metis
      with "1.prems"(3) busy show False by simp
    qed
    have "next' < pool_size p" using "1.prems" by (auto simp: next')
    moreover have "\<exists>j \<in> ahead (pool_size p) initial next'. is_free (store p j)"
      using ahead_step [OF "1.prems"(1,2) next' neq] "1.prems"(3) busy by auto
    ultimately have "\<exists>i < pool_size p. next_free_loop p initial next' = Inr i \<and> is_free (store p i)"
      using "1.IH" [OF _ busy next' neq] "1.prems" by auto
    with neq show ?thesis
      using next_free_loop_busy [OF "1.prems"(1,2) busy next'] by simp
  qed
qed

lemma next_free_loop_exhausted:
  assumes "initial < pool_size p" and "next < pool_size p"
    and "\<forall>j \<in> ahead (pool_size p) initial next. \<not> is_free (store p j)"
  shows "next_free_loop p initial next = Inl (AssertFailed ''Memory Pool out of space.'')"
  using assms
proof (induction p initial "next" rule: next_free_loop.induct)
  case (1 p initial "next")
  define next' where next': "next' = (if next + 1 = pool_size p then 0 else next + 1)"
  have busy: "\<not> is_free (store p next)"
    using "1.prems" by (auto simp: ahead_def split: if_splits)
  note unfold = next_free_loop_busy [OF "1.prems"(1,2) busy next']
  show ?case
  proof (cases "initial = next'")
    case True
    then show ?thesis using unfold by simp
  next
    case neq: False
    have "next' < pool_size p" using "1.prems" by (auto simp: next')
    moreover have "\<forall>j \<in> ahead (pool_size p) initial next'. \<not> is_free (store p j)"
      using ahead_step [OF "1.prems"(1,2) next' neq] "1.prems"(3) by auto
    ultimately have "next_free_loop p initial next' = Inl (AssertFailed ''Memory Pool out of space.'')"
      using "1.IH" [OF _ busy next' neq] "1.prems" by auto
    with neq show ?thesis using unfold by simp
  qed
qed

subsection \<open>Allocation and release\<close>

lemma live_allocated:
  "i < pool_size p \<Longrightarrow>
   live (p\<lparr>store := (store p)(i := \<lparr>object = x, is_free = False\<rparr>)\<rparr>) = insert i (live p)"
  by (auto simp: live_def)

lemma all_live_iff: "(\<forall>j < pool_size p. \<not> is_free (store p j)) \<longleftrightarrow> card (live p) = pool_size p"
proof
  assume "\<forall>j < pool_size p. \<not> is_free (store p j)"
  then have "live p = {..<pool_size p}" by (auto simp: live_def)
  then show "card (live p) = pool_size p" by simp
next
  assume "card (live p) = pool_size p"
  moreover have "live p \<subseteq> {..<pool_size p}" by (auto simp: live_def)
  ultimately have "live p = {..<pool_size p}"
    by (metis card_lessThan card_subset_eq finite_lessThan)
  then show "\<forall>j < pool_size p. \<not> is_free (store p j)" by (auto simp: live_def)
qed

lemma updateNextFreeIndex_ok:
  assumes "next_free_index p < pool_size p" and "card (live p) < pool_size p"
  shows "\<exists>i. updateNextFreeIndex p = Inr (p\<lparr>next_free_index := i\<rparr>) \<and> i < pool_size p \<and>
             is_free (store p i)"
proof -
  have "\<exists>j \<in> ahead (pool_size p) (next_free_index p) (next_free_index p). is_free (store p j)"
    using all_live_iff [of p] assms by (auto simp: ahead_start)
  from next_free_loop_found [OF assms(1,1) this] show ?thesis
    by (auto simp: updateNextFreeIndex_def)
qed

lemma updateNextFreeIndex_full:
  assumes "next_free_index p < pool_size p" and "card (live p) = pool_size p"
  shows "updateNextFreeIndex p = Inl (AssertFailed ''Memory Pool out of space.'')"
  using next_free_loop_exhausted [OF assms(1,1)] all_live_iff [of p] assms
  by (simp add: updateNextFreeIndex_def ahead_start)

lemma pool_inv_room: "pool_inv p \<Longrightarrow> card (live p) < pool_size p"
  using all_live_iff [of p] card_live_le [of p] by (auto simp: pool_inv_def order_less_le)

lemma card_live_allocated:
  assumes "pool_inv p"
  shows "card (live (p\<lparr>store := (store p)(next_free_index p := \<lparr>object = x, is_free = False\<rparr>)\<rparr>)) =
         Suc (card (live p))"
proof -
  from assms have "next_free_index p \<notin> live p" by (simp add: pool_inv_def live_def)
  then show ?thesis using assms by (simp add: live_allocated pool_inv_def)
qed

lemma allocate_ok:
  assumes inv: "pool_inv p" and room: "card (live p) + 2 \<le> pool_size p"
  shows "\<exists>p'. allocate x p = Inr (next_free_index p, p') \<and> pool_inv p' \<and>
              pool_size p' = pool_size p \<and> live p' = insert (next_free_index p) (live p) \<and>
              obj p' (next_free_index p) = x \<and> (\<forall>j. j \<noteq> next_free_index p \<longrightarrow> obj p' j = obj p j)"
proof -
  define i where "i = next_free_index p"
  define p1 where "p1 = p\<lparr>store := (store p)(i := \<lparr>object = x, is_free = False\<rparr>)\<rparr>"
  have i: "i < pool_size p" "is_free (store p i)" using inv by (simp_all add: pool_inv_def i_def)
  have "card (live p1) < pool_size p1"
    using card_live_allocated [OF inv] room by (simp add: p1_def i_def)
  then obtain k where k: "updateNextFreeIndex p1 = Inr (p1\<lparr>next_free_index := k\<rparr>)"
      "k < pool_size p1" "is_free (store p1 k)"
    using updateNextFreeIndex_ok [of p1] i by (auto simp: p1_def i_def)
  have "allocate x p = Inr (i, p1\<lparr>next_free_index := k\<rparr>)"
    using i k(1) by (simp add: allocate_def i_def [symmetric] p1_def)
  moreover have "live (p1\<lparr>next_free_index := k\<rparr>) = insert i (live p)"
    using live_allocated [OF i(1), of x] by (simp add: live_def p1_def)
  ultimately show ?thesis
    using k i by (auto simp: pool_inv_def p1_def i_def)
qed

lemma allocate_full:
  assumes inv: "pool_inv p" and full: "card (live p) + 1 = pool_size p"
  shows "allocate x p = Inl (AssertFailed ''Memory Pool out of space.'')"
proof -
  let ?p1 = "p\<lparr>store := (store p)(next_free_index p := \<lparr>object = x, is_free = False\<rparr>)\<rparr>"
  have "updateNextFreeIndex ?p1 = Inl (AssertFailed ''Memory Pool out of space.'')"
    using updateNextFreeIndex_full [of ?p1] card_live_allocated [OF inv] full inv
    by (simp add: pool_inv_def)
  then show ?thesis using inv by (simp add: allocate_def pool_inv_def Let_def)
qed

lemma deallocate_ok:
  assumes "pool_inv p" and "i \<in> live p"
  shows "\<exists>p'. deallocate (Some i) p = Inr p' \<and> pool_inv p' \<and> pool_size p' = pool_size p \<and>
              live p' = live p - {i} \<and> (\<forall>j. obj p' j = obj p j) \<and>
              next_free_index p' = next_free_index p"
  using assms by (auto simp: deallocate_def live_def pool_inv_def)

lemma deallocate_Inr:
  assumes "deallocate q p = Inr p'"
  shows "\<exists>i. q = Some i \<and> i \<in> live p \<and> live p' = live p - {i} \<and> (\<forall>j. obj p' j = obj p j)"
  using assms by (auto simp: deallocate_def live_def res_simps split: option.splits if_splits)

lemma pool_inv_MemPool: "0 < n \<Longrightarrow> pool_inv (MemPool d n)"
  by (simp add: MemPool_def pool_inv_def)

lemma live_MemPool [simp]: "live (MemPool d n) = {}"
  by (simp add: MemPool_def live_def)

lemma pool_size_MemPool [simp]: "pool_size (MemPool d n) = n"
  by (simp add: MemPool_def)

subsection \<open>The pool as an interface\<close>

text \<open>
  What the order books and the snapshot synthesizer rely on: an allocator hands out an address
  that was not in use and leaves every other object alone, and a release gives the address back.
\<close>

locale object_pool =
  fixes alloc :: "'a \<Rightarrow> 'p \<Rightarrow> (nat \<times> 'p) res"
    and release :: "nat \<Rightarrow> 'p \<Rightarrow> 'p res"
    and content :: "'p \<Rightarrow> nat \<Rightarrow> 'a"
    and used :: "'p \<Rightarrow> nat set"
    and capacity :: "'p \<Rightarrow> nat"
    and wf_pool :: "'p \<Rightarrow> bool"
  assumes finite_used: "finite (used p)"
    and alloc_fresh: "wf_pool p \<Longrightarrow> card (used p) < capacity p \<Longrightarrow>
      \<exists>i p'. alloc x p = Inr (i, p') \<and> wf_pool p' \<and> capacity p' = capacity p \<and> i \<notin> used p \<and>
             used p' = insert i (used p) \<and> content p' i = x \<and>
             (\<forall>j. j \<noteq> i \<longrightarrow> content p' j = content p j)"
    and release_used: "wf_pool p \<Longrightarrow> i \<in> used p \<Longrightarrow>
      \<exists>p'. release i p = Inr p' \<and> wf_pool p' \<and> capacity p' = capacity p \<and>
           used p' = used p - {i} \<and> (\<forall>j. content p' j = content p j)"
begin

fun alloc_list :: "'a list \<Rightarrow> 'p \<Rightarrow> (nat list \<times> 'p) res" where
  "alloc_list [] p = Inr ([], p)"
| "alloc_list (x # xs) p =
     bindE (alloc x p) (\<lambda>(i, p'). bindE (alloc_list xs p') (\<lambda>(is, p''). Inr (i # is, p'')))"

text \<open>Any batch that fits is allocated, at pairwise different fresh addresses, and is read back.\<close>

lemma alloc_list_ok:
  "wf_pool p \<Longrightarrow> card (used p) + length xs \<le> capacity p \<Longrightarrow>
   \<exists>is p'. alloc_list xs p = Inr (is, p') \<and> wf_pool p' \<and> capacity p' = capacity p \<and>
     distinct is \<and> set is \<inter> used p = {} \<and> used p' = used p \<union> set is \<and>
     map (content p') is = xs \<and> (\<forall>j \<in> used p. content p' j = content p j)"
proof (induction xs arbitrary: p)
  case Nil
  then show ?case by simp
next
  case (Cons x xs)
  from alloc_fresh [OF Cons.prems(1), of x] Cons.prems(2)
  obtain i p1 where a: "alloc x p = Inr (i, p1)" "wf_pool p1" "capacity p1 = capacity p"
      "i \<notin> used p" "used p1 = insert i (used p)" "content p1 i = x"
      "\<forall>j. j \<noteq> i \<longrightarrow> content p1 j = content p j"
    by auto
  then have "card (used p1) + length xs \<le> capacity p1"
    using Cons.prems(2) finite_used by simp
  from Cons.IH [OF a(2) this] obtain "is" p2 where b: "alloc_list xs p1 = Inr (is, p2)"
      "wf_pool p2" "capacity p2 = capacity p1" "distinct is" "set is \<inter> used p1 = {}"
      "used p2 = used p1 \<union> set is" "map (content p2) is = xs"
      "\<forall>j \<in> used p1. content p2 j = content p1 j"
    by blast
  have "alloc_list (x # xs) p = Inr (i # is, p2)" using a(1) b(1) by simp
  moreover have "content p2 i = x" and "\<forall>j \<in> used p. content p2 j = content p j"
    using a b(8) by auto
  ultimately show ?case using a b by (intro exI [of _ "i # is"] exI [of _ p2]) auto
qed

lemma alloc_release:
  assumes "wf_pool p" and "card (used p) < capacity p" and "alloc x p = Inr (i, p')"
  shows "\<exists>p''. release i p' = Inr p'' \<and> used p'' = used p \<and> wf_pool p''"
proof -
  from alloc_fresh [OF assms(1,2), of x] assms(3)
  have "wf_pool p'" "i \<notin> used p" "used p' = insert i (used p)" by auto
  with release_used [of p' i] show ?thesis by auto
qed

end

text \<open>
  The pool of the code is such an allocator for one block less than its vector has: the search
  after an allocation must still find a free block.
\<close>

interpretation mp: object_pool allocate "\<lambda>i. deallocate (Some i)" obj live
  "\<lambda>p. pool_size p - 1" pool_inv
proof unfold_locales
  fix p :: "'a mempool" and x :: 'a
  assume "pool_inv p" and "card (live p) < pool_size p - 1"
  moreover from this have "next_free_index p \<notin> live p" by (simp add: pool_inv_def live_def)
  ultimately show "\<exists>i p'. allocate x p = Inr (i, p') \<and> pool_inv p' \<and> pool_size p' - 1 = pool_size p - 1 \<and>
      i \<notin> live p \<and> live p' = insert i (live p) \<and> obj p' i = x \<and>
      (\<forall>j. j \<noteq> i \<longrightarrow> obj p' j = obj p j)"
    using allocate_ok [of p x] by fastforce
next
  fix p :: "'a mempool" and i
  assume "pool_inv p" and "i \<in> live p"
  then show "\<exists>p'. deallocate (Some i) p = Inr p' \<and> pool_inv p' \<and> pool_size p' - 1 = pool_size p - 1 \<and>
      live p' = live p - {i} \<and> (\<forall>j. obj p' j = obj p j)"
    using deallocate_ok [of p i] by auto
qed simp

lemma allocate_all_eq: "allocate_all xs p = mp.alloc_list xs p"
  by (induction xs arbitrary: p) auto

subsection \<open>Properties\<close>

text \<open>C33: the pool's exact capacity. From a well-formed pool, \<open>allocate\<close> succeeds if and only if at
  least two blocks are free: a vector of \<open>n\<close> blocks serves \<open>n - 1\<close> objects, and taking the last
  free block ends the process with "Memory Pool out of space", although the block was there.\<close>

theorem allocate_succeeds_iff:
  assumes "pool_inv p"
  shows "(\<exists>i p'. allocate x p = Inr (i, p')) \<longleftrightarrow> card (live p) + 2 \<le> pool_size p"
proof (cases "card (live p) + 2 \<le> pool_size p")
  case True
  then show ?thesis using allocate_ok [OF assms] by blast
next
  case False
  with pool_inv_room [OF assms] have "card (live p) + 1 = pool_size p" by simp
  from allocate_full [OF assms this] False show ?thesis by simp
qed

theorem allocate_succeeds_iff_witness:
  "(\<exists>i p'. allocate (7 :: nat) (MemPool 0 2) = Inr (i, p')) \<and> pool_inv (MemPool (0 :: nat) 2)"
  using allocate_succeeds_iff [of "MemPool (0 :: nat) 2" 7] pool_inv_MemPool [of 2 "0 :: nat"] by simp

text \<open>A batch of objects that fits (the pool keeps one block in reserve) is allocated at pairwise
  different addresses, none of them in use before; every object of the batch reads back as written
  and no object that was in use changes.\<close>

theorem allocate_batch:
  assumes "pool_inv p" and "card (live p) + length xs < pool_size p"
  shows "\<exists>is p'. allocate_all xs p = Inr (is, p') \<and> pool_inv p' \<and> distinct is \<and>
           set is \<inter> live p = {} \<and> live p' = live p \<union> set is \<and> map (obj p') is = xs \<and>
           (\<forall>j \<in> live p. obj p' j = obj p j)"
  using mp.alloc_list_ok [of p xs] assms unfolding allocate_all_eq by fastforce

theorem allocate_batch_witness:
  "\<exists>is p'. allocate_all [5, 6] (MemPool (0 :: nat) 3) = Inr (is, p') \<and> distinct is \<and>
     map (obj p') is = [5, 6]"
  using allocate_batch [of "MemPool (0 :: nat) 3" "[5, 6]"] pool_inv_MemPool [of 3 "0 :: nat"] by fastforce

text \<open>C34: releasing a block in use succeeds, frees exactly that block, keeps the pool well formed and
  leaves every object readable as it was; a block that is not in use, or a null pointer, is refused
  with an assertion failure.\<close>

theorem deallocate_behaviour:
  assumes "pool_inv p"
  shows "case q of
      None \<Rightarrow> (\<exists>msg. deallocate q p = Inl (AssertFailed msg))
    | Some i \<Rightarrow>
        if i \<in> live p
        then \<exists>p'. deallocate q p = Inr p' \<and> pool_inv p' \<and> live p' = live p - {i} \<and> (\<forall>j. obj p' j = obj p j)
        else \<exists>msg. deallocate q p = Inl (AssertFailed msg)"
proof (cases q)
  case None
  then show ?thesis by (simp add: deallocate_def)
next
  case (Some i)
  show ?thesis
  proof (cases "i \<in> live p")
    case True
    then show ?thesis using deallocate_ok [OF assms True] Some by auto
  next
    case False
    then show ?thesis using Some by (auto simp: deallocate_def live_def ASSERT_def)
  qed
qed

theorem deallocate_behaviour_witness:
  "pool_inv (MemPool (0 :: nat) 3) \<and> (\<exists>msg. deallocate (Some 1) (MemPool (0 :: nat) 3) = Inl (AssertFailed msg))"
  using deallocate_behaviour [of "MemPool (0 :: nat) 3" "Some 1"] pool_inv_MemPool [of 3 "0 :: nat"] by simp

end
