(* ===== verification/LinkedRings.thy ===== *)
theory LinkedRings
  imports Prelude
begin

section \<open>Circular doubly linked lists\<close>

text \<open>
  The order books keep their price levels, and the orders of a level, in circular doubly linked
  lists. A list is given by two link functions, \<open>nx\<close> and \<open>pv\<close>, from an address to a pointer, as
  the heap has them; \<open>ring nx pv xs\<close> says that the addresses \<open>xs\<close>, in this order, are linked into a
  circle. The theory has the two facts the books need: how a node is spliced in before another one
  and how a node is taken out, with nothing else of the heap touched.
\<close>

type_synonym link = "nat \<Rightarrow> nat option"

fun chain :: "link \<Rightarrow> link \<Rightarrow> nat list \<Rightarrow> bool" where
  "chain nx pv [] = True"
| "chain nx pv [a] = True"
| "chain nx pv (a # b # xs) = (nx a = Some b \<and> pv b = Some a \<and> chain nx pv (b # xs))"

definition ring :: "link \<Rightarrow> link \<Rightarrow> nat list \<Rightarrow> bool" where
  "ring nx pv xs \<longleftrightarrow> xs \<noteq> [] \<and> distinct xs \<and> chain nx pv (xs @ [hd xs])"

lemma chain_cong:
  assumes "\<And>a. a \<in> set (butlast xs) \<Longrightarrow> nx a = nx' a"
    and "\<And>b. b \<in> set (tl xs) \<Longrightarrow> pv b = pv' b"
  shows "chain nx pv xs = chain nx' pv' xs"
  using assms by (induction nx pv xs rule: chain.induct) auto

lemma chain_append:
  "chain nx pv (xs @ a # ys) \<longleftrightarrow> chain nx pv (xs @ [a]) \<and> chain nx pv (a # ys)"
proof (induction xs)
  case (Cons x xs)
  then show ?case by (cases xs) auto
qed simp

lemma chain_prefix: "chain nx pv (xs @ ys) \<Longrightarrow> chain nx pv xs"
proof (induction nx pv xs rule: chain.induct)
  case (3 nx pv a b xs)
  then show ?case by simp
qed simp_all

lemma chain_of_ring: "ring nx pv xs \<Longrightarrow> chain nx pv xs"
  unfolding ring_def by (blast intro: chain_prefix)

lemma ring_cong:
  assumes "\<And>a. a \<in> set xs \<Longrightarrow> nx a = nx' a" and "\<And>b. b \<in> set xs \<Longrightarrow> pv b = pv' b"
  shows "ring nx pv xs = ring nx' pv' xs"
proof (cases xs)
  case (Cons x ys)
  then have "chain nx pv (xs @ [hd xs]) = chain nx' pv' (xs @ [hd xs])"
    using assms by (intro chain_cong) auto
  then show ?thesis by (simp add: ring_def)
qed (simp add: ring_def)

lemma ring_singleton [simp]: "ring nx pv [x] \<longleftrightarrow> nx x = Some x \<and> pv x = Some x"
  by (simp add: ring_def)

lemma ring_rotate:
  assumes "ring nx pv (xs @ ys)"
  shows "ring nx pv (ys @ xs)"
proof (cases "xs = [] \<or> ys = []")
  case False
  then obtain x xs' y ys' where xy: "xs = x # xs'" "ys = y # ys'"
    by (metis list.exhaust)
  from assms have "chain nx pv (xs @ y # (ys' @ [x]))" by (simp add: ring_def xy)
  then have "chain nx pv (xs @ [y])" and "chain nx pv (ys @ [x])"
    using chain_append [of nx pv xs y "ys' @ [x]"] by (simp_all add: xy)
  then have "chain nx pv (ys @ xs @ [y])"
    using chain_append [of nx pv ys x "xs' @ [y]"] by (simp add: xy)
  with assms show ?thesis by (auto simp: ring_def xy)
qed (use assms in auto)

lemma ring_pv_hd: "ring nx pv xs \<Longrightarrow> pv (hd xs) = Some (last xs)"
proof -
  assume r: "ring nx pv xs"
  then obtain ys y where "xs = ys @ [y]" by (metis ring_def rev_exhaust)
  with r chain_append [of nx pv ys y "[hd xs]"] show ?thesis by (simp add: ring_def)
qed

lemma ring_nx_last: "ring nx pv xs \<Longrightarrow> nx (last xs) = Some (hd xs)"
proof -
  assume r: "ring nx pv xs"
  then obtain ys y where "xs = ys @ [y]" by (metis ring_def rev_exhaust)
  with r chain_append [of nx pv ys y "[hd xs]"] show ?thesis by (simp add: ring_def)
qed

lemma ring_nx:
  assumes "ring nx pv (us @ x # vs)"
  shows "nx x = Some (case vs of [] \<Rightarrow> hd (us @ [x]) | v # _ \<Rightarrow> v)"
proof (cases vs)
  case Nil
  then show ?thesis using ring_nx_last [OF assms] by (cases us) simp_all
next
  case (Cons v ws)
  with assms chain_append [of nx pv us x "v # ws @ [hd (us @ [x])]"]
  show ?thesis by (cases us) (auto simp: ring_def)
qed

lemma ring_pv:
  assumes "ring nx pv (us @ x # vs)"
  shows "pv x = Some (last (x # vs @ us))"
  using ring_pv_hd [OF ring_rotate [OF assms]] by simp

lemma ring_self_iff:
  assumes "ring nx pv (us @ x # vs)"
  shows "nx x = Some x \<longleftrightarrow> us = [] \<and> vs = []"
proof -
  have "distinct (us @ x # vs)" using assms by (simp add: ring_def)
  then show ?thesis
    using ring_nx [OF assms] by (cases us; cases vs) auto
qed

lemma ring_self_pv_iff:
  assumes "ring nx pv (us @ x # vs)"
  shows "pv x = Some x \<longleftrightarrow> us = [] \<and> vs = []"
proof -
  have "distinct (us @ x # vs)" using assms by (simp add: ring_def)
  then have "vs @ us \<noteq> [] \<Longrightarrow> last (vs @ us) \<noteq> x"
    by (metis Un_iff distinct_append distinct.simps(2) disjoint_iff last_in_set list.set_intros(1) set_append)
  then show ?thesis using ring_pv [OF assms] by auto
qed

text \<open>Splicing in: \<open>n\<close> goes between the last and the first node, which is before the head \<open>x\<close>.\<close>

lemma ring_insert_last:
  assumes r: "ring nx pv (x # xs)" and n: "n \<notin> set (x # xs)"
    and nx': "\<And>a. nx' a = (if a = n then Some x else if a = last (x # xs) then Some n else nx a)"
    and pv': "\<And>a. pv' a = (if a = n then Some (last (x # xs)) else if a = x then Some n else pv a)"
  shows "ring nx' pv' (x # xs @ [n])"
proof -
  let ?l = "last (x # xs)"
  have c: "chain nx pv (x # xs)" using chain_of_ring [OF r] .
  have d: "distinct (x # xs)" using r by (simp add: ring_def)
  have "chain nx' pv' (x # xs)"
  proof -
    have "chain nx pv (x # xs) = chain nx' pv' (x # xs)"
    proof (rule chain_cong)
      fix a assume "a \<in> set (butlast (x # xs))"
      moreover have "?l \<notin> set (butlast (x # xs))"
        using d by (metis append_butlast_last_id distinct_append disjoint_iff list.distinct(1) list.set_intros(1))
      ultimately show "nx a = nx' a" using n by (auto simp: nx' dest: in_set_butlastD)
    next
      fix b assume "b \<in> set (tl (x # xs))"
      then show "pv b = pv' b" using d n by (auto simp: pv')
    qed
    with c show ?thesis by simp
  qed
  moreover have "chain nx' pv' [?l, n, x]" using n by (auto simp: nx' pv')
  moreover have "x # xs @ [n] @ [x] = butlast (x # xs) @ ?l # [n, x]"
    by (metis append_Cons append_butlast_last_id append_assoc append_Nil list.distinct(1))
  ultimately have "chain nx' pv' (x # xs @ [n] @ [x])"
    using chain_append [of nx' pv' "butlast (x # xs)" ?l "[n, x]"] by (metis append_butlast_last_id list.distinct(1))
  then show ?thesis using d n by (simp add: ring_def)
qed

lemma ring_snoc:
  assumes "ring nx pv xs" and "n \<notin> set xs"
    and "\<And>a. nx' a = (if a = n then Some (hd xs) else if a = last xs then Some n else nx a)"
    and "\<And>a. pv' a = (if a = n then Some (last xs) else if a = hd xs then Some n else pv a)"
  shows "ring nx' pv' (xs @ [n])"
proof (cases xs)
  case Nil
  then show ?thesis using assms(1) by (simp add: ring_def)
next
  case (Cons x ys)
  have "ring nx' pv' (x # ys @ [n])"
    by (rule ring_insert_last [of nx pv]) (use assms Cons in simp_all)
  then show ?thesis using Cons by simp
qed

text \<open>Splicing in before any node \<open>t\<close> of the ring: the position in the list is before \<open>t\<close>.\<close>

lemma ring_insert_before:
  assumes r: "ring nx pv (us @ t # vs)" and n: "n \<notin> set (us @ t # vs)"
    and nx': "\<And>a. nx' a = (if a = n then Some t else if Some a = pv t then Some n else nx a)"
    and pv': "\<And>a. pv' a = (if a = n then pv t else if a = t then Some n else pv a)"
  shows "ring nx' pv' (us @ n # t # vs)"
proof -
  have p: "pv t = Some (last (t # vs @ us))" using ring_pv [OF r] by simp
  have "ring nx pv (t # vs @ us)" using ring_rotate [OF r] by simp
  then have "ring nx' pv' (t # (vs @ us) @ [n])"
    using n by (intro ring_insert_last) (auto simp: nx' pv' p)
  then have "ring nx' pv' ((t # vs) @ (us @ [n]))" by simp
  from ring_rotate [OF this] show ?thesis by simp
qed

text \<open>Taking out: \<open>x\<close> leaves, its neighbours are linked to each other.\<close>

lemma ring_remove_hd:
  assumes r: "ring nx pv (x # y # ys)"
    and nx': "\<And>a. a \<noteq> x \<Longrightarrow> nx' a = (if a = last (y # ys) then Some y else nx a)"
    and pv': "\<And>a. a \<noteq> x \<Longrightarrow> pv' a = (if a = y then Some (last (y # ys)) else pv a)"
  shows "ring nx' pv' (y # ys)"
proof -
  let ?l = "last (y # ys)"
  have d: "distinct (x # y # ys)" using r by (simp add: ring_def)
  have c: "chain nx pv (y # ys)"
    using chain_of_ring [OF r] by simp
  have "chain nx pv (y # ys) = chain nx' pv' (y # ys)"
  proof (rule chain_cong)
    fix a assume a: "a \<in> set (butlast (y # ys))"
    moreover have "?l \<notin> set (butlast (y # ys))"
      using d by (metis append_butlast_last_id distinct.simps(2) distinct_append disjoint_iff list.distinct(1) list.set_intros(1))
    moreover have "a \<noteq> x" using in_set_butlastD [OF a] d by auto
    ultimately show "nx a = nx' a" by (auto simp: nx')
  next
    fix b assume "b \<in> set (tl (y # ys))"
    moreover from this have "b \<noteq> x" using d by auto
    ultimately show "pv b = pv' b" using d by (auto simp: pv')
  qed
  with c have c': "chain nx' pv' (butlast (y # ys) @ [?l])" by simp
  have "?l \<noteq> x" using d by (metis distinct.simps(2) last_in_set list.distinct(1))
  moreover have "y \<noteq> x" using d by auto
  ultimately have "chain nx' pv' [?l, y]" by (simp add: nx' pv')
  with c' have "chain nx' pv' ((y # ys) @ [y])"
    using chain_append [of nx' pv' "butlast (y # ys)" ?l "[y]"]
    by (metis append.assoc append_Cons append_Nil append_butlast_last_id list.distinct(1))
  then show ?thesis using d by (simp add: ring_def)
qed

lemma ring_remove:
  assumes r: "ring nx pv (us @ x # vs)" and ne: "us @ vs \<noteq> []"
    and nx': "\<And>a. a \<noteq> x \<Longrightarrow> nx' a = (if Some a = pv x then nx x else nx a)"
    and pv': "\<And>a. a \<noteq> x \<Longrightarrow> pv' a = (if Some a = nx x then pv x else pv a)"
  shows "ring nx' pv' (us @ vs)"
proof -
  obtain y ys where ys: "vs @ us = y # ys" using ne by (metis append_is_Nil_conv list.exhaust)
  have rot: "ring nx pv (x # y # ys)" using ring_rotate [OF r] ys by simp
  have "nx x = Some y" and "pv x = Some (last (y # ys))"
    using rot ring_pv_hd [OF rot] by (simp_all add: ring_def)
  then have "ring nx' pv' (y # ys)"
    by (intro ring_remove_hd [OF rot]) (auto simp: nx' pv')
  then show ?thesis using ring_rotate ys by metis
qed


end
