(* ===== verification/PriceLadder.thy ===== *)
theory PriceLadder
  imports MemPool LinkedRings
begin

section \<open>The price ladder shared by the two order books\<close>

text \<open>
  \<^verbatim>\<open>exchange/matching/OrderBook.hpp\<close> and \<^verbatim>\<open>trading/strategy/MarketOrderBook.hpp\<close> hold the same
  data structure, with the same private operations line for line: two circular lists of price levels
  (best price first), a table that finds the level of a price, and in each level a circular list of
  orders (oldest first). Levels and orders live in memory pools and are linked by pointers.

  The fields and operations the two classes share are modelled once: an order node and the ladder are
  extensible records, \<open>MatchingEngineOrder\<close> and \<open>MarketOrder\<close> extend the node with the fields of
  their struct, and the two books extend the ladder. Every read and write through a pointer goes to
  the pool, in the order of the source, so aliasing behaves as in the C++.
\<close>

record order_node =
  o_side :: Side
  o_price :: Price
  o_quantity :: Quantity
  o_priority :: Priority
  prev_order :: ptr
  next_order :: ptr

record orders_at_price =
  l_side :: Side
  l_price :: Price
  first_order :: ptr
  prev_entry :: ptr
  next_entry :: ptr

record 'o price_ladder =
  bids_by_price :: ptr
  asks_by_price :: ptr
  price_orders_at_price :: "nat \<Rightarrow> ptr"
  orders_at_price_pool :: "orders_at_price mempool"
  order_pool :: "'o mempool"

definition default_level :: orders_at_price where
  "default_level =
     \<lparr>l_side = Side_INVALID, l_price = PRICE_INVALID, first_order = None, prev_entry = None,
      next_entry = None\<rparr>"

text \<open>\<^verbatim>\<open>(side == Side::BUY ? bids_by_price : asks_by_price)\<close>, read and assigned.\<close>

definition best_of :: "Side \<Rightarrow> ('o, 'z) price_ladder_scheme \<Rightarrow> ptr" where
  "best_of side b = (if side = Side_BUY then bids_by_price b else asks_by_price b)"

definition set_best :: "Side \<Rightarrow> ptr \<Rightarrow> ('o, 'z) price_ladder_scheme \<Rightarrow> ('o, 'z) price_ladder_scheme" where
  "set_best side p b = (if side = Side_BUY then b\<lparr>bids_by_price := p\<rparr> else b\<lparr>asks_by_price := p\<rparr>)"

text \<open>Following and writing through a level pointer and an order pointer.\<close>

definition lvl_at :: "('o, 'z) price_ladder_scheme \<Rightarrow> ptr \<Rightarrow> orders_at_price res" where
  "lvl_at b p = get_obj (orders_at_price_pool b) p"

definition upd_lvl :: "ptr \<Rightarrow> (orders_at_price \<Rightarrow> orders_at_price) \<Rightarrow> ('o, 'z) price_ladder_scheme \<Rightarrow>
    ('o, 'z) price_ladder_scheme res" where
  "upd_lvl p f b =
     bindE (upd_obj p f (orders_at_price_pool b)) (\<lambda>pl. Inr (b\<lparr>orders_at_price_pool := pl\<rparr>))"

definition ord_at :: "('o, 'z) price_ladder_scheme \<Rightarrow> ptr \<Rightarrow> 'o res" where
  "ord_at b p = get_obj (order_pool b) p"

definition upd_ord :: "ptr \<Rightarrow> ('o \<Rightarrow> 'o) \<Rightarrow> ('o, 'z) price_ladder_scheme \<Rightarrow>
    ('o, 'z) price_ladder_scheme res" where
  "upd_ord p f b = bindE (upd_obj p f (order_pool b)) (\<lambda>pl. Inr (b\<lparr>order_pool := pl\<rparr>))"

text \<open>
  \<^verbatim>\<open>price % MATCHING_ENGINE_MAX_PRICE_LEVELS\<close>: the right operand is a \<^verbatim>\<open>size_t\<close>, so the price is
  converted to an unsigned 64-bit value first. The result is below 256, so the \<^verbatim>\<open>at()\<close> of
  \<open>getOrdersAtPrice\<close> never throws.
\<close>

definition priceToIndex :: "Price \<Rightarrow> nat" where
  "priceToIndex price = nat (price mod 2 ^ 64) mod MATCHING_ENGINE_MAX_PRICE_LEVELS"

definition getOrdersAtPrice :: "('o, 'z) price_ladder_scheme \<Rightarrow> Price \<Rightarrow> ptr" where
  "getOrdersAtPrice b price = price_orders_at_price b (priceToIndex price)"

definition set_orders_at_price :: "Price \<Rightarrow> ptr \<Rightarrow> ('o, 'z) price_ladder_scheme \<Rightarrow>
    ('o, 'z) price_ladder_scheme" where
  "set_orders_at_price price p b =
     b\<lparr>price_orders_at_price := (price_orders_at_price b)(priceToIndex price := p)\<rparr>"

definition removeOrderAtPrice :: "Side \<Rightarrow> Price \<Rightarrow> ('o, 'z) price_ladder_scheme \<Rightarrow>
    ('o, 'z) price_ladder_scheme res" where
  "removeOrderAtPrice side price b =
     (let best_orders_by_price = best_of side b;
          orders_at_price = getOrdersAtPrice b price
      in bindE (lvl_at b orders_at_price) (\<lambda>l.
         bindE
           (if next_entry l = orders_at_price then Inr (set_best side None b)
            else
              bindE (upd_lvl (prev_entry l) (\<lambda>e. e\<lparr>next_entry := next_entry l\<rparr>) b) (\<lambda>b1.
              bindE (lvl_at b1 orders_at_price) (\<lambda>l1.
              bindE (upd_lvl (next_entry l1) (\<lambda>e. e\<lparr>prev_entry := prev_entry l1\<rparr>) b1) (\<lambda>b2.
              bindE (lvl_at b2 orders_at_price) (\<lambda>l2.
              upd_lvl orders_at_price (\<lambda>e. e\<lparr>prev_entry := None, next_entry := None\<rparr>)
                (if orders_at_price = best_orders_by_price then set_best side (next_entry l2) b2 else b2))))))
           (\<lambda>b3.
         bindE (deallocate orders_at_price (orders_at_price_pool (set_orders_at_price price None b3))) (\<lambda>pl.
         Inr ((set_orders_at_price price None b3)\<lparr>orders_at_price_pool := pl\<rparr>)))))"

text \<open>
  \<open>removeOrder\<close> up to the line that clears the order's entry in the class's own index, which the
  book passes in (\<open>unindex\<close>), and the release of the order after it.
\<close>

definition unlink_order :: "ptr \<Rightarrow> ('x order_node_scheme, 'z) price_ladder_scheme \<Rightarrow>
    ('x order_node_scheme, 'z) price_ladder_scheme res" where
  "unlink_order order b =
     bindE (ord_at b order) (\<lambda>v.
     let order_at_price = getOrdersAtPrice b (o_price v) in
     if prev_order v = order then removeOrderAtPrice (o_side v) (o_price v) b
     else
       let order_before = prev_order v; order_after = next_order v in
       bindE (upd_ord order_before (\<lambda>n. n\<lparr>next_order := order_after\<rparr>) b) (\<lambda>b1.
       bindE (upd_ord order_after (\<lambda>n. n\<lparr>prev_order := order_before\<rparr>) b1) (\<lambda>b2.
       bindE (lvl_at b2 order_at_price) (\<lambda>l.
       bindE (if first_order l = order
              then upd_lvl order_at_price (\<lambda>e. e\<lparr>first_order := order_after\<rparr>) b2 else Inr b2) (\<lambda>b3.
       upd_ord order (\<lambda>n. n\<lparr>prev_order := None, next_order := None\<rparr>) b3)))))"

definition removeOrder_with :: "('x order_node_scheme \<Rightarrow> ('x order_node_scheme, 'z) price_ladder_scheme \<Rightarrow>
    ('x order_node_scheme, 'z) price_ladder_scheme res) \<Rightarrow> ptr \<Rightarrow>
    ('x order_node_scheme, 'z) price_ladder_scheme \<Rightarrow> ('x order_node_scheme, 'z) price_ladder_scheme res" where
  "removeOrder_with unindex order b =
     bindE (unlink_order order b) (\<lambda>b1.
     bindE (ord_at b1 order) (\<lambda>v.
     bindE (unindex v b1) (\<lambda>b2.
     bindE (deallocate order (order_pool b2)) (\<lambda>pl. Inr (b2\<lparr>order_pool := pl\<rparr>)))))"

text \<open>The comparison the source writes out five times.\<close>

definition adds_after :: "Side \<Rightarrow> Price \<Rightarrow> orders_at_price \<Rightarrow> bool" where
  "adds_after side price target \<longleftrightarrow>
     side = Side_SELL \<and> price > l_price target \<or> side = Side_BUY \<and> price < l_price target"

text \<open>
  The search loop of \<open>addOrderAtPrice\<close>. It follows \<^verbatim>\<open>next_entry\<close> pointers, so on a corrupted list it
  may not come back: \<open>fuel\<close> bounds the iterations, and running out is \<open>Diverges\<close>.
\<close>

fun find_target :: "nat \<Rightarrow> Side \<Rightarrow> Price \<Rightarrow> ptr \<Rightarrow> ('o, 'z) price_ladder_scheme \<Rightarrow> bool \<Rightarrow> ptr \<Rightarrow>
    (bool \<times> ptr) res" where
  "find_target fuel side price best b add_after target =
     (if \<not> (add_after \<and> target \<noteq> best) then Inr (add_after, target)
      else case fuel of
        0 \<Rightarrow> Inl Diverges
      | Suc fuel' \<Rightarrow>
          bindE (lvl_at b target) (\<lambda>t.
          let add_after' = adds_after side price t in
          find_target fuel' side price best b add_after' (if add_after' then next_entry t else target)))"

declare find_target.simps [simp del]

text \<open>The two splices at the end of \<open>addOrderAtPrice\<close>: after the last level, or before \<^verbatim>\<open>target\<close>.\<close>

definition insert_after_tail :: "ptr \<Rightarrow> ptr \<Rightarrow> ('o, 'z) price_ladder_scheme \<Rightarrow> ('o, 'z) price_ladder_scheme res" where
  "insert_after_tail new_orders_at_price tail b0 =
     bindE (upd_lvl new_orders_at_price (\<lambda>e. e\<lparr>prev_entry := tail\<rparr>) b0) (\<lambda>b1.
     bindE (lvl_at b1 tail) (\<lambda>t1.
     bindE (upd_lvl (next_entry t1) (\<lambda>e. e\<lparr>prev_entry := new_orders_at_price\<rparr>) b1) (\<lambda>b2.
     bindE (lvl_at b2 tail) (\<lambda>t2.
     bindE (upd_lvl new_orders_at_price (\<lambda>e. e\<lparr>next_entry := next_entry t2\<rparr>) b2) (\<lambda>b3.
     upd_lvl tail (\<lambda>e. e\<lparr>next_entry := new_orders_at_price\<rparr>) b3)))))"

definition insert_before_target :: "Side \<Rightarrow> Price \<Rightarrow> ptr \<Rightarrow> ptr \<Rightarrow> ptr \<Rightarrow> ('o, 'z) price_ladder_scheme \<Rightarrow>
    ('o, 'z) price_ladder_scheme res" where
  "insert_before_target side price new_orders_at_price best target b0 =
     bindE (lvl_at b0 target) (\<lambda>t0.
     bindE (upd_lvl new_orders_at_price (\<lambda>e. e\<lparr>prev_entry := prev_entry t0\<rparr>) b0) (\<lambda>b1.
     bindE (upd_lvl new_orders_at_price (\<lambda>e. e\<lparr>next_entry := target\<rparr>) b1) (\<lambda>b2.
     bindE (lvl_at b2 target) (\<lambda>t2.
     bindE (upd_lvl (prev_entry t2) (\<lambda>e. e\<lparr>next_entry := new_orders_at_price\<rparr>) b2) (\<lambda>b3.
     bindE (upd_lvl target (\<lambda>e. e\<lparr>prev_entry := new_orders_at_price\<rparr>) b3) (\<lambda>b4.
     bindE (lvl_at b4 best) (\<lambda>best4.
     if side = Side_BUY \<and> price > l_price best4 \<or> side = Side_SELL \<and> price < l_price best4
     then
       bindE (lvl_at b4 target) (\<lambda>t4.
       bindE (upd_lvl target (\<lambda>e. e\<lparr>next_entry :=
                (if next_entry t4 = best then new_orders_at_price else next_entry t4)\<rparr>) b4) (\<lambda>b5.
       Inr (set_best side new_orders_at_price b5)))
     else Inr b4)))))))"

definition addOrderAtPrice :: "ptr \<Rightarrow> ('o, 'z) price_ladder_scheme \<Rightarrow> ('o, 'z) price_ladder_scheme res" where
  "addOrderAtPrice new_orders_at_price b =
     bindE (lvl_at b new_orders_at_price) (\<lambda>n.
     let b0 = set_orders_at_price (l_price n) new_orders_at_price b;
         best = best_of (l_side n) b0
     in if best = None
        then upd_lvl new_orders_at_price
               (\<lambda>e. e\<lparr>prev_entry := new_orders_at_price, next_entry := new_orders_at_price\<rparr>)
               (set_best (l_side n) new_orders_at_price b0)
        else
          bindE (lvl_at b0 best) (\<lambda>best_level.
          bindE
            (if adds_after (l_side n) (l_price n) best_level
             then bindE (lvl_at b0 (next_entry best_level)) (\<lambda>second.
                  Inr (adds_after (l_side n) (l_price n) second, next_entry best_level))
             else Inr (False, best)) (\<lambda>(add_after, target).
          bindE (find_target (pool_size (orders_at_price_pool b0)) (l_side n) (l_price n) best b0 add_after target)
            (\<lambda>(add_after', target').
          if add_after' then insert_after_tail new_orders_at_price (prev_entry best_level) b0
          else insert_before_target (l_side n) (l_price n) new_orders_at_price best target' b0))))"

text \<open>\<open>addOrder\<close> up to the line that enters the order into the class's own index.\<close>

definition link_order :: "ptr \<Rightarrow> ('x order_node_scheme, 'z) price_ladder_scheme \<Rightarrow>
    ('x order_node_scheme, 'z) price_ladder_scheme res" where
  "link_order order b =
     bindE (ord_at b order) (\<lambda>v.
     let orders_at_price = getOrdersAtPrice b (o_price v) in
     if orders_at_price = None
     then
       bindE (upd_ord order (\<lambda>n. n\<lparr>next_order := order, prev_order := order\<rparr>) b) (\<lambda>b1.
       bindE (allocate \<lparr>l_side = o_side v, l_price = o_price v, first_order = order,
                        prev_entry = None, next_entry = None\<rparr> (orders_at_price_pool b1)) (\<lambda>(i, pl).
       addOrderAtPrice (Some i) (b1\<lparr>orders_at_price_pool := pl\<rparr>)))
     else
       bindE (lvl_at b orders_at_price) (\<lambda>l.
       let first = first_order l in
       bindE (ord_at b first) (\<lambda>f0.
       bindE (upd_ord (prev_order f0) (\<lambda>n. n\<lparr>next_order := order\<rparr>) b) (\<lambda>b1.
       bindE (ord_at b1 first) (\<lambda>f1.
       bindE (upd_ord order (\<lambda>n. n\<lparr>prev_order := prev_order f1\<rparr>) b1) (\<lambda>b2.
       bindE (upd_ord order (\<lambda>n. n\<lparr>next_order := first\<rparr>) b2) (\<lambda>b3.
       upd_ord first (\<lambda>n. n\<lparr>prev_order := order\<rparr>) b3)))))))"

end
