(* ===== verification/LadderLemmas.thy ===== *)
theory LadderLemmas
  imports PriceLadder
begin

section \<open>The price ladder is a sorted list of queues\<close>

text \<open>
  The representation invariant of the ladder and the effect of its operations. The invariant names,
  for each side, the list of level addresses with the order addresses of each level (\<open>f side\<close>); the
  operations change these lists the way list operations would, and what the pointers link is always
  the same circle. \<open>detached\<close> are the orders that are allocated but not linked into a level.
\<close>

type_synonym side_list = "(nat \<times> nat list) list"

abbreviation L :: "('o, 'z) price_ladder_scheme \<Rightarrow> nat \<Rightarrow> orders_at_price" where
  "L b \<equiv> obj (orders_at_price_pool b)"

abbreviation Ord :: "('o, 'z) price_ladder_scheme \<Rightarrow> nat \<Rightarrow> 'o" where
  "Ord b \<equiv> obj (order_pool b)"

abbreviation lnx :: "('o, 'z) price_ladder_scheme \<Rightarrow> link" where
  "lnx b \<equiv> \<lambda>l. next_entry (L b l)"

abbreviation lpv :: "('o, 'z) price_ladder_scheme \<Rightarrow> link" where
  "lpv b \<equiv> \<lambda>l. prev_entry (L b l)"

abbreviation onx :: "('x order_node_scheme, 'z) price_ladder_scheme \<Rightarrow> link" where
  "onx b \<equiv> \<lambda>a. next_order (Ord b a)"

abbreviation opv :: "('x order_node_scheme, 'z) price_ladder_scheme \<Rightarrow> link" where
  "opv b \<equiv> \<lambda>a. prev_order (Ord b a)"

definition trading_side :: "Side \<Rightarrow> bool" where
  "trading_side sd \<longleftrightarrow> sd = Side_BUY \<or> sd = Side_SELL"

fun opposite :: "Side \<Rightarrow> Side" where
  "opposite Side_BUY = Side_SELL"
| "opposite Side_SELL = Side_BUY"
| "opposite s = s"

text \<open>A price is better than another for a side: higher for bids, lower for asks.\<close>

definition better :: "Side \<Rightarrow> Price \<Rightarrow> Price \<Rightarrow> bool" where
  "better sd p q \<longleftrightarrow> (if sd = Side_BUY then p > q else p < q)"

definition level_ok :: "('x order_node_scheme, 'z) price_ladder_scheme \<Rightarrow> Side \<Rightarrow> nat \<times> nat list \<Rightarrow> bool" where
  "level_ok b sd e \<longleftrightarrow>
     l_side (L b (fst e)) = sd \<and>
     price_orders_at_price b (priceToIndex (l_price (L b (fst e)))) = Some (fst e) \<and>
     first_order (L b (fst e)) = Some (hd (snd e)) \<and> ring (onx b) (opv b) (snd e) \<and>
     (\<forall>a \<in> set (snd e). o_side (Ord b a) = sd \<and> o_price (Ord b a) = l_price (L b (fst e)))"

abbreviation level_prices :: "('o, 'z) price_ladder_scheme \<Rightarrow> side_list \<Rightarrow> Price list" where
  "level_prices b ls \<equiv> map (\<lambda>e. l_price (L b (fst e))) ls"

definition side_ok :: "('x order_node_scheme, 'z) price_ladder_scheme \<Rightarrow> Side \<Rightarrow> side_list \<Rightarrow> bool" where
  "side_ok b sd ls \<longleftrightarrow>
     best_of sd b = (if ls = [] then None else Some (fst (hd ls))) \<and>
     (ls \<noteq> [] \<longrightarrow> ring (lnx b) (lpv b) (map fst ls)) \<and>
     (\<forall>e \<in> set ls. level_ok b sd e) \<and>
     sorted_wrt (better sd) (level_prices b ls)"

definition levels_of :: "(Side \<Rightarrow> side_list) \<Rightarrow> nat set" where
  "levels_of f = fst ` set (f Side_BUY) \<union> fst ` set (f Side_SELL)"

definition orders_in :: "side_list \<Rightarrow> nat set" where
  "orders_in ls = (\<Union>e \<in> set ls. set (snd e))"

definition orders_of :: "(Side \<Rightarrow> side_list) \<Rightarrow> nat set" where
  "orders_of f = orders_in (f Side_BUY) \<union> orders_in (f Side_SELL)"

definition slots_ok :: "('o, 'z) price_ladder_scheme \<Rightarrow> (Side \<Rightarrow> side_list) \<Rightarrow> bool" where
  "slots_ok b f \<longleftrightarrow>
     (\<forall>i l. price_orders_at_price b i = Some l \<longrightarrow> l \<in> levels_of f \<and> priceToIndex (l_price (L b l)) = i)"

definition ladder_inv :: "('x order_node_scheme, 'z) price_ladder_scheme \<Rightarrow> (Side \<Rightarrow> side_list) \<Rightarrow>
    nat set \<Rightarrow> bool" where
  "ladder_inv b f detached \<longleftrightarrow>
     side_ok b Side_BUY (f Side_BUY) \<and> side_ok b Side_SELL (f Side_SELL) \<and> slots_ok b f \<and>
     levels_of f = live (orders_at_price_pool b) \<and>
     orders_of f \<union> detached = live (order_pool b) \<and> orders_of f \<inter> detached = {} \<and>
     pool_inv (orders_at_price_pool b) \<and> pool_inv (order_pool b)"

text \<open>An order without its links, and the abstract content of a side: prices with queues of orders.\<close>

definition payload :: "'x order_node_scheme \<Rightarrow> 'x order_node_scheme" where
  "payload v = v\<lparr>prev_order := None, next_order := None\<rparr>"

definition side_view :: "('x order_node_scheme, 'z) price_ladder_scheme \<Rightarrow> side_list \<Rightarrow>
    (Price \<times> 'x order_node_scheme list) list" where
  "side_view b ls = map (\<lambda>e. (l_price (L b (fst e)), map (\<lambda>a. payload (Ord b a)) (snd e))) ls"

subsection \<open>Reading and writing\<close>

lemma lvl_at_simps [simp]: "lvl_at b None = Inl NullDeref" "lvl_at b (Some l) = Inr (L b l)"
  by (simp_all add: lvl_at_def)

lemma ord_at_simps [simp]: "ord_at b None = Inl NullDeref" "ord_at b (Some a) = Inr (Ord b a)"
  by (simp_all add: ord_at_def)

lemma upd_lvl_simps [simp]:
  "upd_lvl None g b = Inl NullDeref"
  "upd_lvl (Some l) g b = Inr (b\<lparr>orders_at_price_pool := set_obj l g (orders_at_price_pool b)\<rparr>)"
  by (simp_all add: upd_lvl_def)

lemma upd_ord_simps [simp]:
  "upd_ord None g b = Inl NullDeref"
  "upd_ord (Some a) g b = Inr (b\<lparr>order_pool := set_obj a g (order_pool b)\<rparr>)"
  by (simp_all add: upd_ord_def)

lemma payload_links [simp]:
  "payload (v\<lparr>prev_order := p\<rparr>) = payload v" "payload (v\<lparr>next_order := n\<rparr>) = payload v"
  by (simp_all add: payload_def)

lemma payload_fields:
  assumes "payload v = payload w"
  shows "o_side v = o_side w" "o_price v = o_price w" "o_quantity v = o_quantity w" "o_priority v = o_priority w"
  using assms by (cases v, cases w, simp add: payload_def)+

lemma payload_sel [simp]:
  "o_side (payload v) = o_side v" "o_price (payload v) = o_price v"
  "o_quantity (payload v) = o_quantity v" "o_priority (payload v) = o_priority v"
  "prev_order (payload v) = None" "next_order (payload v) = None" "payload (payload v) = payload v"
  by (simp_all add: payload_def)

lemma best_of_simps [simp]:
  "best_of sd (b\<lparr>orders_at_price_pool := pl\<rparr>) = best_of sd b"
  "best_of sd (b\<lparr>order_pool := pl'\<rparr>) = best_of sd b"
  "best_of sd (set_orders_at_price p q b) = best_of sd b"
  by (simp_all add: best_of_def set_orders_at_price_def)

lemma best_of_set_best:
  "trading_side sd \<Longrightarrow> trading_side sd' \<Longrightarrow> best_of sd' (set_best sd p b) = (if sd' = sd then p else best_of sd' b)"
  by (auto simp: best_of_def set_best_def trading_side_def)

lemma set_best_frame [simp]:
  "orders_at_price_pool (set_best sd p b) = orders_at_price_pool b"
  "order_pool (set_best sd p b) = order_pool b"
  "price_orders_at_price (set_best sd p b) = price_orders_at_price b"
  by (simp_all add: set_best_def)

lemma set_orders_at_price_frame [simp]:
  "orders_at_price_pool (set_orders_at_price pr p b) = orders_at_price_pool b"
  "order_pool (set_orders_at_price pr p b) = order_pool b"
  "price_orders_at_price (set_orders_at_price pr p b) = (price_orders_at_price b)(priceToIndex pr := p)"
  by (simp_all add: set_orders_at_price_def)

lemma more_frame [simp]:
  "price_ladder.more (set_best sd q b) = price_ladder.more b"
  "price_ladder.more (set_orders_at_price p q b) = price_ladder.more b"
  by (simp_all add: set_best_def set_orders_at_price_def)

subsection \<open>Sides\<close>

lemma trading_side_cases: "trading_side sd \<Longrightarrow> (sd = Side_BUY \<Longrightarrow> P) \<Longrightarrow> (sd = Side_SELL \<Longrightarrow> P) \<Longrightarrow> P"
  by (auto simp: trading_side_def)

lemma trading_side_simps [simp]: "trading_side Side_BUY" "trading_side Side_SELL"
  by (simp_all add: trading_side_def)

lemma opposite_simps [simp]:
  "trading_side sd \<Longrightarrow> trading_side (opposite sd)" "trading_side sd \<Longrightarrow> opposite sd \<noteq> sd"
  "trading_side sd \<Longrightarrow> sd \<noteq> opposite sd" "opposite (opposite sd) = sd"
  by (cases sd; simp add: trading_side_def)+

lemma levels_of_side:
  "trading_side sd \<Longrightarrow> levels_of f = fst ` set (f sd) \<union> fst ` set (f (opposite sd))"
  by (auto simp: levels_of_def trading_side_def)

lemma orders_of_side:
  "trading_side sd \<Longrightarrow> orders_of f = orders_in (f sd) \<union> orders_in (f (opposite sd))"
  by (auto simp: orders_of_def trading_side_def)

lemma ladder_inv_side:
  assumes "trading_side sd"
  shows "ladder_inv b f ex \<longleftrightarrow>
     side_ok b sd (f sd) \<and> side_ok b (opposite sd) (f (opposite sd)) \<and> slots_ok b f \<and>
     levels_of f = live (orders_at_price_pool b) \<and>
     orders_of f \<union> ex = live (order_pool b) \<and> orders_of f \<inter> ex = {} \<and>
     pool_inv (orders_at_price_pool b) \<and> pool_inv (order_pool b)"
  using assms by (auto simp: ladder_inv_def trading_side_def)

lemma orders_in_simps [simp]:
  "orders_in [] = {}" "orders_in (e # ls) = set (snd e) \<union> orders_in ls"
  "orders_in (ls @ ms) = orders_in ls \<union> orders_in ms"
  by (auto simp: orders_in_def)

lemma level_in_side:
  assumes "ladder_inv b f ex" and "l \<in> levels_of f"
  obtains sd os where "trading_side sd" and "(l, os) \<in> set (f sd)" and "level_ok b sd (l, os)"
proof -
  from assms(2) have "\<exists>sd os. trading_side sd \<and> (l, os) \<in> set (f sd)"
  proof -
    from assms(2) have "(\<exists>os. (l, os) \<in> set (f Side_BUY)) \<or> (\<exists>os. (l, os) \<in> set (f Side_SELL))"
      by (auto simp: levels_of_def)
    then show ?thesis using trading_side_simps by blast
  qed
  then obtain sd os where "trading_side sd" and "(l, os) \<in> set (f sd)" by blast
  moreover from this assms(1) have "level_ok b sd (l, os)"
    by (auto simp: ladder_inv_def side_ok_def trading_side_def)
  ultimately show ?thesis by (rule that)
qed

lemma side_okD:
  assumes "side_ok b sd ls" and "(l, os) \<in> set ls"
  shows "l_side (L b l) = sd" "price_orders_at_price b (priceToIndex (l_price (L b l))) = Some l"
    "first_order (L b l) = Some (hd os)" "ring (onx b) (opv b) os"
    "\<And>a. a \<in> set os \<Longrightarrow> o_side (Ord b a) = sd \<and> o_price (Ord b a) = l_price (L b l)"
  using assms by (auto simp: side_ok_def level_ok_def)

lemma side_ok_distinct: "side_ok b sd ls \<Longrightarrow> distinct (map fst ls)"
  by (cases "ls = []") (auto simp: side_ok_def ring_def)

text \<open>An order sits in one level only: its price finds the level.\<close>

lemma order_level_unique:
  assumes "side_ok b sd ls" and "side_ok b sd' ls'" and "(l, os) \<in> set ls" and "(l', os') \<in> set ls'"
    and "a \<in> set os" and "a \<in> set os'"
  shows "l = l' \<and> sd = sd'"
  using side_okD [OF assms(1,3)] side_okD [OF assms(2,4)] assms(5,6) by (metis option.inject)

lemma order_entry_unique:
  assumes "side_ok b sd ls" and "(l, os) \<in> set ls" and "(l', os') \<in> set ls"
    and "a \<in> set os" and "a \<in> set os'"
  shows "(l, os) = (l', os')"
proof -
  have "l = l'" using order_level_unique [OF assms(1,1,2,3,4,5)] by simp
  then show ?thesis
    using side_ok_distinct [OF assms(1)] assms(2,3) by (metis eq_key_imp_eq_value)
qed

text \<open>Rewriting a side to another state of the heap that agrees on what the side reads.\<close>

definition same_place :: "'x order_node_scheme \<Rightarrow> 'x order_node_scheme \<Rightarrow> bool" where
  "same_place v w \<longleftrightarrow> next_order v = next_order w \<and> prev_order v = prev_order w \<and>
     o_side v = o_side w \<and> o_price v = o_price w"

lemma same_place_refl [simp]: "same_place v v"
  by (simp add: same_place_def)

lemma level_ok_cong:
  assumes "L b' (fst e) = L b (fst e)"
    and "price_orders_at_price b' (priceToIndex (l_price (L b (fst e)))) =
         price_orders_at_price b (priceToIndex (l_price (L b (fst e))))"
    and "\<And>a. a \<in> set (snd e) \<Longrightarrow> same_place (Ord b' a) (Ord b a)"
  shows "level_ok b' sd e = level_ok b sd e"
proof -
  have "ring (onx b') (opv b') (snd e) = ring (onx b) (opv b) (snd e)"
    using assms(3) by (intro ring_cong) (auto simp: same_place_def)
  then show ?thesis using assms by (auto simp: level_ok_def same_place_def)
qed

lemma side_ok_cong:
  assumes "best_of sd b' = best_of sd b"
    and "\<And>l. l \<in> fst ` set ls \<Longrightarrow> L b' l = L b l"
    and "\<And>l. l \<in> fst ` set ls \<Longrightarrow> price_orders_at_price b' (priceToIndex (l_price (L b l))) =
         price_orders_at_price b (priceToIndex (l_price (L b l)))"
    and "\<And>a. a \<in> orders_in ls \<Longrightarrow> same_place (Ord b' a) (Ord b a)"
  shows "side_ok b' sd ls = side_ok b sd ls"
proof -
  have "ring (lnx b') (lpv b') (map fst ls) = ring (lnx b) (lpv b) (map fst ls)"
    using assms(2) by (intro ring_cong) auto
  moreover have "level_ok b' sd e = level_ok b sd e" if "e \<in> set ls" for e
    using that assms by (intro level_ok_cong) (auto simp: orders_in_def)
  moreover have "level_prices b' ls = level_prices b ls" using assms(2) by auto
  then have "sorted_wrt (better sd) (level_prices b' ls) = sorted_wrt (better sd) (level_prices b ls)"
    by (simp only:)
  ultimately show ?thesis using assms(1) by (simp add: side_ok_def)
qed

text \<open>The levels of the two sides, and the orders of one level and all others, are apart.\<close>

lemma levels_apart:
  assumes "ladder_inv b f ex" and "trading_side sd"
  shows "fst ` set (f sd) \<inter> fst ` set (f (opposite sd)) = {}"
proof -
  have side: "side_ok b sd (f sd)" and other: "side_ok b (opposite sd) (f (opposite sd))"
    using assms by (simp_all add: ladder_inv_side)
  have "l_side (L b l) = sd" if "l \<in> fst ` set (f sd)" for l
    using that side_okD(1) [OF side] by force
  moreover have "l_side (L b l) = opposite sd" if "l \<in> fst ` set (f (opposite sd))" for l
    using that side_okD(1) [OF other] by force
  ultimately show ?thesis using opposite_simps(2) [OF assms(2)] by (metis disjoint_iff)
qed

lemma orders_apart:
  assumes inv: "ladder_inv b f ex" and sd: "trading_side sd" and split: "f sd = us @ (l, qs) # vs"
  shows "set qs \<inter> (orders_in us \<union> orders_in vs \<union> orders_in (f (opposite sd))) = {}"
proof -
  have side: "side_ok b sd (f sd)" and other: "side_ok b (opposite sd) (f (opposite sd))"
    using inv by (simp_all add: ladder_inv_side [OF sd])
  have mem: "(l, qs) \<in> set (f sd)" using split by simp
  have "c \<notin> set qs" if c: "c \<in> orders_in (f (opposite sd))" for c
  proof -
    from c obtain l' os' where "(l', os') \<in> set (f (opposite sd))" "c \<in> set os'"
      by (auto simp: orders_in_def)
    then show ?thesis using order_level_unique [OF side other mem] sd by (metis opposite_simps(3))
  qed
  moreover have "c \<notin> set qs" if c: "c \<in> orders_in us \<union> orders_in vs" for c
  proof -
    from c obtain e where "e \<in> set us \<union> set vs" "c \<in> set (snd e)"
      unfolding orders_in_def by blast
    then obtain l' os' where e: "(l', os') \<in> set us \<union> set vs" "c \<in> set os'" by (cases e) auto
    then have "l' \<noteq> l" using side_ok_distinct [OF side] split by (force simp: image_iff)
    moreover have "(l', os') \<in> set (f sd)" using e(1) split by auto
    ultimately show ?thesis using order_entry_unique [OF side _ mem _ ] e(2) by blast
  qed
  ultimately show ?thesis by auto
qed

lemma orders_of_split:
  assumes "ladder_inv b f ex" and "trading_side sd" and "f sd = us @ (l, qs) # vs"
  shows "orders_of f - set qs = orders_in us \<union> orders_in vs \<union> orders_in (f (opposite sd))"
    and "set qs \<subseteq> orders_of f"
    and "orders_of (f(sd := us @ (l, qs') # vs)) = (orders_of f - set qs) \<union> set qs'"
    and "orders_of (f(sd := us @ vs)) = orders_of f - set qs"
    and "levels_of (f(sd := us @ (l, qs') # vs)) = levels_of f"
  using orders_apart [OF assms] assms(2,3)
    orders_of_side [OF assms(2), of f] orders_of_side [OF assms(2), of "f(sd := us @ (l, qs') # vs)"]
    orders_of_side [OF assms(2), of "f(sd := us @ vs)"]
    levels_of_side [OF assms(2), of f] levels_of_side [OF assms(2), of "f(sd := us @ (l, qs') # vs)"]
  by auto

text \<open>One level gets a new queue of orders; nothing else changes.\<close>

lemma ladder_inv_update_level:
  assumes inv: "ladder_inv b f ex" and sd: "trading_side sd" and split: "f sd = us @ (l, qs) # vs"
    and best: "\<And>s. best_of s b' = best_of s b" and slots: "price_orders_at_price b' = price_orders_at_price b"
    and lev: "\<And>m. m \<noteq> l \<Longrightarrow> L b' m = L b m"
    and levl: "l_price (L b' l) = l_price (L b l)" "lnx b' l = lnx b l" "lpv b' l = lpv b l"
    and ords: "\<And>c. c \<in> orders_of f - set qs \<Longrightarrow> same_place (Ord b' c) (Ord b c)"
    and lok: "level_ok b' sd (l, qs')"
    and lpool: "live (orders_at_price_pool b') = live (orders_at_price_pool b)" "pool_inv (orders_at_price_pool b')"
    and opool: "orders_of f - set qs \<union> set qs' \<union> ex' = live (order_pool b')" "pool_inv (order_pool b')"
    and apart: "(orders_of f - set qs \<union> set qs') \<inter> ex' = {}"
  shows "ladder_inv b' (f(sd := us @ (l, qs') # vs)) ex'"
proof -
  note inv' = inv [unfolded ladder_inv_side [OF sd]]
  note orders = orders_of_split [OF inv sd split]
  have side: "side_ok b sd (f sd)" using inv' by simp
  have mem: "(l, qs) \<in> set (f sd)" using split by simp
  have d: "l \<notin> fst ` set us" "l \<notin> fst ` set vs" using side_ok_distinct [OF side] split by auto
  have "l \<notin> fst ` set (f (opposite sd))"
    using levels_apart [OF inv sd] mem by force
  then have "L b' m = L b m" if "m \<in> fst ` set (f (opposite sd))" for m
    using that lev by metis
  then have "side_ok b' (opposite sd) (f (opposite sd)) = side_ok b (opposite sd) (f (opposite sd))"
    using orders(1) ords by (intro side_ok_cong) (simp_all add: best slots)
  then have other: "side_ok b' (opposite sd) (f (opposite sd))" using inv' by simp
  have "level_ok b' sd e" if "e \<in> set us \<union> set vs" for e
  proof -
    have "fst e \<noteq> l" using that d by auto
    moreover have "set (snd e) \<subseteq> orders_of f - set qs" using that orders(1) by (auto simp: orders_in_def)
    ultimately have "level_ok b' sd e = level_ok b sd e"
      using ords lev slots by (intro level_ok_cong) auto
    moreover have "e \<in> set (f sd)" using that split by auto
    ultimately show ?thesis using side by (simp add: side_ok_def)
  qed
  moreover have prices: "l_price (L b' m) = l_price (L b m)" "lnx b' m = lnx b m" "lpv b' m = lpv b m" for m
    using lev levl by (cases "m = l"; simp)+
  moreover have "ring (lnx b') (lpv b') = ring (lnx b) (lpv b)" using prices by presburger
  moreover have "map fst (us @ (l, qs') # vs) = map fst (f sd)"
      "fst (hd (us @ (l, qs') # vs)) = fst (hd (f sd))"
      "level_prices b (us @ (l, qs') # vs) = level_prices b (f sd)"
    using split by (cases us; simp)+
  ultimately have this_side: "side_ok b' sd (us @ (l, qs') # vs)"
    using side lok split unfolding side_ok_def best prices by auto
  have "slots_ok b' (f(sd := us @ (l, qs') # vs))"
  proof -
    have "slots_ok b f" using inv' by blast
    then show ?thesis by (simp add: slots_ok_def slots orders(5) prices)
  qed
  with this_side other sd lpool opool apart inv' show ?thesis
    unfolding ladder_inv_side [OF sd] orders(3,5) by simp
qed

text \<open>A level without its links: what a splice in the level list leaves alone.\<close>

definition same_level :: "orders_at_price \<Rightarrow> orders_at_price \<Rightarrow> bool" where
  "same_level v w \<longleftrightarrow> l_side v = l_side w \<and> l_price v = l_price w \<and> first_order v = first_order w"

lemma level_ok_same_level:
  assumes "level_ok b sd e" and "same_level (L b' (fst e)) (L b (fst e))"
    and "price_orders_at_price b' (priceToIndex (l_price (L b (fst e)))) = Some (fst e)"
    and "\<And>c. c \<in> set (snd e) \<Longrightarrow> same_place (Ord b' c) (Ord b c)"
  shows "level_ok b' sd e"
proof -
  have "ring (onx b') (opv b') (snd e) = ring (onx b) (opv b) (snd e)"
    using assms(4) by (intro ring_cong) (auto simp: same_place_def)
  then show ?thesis using assms by (auto simp: level_ok_def same_level_def same_place_def)
qed

text \<open>A new level with one order is spliced in between \<open>us\<close> and \<open>vs\<close>.\<close>

lemma ladder_inv_insert_level:
  assumes inv: "ladder_inv b f ex" and sd: "trading_side sd" and split: "f sd = us @ vs"
    and fresh: "n \<notin> levels_of f" and a: "a \<in> ex" and empty: "price_orders_at_price b (priceToIndex p) = None"
    and best: "best_of (opposite sd) b' = best_of (opposite sd) b"
      "best_of sd b' = (if us = [] then Some n else best_of sd b)"
    and slots: "price_orders_at_price b' = (price_orders_at_price b)(priceToIndex p := Some n)"
    and new: "l_side (L b' n) = sd" "l_price (L b' n) = p" "first_order (L b' n) = Some a"
    and lev: "\<And>m. m \<noteq> n \<Longrightarrow> same_level (L b' m) (L b m)"
    and olev: "\<And>m. m \<in> fst ` set (f (opposite sd)) \<Longrightarrow> L b' m = L b m"
    and rng: "ring (lnx b') (lpv b') (map fst us @ n # map fst vs)"
    and ords: "\<And>c. c \<noteq> a \<Longrightarrow> same_place (Ord b' c) (Ord b c)"
    and ordn: "onx b' a = Some a" "opv b' a = Some a" "o_side (Ord b' a) = sd" "o_price (Ord b' a) = p"
    and srt: "\<forall>q \<in> set (level_prices b us). better sd q p" "\<forall>q \<in> set (level_prices b vs). better sd p q"
    and lpool: "live (orders_at_price_pool b') = insert n (live (orders_at_price_pool b))" "pool_inv (orders_at_price_pool b')"
    and opool: "live (order_pool b') = live (order_pool b)" "pool_inv (order_pool b')"
  shows "ladder_inv b' (f(sd := us @ (n, [a]) # vs)) (ex - {a})"
proof -
  note inv' = inv [unfolded ladder_inv_side [OF sd]]
  let ?f = "f(sd := us @ (n, [a]) # vs)"
  have side: "side_ok b sd (f sd)" and sl: "slots_ok b f" using inv' by simp_all
  have od: "orders_of ?f = insert a (orders_of f)" and lv: "levels_of ?f = insert n (levels_of f)"
    using orders_of_side [OF sd, of f] orders_of_side [OF sd, of ?f]
      levels_of_side [OF sd, of f] levels_of_side [OF sd, of ?f] sd split by auto
  have a_notin: "a \<notin> orders_of f" using inv' a by auto
  have neq: "e \<in> set (f sd) \<Longrightarrow> fst e \<noteq> n" for e using fresh levels_of_side [OF sd, of f] by auto
  have slot: "price_orders_at_price b (priceToIndex (l_price (L b m))) = Some m" if "m \<in> levels_of f" for m
    using level_in_side [OF inv that] by (metis level_ok_def fst_conv)
  have slot': "price_orders_at_price b' (priceToIndex (l_price (L b m))) = Some m" if "m \<in> levels_of f" for m
  proof -
    have "priceToIndex (l_price (L b m)) \<noteq> priceToIndex p" using slot [OF that] empty by auto
    then show ?thesis using slot [OF that] by (simp add: slots)
  qed
  have "side_ok b' (opposite sd) (f (opposite sd)) = side_ok b (opposite sd) (f (opposite sd))"
  proof (rule side_ok_cong)
    fix m assume "m \<in> fst ` set (f (opposite sd))"
    then have "m \<in> levels_of f" using levels_of_side [OF sd] by auto
    then show "price_orders_at_price b' (priceToIndex (l_price (L b m))) =
        price_orders_at_price b (priceToIndex (l_price (L b m)))" using slot slot' by simp
  next
    fix c assume "c \<in> orders_in (f (opposite sd))"
    then have "c \<noteq> a" using a_notin orders_of_side [OF sd] by auto
    then show "same_place (Ord b' c) (Ord b c)" by (rule ords)
  qed (simp_all add: best olev)
  then have other: "side_ok b' (opposite sd) (f (opposite sd))" using inv' by simp
  have "level_ok b' sd e" if e: "e \<in> set (f sd)" for e
  proof (rule level_ok_same_level)
    show "level_ok b sd e" using side e by (simp add: side_ok_def)
    show "same_level (L b' (fst e)) (L b (fst e))" using lev neq [OF e] by simp
    show "price_orders_at_price b' (priceToIndex (l_price (L b (fst e)))) = Some (fst e)"
      using slot' e levels_of_side [OF sd] by auto
    show "same_place (Ord b' c) (Ord b c)" if "c \<in> set (snd e)" for c
    proof -
      have "c \<in> orders_of f" using e that orders_of_side [OF sd, of f] by (auto simp: orders_in_def)
      then show ?thesis using ords a_notin by metis
    qed
  qed
  moreover have "level_ok b' sd (n, [a])" using new ordn by (simp add: level_ok_def slots)
  moreover have prices: "level_prices b' us = level_prices b us" "level_prices b' vs = level_prices b vs"
    using lev neq split by (auto simp: same_level_def)
  have "sorted_wrt (better sd) (level_prices b' (us @ (n, [a]) # vs))"
    unfolding map_append list.map prices fst_conv new(2)
    using side srt split by (auto simp: side_ok_def sorted_wrt_append)
  ultimately have this_side: "side_ok b' sd (us @ (n, [a]) # vs)"
    using rng best(2) split side unfolding side_ok_def by (cases us) auto
  have "slots_ok b' ?f"
    using sl lev fresh new(2) unfolding slots_ok_def lv slots by (auto simp: same_level_def, metis)
  with this_side other sd lpool opool inv' a a_notin show ?thesis
    unfolding ladder_inv_side [OF sd] od lv by auto
qed

text \<open>A level with its last order leaves; the order stays allocated.\<close>

lemma ladder_inv_delete_level:
  assumes inv: "ladder_inv b f ex" and sd: "trading_side sd" and split: "f sd = us @ (l, [a]) # vs"
    and best: "best_of (opposite sd) b' = best_of (opposite sd) b"
      "best_of sd b' = (if us @ vs = [] then None else Some (fst (hd (us @ vs))))"
    and slots: "price_orders_at_price b' = (price_orders_at_price b)(priceToIndex (l_price (L b l)) := None)"
    and lev: "\<And>m. m \<noteq> l \<Longrightarrow> same_level (L b' m) (L b m)"
    and olev: "\<And>m. m \<in> fst ` set (f (opposite sd)) \<Longrightarrow> L b' m = L b m"
    and rng: "us @ vs \<noteq> [] \<Longrightarrow> ring (lnx b') (lpv b') (map fst us @ map fst vs)"
    and ords: "order_pool b' = order_pool b"
    and lpool: "live (orders_at_price_pool b') = live (orders_at_price_pool b) - {l}" "pool_inv (orders_at_price_pool b')"
  shows "ladder_inv b' (f(sd := us @ vs)) (insert a ex)"
proof -
  note inv' = inv [unfolded ladder_inv_side [OF sd]]
  note orders = orders_of_split [OF inv sd split]
  let ?f = "f(sd := us @ vs)"
  have side: "side_ok b sd (f sd)" and sl: "slots_ok b f" using inv' by simp_all
  have mem: "(l, [a]) \<in> set (f sd)" using split by simp
  have d: "l \<notin> fst ` set us" "l \<notin> fst ` set vs" using side_ok_distinct [OF side] split by auto
  have o: "l \<notin> fst ` set (f (opposite sd))" using levels_apart [OF inv sd] mem by force
  note l_notin = d o
  have lv: "levels_of ?f = levels_of f - {l}"
    using levels_of_side [OF sd, of f] levels_of_side [OF sd, of ?f] sd split l_notin by auto
  have slot: "price_orders_at_price b (priceToIndex (l_price (L b m))) = Some m" if "m \<in> levels_of f" for m
    using level_in_side [OF inv that] by (metis level_ok_def fst_conv)
  have slot': "price_orders_at_price b' (priceToIndex (l_price (L b m))) = Some m" if "m \<in> levels_of ?f" for m
  proof -
    have "m \<in> levels_of f" "m \<noteq> l" "l \<in> levels_of f"
      using that lv levels_of_side [OF sd, of f] split by auto
    then show ?thesis using slot [of m] slot [of l] by (auto simp: slots)
  qed
  have "side_ok b' (opposite sd) (f (opposite sd)) = side_ok b (opposite sd) (f (opposite sd))"
  proof (rule side_ok_cong)
    fix m assume "m \<in> fst ` set (f (opposite sd))"
    then have "m \<in> levels_of f" "m \<in> levels_of ?f" using levels_of_side [OF sd, of f] lv l_notin by auto
    then show "price_orders_at_price b' (priceToIndex (l_price (L b m))) =
        price_orders_at_price b (priceToIndex (l_price (L b m)))" using slot slot' by simp
  qed (simp_all add: best olev ords)
  then have other: "side_ok b' (opposite sd) (f (opposite sd))" using inv' by simp
  have keep: "same_level (L b' (fst e)) (L b (fst e))" if e: "e \<in> set (us @ vs)" for e
    by (rule lev) (use d e in auto)
  have "level_ok b' sd e" if e: "e \<in> set (us @ vs)" for e
  proof (rule level_ok_same_level)
    show "level_ok b sd e" using side e split by (auto simp: side_ok_def)
    show "same_level (L b' (fst e)) (L b (fst e))" by (rule keep [OF e])
    show "price_orders_at_price b' (priceToIndex (l_price (L b (fst e)))) = Some (fst e)"
      using slot' e levels_of_side [OF sd, of ?f] by auto
  qed (simp add: ords)
  moreover have prices: "level_prices b' (us @ vs) = level_prices b (us @ vs)"
    using keep by (auto simp: same_level_def)
  have "sorted_wrt (better sd) (level_prices b' (us @ vs))"
    unfolding prices using side split by (simp add: side_ok_def sorted_wrt_append)
  ultimately have this_side: "side_ok b' sd (us @ vs)"
    using rng best(2) unfolding side_ok_def by simp
  have "slots_ok b' ?f"
    using sl lev slot unfolding slots_ok_def lv slots by (auto simp: same_level_def, metis)
  with this_side other sd lpool ords inv' show ?thesis
    unfolding ladder_inv_side [OF sd] orders(4) lv using orders(2) by auto
qed

end
