(* ===== verification/LadderAdd.thy ===== *)
theory LadderAdd
  imports LadderLemmas
begin

section \<open>Linking an order into the ladder\<close>

text \<open>
  The effect of \<open>addOrder\<close> and \<open>addOrderAtPrice\<close>: an order whose price has a level goes to the end
  of that level's queue; otherwise a new level is put at its place in the sorted list of levels.
\<close>

subsection \<open>A level that exists\<close>

lemma link_order_existing:
  assumes inv: "ladder_inv b f ex" and a: "a \<in> ex" and sd: "trading_side sd"
    and os: "o_side (Ord b a) = sd" and slot: "getOrdersAtPrice b (o_price (Ord b a)) = Some l"
    and lp: "l_price (L b l) = o_price (Ord b a)" and split: "f sd = us @ (l, qs) # vs"
  shows "\<exists>pl. link_order (Some a) b = Inr (b\<lparr>order_pool := pl\<rparr>) \<and>
    ladder_inv (b\<lparr>order_pool := pl\<rparr>) (f(sd := us @ (l, qs @ [a]) # vs)) (ex - {a}) \<and>
    (\<forall>c. payload (obj pl c) = payload (Ord b c)) \<and> pool_size pl = pool_size (order_pool b)"
proof -
  note inv' = inv [unfolded ladder_inv_side [OF sd]]
  note orders = orders_of_split [OF inv sd split]
  have side: "side_ok b sd (f sd)" using inv' by simp
  have mem: "(l, qs) \<in> set (f sd)" using split by simp
  note lok = side_okD [OF side mem]
  have ne: "qs \<noteq> []" using lok(4) by (simp add: ring_def)
  define x t where "x = hd qs" and "t = last qs"
  have xt: "x \<in> set qs" "t \<in> set qs" using ne by (simp_all add: x_def t_def)
  have a_out: "a \<notin> orders_of f" "a \<in> live (order_pool b)" using inv' a by auto
  then have ax: "a \<notin> set qs" "a \<noteq> x" "a \<noteq> t" using orders(2) xt by auto
  define pl where "pl = set_obj x (\<lambda>n. n\<lparr>prev_order := Some a\<rparr>)
      (set_obj a (\<lambda>n. n\<lparr>next_order := Some x\<rparr>) (set_obj a (\<lambda>n. n\<lparr>prev_order := Some t\<rparr>)
      (set_obj t (\<lambda>n. n\<lparr>next_order := Some a\<rparr>) (order_pool b))))"
  let ?b = "b\<lparr>order_pool := pl\<rparr>"
  have pvx: "opv b x = Some t" using ring_pv_hd [OF lok(4)] by (simp add: x_def t_def)
  have link: "link_order (Some a) b = Inr ?b"
    using slot lok(3) pvx ax by (simp add: link_order_def x_def [symmetric] pl_def)
  have pay: "payload (obj pl c) = payload (Ord b c)" for c by (simp add: pl_def)
  have "ring (onx ?b) (opv ?b) (qs @ [a])"
    by (rule ring_snoc [OF lok(4) ax(1)]) (use ax in \<open>simp_all add: pl_def x_def t_def\<close>)
  then have lok': "level_ok ?b sd (l, qs @ [a])"
    using lok os lp ne payload_fields [OF pay] by (auto simp: level_ok_def)
  have "same_place (obj pl c) (Ord b c)" if "c \<in> orders_of f - set qs" for c
    using that xt a_out payload_fields [OF pay] by (auto simp: same_place_def pl_def)
  moreover have "live pl = live (order_pool b)" "pool_inv pl = pool_inv (order_pool b)"
    by (simp_all add: pl_def)
  ultimately have "ladder_inv ?b (f(sd := us @ (l, qs @ [a]) # vs)) (ex - {a})"
    using inv' a_out orders(2) a lok' by (intro ladder_inv_update_level [OF inv sd split]) auto
  then show ?thesis using link pay by (intro exI [of _ pl]) (auto simp: pl_def)
qed

subsection \<open>The search for the place of a new level\<close>

lemma adds_after_better: "trading_side sd \<Longrightarrow> adds_after sd p t \<longleftrightarrow> better sd (l_price t) p"
  by (auto simp: adds_after_def better_def trading_side_def)

text \<open>
  From any level but the best one, the loop stops at the first level that is not better than the new
  price, or comes round to the best level. One step of fuel per level is enough.
\<close>

lemma find_target_scan:
  assumes "ring (lnx b) (lpv b) (x # ys @ zs)" and "length zs \<le> fuel"
  shows "find_target fuel sd p (Some x) b True (Some (hd (zs @ [x]))) =
    Inr (case dropWhile (\<lambda>z. adds_after sd p (L b z)) zs of [] \<Rightarrow> (True, Some x) | z # _ \<Rightarrow> (False, Some z))"
  using assms
proof (induction zs arbitrary: ys fuel)
  case Nil
  then show ?case by (subst find_target.simps) simp
next
  case (Cons z zs)
  then obtain fuel' where fuel: "fuel = Suc fuel'" "length zs \<le> fuel'" by (cases fuel) auto
  have "z \<noteq> x" using Cons.prems(1) by (auto simp: ring_def)
  have nx: "lnx b z = Some (hd (zs @ [x]))"
    using ring_nx [of "lnx b" "lpv b" "x # ys" z zs] Cons.prems(1) by (cases zs) simp_all
  show ?case
  proof (cases "adds_after sd p (L b z)")
    case True
    have "find_target fuel' sd p (Some x) b True (Some (hd (zs @ [x]))) =
      Inr (case dropWhile (\<lambda>z. adds_after sd p (L b z)) zs of [] \<Rightarrow> (True, Some x) | z # _ \<Rightarrow> (False, Some z))"
      using Cons.IH [of "ys @ [z]" fuel'] Cons.prems(1) fuel(2) by simp
    then show ?thesis using True nx fuel(1) \<open>z \<noteq> x\<close> by (subst find_target.simps) simp
  next
    case False
    have "find_target fuel' sd p (Some x) b False (Some z) = Inr (False, Some z)"
      by (subst find_target.simps) simp
    then show ?thesis using False fuel(1) \<open>z \<noteq> x\<close> by (subst find_target.simps) simp
  qed
qed

text \<open>The whole search, with the two comparisons made before the loop.\<close>

lemma search_target:
  assumes r: "ring (lnx b) (lpv b) (x # xs)" and fuel: "length xs \<le> fuel"
    and A: "A = (\<lambda>z. adds_after sd p (L b z))"
  shows "bindE (if A x then bindE (lvl_at b (lnx b x)) (\<lambda>s. Inr (adds_after sd p s, lnx b x))
                else Inr (False, Some x))
           (\<lambda>(add_after, target). find_target fuel sd p (Some x) b add_after target) =
    Inr (case dropWhile A (x # xs) of [] \<Rightarrow> (True, Some x) | z # _ \<Rightarrow> (False, Some z))"
proof (cases "A x")
  case True
  have nx: "lnx b x = Some (hd (xs @ [x]))"
    using ring_nx [of "lnx b" "lpv b" "[]" x xs] r by (cases xs) simp_all
  have scan: "find_target fuel sd p (Some x) b True (Some (hd (xs @ [x]))) =
      Inr (case dropWhile A xs of [] \<Rightarrow> (True, Some x) | z # _ \<Rightarrow> (False, Some z))"
    using find_target_scan [of b x "[]" xs fuel] r fuel by (simp add: A)
  show ?thesis
  proof (cases "A (hd (xs @ [x]))")
    case t: True
    then show ?thesis using True nx scan by (simp add: A)
  next
    case False
    with True have "xs \<noteq> []" by (cases xs) auto
    then obtain z zs where "xs = z # zs" by (cases xs) auto
    then show ?thesis using True False nx by (subst find_target.simps) (simp add: A)
  qed
next
  case False
  then show ?thesis by (subst find_target.simps) simp
qed

lemma addOrderAtPrice_search:
  assumes n: "l_side (L b n) = sd" "l_price (L b n) = p" and best: "best_of sd b = Some x"
    and r: "ring (lnx b) (lpv b) (x # xs)" and size: "length xs \<le> pool_size (orders_at_price_pool b)"
    and b0: "b0 = set_orders_at_price p (Some n) b"
  shows "addOrderAtPrice (Some n) b =
    (case dropWhile (\<lambda>z. adds_after sd p (L b z)) (x # xs) of
       [] \<Rightarrow> insert_after_tail (Some n) (lpv b x) b0
     | z # _ \<Rightarrow> insert_before_target sd p (Some n) (Some x) (Some z) b0)"
proof -
  define A where "A = (\<lambda>z. adds_after sd p (L b0 z))"
  let ?pre = "if A x then bindE (lvl_at b0 (lnx b0 x)) (\<lambda>s. Inr (adds_after sd p s, lnx b0 x)) else Inr (False, Some x)"
  have "bindE ?pre (\<lambda>(add_after, target).
      find_target (pool_size (orders_at_price_pool b0)) sd p (Some x) b0 add_after target) =
    Inr (case dropWhile A (x # xs) of [] \<Rightarrow> (True, Some x) | z # _ \<Rightarrow> (False, Some z))"
    by (rule search_target) (use r size in \<open>simp_all add: b0 A_def\<close>)
  then obtain a0 t0 where pre: "?pre = Inr (a0, t0)" and
      loop: "find_target (pool_size (orders_at_price_pool b0)) sd p (Some x) b0 a0 t0 =
        Inr (case dropWhile A (x # xs) of [] \<Rightarrow> (True, Some x) | z # _ \<Rightarrow> (False, Some z))"
    unfolding bindE_eq_Inr_iff split_paired_Ex prod.case by blast
  have "addOrderAtPrice (Some n) b = bindE ?pre (\<lambda>(add_after, target).
      bindE (find_target (pool_size (orders_at_price_pool b0)) sd p (Some x) b0 add_after target)
        (\<lambda>(add_after', target'). if add_after' then insert_after_tail (Some n) (lpv b x) b0
           else insert_before_target sd p (Some n) (Some x) target' b0))"
    unfolding addOrderAtPrice_def lvl_at_simps bindE_Inr Let_def n best_of_simps best b0 A_def
      set_orders_at_price_frame by simp
  also have "\<dots> = (case dropWhile A (x # xs) of
       [] \<Rightarrow> insert_after_tail (Some n) (lpv b x) b0
     | z # _ \<Rightarrow> insert_before_target sd p (Some n) (Some x) (Some z) b0)"
    unfolding pre bindE_Inr prod.case loop by (cases "dropWhile A (x # xs)") (simp_all only: list.case prod.case if_True if_False)
  finally show ?thesis by (simp add: A_def b0)
qed

subsection \<open>Splicing in a new level\<close>

text \<open>What \<open>addOrderAtPrice\<close> leaves: the level \<open>n\<close> between \<open>us\<close> and \<open>vs\<close>, all else as before.\<close>

definition level_spliced :: "('o, 'z) price_ladder_scheme \<Rightarrow> Side \<Rightarrow> Price \<Rightarrow> nat \<Rightarrow> nat list \<Rightarrow> nat list \<Rightarrow>
    ('o, 'z) price_ladder_scheme \<Rightarrow> bool" where
  "level_spliced b sd p n us vs b' \<longleftrightarrow>
     order_pool b' = order_pool b \<and> price_ladder.more b' = price_ladder.more b \<and>
     price_orders_at_price b' = (price_orders_at_price b)(priceToIndex p := Some n) \<and>
     best_of (opposite sd) b' = best_of (opposite sd) b \<and>
     best_of sd b' = (if us = [] then Some n else best_of sd b) \<and>
     (\<forall>m. same_level (L b' m) (L b m)) \<and> (\<forall>m. m \<notin> set (us @ n # vs) \<longrightarrow> L b' m = L b m) \<and>
     ring (lnx b') (lpv b') (us @ n # vs) \<and> live (orders_at_price_pool b') = live (orders_at_price_pool b) \<and>
     pool_inv (orders_at_price_pool b') = pool_inv (orders_at_price_pool b) \<and>
     pool_size (orders_at_price_pool b') = pool_size (orders_at_price_pool b)"

lemma addOrderAtPrice_empty:
  assumes "trading_side sd" and "l_side (L b n) = sd" and "l_price (L b n) = p" and "best_of sd b = None"
  shows "\<exists>b'. addOrderAtPrice (Some n) b = Inr b' \<and> level_spliced b sd p n [] [] b'"
  using assms by (simp add: addOrderAtPrice_def level_spliced_def same_level_def best_of_set_best)

lemma addOrderAtPrice_tail:
  assumes sd: "trading_side sd" and n: "l_side (L b n) = sd" "l_price (L b n) = p"
    and best: "best_of sd b = Some x" and r: "ring (lnx b) (lpv b) (x # xs)" and fresh: "n \<notin> set (x # xs)"
    and size: "length xs \<le> pool_size (orders_at_price_pool b)"
    and all: "\<forall>z \<in> set (x # xs). adds_after sd p (L b z)"
  shows "\<exists>b'. addOrderAtPrice (Some n) b = Inr b' \<and> level_spliced b sd p n (x # xs) [] b'"
proof -
  let ?b0 = "set_orders_at_price p (Some n) b"
  define t where "t = last (x # xs)"
  have tail: "lpv b x = Some t" "lnx b t = Some x"
    using ring_pv_hd [OF r] ring_nx_last [OF r] by (simp_all add: t_def)
  have t: "t \<in> set (x # xs)" unfolding t_def by (rule last_in_set) simp
  have nt: "n \<noteq> t" "n \<noteq> x" using fresh t by auto
  have "dropWhile (\<lambda>z. adds_after sd p (L b z)) (x # xs) = []" using all by simp
  with addOrderAtPrice_search [OF n best r size refl]
  have eq: "addOrderAtPrice (Some n) b = insert_after_tail (Some n) (lpv b x) ?b0" by simp
  define b' where "b' = ?b0\<lparr>orders_at_price_pool :=
     set_obj t (\<lambda>e. e\<lparr>next_entry := Some n\<rparr>) (set_obj n (\<lambda>e. e\<lparr>next_entry := Some x\<rparr>)
       (set_obj x (\<lambda>e. e\<lparr>prev_entry := Some n\<rparr>) (set_obj n (\<lambda>e. e\<lparr>prev_entry := Some t\<rparr>)
         (orders_at_price_pool b))))\<rparr>"
  have run: "addOrderAtPrice (Some n) b = Inr b'"
    unfolding eq tail(1) insert_after_tail_def using tail(2) nt by (simp add: b'_def)
  have "ring (lnx b') (lpv b') ((x # xs) @ [n])"
    by (rule ring_snoc [OF r fresh]) (use nt in \<open>simp_all add: b'_def t_def [symmetric] del: last.simps\<close>)
  then have "level_spliced b sd p n (x # xs) [] b'"
    using nt t by (auto simp: level_spliced_def b'_def same_level_def)
  with run show ?thesis by blast
qed

lemma addOrderAtPrice_before:
  assumes sd: "trading_side sd" and n: "l_side (L b n) = sd" "l_price (L b n) = p"
    and best: "best_of sd b = Some x" and split: "x # xs = us @ t # vs"
    and r: "ring (lnx b) (lpv b) (x # xs)" and fresh: "n \<notin> set (x # xs)"
    and size: "length xs \<le> pool_size (orders_at_price_pool b)"
    and us: "\<forall>z \<in> set us. adds_after sd p (L b z)" and t: "better sd p (l_price (L b t))"
  shows "\<exists>b'. addOrderAtPrice (Some n) b = Inr b' \<and> level_spliced b sd p n us (t # vs) b'"
proof -
  let ?b0 = "set_orders_at_price p (Some n) b"
  have not_t: "\<not> adds_after sd p (L b t)"
    using t by (auto simp: adds_after_better [OF sd] better_def)
  then have "dropWhile (\<lambda>z. adds_after sd p (L b z)) (x # xs) = t # vs"
    using us unfolding split by simp
  with addOrderAtPrice_search [OF n best r size refl]
  have eq: "addOrderAtPrice (Some n) b = insert_before_target sd p (Some n) (Some x) (Some t) ?b0" by simp
  have r': "ring (lnx b) (lpv b) (us @ t # vs)" using r split by simp
  define q where "q = last (t # vs @ us)"
  have q: "lpv b t = Some q" using ring_pv [OF r'] by (simp add: q_def)
  have qin: "q \<in> set (us @ t # vs)" "t \<in> set (us @ t # vs)"
    using last_in_set [of "t # vs @ us"] by (auto simp: q_def)
  then have nt: "n \<noteq> t" "n \<noteq> q" "n \<notin> set (us @ t # vs)" using fresh split by auto
  define b4 where "b4 = ?b0\<lparr>orders_at_price_pool :=
     set_obj t (\<lambda>e. e\<lparr>prev_entry := Some n\<rparr>) (set_obj q (\<lambda>e. e\<lparr>next_entry := Some n\<rparr>)
       (set_obj n (\<lambda>e. e\<lparr>next_entry := Some t\<rparr>) (set_obj n (\<lambda>e. e\<lparr>prev_entry := Some q\<rparr>)
         (orders_at_price_pool b))))\<rparr>"
  have r4: "ring (lnx b4) (lpv b4) (us @ n # t # vs)"
    by (rule ring_insert_before [OF r' nt(3)]) (use nt q in \<open>auto simp: b4_def\<close>)
  have head: "us = [] \<longleftrightarrow> better sd p (l_price (L b x))"
    using us t split by (cases us) (auto simp: adds_after_better [OF sd] better_def)
  have lnx4: "lnx b4 t \<noteq> Some x" if "us = []"
    using ring_nx [of "lnx b4" "lpv b4" "us @ [n]" t vs] r4 r' that split nt
    by (auto simp: ring_def split: list.splits)
  define b5 where "b5 = (if us = [] then set_best sd (Some n)
     (b4\<lparr>orders_at_price_pool := set_obj t (\<lambda>e. e\<lparr>next_entry := next_entry (L b4 t)\<rparr>) (orders_at_price_pool b4)\<rparr>) else b4)"
  have lev5: "L b5 m = L b4 m" for m by (simp add: b5_def)
  have run: "addOrderAtPrice (Some n) b = Inr b5"
    unfolding eq insert_before_target_def using nt q head lnx4 sd
    by (auto simp: b5_def b4_def trading_side_def better_def)
  have "ring (lnx b5) (lpv b5) (us @ n # t # vs)" using r4 by (simp add: lev5)
  moreover have "same_level (L b5 m) (L b m)" for m by (simp add: lev5 b4_def same_level_def)
  moreover have "L b5 m = L b m" if "m \<notin> set (us @ n # t # vs)" for m
    using that qin by (auto simp: lev5 b4_def)
  ultimately have "level_spliced b sd p n us (t # vs) b5"
    using sd by (auto simp: level_spliced_def b5_def b4_def best_of_set_best)
  with run show ?thesis by blast
qed

lemma addOrderAtPrice_ok:
  assumes sd: "trading_side sd" and n: "l_side (L b n) = sd" "l_price (L b n) = p"
    and side: "side_ok b sd ls" and fresh: "n \<notin> fst ` set ls" and new_price: "p \<notin> set (level_prices b ls)"
    and size: "length ls \<le> pool_size (orders_at_price_pool b)"
    and us: "us = takeWhile (\<lambda>e. better sd (l_price (L b (fst e))) p) ls"
    and vs: "vs = dropWhile (\<lambda>e. better sd (l_price (L b (fst e))) p) ls"
  shows "\<exists>b'. addOrderAtPrice (Some n) b = Inr b' \<and> level_spliced b sd p n (map fst us) (map fst vs) b'"
proof (cases ls)
  case Nil
  then have "best_of sd b = None" using side by (simp add: side_ok_def)
  then show ?thesis using addOrderAtPrice_empty [OF sd n] us vs Nil by simp
next
  case (Cons e es)
  define x xs where "x = fst e" and "xs = map fst es"
  have best: "best_of sd b = Some x" and r: "ring (lnx b) (lpv b) (x # xs)"
    using side Cons by (simp_all add: side_ok_def x_def xs_def)
  have f: "n \<notin> set (x # xs)" "length xs \<le> pool_size (orders_at_price_pool b)"
    using fresh size Cons by (auto simp: x_def xs_def)
  have split: "x # xs = map fst us @ map fst vs"
    using Cons by (simp add: us vs x_def xs_def flip: map_append)
  have ups: "\<forall>z \<in> set (map fst us). adds_after sd p (L b z)"
    by (auto simp: us adds_after_better [OF sd] dest: set_takeWhileD)
  show ?thesis
  proof (cases vs)
    case Nil
    then show ?thesis
      using addOrderAtPrice_tail [OF sd n best r f] ups split by simp
  next
    case (Cons g gs)
    then have "\<not> better sd (l_price (L b (fst g))) p" and "g \<in> set ls"
      using vs hd_dropWhile set_dropWhileD by (metis list.distinct(1) list.sel(1), metis list.set_intros(1))
    then have "better sd p (l_price (L b (fst g)))" using new_price by (auto simp: better_def split: if_splits)
    then show ?thesis
      using addOrderAtPrice_before [OF sd n best _ r f ups, of "fst g" "map fst gs"] split Cons by simp
  qed
qed

subsection \<open>A price that has no level\<close>

lemma sorted_below:
  assumes "sorted_wrt (better sd) (map g xs)" and "p \<notin> set (map g xs)"
    and "e \<in> set (dropWhile (\<lambda>e. better sd (g e) p) xs)"
  shows "better sd p (g e)"
  using assms
  by (induction xs) (auto simp: better_def split: if_splits)

text \<open>The state in which the new level is allocated and the order linked to itself.\<close>

abbreviation self_linked :: "nat \<Rightarrow> orders_at_price mempool \<Rightarrow> ('x order_node_scheme, 'z) price_ladder_scheme \<Rightarrow>
    ('x order_node_scheme, 'z) price_ladder_scheme" where
  "self_linked a pl b \<equiv>
     b\<lparr>order_pool := set_obj a (\<lambda>v. v\<lparr>next_order := Some a, prev_order := Some a\<rparr>) (order_pool b),
       orders_at_price_pool := pl\<rparr>"

lemma self_linked_side:
  assumes inv: "ladder_inv b f ex" and a: "a \<in> ex" and sd: "trading_side sd"
    and slot: "getOrdersAtPrice b p = None" and same: "\<And>m. m \<in> levels_of f \<Longrightarrow> obj pl m = L b m"
    and size: "card (levels_of f) \<le> pool_size pl"
  shows "side_ok (self_linked a pl b) sd (f sd)" "p \<notin> set (level_prices (self_linked a pl b) (f sd))"
    "length (f sd) \<le> pool_size pl"
    "takeWhile (\<lambda>e. better sd (l_price (obj pl (fst e))) p) (f sd) =
     takeWhile (\<lambda>e. better sd (l_price (L b (fst e))) p) (f sd)"
    "dropWhile (\<lambda>e. better sd (l_price (obj pl (fst e))) p) (f sd) =
     dropWhile (\<lambda>e. better sd (l_price (L b (fst e))) p) (f sd)"
proof -
  note inv' = inv [unfolded ladder_inv_side [OF sd]]
  have lvl: "fst e \<in> levels_of f" if "e \<in> set (f sd)" for e
    using that levels_of_side [OF sd] by auto
  have a_out: "a \<notin> orders_of f" using inv' a by auto
  have "side_ok (self_linked a pl b) sd (f sd) = side_ok b sd (f sd)"
    using lvl same a_out orders_of_side [OF sd, of f] by (intro side_ok_cong) auto
  then show side: "side_ok (self_linked a pl b) sd (f sd)" using inv' by simp
  show "p \<notin> set (level_prices (self_linked a pl b) (f sd))"
    using side_okD(2) [OF side] slot by (force simp: getOrdersAtPrice_def)
  have "length (f sd) = card (fst ` set (f sd))"
    using side_ok_distinct [OF side] by (metis distinct_card length_map set_map)
  also have "\<dots> \<le> card (levels_of f)" using inv' lvl by (intro card_mono) auto
  finally show "length (f sd) \<le> pool_size pl" using size by simp
  have "better sd (l_price (obj pl (fst e))) p = better sd (l_price (L b (fst e))) p" if "e \<in> set (f sd)" for e
    using same [OF lvl [OF that]] by simp
  then show "takeWhile (\<lambda>e. better sd (l_price (obj pl (fst e))) p) (f sd) =
      takeWhile (\<lambda>e. better sd (l_price (L b (fst e))) p) (f sd)"
    "dropWhile (\<lambda>e. better sd (l_price (obj pl (fst e))) p) (f sd) =
      dropWhile (\<lambda>e. better sd (l_price (L b (fst e))) p) (f sd)"
    by (simp_all cong: takeWhile_cong dropWhile_cong)
qed

lemma link_order_new_splice:
  assumes inv: "ladder_inv b f ex" and a: "a \<in> ex" and sd: "trading_side sd"
    and os: "o_side (Ord b a) = sd" and p: "o_price (Ord b a) = p" and slot: "getOrdersAtPrice b p = None"
    and room: "card (live (orders_at_price_pool b)) + 2 \<le> pool_size (orders_at_price_pool b)"
    and us: "us = takeWhile (\<lambda>e. better sd (l_price (L b (fst e))) p) (f sd)"
    and vs: "vs = dropWhile (\<lambda>e. better sd (l_price (L b (fst e))) p) (f sd)"
  obtains b' n pl where "link_order (Some a) b = Inr b'" and "n \<notin> levels_of f" and "pool_inv pl"
    and "pool_size pl = pool_size (orders_at_price_pool b)" and "live pl = insert n (live (orders_at_price_pool b))"
    and "l_side (obj pl n) = sd" and "l_price (obj pl n) = p" and "first_order (obj pl n) = Some a"
    and "\<And>j. j \<noteq> n \<Longrightarrow> obj pl j = L b j"
    and "level_spliced (self_linked a pl b) sd p n (map fst us) (map fst vs) b'"
proof -
  let ?lv = "\<lparr>l_side = sd, l_price = p, first_order = Some a, prev_entry = None, next_entry = None\<rparr>"
  define n where "n = next_free_index (orders_at_price_pool b)"
  have lpi: "pool_inv (orders_at_price_pool b)" and lv: "levels_of f = live (orders_at_price_pool b)"
    using inv by (simp_all add: ladder_inv_def)
  then obtain pl where al: "allocate ?lv (orders_at_price_pool b) = Inr (n, pl)" and
      pl: "pool_inv pl" "pool_size pl = pool_size (orders_at_price_pool b)"
        "live pl = insert n (live (orders_at_price_pool b))" "obj pl n = ?lv"
        "\<And>j. j \<noteq> n \<Longrightarrow> obj pl j = L b j"
    using allocate_ok [OF lpi room, of ?lv] unfolding n_def by blast
  have fresh: "n \<notin> levels_of f" using lpi lv by (simp add: n_def pool_inv_def live_def)
  have run: "link_order (Some a) b = addOrderAtPrice (Some n) (self_linked a pl b)"
    using slot os p al by (simp add: link_order_def)
  have same: "obj pl m = L b m" if "m \<in> levels_of f" for m using that pl(5) fresh by metis
  have "card (levels_of f) \<le> pool_size pl" using room lv pl(2) by simp
  note st = self_linked_side [OF inv a sd slot same this]
  obtain b' where "addOrderAtPrice (Some n) (self_linked a pl b) = Inr b'"
     and "level_spliced (self_linked a pl b) sd p n (map fst us) (map fst vs) b'"
    using addOrderAtPrice_ok [OF sd _ _ st(1) _ st(2), of n us vs] st(3-5) fresh pl(4) us vs
      levels_of_side [OF sd, of f] by auto
  then show ?thesis using that [of b' n pl] run fresh pl by simp
qed

lemma link_order_new:
  assumes inv: "ladder_inv b f ex" and a: "a \<in> ex" and sd: "trading_side sd"
    and os: "o_side (Ord b a) = sd" and p: "o_price (Ord b a) = p" and slot: "getOrdersAtPrice b p = None"
    and room: "card (live (orders_at_price_pool b)) + 2 \<le> pool_size (orders_at_price_pool b)"
    and us: "us = takeWhile (\<lambda>e. better sd (l_price (L b (fst e))) p) (f sd)"
    and vs: "vs = dropWhile (\<lambda>e. better sd (l_price (L b (fst e))) p) (f sd)"
  shows "\<exists>b' n. link_order (Some a) b = Inr b' \<and> n \<notin> levels_of f \<and>
    ladder_inv b' (f(sd := us @ (n, [a]) # vs)) (ex - {a}) \<and> l_price (L b' n) = p \<and>
    (\<forall>m. m \<noteq> n \<longrightarrow> same_level (L b' m) (L b m)) \<and> (\<forall>c. payload (Ord b' c) = payload (Ord b c)) \<and>
    price_ladder.more b' = price_ladder.more b \<and> pool_size (order_pool b') = pool_size (order_pool b) \<and>
    pool_size (orders_at_price_pool b') = pool_size (orders_at_price_pool b)"
proof -
  note inv' = inv [unfolded ladder_inv_side [OF sd]]
  obtain b' n pl where run: "link_order (Some a) b = Inr b'" and fresh: "n \<notin> levels_of f"
    and pl: "pool_inv pl" "pool_size pl = pool_size (orders_at_price_pool b)" "live pl = insert n (live (orders_at_price_pool b))"
      "l_side (obj pl n) = sd" "l_price (obj pl n) = p" "first_order (obj pl n) = Some a"
      "\<And>j. j \<noteq> n \<Longrightarrow> obj pl j = L b j"
    and spliced: "level_spliced (self_linked a pl b) sd p n (map fst us) (map fst vs) b'"
    using link_order_new_splice [OF inv a sd os p slot room us vs] by blast
  note sp = spliced [unfolded level_spliced_def, simplified]
  have split: "f sd = us @ vs" by (simp add: us vs)
  have lev: "same_level (L b' m) (L b m)" if "m \<noteq> n" for m
    using sp pl(7) [OF that] by (metis same_level_def)
  have olev: "L b' m = L b m" if "m \<in> fst ` set (f (opposite sd))" for m
  proof -
    have "m \<noteq> n" using that fresh levels_of_side [OF sd, of f] by auto
    moreover have "m \<notin> fst ` set (f sd)" using that levels_apart [OF inv sd] by auto
    ultimately show ?thesis using sp pl(7) split by auto
  qed
  have above: "\<forall>q \<in> set (level_prices b us). better sd q p"
    by (auto simp: us dest: set_takeWhileD)
  have side: "side_ok b sd (f sd)" using inv' by simp
  then have "p \<notin> set (level_prices b (f sd))"
    using side_okD(2) [OF side] slot by (force simp: getOrdersAtPrice_def)
  then have below: "\<forall>q \<in> set (level_prices b vs). better sd p q"
    using sorted_below [of sd "\<lambda>e. l_price (L b (fst e))" "f sd" p] side
    unfolding vs side_ok_def by auto
  have n': "l_side (L b' n) = sd" "l_price (L b' n) = p" "first_order (L b' n) = Some a"
    using sp pl(4-6) by (simp_all add: same_level_def)
  have "ladder_inv b' (f(sd := us @ (n, [a]) # vs)) (ex - {a})"
    using sp pl os p inv' slot
    by (intro ladder_inv_insert_level [OF inv sd split fresh a _ _ _ _ n' lev olev])
       (auto simp: getOrdersAtPrice_def above below)
  then show ?thesis using run fresh n' lev sp pl by (intro exI [of _ b'] exI [of _ n]) auto
qed

end
