(* ===== verification/LadderRemove.thy ===== *)
theory LadderRemove
  imports LadderLemmas
begin

section \<open>Taking an order out of the ladder\<close>

text \<open>
  The effect of \<open>removeOrder\<close> and \<open>removeOrderAtPrice\<close>: an order leaves the queue of its level, and
  the last order of a level takes the level with it.
\<close>

subsection \<open>A level without neighbours, and one with\<close>

lemma removeOrderAtPrice_single:
  assumes slot: "getOrdersAtPrice b p = Some l" and self: "lnx b l = Some l"
    and dealloc: "deallocate (Some l) (orders_at_price_pool b) = Inr pl"
  shows "removeOrderAtPrice sd p b =
    Inr ((set_orders_at_price p None (set_best sd None b))\<lparr>orders_at_price_pool := pl\<rparr>)"
  using assms by (simp add: removeOrderAtPrice_def)

text \<open>The level pool after the neighbours of \<open>l\<close> are joined and the links of \<open>l\<close> are cleared.\<close>

definition joined :: "nat \<Rightarrow> nat \<Rightarrow> nat \<Rightarrow> orders_at_price mempool \<Rightarrow> orders_at_price mempool" where
  "joined l pr nx pl =
     set_obj l (\<lambda>e. e\<lparr>prev_entry := None, next_entry := None\<rparr>)
       (set_obj nx (\<lambda>e. e\<lparr>prev_entry := Some pr\<rparr>) (set_obj pr (\<lambda>e. e\<lparr>next_entry := Some nx\<rparr>) pl))"

lemma joined_frame [simp]:
  "live (joined l pr nx pl) = live pl" "pool_inv (joined l pr nx pl) = pool_inv pl"
  "pool_size (joined l pr nx pl) = pool_size pl"
  by (simp_all add: joined_def)

lemma removeOrderAtPrice_linked:
  assumes slot: "getOrdersAtPrice b p = Some l" and nx: "lnx b l = Some nx" "nx \<noteq> l"
    and pr: "lpv b l = Some pr" "pr \<noteq> l"
    and dealloc: "deallocate (Some l) (joined l pr nx (orders_at_price_pool b)) = Inr pl"
  shows "removeOrderAtPrice sd p b =
    Inr ((set_orders_at_price p None
            (if best_of sd b = Some l then set_best sd (Some nx) b else b))\<lparr>orders_at_price_pool := pl\<rparr>)"
  using assms
  by (simp add: removeOrderAtPrice_def joined_def set_best_def set_orders_at_price_def eq_commute [of "Some l"])

lemma removeOrderAtPrice_ok_linked:
  assumes inv: "ladder_inv b f ex" and sd: "trading_side sd" and split: "f sd = us @ (l, [a]) # vs"
    and p: "l_price (L b l) = p" and ne: "us @ vs \<noteq> []"
  shows "\<exists>b'. removeOrderAtPrice sd p b = Inr b' \<and> ladder_inv b' (f(sd := us @ vs)) (insert a ex) \<and>
    (\<forall>m. m \<noteq> l \<longrightarrow> same_level (L b' m) (L b m)) \<and> order_pool b' = order_pool b \<and>
    price_ladder.more b' = price_ladder.more b \<and>
    pool_size (orders_at_price_pool b') = pool_size (orders_at_price_pool b)"
proof -
  note inv' = inv [unfolded ladder_inv_side [OF sd]]
  have side: "side_ok b sd (f sd)" using inv' by simp
  have mem: "(l, [a]) \<in> set (f sd)" using split by simp
  have slot: "getOrdersAtPrice b p = Some l"
    using side_okD(2) [OF side mem] p by (simp add: getOrdersAtPrice_def)
  have r: "ring (lnx b) (lpv b) (map fst us @ l # map fst vs)"
    using side split by (simp add: side_ok_def)
  define nx pr where "nx = (case map fst vs of [] \<Rightarrow> hd (map fst us @ [l]) | v # _ \<Rightarrow> v)"
    and "pr = last (l # map fst vs @ map fst us)"
  have links: "lnx b l = Some nx" "lpv b l = Some pr"
    using ring_nx [OF r] ring_pv [OF r] by (simp_all add: nx_def pr_def)
  then have neq: "nx \<noteq> l" "pr \<noteq> l"
    using ring_self_iff [OF r] ring_self_pv_iff [OF r] ne by auto
  have "pr \<in> set (l # map fst vs @ map fst us)" unfolding pr_def by (rule last_in_set) simp
  then have pr_in: "pr \<in> fst ` set (f sd)" using split by auto
  have nx_in: "nx \<in> fst ` set (f sd)" using split by (cases us; cases vs) (auto simp: nx_def)
  let ?j = "joined l pr nx (orders_at_price_pool b)"
  have "l \<in> levels_of f" using levels_of_side [OF sd, of f] split by simp
  then have "pool_inv ?j" "l \<in> live ?j" using inv' by simp_all
  then obtain pl where pl: "deallocate (Some l) ?j = Inr pl" "pool_inv pl"
     "pool_size pl = pool_size (orders_at_price_pool b)" "live pl = live (orders_at_price_pool b) - {l}"
     "\<And>j. obj pl j = obj ?j j"
    using deallocate_ok [of ?j l] unfolding joined_frame by blast
  let ?b = "(set_orders_at_price p None
      (if best_of sd b = Some l then set_best sd (Some nx) b else b))\<lparr>orders_at_price_pool := pl\<rparr>"
  have ring: "ring (lnx ?b) (lpv ?b) (map fst us @ map fst vs)"
    by (rule ring_remove [OF r]) (use ne links in \<open>auto simp: pl(5) joined_def\<close>)
  have lev: "same_level (L ?b m) (L b m)" for m by (simp add: pl(5) joined_def same_level_def)
  have olev: "L ?b m = L b m" if "m \<in> fst ` set (f (opposite sd))" for m
    using that levels_apart [OF inv sd] pr_in nx_in mem by (force simp: pl(5) joined_def)
  have best: "best_of sd ?b = (if us @ vs = [] then None else Some (fst (hd (us @ vs))))"
    using side split sd ne side_ok_distinct [OF side]
    by (cases us; cases vs) (auto simp: side_ok_def nx_def best_of_set_best)
  have "ladder_inv ?b (f(sd := us @ vs)) (insert a ex)"
    by (rule ladder_inv_delete_level [OF inv sd split _ best _ lev olev ring])
       (use sd p pl in \<open>auto simp: best_of_set_best\<close>)
  then show ?thesis
    using removeOrderAtPrice_linked [OF slot links(1) neq(1) links(2) neq(2) pl(1)] lev pl(3) by auto
qed

lemma removeOrderAtPrice_ok:
  assumes inv: "ladder_inv b f ex" and sd: "trading_side sd" and split: "f sd = us @ (l, [a]) # vs"
    and p: "l_price (L b l) = p"
  shows "\<exists>b'. removeOrderAtPrice sd p b = Inr b' \<and> ladder_inv b' (f(sd := us @ vs)) (insert a ex) \<and>
    (\<forall>m. m \<noteq> l \<longrightarrow> same_level (L b' m) (L b m)) \<and> order_pool b' = order_pool b \<and>
    price_ladder.more b' = price_ladder.more b \<and>
    pool_size (orders_at_price_pool b') = pool_size (orders_at_price_pool b)"
proof -
  note inv' = inv [unfolded ladder_inv_side [OF sd]]
  have side: "side_ok b sd (f sd)" and lpi: "pool_inv (orders_at_price_pool b)" using inv' by simp_all
  have mem: "(l, [a]) \<in> set (f sd)" using split by simp
  have slot: "getOrdersAtPrice b p = Some l"
    using side_okD(2) [OF side mem] p by (simp add: getOrdersAtPrice_def)
  have live: "l \<in> live (orders_at_price_pool b)"
    using inv' mem levels_of_side [OF sd, of f] by force
  have r: "ring (lnx b) (lpv b) (map fst us @ l # map fst vs)"
    using side split by (simp add: side_ok_def)
  show ?thesis
  proof (cases "us @ vs = []")
    case True
    then have self: "lnx b l = Some l" using ring_self_iff [OF r] by simp
    obtain pl where pl: "deallocate (Some l) (orders_at_price_pool b) = Inr pl" "pool_inv pl"
       "pool_size pl = pool_size (orders_at_price_pool b)" "live pl = live (orders_at_price_pool b) - {l}"
       "\<And>j. obj pl j = L b j"
      using deallocate_ok [OF lpi live] by blast
    have "ladder_inv ((set_orders_at_price p None (set_best sd None b))\<lparr>orders_at_price_pool := pl\<rparr>)
       (f(sd := us @ vs)) (insert a ex)"
      by (rule ladder_inv_delete_level [OF inv sd split])
         (use True sd p pl in \<open>auto simp: best_of_set_best same_level_def\<close>)
    then show ?thesis
      using removeOrderAtPrice_single [OF slot self pl(1)] pl by (auto simp: same_level_def)
  next
    case False
    then show ?thesis using removeOrderAtPrice_ok_linked [OF inv sd split p] by blast
  qed
qed

subsection \<open>An order\<close>

text \<open>The levels of a side after an order has left the queue \<open>qs1 @ a # qs2\<close> of level \<open>l\<close>.\<close>

definition drop_order :: "nat \<Rightarrow> nat list \<Rightarrow> nat list \<Rightarrow> side_list" where
  "drop_order l qs1 qs2 = (if qs1 @ qs2 = [] then [] else [(l, qs1 @ qs2)])"

lemma unlink_order_middle:
  assumes inv: "ladder_inv b f ex" and sd: "trading_side sd"
    and split: "f sd = us @ (l, qs1 @ a # qs2) # vs" and ne: "qs1 @ qs2 \<noteq> []"
  shows "\<exists>b'. unlink_order (Some a) b = Inr b' \<and> ladder_inv b' (f(sd := us @ (l, qs1 @ qs2) # vs)) (insert a ex) \<and>
    (\<forall>m. l_price (L b' m) = l_price (L b m)) \<and> (\<forall>c. payload (Ord b' c) = payload (Ord b c)) \<and>
    price_ladder.more b' = price_ladder.more b \<and> pool_size (order_pool b') = pool_size (order_pool b) \<and>
    pool_size (orders_at_price_pool b') = pool_size (orders_at_price_pool b)"
proof -
  note inv' = inv [unfolded ladder_inv_side [OF sd]]
  note orders = orders_of_split [OF inv sd split]
  have side: "side_ok b sd (f sd)" using inv' by simp
  have mem: "(l, qs1 @ a # qs2) \<in> set (f sd)" using split by simp
  note lok = side_okD [OF side mem]
  note r = lok(4)
  have dist: "distinct (qs1 @ a # qs2)" using r by (simp add: ring_def)
  have vals: "o_side (Ord b a) = sd" "o_price (Ord b a) = l_price (L b l)" using lok(5) by simp_all
  then have slot: "getOrdersAtPrice b (o_price (Ord b a)) = Some l"
    using lok(2) by (simp add: getOrdersAtPrice_def)
  define nx pr where "nx = (case qs2 of [] \<Rightarrow> hd (qs1 @ [a]) | v # _ \<Rightarrow> v)" and "pr = last (a # qs2 @ qs1)"
  have links: "onx b a = Some nx" "opv b a = Some pr"
    using ring_nx [OF r] ring_pv [OF r] by (simp_all add: nx_def pr_def)
  then have neq: "nx \<noteq> a" "pr \<noteq> a" using ring_self_iff [OF r] ring_self_pv_iff [OF r] ne by auto
  have inq: "nx \<in> set (qs1 @ a # qs2)" "pr \<in> set (qs1 @ a # qs2)"
    using last_in_set [of "a # qs2 @ qs1"] by (cases qs1; cases qs2; auto simp: nx_def pr_def)+
  define op where "op = set_obj a (\<lambda>n. n\<lparr>prev_order := None, next_order := None\<rparr>)
    (set_obj nx (\<lambda>n. n\<lparr>prev_order := Some pr\<rparr>) (set_obj pr (\<lambda>n. n\<lparr>next_order := Some nx\<rparr>) (order_pool b)))"
  define lp where "lp = (if first_order (L b l) = Some a
    then set_obj l (\<lambda>e. e\<lparr>first_order := Some nx\<rparr>) (orders_at_price_pool b) else orders_at_price_pool b)"
  let ?b = "b\<lparr>order_pool := op, orders_at_price_pool := lp\<rparr>"
  have run: "unlink_order (Some a) b = Inr ?b"
    using links neq slot by (simp add: unlink_order_def Let_def op_def lp_def)
  have pay: "payload (obj op c) = payload (Ord b c)" for c by (simp add: op_def payload_def)
  have lev: "l_price (obj lp m) = l_price (L b m)" "l_side (obj lp m) = l_side (L b m)"
    "next_entry (obj lp m) = lnx b m" "prev_entry (obj lp m) = lpv b m" for m by (simp_all add: lp_def)
  have "ring (onx ?b) (opv ?b) (qs1 @ qs2)"
    by (rule ring_remove [OF r ne]) (use links in \<open>auto simp: op_def\<close>)
  moreover have "first_order (obj lp l) = Some (hd (qs1 @ qs2))"
    using lok(3) dist ne by (cases qs1; cases qs2) (auto simp: lp_def nx_def)
  ultimately have lok': "level_ok ?b sd (l, qs1 @ qs2)"
    using lok payload_fields [OF pay] by (auto simp: level_ok_def lev)
  have "same_place (obj op c) (Ord b c)" if "c \<in> orders_of f - set (qs1 @ a # qs2)" for c
    using that inq payload_fields [OF pay] by (auto simp: same_place_def op_def)
  moreover have pools: "live op = live (order_pool b)" "pool_inv op = pool_inv (order_pool b)"
    "pool_size op = pool_size (order_pool b)" "live lp = live (orders_at_price_pool b)"
    "pool_inv lp = pool_inv (orders_at_price_pool b)" "pool_size lp = pool_size (orders_at_price_pool b)"
    by (simp_all add: op_def lp_def)
  moreover have "obj lp m = L b m" if "m \<noteq> l" for m using that by (simp add: lp_def)
  moreover have "orders_of f - set (qs1 @ a # qs2) \<union> set (qs1 @ qs2) \<union> insert a ex = live (order_pool b)"
    "(orders_of f - set (qs1 @ a # qs2) \<union> set (qs1 @ qs2)) \<inter> insert a ex = {}"
    using inv' orders(2) dist by auto
  ultimately have "ladder_inv ?b (f(sd := us @ (l, qs1 @ qs2) # vs)) (insert a ex)"
    using inv' lok' by (intro ladder_inv_update_level [OF inv sd split]) (simp_all add: lev)
  then show ?thesis using run pay lev pools by (intro exI [of _ ?b]) simp
qed

lemma unlink_order_ok:
  assumes inv: "ladder_inv b f ex" and sd: "trading_side sd"
    and split: "f sd = us @ (l, qs1 @ a # qs2) # vs"
  shows "\<exists>b'. unlink_order (Some a) b = Inr b' \<and>
    ladder_inv b' (f(sd := us @ drop_order l qs1 qs2 @ vs)) (insert a ex) \<and>
    (\<forall>m. m \<noteq> l \<or> qs1 @ qs2 \<noteq> [] \<longrightarrow> l_price (L b' m) = l_price (L b m)) \<and>
    (\<forall>c. payload (Ord b' c) = payload (Ord b c)) \<and>
    price_ladder.more b' = price_ladder.more b \<and> pool_size (order_pool b') = pool_size (order_pool b) \<and>
    pool_size (orders_at_price_pool b') = pool_size (orders_at_price_pool b)"
proof (cases "qs1 @ qs2 = []")
  case True
  then have split': "f sd = us @ (l, [a]) # vs" using split by simp
  have side: "side_ok b sd (f sd)" using inv by (simp add: ladder_inv_side [OF sd])
  have "(l, [a]) \<in> set (f sd)" using split' by simp
  note lok = side_okD [OF side this]
  have "unlink_order (Some a) b = removeOrderAtPrice sd (l_price (L b l)) b"
    using lok(4,5) by (simp add: unlink_order_def)
  with removeOrderAtPrice_ok [OF inv sd split' refl] True show ?thesis
    by (auto simp: drop_order_def same_level_def)
next
  case False
  then show ?thesis
    using unlink_order_middle [OF inv sd split] unfolding drop_order_def by auto
qed

end
