(* ===== verification/LadderView.thy ===== *)
theory LadderView
  imports LadderAdd LadderRemove
begin

section \<open>The abstract ladder: price-time priority lists\<close>

text \<open>
  The specification the pointer structure refines: a side of the book is a list of price levels, best
  price first, each with its orders in the order of arrival. Entering an order, and removing the
  orders a predicate picks, are plain list functions; the pointer operations compute them.
\<close>

type_synonym 'o book_side = "(Price \<times> 'o list) list"

fun enqueue :: "Side \<Rightarrow> Price \<Rightarrow> 'o \<Rightarrow> 'o book_side \<Rightarrow> 'o book_side" where
  "enqueue sd p x [] = [(p, [x])]"
| "enqueue sd p x ((q, os) # ls) =
     (if q = p then (q, os @ [x]) # ls
      else if better sd q p then (q, os) # enqueue sd p x ls
      else (p, [x]) # (q, os) # ls)"

definition remove_where :: "('o \<Rightarrow> bool) \<Rightarrow> 'o book_side \<Rightarrow> 'o book_side" where
  "remove_where P ls =
     filter (\<lambda>e. snd e \<noteq> []) (map (\<lambda>e. (fst e, filter (\<lambda>x. \<not> P x) (snd e))) ls)"

definition all_orders :: "'o book_side \<Rightarrow> 'o list" where
  "all_orders ls = concat (map snd ls)"

definition prices :: "'o book_side \<Rightarrow> Price set" where
  "prices ls = fst ` set ls"

lemma prices_simps [simp]:
  "prices [] = {}" "prices (e # ls) = insert (fst e) (prices ls)" "prices (ls @ ms) = prices ls \<union> prices ms"
  by (auto simp: prices_def)

lemma all_orders_simps [simp]:
  "all_orders [] = []" "all_orders (e # ls) = snd e @ all_orders ls"
  "all_orders (ls @ ms) = all_orders ls @ all_orders ms"
  by (simp_all add: all_orders_def)

lemma remove_where_simps [simp]:
  "remove_where P [] = []"
  "remove_where P ((p, os) # ls) =
     (if filter (\<lambda>x. \<not> P x) os = [] then remove_where P ls
      else (p, filter (\<lambda>x. \<not> P x) os) # remove_where P ls)"
  "remove_where P (ls @ ms) = remove_where P ls @ remove_where P ms"
  by (simp_all add: remove_where_def)

lemma remove_where_none:
  "\<forall>x \<in> set (all_orders ls). \<not> P x \<Longrightarrow> \<forall>e \<in> set ls. snd e \<noteq> [] \<Longrightarrow> remove_where P ls = ls"
  by (induction ls) auto

lemma enqueue_existing:
  assumes "sorted_wrt (better sd) (map fst (us @ (p, os) # vs))"
  shows "enqueue sd p x (us @ (p, os) # vs) = us @ (p, os @ [x]) # vs"
  using assms by (induction us) (auto simp: better_def split: if_splits)

lemma enqueue_new:
  assumes "p \<notin> fst ` set ls"
  shows "enqueue sd p x ls =
    takeWhile (\<lambda>e. better sd (fst e) p) ls @ (p, [x]) # dropWhile (\<lambda>e. better sd (fst e) p) ls"
  using assms by (induction sd p x ls rule: enqueue.induct) auto

lemma all_orders_enqueue: "set (all_orders (enqueue sd p x ls)) = insert x (set (all_orders ls))"
  by (induction sd p x ls rule: enqueue.induct) auto

lemma prices_enqueue: "prices (enqueue sd p x ls) = insert p (prices ls)"
  by (induction sd p x ls rule: enqueue.induct) auto

lemma enqueue_sorted:
  assumes "sorted_wrt (better sd) (map fst ls)" and "trading_side sd"
  shows "sorted_wrt (better sd) (map fst (enqueue sd p x ls))"
  using assms
proof (induction sd p x ls rule: enqueue.induct)
  case (2 sd p x q os ls)
  have rest: "better sd q r" if "r \<in> fst ` set ls" for r using that "2.prems"(1) by auto
  then have "better sd q r" if "better sd q p" "r \<in> fst ` set (enqueue sd p x ls)" for r
  proof -
    have "r = p \<or> r \<in> fst ` set ls" using that(2) using prices_enqueue [of sd p x ls] unfolding prices_def by blast
    then show ?thesis using that(1) rest by metis
  qed
  moreover have "better sd p r" if "\<not> better sd q p" "q \<noteq> p" "r \<in> fst ` set ls" for r
    using that(1,2) rest [OF that(3)] by (simp add: better_def split: if_splits)
  moreover have "better sd p q" if "\<not> better sd q p" "q \<noteq> p"
    using that by (simp add: better_def split: if_splits)
  ultimately show ?case using 2 by auto
qed simp

subsection \<open>The pointer structure shows such a list\<close>

lemma side_view_simps [simp]:
  "side_view b [] = []"
  "side_view b (e # ls) = (l_price (L b (fst e)), map (\<lambda>a. payload (Ord b a)) (snd e)) # side_view b ls"
  "side_view b (ls @ ms) = side_view b ls @ side_view b ms"
  by (simp_all add: side_view_def)

lemma side_view_cong:
  assumes "\<And>e. e \<in> set ls \<Longrightarrow> l_price (L b' (fst e)) = l_price (L b (fst e))"
    and "\<And>a. a \<in> orders_in ls \<Longrightarrow> payload (Ord b' a) = payload (Ord b a)"
  shows "side_view b' ls = side_view b ls"
  using assms by (auto simp: side_view_def orders_in_def)

lemma side_view_prices: "map fst (side_view b ls) = level_prices b ls"
  by (simp add: side_view_def)

lemma side_view_sorted: "side_ok b sd ls \<Longrightarrow> sorted_wrt (better sd) (map fst (side_view b ls))"
  by (simp add: side_view_prices side_ok_def)

lemma side_view_orders: "set (all_orders (side_view b ls)) = (\<lambda>a. payload (Ord b a)) ` orders_in ls"
  by (induction ls) auto

lemma side_view_nonempty: "side_ok b sd ls \<Longrightarrow> e \<in> set (side_view b ls) \<Longrightarrow> snd e \<noteq> []"
  by (auto simp: side_view_def side_ok_def level_ok_def ring_def)

lemma takeWhile_view:
  "takeWhile (\<lambda>e. better sd (fst e) p) (side_view b ls) =
   side_view b (takeWhile (\<lambda>e. better sd (l_price (L b (fst e))) p) ls)"
  "dropWhile (\<lambda>e. better sd (fst e) p) (side_view b ls) =
   side_view b (dropWhile (\<lambda>e. better sd (l_price (L b (fst e))) p) ls)"
  by (induction ls) auto

text \<open>What the operations leave alone: the orders' contents, the pools' sizes, the book's other fields.\<close>

definition ladder_frame :: "('x order_node_scheme, 'z) price_ladder_scheme \<Rightarrow>
    ('x order_node_scheme, 'z) price_ladder_scheme \<Rightarrow> bool" where
  "ladder_frame b b' \<longleftrightarrow>
     (\<forall>c. payload (Ord b' c) = payload (Ord b c)) \<and> price_ladder.more b' = price_ladder.more b \<and>
     pool_size (order_pool b') = pool_size (order_pool b) \<and>
     pool_size (orders_at_price_pool b') = pool_size (orders_at_price_pool b)"

text \<open>The contract of \<open>link_order\<close>, and its two cases.\<close>

definition linked :: "('x order_node_scheme, 'z) price_ladder_scheme \<Rightarrow> (Side \<Rightarrow> side_list) \<Rightarrow> nat set \<Rightarrow>
    Side \<Rightarrow> Price \<Rightarrow> nat \<Rightarrow> ('x order_node_scheme, 'z) price_ladder_scheme \<Rightarrow> (Side \<Rightarrow> side_list) \<Rightarrow> bool" where
  "linked b f ex sd p a b' f' \<longleftrightarrow>
     ladder_inv b' f' (ex - {a}) \<and> ladder_frame b b' \<and>
     side_view b' (f' sd) = enqueue sd p (payload (Ord b a)) (side_view b (f sd)) \<and>
     side_view b' (f' (opposite sd)) = side_view b (f (opposite sd)) \<and>
     orders_of f' = insert a (orders_of f)"

lemma link_order_refines_existing:
  assumes inv: "ladder_inv b f ex" and a: "a \<in> ex" and sd: "trading_side sd"
    and os: "o_side (Ord b a) = sd" and p: "o_price (Ord b a) = p"
    and slot: "getOrdersAtPrice b p = Some l" and l: "l_price (L b l) = p" "l_side (L b l) = sd"
  shows "\<exists>b' f'. link_order (Some a) b = Inr b' \<and> linked b f ex sd p a b' f'"
proof -
  have side: "side_ok b sd (f sd)" and sl: "slots_ok b f" using inv by (simp_all add: ladder_inv_side [OF sd])
  have "l \<in> levels_of f" using slot sl by (auto simp: slots_ok_def getOrdersAtPrice_def)
  from level_in_side [OF inv this] obtain sd' qs where "trading_side sd'" "(l, qs) \<in> set (f sd')"
    "level_ok b sd' (l, qs)" .
  with l(2) have "(l, qs) \<in> set (f sd)" by (simp add: level_ok_def)
  then obtain us vs where split: "f sd = us @ (l, qs) # vs" by (metis split_list)
  let ?f = "f(sd := us @ (l, qs @ [a]) # vs)"
  obtain pl where run: "link_order (Some a) b = Inr (b\<lparr>order_pool := pl\<rparr>)"
    and inv': "ladder_inv (b\<lparr>order_pool := pl\<rparr>) ?f (ex - {a})"
    and fr: "\<forall>c. payload (obj pl c) = payload (Ord b c)" "pool_size pl = pool_size (order_pool b)"
    using link_order_existing [OF inv a sd os _ _ split] slot l(1) unfolding p by blast
  have "side_view (b\<lparr>order_pool := pl\<rparr>) ls = side_view b ls" for ls
    by (rule side_view_cong) (simp_all add: fr)
  moreover have "enqueue sd p (payload (Ord b a)) (side_view b (f sd)) =
      side_view b us @ (p, map (\<lambda>a. payload (Ord b a)) qs @ [payload (Ord b a)]) # side_view b vs"
    using enqueue_existing side_view_sorted [OF side] l(1) by (simp add: split)
  moreover have "orders_of ?f = insert a (orders_of f)"
    using orders_of_split(2,3) [OF inv sd split] by auto
  ultimately have "linked b f ex sd p a (b\<lparr>order_pool := pl\<rparr>) ?f"
    using inv' fr l(1) sd by (simp add: linked_def ladder_frame_def)
  with run show ?thesis by blast
qed

lemma link_order_refines_new:
  assumes inv: "ladder_inv b f ex" and a: "a \<in> ex" and sd: "trading_side sd"
    and os: "o_side (Ord b a) = sd" and p: "o_price (Ord b a) = p" and slot: "getOrdersAtPrice b p = None"
    and room: "card (live (orders_at_price_pool b)) + 2 \<le> pool_size (orders_at_price_pool b)"
  shows "\<exists>b' f'. link_order (Some a) b = Inr b' \<and> linked b f ex sd p a b' f'"
proof -
  have side: "side_ok b sd (f sd)" using inv by (simp add: ladder_inv_side [OF sd])
  define us where "us = takeWhile (\<lambda>e. better sd (l_price (L b (fst e))) p) (f sd)"
  define vs where "vs = dropWhile (\<lambda>e. better sd (l_price (L b (fst e))) p) (f sd)"
  have split: "f sd = us @ vs" by (simp add: us_def vs_def)
  obtain b' n where run: "link_order (Some a) b = Inr b'" and n: "n \<notin> levels_of f" "l_price (L b' n) = p"
    and inv': "ladder_inv b' (f(sd := us @ (n, [a]) # vs)) (ex - {a})"
    and lev: "\<forall>m. m \<noteq> n \<longrightarrow> same_level (L b' m) (L b m)" and fr: "\<forall>c. payload (Ord b' c) = payload (Ord b c)"
      "price_ladder.more b' = price_ladder.more b" "pool_size (order_pool b') = pool_size (order_pool b)"
      "pool_size (orders_at_price_pool b') = pool_size (orders_at_price_pool b)"
    using link_order_new [OF inv a sd os p slot room us_def vs_def] by blast
  let ?f = "f(sd := us @ (n, [a]) # vs)"
  have view: "side_view b' ls = side_view b ls" if "fst ` set ls \<subseteq> levels_of f" for ls
  proof (rule side_view_cong)
    fix e assume "e \<in> set ls"
    then have "fst e \<noteq> n" using that n(1) by auto
    then show "l_price (L b' (fst e)) = l_price (L b (fst e))" using lev by (simp add: same_level_def)
  qed (simp add: fr)
  have sub: "fst ` set us \<subseteq> levels_of f" "fst ` set vs \<subseteq> levels_of f" "fst ` set (f (opposite sd)) \<subseteq> levels_of f"
    using levels_of_side [OF sd, of f] split by auto
  have "p \<notin> fst ` set (side_view b (f sd))"
    using side_okD(2) [OF side] slot by (force simp: side_view_def getOrdersAtPrice_def)
  then have "enqueue sd p (payload (Ord b a)) (side_view b (f sd)) =
      side_view b us @ (p, [payload (Ord b a)]) # side_view b vs"
    by (simp add: enqueue_new takeWhile_view us_def vs_def)
  moreover have "orders_of ?f = insert a (orders_of f)"
    using orders_of_side [OF sd, of f] orders_of_side [OF sd, of ?f] sd split by auto
  ultimately have "linked b f ex sd p a b' ?f"
    using inv' fr n(2) sd by (simp add: linked_def ladder_frame_def view sub)
  with run show ?thesis by blast
qed

lemma link_order_refines:
  assumes inv: "ladder_inv b f ex" and a: "a \<in> ex" and sd: "trading_side sd"
    and os: "o_side (Ord b a) = sd" and p: "o_price (Ord b a) = p"
    and slot: "\<And>l. getOrdersAtPrice b p = Some l \<Longrightarrow> l_price (L b l) = p \<and> l_side (L b l) = sd"
    and room: "card (live (orders_at_price_pool b)) + 2 \<le> pool_size (orders_at_price_pool b)"
  shows "\<exists>b' f'. link_order (Some a) b = Inr b' \<and> linked b f ex sd p a b' f'"
  using link_order_refines_existing [OF inv a sd os p] link_order_refines_new [OF inv a sd os p _ room] slot
  by (cases "getOrdersAtPrice b p") blast+

subsection \<open>Removing an order\<close>

definition unlinked :: "('x order_node_scheme, 'z) price_ladder_scheme \<Rightarrow> (Side \<Rightarrow> side_list) \<Rightarrow> nat set \<Rightarrow>
    Side \<Rightarrow> nat \<Rightarrow> ('x order_node_scheme, 'z) price_ladder_scheme \<Rightarrow> (Side \<Rightarrow> side_list) \<Rightarrow> bool" where
  "unlinked b f ex sd a b' f' \<longleftrightarrow>
     ladder_inv b' f' (insert a ex) \<and> ladder_frame b b' \<and>
     (\<forall>P. (\<forall>c \<in> orders_of f. P (payload (Ord b c)) \<longleftrightarrow> c = a) \<longrightarrow>
        side_view b' (f' sd) = remove_where P (side_view b (f sd))) \<and>
     side_view b' (f' (opposite sd)) = side_view b (f (opposite sd)) \<and>
     orders_of f' = orders_of f - {a}"

lemma order_position:
  assumes "a \<in> orders_in ls"
  obtains us l qs1 qs2 vs where "ls = us @ (l, qs1 @ a # qs2) # vs"
proof -
  from assms obtain l qs where e: "(l, qs) \<in> set ls" "a \<in> set qs" by (auto simp: orders_in_def)
  from e(1) obtain us vs where "ls = us @ (l, qs) # vs" by (meson split_list)
  moreover from e(2) obtain qs1 qs2 where "qs = qs1 @ a # qs2" by (meson split_list)
  ultimately show ?thesis using that by blast
qed

lemma queue_distinct:
  assumes "ladder_inv b f ex" and "trading_side sd" and "f sd = us @ (l, qs) # vs"
  shows "distinct qs"
proof -
  have "side_ok b sd (f sd)" using assms by (simp add: ladder_inv_side)
  from side_okD(4) [OF this, of l qs] assms(3) show ?thesis by (simp add: ring_def)
qed

lemma orders_of_drop:
  assumes inv: "ladder_inv b f ex" and sd: "trading_side sd" and split: "f sd = us @ (l, qs1 @ a # qs2) # vs"
  shows "orders_of (f(sd := us @ drop_order l qs1 qs2 @ vs)) = orders_of f - {a}"
proof -
  have "distinct (qs1 @ a # qs2)" by (rule queue_distinct [OF inv sd split])
  then show ?thesis
    using orders_of_split(2,4) [OF inv sd split] orders_of_split(3) [OF inv sd split, of "qs1 @ qs2"]
    by (cases "qs1 @ qs2 = []") (auto simp: drop_order_def)
qed

lemma remove_where_view:
  assumes inv: "ladder_inv b f ex" and sd: "trading_side sd" and split: "f sd = us @ (l, qs1 @ a # qs2) # vs"
    and P: "\<forall>c \<in> orders_of f. P (payload (Ord b c)) \<longleftrightarrow> c = a"
  shows "remove_where P (side_view b (f sd)) = side_view b (us @ drop_order l qs1 qs2 @ vs)"
proof -
  have side: "side_ok b sd (f sd)" using inv by (simp add: ladder_inv_side [OF sd])
  have d: "distinct (qs1 @ a # qs2)" by (rule queue_distinct [OF inv sd split])
  have sub: "orders_in us \<union> orders_in vs \<subseteq> orders_of f - {a}" "set (qs1 @ a # qs2) \<subseteq> orders_of f"
    using orders_of_split(1,2) [OF inv sd split] by auto
  have keep: "remove_where P (side_view b ls) = side_view b ls"
    if "orders_in ls \<subseteq> orders_of f - {a}" "set ls \<subseteq> set (f sd)" for ls
  proof (rule remove_where_none)
    show "\<forall>x \<in> set (all_orders (side_view b ls)). \<not> P x"
      using that(1) P by (auto simp: side_view_orders)
    show "\<forall>e \<in> set (side_view b ls). snd e \<noteq> []"
      using that(2) side by (auto simp: side_view_def side_ok_def level_ok_def ring_def subset_iff)
  qed
  have "filter (\<lambda>x. \<not> P x) (map (\<lambda>a. payload (Ord b a)) qs) = map (\<lambda>a. payload (Ord b a)) qs"
    if "a \<notin> set qs" "set qs \<subseteq> orders_of f" for qs
    using that P by (auto simp: filter_id_conv)
  moreover have "P (payload (Ord b a))" using P sub(2) by auto
  moreover have "remove_where P (side_view b us) = side_view b us" "remove_where P (side_view b vs) = side_view b vs"
    using sub(1) split by (intro keep; auto)+
  ultimately show ?thesis using sub(2) d split by (auto simp: drop_order_def)
qed

lemma unlink_order_refines:
  assumes inv: "ladder_inv b f ex" and sd: "trading_side sd" and a: "a \<in> orders_in (f sd)"
  shows "\<exists>b' f'. unlink_order (Some a) b = Inr b' \<and> unlinked b f ex sd a b' f'"
proof -
  have side: "side_ok b sd (f sd)" using inv by (simp add: ladder_inv_side [OF sd])
  obtain us l qs1 qs2 vs where split: "f sd = us @ (l, qs1 @ a # qs2) # vs"
    by (rule order_position [OF a])
  let ?f = "f(sd := us @ drop_order l qs1 qs2 @ vs)"
  obtain b' where run: "unlink_order (Some a) b = Inr b'" and inv': "ladder_inv b' ?f (insert a ex)"
    and lev: "\<forall>m. m \<noteq> l \<or> qs1 @ qs2 \<noteq> [] \<longrightarrow> l_price (L b' m) = l_price (L b m)"
    and fr: "\<forall>c. payload (Ord b' c) = payload (Ord b c)" "price_ladder.more b' = price_ladder.more b"
      "pool_size (order_pool b') = pool_size (order_pool b)"
      "pool_size (orders_at_price_pool b') = pool_size (orders_at_price_pool b)"
    using unlink_order_ok [OF inv sd split] by blast
  have view: "side_view b' ls = side_view b ls" if "l \<notin> fst ` set ls" for ls
    using that lev fr by (intro side_view_cong) auto
  have dl: "l \<notin> fst ` set us" "l \<notin> fst ` set vs" using side_ok_distinct [OF side] split by auto
  have ol: "l \<notin> fst ` set (f (opposite sd))" using levels_apart [OF inv sd] split by auto
  have mid: "side_view b' (drop_order l qs1 qs2) = side_view b (drop_order l qs1 qs2)"
    using lev fr by (intro side_view_cong) (auto simp: drop_order_def)
  have "unlinked b f ex sd a b' ?f"
    unfolding unlinked_def orders_of_drop [OF inv sd split]
    using inv' fr sd remove_where_view [OF inv sd split] by (simp add: ladder_frame_def view dl ol mid)
  with run show ?thesis by blast
qed

subsection \<open>Orders enter and leave the pool outside the levels\<close>

lemma ladder_inv_same_orders:
  assumes "ladder_inv b f ex" and "\<And>c. c \<in> orders_of f \<Longrightarrow> same_place (obj pl c) (Ord b c)"
    and "live pl = orders_of f \<union> ex'" and "orders_of f \<inter> ex' = {}" and "pool_inv pl"
  shows "ladder_inv (b\<lparr>order_pool := pl\<rparr>) f ex'"
proof -
  have "side_ok (b\<lparr>order_pool := pl\<rparr>) sd (f sd) = side_ok b sd (f sd)" if "trading_side sd" for sd
    using assms(2) orders_of_side [OF that] by (intro side_ok_cong) auto
  from this [of Side_BUY] this [of Side_SELL] show ?thesis
    using assms by (auto simp: ladder_inv_def slots_ok_def)
qed

lemma ladder_inv_release:
  assumes inv: "ladder_inv b f (insert a ex)" and a: "a \<notin> ex"
  shows "\<exists>pl. deallocate (Some a) (order_pool b) = Inr pl \<and> ladder_inv (b\<lparr>order_pool := pl\<rparr>) f ex \<and>
    (\<forall>c. obj pl c = Ord b c) \<and> pool_size pl = pool_size (order_pool b)"
proof -
  have pool: "pool_inv (order_pool b)" "a \<in> live (order_pool b)" "orders_of f \<union> insert a ex = live (order_pool b)"
      "orders_of f \<inter> insert a ex = {}"
    using inv by (auto simp: ladder_inv_def)
  obtain pl where pl: "deallocate (Some a) (order_pool b) = Inr pl" "pool_inv pl"
      "pool_size pl = pool_size (order_pool b)" "live pl = live (order_pool b) - {a}" "\<And>j. obj pl j = Ord b j"
    using deallocate_ok [OF pool(1,2)] by blast
  have "ladder_inv (b\<lparr>order_pool := pl\<rparr>) f ex"
    by (rule ladder_inv_same_orders [OF inv]) (use pl pool a in auto)
  with pl show ?thesis by blast
qed

lemma ladder_inv_alloc:
  assumes inv: "ladder_inv b f ex" and room: "card (live (order_pool b)) + 2 \<le> pool_size (order_pool b)"
  shows "\<exists>a pl. allocate x (order_pool b) = Inr (a, pl) \<and> ladder_inv (b\<lparr>order_pool := pl\<rparr>) f (insert a ex) \<and>
    a \<notin> orders_of f \<and> obj pl a = x \<and> (\<forall>c. c \<noteq> a \<longrightarrow> obj pl c = Ord b c) \<and> pool_size pl = pool_size (order_pool b)"
proof -
  have pool: "pool_inv (order_pool b)" "orders_of f \<union> ex = live (order_pool b)" "orders_of f \<inter> ex = {}"
    using inv by (auto simp: ladder_inv_def)
  define a where "a = next_free_index (order_pool b)"
  have a: "a \<notin> orders_of f" "a \<notin> ex" using pool by (auto simp: a_def pool_inv_def live_def)
  obtain pl where pl: "allocate x (order_pool b) = Inr (a, pl)" "pool_inv pl"
      "pool_size pl = pool_size (order_pool b)" "live pl = insert a (live (order_pool b))" "obj pl a = x"
      "\<And>j. j \<noteq> a \<Longrightarrow> obj pl j = Ord b j"
    using allocate_ok [OF pool(1) room, of x] unfolding a_def by blast
  have "same_place (obj pl c) (Ord b c)" if "c \<in> orders_of f" for c
    using pl(6) that a(1) by (metis same_place_refl)
  then have "ladder_inv (b\<lparr>order_pool := pl\<rparr>) f (insert a ex)"
    by (rule ladder_inv_same_orders [OF inv]) (use pl pool a in auto)
  with pl a show ?thesis by blast
qed

subsection \<open>Slots, room and sides\<close>

lemma card_levels: "card (levels_of f) \<le> length (side_view b (f sd)) + length (side_view b (f (opposite sd)))"
  if "trading_side sd"
proof -
  have "card (levels_of f) \<le> card (set (map fst (f sd))) + card (set (map fst (f (opposite sd))))"
    using levels_of_side [OF that, of f] by (simp add: card_Un_le)
  also have "\<dots> \<le> length (map fst (f sd)) + length (map fst (f (opposite sd)))"
    by (intro add_mono card_length)
  finally show ?thesis by (simp add: side_view_def)
qed

lemma orders_in_list: "orders_in ls = set (concat (map snd ls))"
  by (auto simp: orders_in_def)

lemma length_all_orders_view: "length (all_orders (side_view b ls)) = length (concat (map snd ls))"
  by (induction ls) simp_all

lemma card_orders: "card (orders_of f) \<le>
    length (all_orders (side_view b (f sd))) + length (all_orders (side_view b (f (opposite sd))))"
  if "trading_side sd"
proof -
  have "card (orders_of f) \<le> card (set (concat (map snd (f sd)))) + card (set (concat (map snd (f (opposite sd)))))"
    using orders_of_side [OF that, of f] by (simp add: card_Un_le orders_in_list)
  also have "\<dots> \<le> length (concat (map snd (f sd))) + length (concat (map snd (f (opposite sd))))"
    by (intro add_mono card_length)
  finally show ?thesis by (simp add: length_all_orders_view)
qed

text \<open>Prices that do not share a slot of the table with a different price.\<close>

definition slot_free :: "Price \<Rightarrow> 'o book_side \<Rightarrow> bool" where
  "slot_free p ls \<longleftrightarrow> (\<forall>q \<in> prices ls. priceToIndex q = priceToIndex p \<longrightarrow> q = p)"

lemma slot_level:
  assumes inv: "ladder_inv b f ex" and sd: "trading_side sd" and slot: "getOrdersAtPrice b p = Some l"
    and free: "slot_free p (side_view b (f sd))" "slot_free p (side_view b (f (opposite sd)))"
    and opp: "p \<notin> prices (side_view b (f (opposite sd)))"
  obtains qs where "(l, qs) \<in> set (f sd)" and "l_price (L b l) = p" and "l_side (L b l) = sd"
proof -
  have sl: "slots_ok b f" using inv by (simp add: ladder_inv_def)
  have l: "l \<in> levels_of f" "priceToIndex (l_price (L b l)) = priceToIndex p"
    using slot sl by (auto simp: slots_ok_def getOrdersAtPrice_def)
  obtain sd' qs where sd': "trading_side sd'" "(l, qs) \<in> set (f sd')" "level_ok b sd' (l, qs)"
    by (rule level_in_side [OF inv l(1)])
  have price: "l_price (L b l) \<in> prices (side_view b (f sd'))"
    using sd'(2) by (force simp: prices_def side_view_def)
  have "sd' = sd \<or> sd' = opposite sd" using sd sd'(1) by (auto simp: trading_side_def)
  then show ?thesis
  proof
    assume "sd' = sd"
    with sd' price free(1) l(2) that show ?thesis by (auto simp: slot_free_def level_ok_def)
  next
    assume "sd' = opposite sd"
    with price free(2) l(2) opp show ?thesis by (auto simp: slot_free_def)
  qed
qed

text \<open>Room in the pools, on the lists: one block of each pool is never handed out.\<close>

definition has_room :: "(Side \<Rightarrow> 'o book_side) \<Rightarrow> bool" where
  "has_room v \<longleftrightarrow>
     length (v Side_BUY) + length (v Side_SELL) + 2 \<le> MATCHING_ENGINE_MAX_PRICE_LEVELS \<and>
     length (all_orders (v Side_BUY)) + length (all_orders (v Side_SELL)) + 2 \<le> MATCHING_ENGINE_MAX_ORDER_IDS"

lemma has_room_side:
  assumes "trading_side sd"
  shows "has_room v \<longleftrightarrow>
    length (v sd) + length (v (opposite sd)) + 2 \<le> MATCHING_ENGINE_MAX_PRICE_LEVELS \<and>
    length (all_orders (v sd)) + length (all_orders (v (opposite sd))) + 2 \<le> MATCHING_ENGINE_MAX_ORDER_IDS"
  using assms by (auto simp: has_room_def trading_side_def add.commute)

lemma order_in_side:
  assumes inv: "ladder_inv b f ex" and "a \<in> orders_of f"
  shows "a \<in> orders_in (f (o_side (Ord b a)))"
proof -
  have "o_side (Ord b a) = s" if s: "trading_side s" and a: "a \<in> orders_in (f s)" for s
  proof -
    obtain l qs where "(l, qs) \<in> set (f s)" "a \<in> set qs" using a by (auto simp: orders_in_def)
    moreover have "side_ok b s (f s)" using inv s by (simp add: ladder_inv_side)
    ultimately show ?thesis using side_okD(5) by blast
  qed
  with assms(2) show ?thesis unfolding orders_of_def by (metis Un_iff trading_side_simps)
qed

lemma order_side:
  assumes inv: "ladder_inv b f ex" and a: "a \<in> orders_of f"
  shows "trading_side (o_side (Ord b a))"
proof -
  obtain s where s: "trading_side s" "a \<in> orders_in (f s)"
    using a trading_side_simps unfolding orders_of_def by blast
  then obtain l qs where "(l, qs) \<in> set (f s)" "a \<in> set qs" by (auto simp: orders_in_def)
  moreover have "side_ok b s (f s)" using inv s(1) by (simp add: ladder_inv_side)
  ultimately show ?thesis using side_okD(5) s(1) by metis
qed

lemma orders_apart_sides:
  assumes inv: "ladder_inv b f ex" and sd: "trading_side sd"
  shows "orders_in (f sd) \<inter> orders_in (f (opposite sd)) = {}"
proof -
  have "a \<notin> orders_in (f (opposite sd))" if a: "a \<in> orders_in (f sd)" for a
  proof -
    obtain us l qs1 qs2 vs where "f sd = us @ (l, qs1 @ a # qs2) # vs" by (rule order_position [OF a])
    from orders_apart [OF inv sd this] show ?thesis by auto
  qed
  then show ?thesis by blast
qed

end
