(* ===== verification/LockFreeQueue.thy ===== *)
theory LockFreeQueue
  imports CommonTypes
begin

section \<open>The single-producer single-consumer queue of \<^verbatim>\<open>common/LockFreeQueue.hpp\<close>\<close>

text \<open>
  The queue is a ring buffer with a write index, a read index and a separate element counter.
  Writing goes in two calls: \<open>getNextToWrite\<close> gives the slot, \<open>updateWriteIndex\<close> publishes it;
  nothing checks that the ring is full. Reading goes in two calls as well. This theory has the
  operations as each thread sees them when the other is not in the middle of one, the list they
  implement, and the reading loop that every consumer of the system runs.
\<close>

record 'a lfqueue =
  lf_store :: "nat \<Rightarrow> 'a"
  lf_capacity :: nat
  next_write_index :: nat
  next_read_index :: nat
  num_elements :: nat

definition LockFreeQueue :: "'a \<Rightarrow> nat \<Rightarrow> 'a lfqueue" where
  "LockFreeQueue dflt n =
     \<lparr>lf_store = (\<lambda>_. dflt), lf_capacity = n, next_write_index = 0, next_read_index = 0, num_elements = 0\<rparr>"

text \<open>\<open>getNextToWrite\<close> returns the address of a slot: its index here.\<close>

definition getNextToWrite :: "'a lfqueue \<Rightarrow> nat" where
  "getNextToWrite q = next_write_index q"

definition updateWriteIndex :: "'a lfqueue \<Rightarrow> 'a lfqueue" where
  "updateWriteIndex q =
     q\<lparr>next_write_index := (next_write_index q + 1) mod lf_capacity q, num_elements := num_elements q + 1\<rparr>"

definition getNextToRead :: "'a lfqueue \<Rightarrow> 'a option" where
  "getNextToRead q =
     (if next_read_index q = next_write_index q then None else Some (lf_store q (next_read_index q)))"

definition updateReadIndex :: "'a lfqueue \<Rightarrow> 'a lfqueue res" where
  "updateReadIndex q =
     (let q' = q\<lparr>next_read_index := (next_read_index q + 1) mod lf_capacity q\<rparr>
      in bindE (ASSERT (num_elements q' \<noteq> 0) ''Read an invalid element'') (\<lambda>_.
         Inr (q'\<lparr>num_elements := num_elements q' - 1\<rparr>)))"

definition lf_size :: "'a lfqueue \<Rightarrow> nat" where
  "lf_size q = num_elements q"

text \<open>
  What every producer does with the two writing calls:
  \<^verbatim>\<open>auto next_write = q->getNextToWrite(); (*next_write) = x; q->updateWriteIndex();\<close>
\<close>

definition lf_push :: "'a lfqueue \<Rightarrow> 'a \<Rightarrow> 'a lfqueue" where
  "lf_push q x = updateWriteIndex (q\<lparr>lf_store := (lf_store q)(getNextToWrite q := x)\<rparr>)"

text \<open>
  The reading loop of the consumers:
  \<^verbatim>\<open>for (auto x = q->getNextToRead(); q->size() && x; x = q->getNextToRead()) {\<close>
  \<^verbatim>\<open>  body(x); q->updateReadIndex(); }\<close>
\<close>

function lf_drain :: "('a \<Rightarrow> 's \<Rightarrow> 's res) \<Rightarrow> 'a lfqueue \<Rightarrow> 's \<Rightarrow> ('a lfqueue \<times> 's) res" where
  "lf_drain body q s =
     (case getNextToRead q of
        None \<Rightarrow> Inr (q, s)
      | Some x \<Rightarrow>
          if lf_size q = 0 then Inr (q, s)
          else bindE (body x s) (\<lambda>s'. bindE (updateReadIndex q) (\<lambda>q'. lf_drain body q' s')))"
  by pat_completeness auto
termination
  by (relation "measure (\<lambda>(body, q, s). num_elements q)")
     (auto simp: lf_size_def updateReadIndex_def res_simps)

declare lf_drain.simps [simp del]

text \<open>The list a queue holds, and the states in which no element was overwritten.\<close>

definition lf_count :: "'a lfqueue \<Rightarrow> nat" where
  "lf_count q = (next_write_index q + lf_capacity q - next_read_index q) mod lf_capacity q"

definition lf_contents :: "'a lfqueue \<Rightarrow> 'a list" where
  "lf_contents q = map (\<lambda>k. lf_store q ((next_read_index q + k) mod lf_capacity q)) [0..<lf_count q]"

definition lf_inv :: "'a lfqueue \<Rightarrow> bool" where
  "lf_inv q \<longleftrightarrow> next_write_index q < lf_capacity q \<and> next_read_index q < lf_capacity q \<and>
                num_elements q = lf_count q"

fun lf_push_all :: "'a lfqueue \<Rightarrow> 'a list \<Rightarrow> 'a lfqueue" where
  "lf_push_all q [] = q"
| "lf_push_all q (x # xs) = lf_push_all (lf_push q x) xs"

subsection \<open>Index arithmetic\<close>

lemma lf_push_all_append: "lf_push_all q (xs @ ys) = lf_push_all (lf_push_all q xs) ys"
  by (induction xs arbitrary: q) auto

lemma mod_once: "x < 2 * c \<Longrightarrow> x mod c = (if x < c then x else x - (c :: nat))"
  by (simp add: mod_if)

lemma lf_count_eq:
  assumes "next_write_index q < lf_capacity q" and "next_read_index q < lf_capacity q"
  shows "lf_count q =
    (if next_read_index q \<le> next_write_index q then next_write_index q - next_read_index q
     else lf_capacity q + next_write_index q - next_read_index q)"
  using assms by (auto simp: lf_count_def mod_once)

lemma lf_count_less: "lf_inv q \<Longrightarrow> lf_count q < lf_capacity q"
  by (auto simp: lf_inv_def lf_count_def)

lemma write_index_eq:
  assumes "next_write_index q < lf_capacity q" and "next_read_index q < lf_capacity q"
  shows "(next_read_index q + lf_count q) mod lf_capacity q = next_write_index q"
  using assms by (auto simp: lf_count_eq)

lemma length_lf_contents [simp]: "length (lf_contents q) = lf_count q"
  by (simp add: lf_contents_def)

lemma lf_count_0_iff: "lf_inv q \<Longrightarrow> lf_count q = 0 \<longleftrightarrow> next_read_index q = next_write_index q"
  using lf_count_eq [of q] by (auto simp: lf_inv_def)

lemma slot_neq_write:
  assumes "lf_inv q" and "k < lf_count q"
  shows "(next_read_index q + k) mod lf_capacity q \<noteq> next_write_index q"
proof -
  have "next_read_index q + k < 2 * lf_capacity q"
    using assms lf_count_less [OF assms(1)] by (simp add: lf_inv_def)
  from mod_once [OF this] show ?thesis
    using assms lf_count_eq [of q] by (auto simp: lf_inv_def split: if_splits)
qed

subsection \<open>The queue implements a list\<close>

lemma lf_push_frame [simp]:
  "lf_capacity (lf_push q x) = lf_capacity q" "next_read_index (lf_push q x) = next_read_index q"
  "next_write_index (lf_push q x) = (next_write_index q + 1) mod lf_capacity q"
  "num_elements (lf_push q x) = num_elements q + 1"
  "lf_store (lf_push q x) = (lf_store q)(next_write_index q := x)"
  by (simp_all add: lf_push_def updateWriteIndex_def getNextToWrite_def)

lemma lf_push_all_frame [simp]:
  "lf_capacity (lf_push_all q xs) = lf_capacity q"
  "next_read_index (lf_push_all q xs) = next_read_index q"
  "num_elements (lf_push_all q xs) = num_elements q + length xs"
  by (induction xs arbitrary: q) auto

lemma lf_count_push:
  assumes "lf_inv q" and "lf_count q + 1 < lf_capacity q"
  shows "lf_count (lf_push q x) = lf_count q + 1"
proof -
  have w: "(next_write_index q + 1) mod lf_capacity q =
      (if next_write_index q + 1 = lf_capacity q then 0 else next_write_index q + 1)"
    using assms(1) by (auto simp: lf_inv_def)
  have "lf_count (lf_push q x) =
      (if next_read_index q \<le> (next_write_index q + 1) mod lf_capacity q
       then (next_write_index q + 1) mod lf_capacity q - next_read_index q
       else lf_capacity q + (next_write_index q + 1) mod lf_capacity q - next_read_index q)"
    using assms(1) by (subst lf_count_eq) (auto simp: lf_inv_def)
  with assms lf_count_eq [of q] show ?thesis
    unfolding w by (auto simp: lf_inv_def split: if_splits)
qed

lemma lf_inv_push:
  assumes "lf_inv q" and "lf_count q + 1 < lf_capacity q"
  shows "lf_inv (lf_push q x)"
  using assms lf_count_push [OF assms] by (auto simp: lf_inv_def)

lemma lf_contents_push:
  assumes inv: "lf_inv q" and room: "lf_count q + 1 < lf_capacity q"
  shows "lf_contents (lf_push q x) = lf_contents q @ [x]"
proof -
  let ?slot = "\<lambda>k. (next_read_index q + k) mod lf_capacity q"
  have "map (\<lambda>k. ((lf_store q)(next_write_index q := x)) (?slot k)) [0..<lf_count q] =
        map (\<lambda>k. lf_store q (?slot k)) [0..<lf_count q]"
    using slot_neq_write [OF inv] by auto
  moreover have "?slot (lf_count q) = next_write_index q"
    using write_index_eq [of q] inv by (simp add: lf_inv_def)
  ultimately show ?thesis
    by (simp add: lf_contents_def lf_count_push [OF inv room])
qed

lemma getNextToRead_hd:
  assumes "lf_inv q"
  shows "getNextToRead q = (case lf_contents q of [] \<Rightarrow> None | x # _ \<Rightarrow> Some x)"
proof (cases "lf_count q")
  case 0
  then show ?thesis
    using lf_count_0_iff [OF assms] by (simp add: getNextToRead_def lf_contents_def)
next
  case (Suc n)
  then have "lf_contents q = lf_store q (next_read_index q) # map (\<lambda>k. lf_store q ((next_read_index q + k) mod lf_capacity q)) [1..<lf_count q]"
    using assms by (simp add: lf_contents_def upt_conv_Cons lf_inv_def del: upt_Suc)
  then show ?thesis
    using lf_count_0_iff [OF assms] Suc by (simp add: getNextToRead_def)
qed

lemma lf_count_pop:
  assumes "lf_inv q" and "lf_count q \<noteq> 0"
  shows "lf_count (q\<lparr>next_read_index := (next_read_index q + 1) mod lf_capacity q, num_elements := m\<rparr>) =
         lf_count q - 1"
proof -
  have r: "Suc (next_read_index q) mod lf_capacity q =
      (if Suc (next_read_index q) = lf_capacity q then 0 else Suc (next_read_index q))"
    using assms(1) by (auto simp: lf_inv_def)
  show ?thesis
    using assms lf_count_eq [of q]
    by (subst lf_count_eq) (auto simp: lf_inv_def r split: if_splits)
qed

text \<open>The queue after one more, and after all elements were read.\<close>

definition lf_popped :: "'a lfqueue \<Rightarrow> 'a lfqueue" where
  "lf_popped q = q\<lparr>next_read_index := (next_read_index q + 1) mod lf_capacity q, num_elements := num_elements q - 1\<rparr>"

definition lf_emptied :: "'a lfqueue \<Rightarrow> 'a lfqueue" where
  "lf_emptied q = q\<lparr>next_read_index := next_write_index q, num_elements := 0\<rparr>"

lemma lf_emptied_popped [simp]: "lf_emptied (lf_popped q) = lf_emptied q"
  by (simp add: lf_emptied_def lf_popped_def)

lemma lf_emptied_inv: "lf_inv q \<Longrightarrow> lf_inv (lf_emptied q) \<and> lf_contents (lf_emptied q) = []"
  by (simp add: lf_emptied_def lf_inv_def lf_contents_def lf_count_def)

lemma lf_emptied_empty: "lf_inv q \<Longrightarrow> lf_contents q = [] \<Longrightarrow> lf_emptied q = q"
  using lf_count_0_iff [of q] by (simp add: lf_emptied_def lf_inv_def lf_contents_def)

lemma updateReadIndex_tl:
  assumes inv: "lf_inv q" and ne: "lf_contents q \<noteq> []"
  shows "updateReadIndex q = Inr (lf_popped q)" and "lf_inv (lf_popped q)"
    and "lf_contents (lf_popped q) = tl (lf_contents q)" and "lf_capacity (lf_popped q) = lf_capacity q"
proof -
  have n: "lf_count q \<noteq> 0" using ne by (auto simp: lf_contents_def)
  then show "updateReadIndex q = Inr (lf_popped q)"
    using inv by (simp add: updateReadIndex_def lf_inv_def lf_popped_def)
  have cnt: "lf_count (lf_popped q) = lf_count q - 1"
    unfolding lf_popped_def by (rule lf_count_pop [OF inv n])
  then show "lf_inv (lf_popped q)" using inv by (auto simp: lf_inv_def lf_popped_def)
  show "lf_contents (lf_popped q) = tl (lf_contents q)"
  proof (rule nth_equalityI)
    fix i assume "i < length (lf_contents (lf_popped q))"
    then have "Suc i < lf_count q" and "i < lf_count q - Suc 0" using cnt by simp_all
    then show "lf_contents (lf_popped q) ! i = tl (lf_contents q) ! i"
      using cnt by (simp add: lf_contents_def nth_tl lf_popped_def mod_Suc_eq mod_add_left_eq)
  qed (simp add: cnt)
  show "lf_capacity (lf_popped q) = lf_capacity q" by (simp add: lf_popped_def)
qed

lemma updateReadIndex_empty:
  assumes "lf_inv q" and "lf_contents q = []"
  shows "updateReadIndex q = Inl (AssertFailed ''Read an invalid element'')"
  using assms by (simp add: updateReadIndex_def lf_inv_def lf_contents_def)

lemma lf_inv_LockFreeQueue: "0 < n \<Longrightarrow> lf_inv (LockFreeQueue d n)"
  by (simp add: lf_inv_def LockFreeQueue_def lf_count_def)

lemma lf_contents_LockFreeQueue [simp]: "lf_contents (LockFreeQueue d n) = []"
  by (simp add: lf_contents_def LockFreeQueue_def lf_count_def)

lemma lf_count_LockFreeQueue [simp]: "lf_count (LockFreeQueue d n) = 0"
  by (simp add: LockFreeQueue_def lf_count_def)

lemma lf_capacity_LockFreeQueue [simp]: "lf_capacity (LockFreeQueue d n) = n"
  by (simp add: LockFreeQueue_def)

subsection \<open>The queue as an interface\<close>

text \<open>
  The contract between a producer and a consumer: a bounded FIFO list. The clients' lemmas are a
  batch of writes and the reading loop.
\<close>

locale fifo_channel =
  fixes push :: "'q \<Rightarrow> 'a \<Rightarrow> 'q"
    and front :: "'q \<Rightarrow> 'a option"
    and pop :: "'q \<Rightarrow> 'q res"
    and contents :: "'q \<Rightarrow> 'a list"
    and room :: "'q \<Rightarrow> nat"
    and wf :: "'q \<Rightarrow> bool"
  assumes push_contents: "wf q \<Longrightarrow> length (contents q) < room q \<Longrightarrow> contents (push q x) = contents q @ [x]"
    and push_wf: "wf q \<Longrightarrow> length (contents q) < room q \<Longrightarrow> wf (push q x)"
    and push_room: "room (push q x) = room q"
    and front_hd: "wf q \<Longrightarrow> front q = (case contents q of [] \<Rightarrow> None | x # _ \<Rightarrow> Some x)"
    and pop_tl: "wf q \<Longrightarrow> contents q \<noteq> [] \<Longrightarrow>
      \<exists>q'. pop q = Inr q' \<and> wf q' \<and> contents q' = tl (contents q) \<and> room q' = room q"
begin

lemma push_all_contents:
  "wf q \<Longrightarrow> length (contents q) + length xs \<le> room q \<Longrightarrow>
   wf (foldl push q xs) \<and> contents (foldl push q xs) = contents q @ xs \<and> room (foldl push q xs) = room q"
proof (induction xs arbitrary: q)
  case Nil
  then show ?case by simp
next
  case (Cons x xs)
  then have r: "length (contents q) < room q" by simp
  with Cons show ?case
    using push_contents [OF _ r] push_wf [OF _ r] by (simp add: push_room)
qed

text \<open>Reading \<open>length (contents q)\<close> elements, one after the other, returns them in the order written.\<close>

fun read_all :: "nat \<Rightarrow> 'q \<Rightarrow> ('a list \<times> 'q) res" where
  "read_all 0 q = Inr ([], q)"
| "read_all (Suc n) q =
     (case front q of
        None \<Rightarrow> Inr ([], q)
      | Some x \<Rightarrow> bindE (pop q) (\<lambda>q'. bindE (read_all n q') (\<lambda>(xs, q''). Inr (x # xs, q''))))"

lemma read_all_contents:
  "wf q \<Longrightarrow> length (contents q) \<le> n \<Longrightarrow>
   \<exists>q'. read_all n q = Inr (contents q, q') \<and> wf q' \<and> contents q' = []"
proof (induction n arbitrary: q)
  case 0
  then show ?case by simp
next
  case (Suc n)
  show ?case
  proof (cases "contents q")
    case Nil
    with Suc.prems show ?thesis by (simp add: front_hd)
  next
    case (Cons x xs)
    with pop_tl [OF Suc.prems(1)] obtain q' where q': "pop q = Inr q'" "wf q'" "contents q' = xs"
      by auto
    with Suc.IH [of q'] Suc.prems Cons obtain q'' where
      "read_all n q' = Inr (xs, q'')" "wf q''" "contents q'' = []" by auto
    with q' Cons Suc.prems show ?thesis by (simp add: front_hd)
  qed
qed

end

interpretation lq: fifo_channel lf_push getNextToRead updateReadIndex lf_contents
  "\<lambda>q. lf_capacity q - 1" lf_inv
proof unfold_locales
  fix q :: "'a lfqueue"
  assume "lf_inv q" and "lf_contents q \<noteq> []"
  then show "\<exists>q'. updateReadIndex q = Inr q' \<and> lf_inv q' \<and> lf_contents q' = tl (lf_contents q) \<and>
      lf_capacity q' - 1 = lf_capacity q - 1"
    by (simp add: updateReadIndex_tl)
qed (auto simp: lf_contents_push lf_inv_push getNextToRead_hd)

lemma lf_push_all_foldl: "lf_push_all q xs = foldl lf_push q xs"
  by (induction xs arbitrary: q) auto

lemma lf_push_all_contents:
  assumes "lf_inv q" and "lf_count q + length xs < lf_capacity q"
  shows "lf_inv (lf_push_all q xs) \<and> lf_contents (lf_push_all q xs) = lf_contents q @ xs"
  using lq.push_all_contents [of q xs] assms by (simp add: lf_push_all_foldl)

text \<open>The reading loop runs its body over the contents, in order, and leaves the queue empty.\<close>

lemma lf_drain_fold:
  assumes "lf_inv q"
  shows "lf_drain body q s = bindE (fold_res body (lf_contents q) s) (\<lambda>s'. Inr (lf_emptied q, s'))"
  using assms
proof (induction "lf_contents q" arbitrary: q s)
  case Nil
  then show ?case
    by (simp add: lf_drain.simps getNextToRead_hd [OF Nil.prems] lf_emptied_empty Nil.hyps [symmetric])
next
  case (Cons x xs)
  have c: "lf_contents q = x # xs" using Cons.hyps(2) by simp
  then have ne: "lf_contents q \<noteq> []" by simp
  note pop = updateReadIndex_tl [OF Cons.prems ne]
  have "lf_count q \<noteq> 0" using length_lf_contents [of q] c by simp
  then have "lf_drain body q s = bindE (body x s) (\<lambda>s'. lf_drain body (lf_popped q) s')"
    using Cons.prems
    by (subst lf_drain.simps) (simp add: getNextToRead_hd pop(1) c lf_size_def lf_inv_def)
  moreover have "lf_drain body (lf_popped q) s' =
      bindE (fold_res body xs s') (\<lambda>s'. Inr (lf_emptied q, s'))" for s'
    using Cons.hyps(1) [OF _ pop(2)] pop(3) c by simp
  ultimately show ?case by (simp add: c bindE_assoc)
qed

subsection \<open>Properties\<close>

text \<open>First in, first out. Elements written to a queue with room for them are handed to the
  consumer's loop after what was queued before, each exactly once and in the order written; the
  loop ends and leaves the queue empty.\<close>

theorem queue_roundtrip:
  assumes "lf_inv q" and "length (lf_contents q) + length xs < lf_capacity q"
  shows "\<exists>q'. lf_drain body (lf_push_all q xs) s =
             bindE (fold_res body (lf_contents q @ xs) s) (\<lambda>s'. Inr (q', s')) \<and>
           lf_inv q' \<and> lf_contents q' = []"
proof -
  have "lf_inv (lf_push_all q xs) \<and> lf_contents (lf_push_all q xs) = lf_contents q @ xs"
    using lf_push_all_contents [of q xs] assms by simp
  then show ?thesis
    using lf_drain_fold [of "lf_push_all q xs" body s] lf_emptied_inv by metis
qed

theorem queue_roundtrip_witness:
  "\<exists>q'. lf_drain (\<lambda>x s. Inr (s @ [x])) (lf_push_all (LockFreeQueue (0 :: nat) 4) [7, 8, 9]) [] =
        Inr (q', [7, 8, 9])"
  using queue_roundtrip [of "LockFreeQueue (0 :: nat) 4" "[7, 8, 9]" "\<lambda>x s. Inr (s @ [x])" "[]"]
    lf_inv_LockFreeQueue [of 4 "0 :: nat"] by auto

text \<open>Nothing stops a producer that is one element ahead of the room. The write that fills the
  last slot makes the two indices equal, so the consumer sees an empty queue and every element is
  lost, while the element counter says that the queue is full.\<close>

theorem queue_overflow_loses_everything:
  assumes "lf_inv q" and "Suc (length (lf_contents q)) = lf_capacity q"
  shows "getNextToRead (lf_push q x) = None \<and> lf_size (lf_push q x) = lf_capacity q"
proof -
  have "(next_write_index q + 1) mod lf_capacity q =
      Suc ((next_read_index q + lf_count q) mod lf_capacity q) mod lf_capacity q"
    using write_index_eq [of q] assms(1) by (simp add: lf_inv_def)
  also have "\<dots> = (next_read_index q + lf_capacity q) mod lf_capacity q"
    unfolding mod_Suc_eq using assms(2) by (metis add_Suc_right length_lf_contents)
  also have "\<dots> = next_read_index q" using assms(1) by (simp add: lf_inv_def)
  finally show ?thesis using assms by (simp add: getNextToRead_def lf_size_def lf_inv_def)
qed

theorem queue_overflow_witness:
  "getNextToRead (lf_push (lf_push_all (LockFreeQueue (0 :: nat) 3) [1, 2]) 3) = None"
proof -
  let ?q = "lf_push_all (LockFreeQueue (0 :: nat) 3) [1, 2]"
  have "lf_inv ?q \<and> lf_contents ?q = [1, 2]"
    using lf_push_all_contents [of "LockFreeQueue (0 :: nat) 3" "[1, 2]"] lf_inv_LockFreeQueue [of 3 "0 :: nat"]
    by simp
  then show ?thesis using queue_overflow_loses_everything [of ?q 3] by simp
qed

end
