(* ===== verification/Messages.thy ===== *)
theory Messages
  imports CommonTypes LockFreeQueue
begin

section \<open>The messages of the system\<close>

text \<open>
  The packed structs that travel between the processes and through the queues:
  \<^verbatim>\<open>exchange/order_server/ClientRequest.hpp\<close>, \<^verbatim>\<open>exchange/order_server/ClientResponse.hpp\<close> and
  \<^verbatim>\<open>exchange/market_data/MarketUpdate.hpp\<close>, with their default values and printers. The C++ code
  builds most of them by aggregate initialisation, so the order of the fields matters and is kept.
\<close>

subsection \<open>Client requests\<close>

datatype ClientRequestType = CRQ_INVALID | CRQ_NEW | CRQ_CANCEL

fun clientRequestTypeToString :: "ClientRequestType \<Rightarrow> string" where
  "clientRequestTypeToString CRQ_NEW = ''NEW''"
| "clientRequestTypeToString CRQ_CANCEL = ''CANCEL''"
| "clientRequestTypeToString CRQ_INVALID = ''INVALID''"

record MatchingEngineClientRequest =
  rq_type :: ClientRequestType
  rq_client_id :: ClientID
  rq_ticker_id :: TickerID
  rq_order_id :: OrderID
  rq_side :: Side
  rq_price :: Price
  rq_quantity :: Quantity

definition default_request :: MatchingEngineClientRequest where
  "default_request =
     \<lparr>rq_type = CRQ_INVALID, rq_client_id = CLIENT_ID_INVALID, rq_ticker_id = TICKER_ID_INVALID,
      rq_order_id = ORDER_ID_INVALID, rq_side = Side_INVALID, rq_price = PRICE_INVALID,
      rq_quantity = QUANTITY_INVALID\<rparr>"

definition request_toString :: "MatchingEngineClientRequest \<Rightarrow> string" where
  "request_toString r =
     ''MatchingEngineClientRequest'' @ '' ['' @
     ''type:'' @ clientRequestTypeToString (rq_type r) @
     '' client:'' @ clientIdToString (rq_client_id r) @
     '' ticker:'' @ tickerIdToString (rq_ticker_id r) @
     '' oid:'' @ orderIdToString (rq_order_id r) @ '' side:'' @ sideToString (rq_side r) @
     '' qty:'' @ quantityToString (rq_quantity r) @
     '' price:'' @ priceToString (rq_price r) @ '']''"

record OrderManagementClientRequest =
  omrq_sequence_number :: "64 word"
  me_client_request :: MatchingEngineClientRequest

definition om_request_toString :: "OrderManagementClientRequest \<Rightarrow> string" where
  "om_request_toString r =
     ''OrderManagementClientRequest'' @ '' ['' @
     ''seq:'' @ to_string_nat (unat (omrq_sequence_number r)) @
     '' '' @ request_toString (me_client_request r) @ '']''"

subsection \<open>Client responses\<close>

datatype ClientResponseType =
  CRS_INVALID | CRS_ACCEPTED | CRS_CANCELLED | CRS_FILLED | CRS_CANCEL_REJECTED

fun clientResponseTypeToString :: "ClientResponseType \<Rightarrow> string" where
  "clientResponseTypeToString CRS_INVALID = ''INVALID''"
| "clientResponseTypeToString CRS_ACCEPTED = ''ACCEPTED''"
| "clientResponseTypeToString CRS_CANCELLED = ''CANCELLED''"
| "clientResponseTypeToString CRS_FILLED = ''FILLED''"
| "clientResponseTypeToString CRS_CANCEL_REJECTED = ''CANCEL_REJECTED''"

record MatchingEngineClientResponse =
  rs_type :: ClientResponseType
  rs_client_id :: ClientID
  rs_ticker_id :: TickerID
  rs_client_order_id :: OrderID
  rs_market_order_id :: OrderID
  rs_side :: Side
  rs_price :: Price
  rs_exec_quantity :: Quantity
  rs_leaves_quantity :: Quantity

definition default_response :: MatchingEngineClientResponse where
  "default_response =
     \<lparr>rs_type = CRS_INVALID, rs_client_id = CLIENT_ID_INVALID, rs_ticker_id = TICKER_ID_INVALID,
      rs_client_order_id = ORDER_ID_INVALID, rs_market_order_id = ORDER_ID_INVALID,
      rs_side = Side_INVALID, rs_price = PRICE_INVALID, rs_exec_quantity = QUANTITY_INVALID,
      rs_leaves_quantity = QUANTITY_INVALID\<rparr>"

definition response_toString :: "MatchingEngineClientResponse \<Rightarrow> string" where
  "response_toString r =
     ''MatchingEngineClientResponse'' @ '' ['' @
     ''type:'' @ clientResponseTypeToString (rs_type r) @
     '' client:'' @ clientIdToString (rs_client_id r) @
     '' ticker:'' @ tickerIdToString (rs_ticker_id r) @
     '' coid:'' @ orderIdToString (rs_client_order_id r) @
     '' moid:'' @ orderIdToString (rs_market_order_id r) @
     '' side:'' @ sideToString (rs_side r) @
     '' exec_qty:'' @ quantityToString (rs_exec_quantity r) @
     '' leaves_qty:'' @ quantityToString (rs_leaves_quantity r) @
     '' price:'' @ priceToString (rs_price r) @ '']''"

record OrderManagementClientResponse =
  omrs_sequence_number :: "64 word"
  me_client_response :: MatchingEngineClientResponse

definition om_response_toString :: "OrderManagementClientResponse \<Rightarrow> string" where
  "om_response_toString r =
     ''OrderManagementClientResponse'' @ '' ['' @
     ''seq:'' @ to_string_nat (unat (omrs_sequence_number r)) @
     '' '' @ response_toString (me_client_response r) @ '']''"

subsection \<open>Market updates\<close>

datatype MarketUpdateType =
    MU_INVALID | MU_CLEAR | MU_ADD | MU_MODIFY | MU_CANCEL | MU_TRADE
  | MU_SNAPSHOT_START | MU_SNAPSHOT_END

fun marketUpdateTypeToString :: "MarketUpdateType \<Rightarrow> string" where
  "marketUpdateTypeToString MU_ADD = ''ADD''"
| "marketUpdateTypeToString MU_MODIFY = ''MODIFY''"
| "marketUpdateTypeToString MU_CANCEL = ''CANCEL''"
| "marketUpdateTypeToString MU_TRADE = ''TRADE''"
| "marketUpdateTypeToString MU_INVALID = ''INVALID''"
| "marketUpdateTypeToString MU_SNAPSHOT_START = ''SNAPSHOT_START''"
| "marketUpdateTypeToString MU_SNAPSHOT_END = ''SNAPSHOT_END''"
| "marketUpdateTypeToString MU_CLEAR = ''CLEAR''"

record MatchingEngineMarketUpdate =
  mu_type :: MarketUpdateType
  mu_order_id :: OrderID
  mu_ticker_id :: TickerID
  mu_side :: Side
  mu_price :: Price
  mu_quantity :: Quantity
  mu_priority :: Priority

definition default_update :: MatchingEngineMarketUpdate where
  "default_update =
     \<lparr>mu_type = MU_INVALID, mu_order_id = ORDER_ID_INVALID, mu_ticker_id = TICKER_ID_INVALID,
      mu_side = Side_INVALID, mu_price = PRICE_INVALID, mu_quantity = QUANTITY_INVALID,
      mu_priority = PRIORITY_INVALID\<rparr>"

definition update_toString :: "MatchingEngineMarketUpdate \<Rightarrow> string" where
  "update_toString u =
     ''MatchingEngineMarketUpdate'' @ '' ['' @
     '' type:'' @ marketUpdateTypeToString (mu_type u) @
     '' ticker:'' @ tickerIdToString (mu_ticker_id u) @
     '' oid:'' @ orderIdToString (mu_order_id u) @ '' side:'' @ sideToString (mu_side u) @
     '' qty:'' @ quantityToString (mu_quantity u) @
     '' price:'' @ priceToString (mu_price u) @
     '' priority:'' @ priorityToString (mu_priority u) @ '']''"

record MDPMarketUpdate =
  mdp_sequence_number :: "64 word"
  me_market_update :: MatchingEngineMarketUpdate

definition mdp_update_toString :: "MDPMarketUpdate \<Rightarrow> string" where
  "mdp_update_toString u =
     ''MDPMarketUpdate'' @ '' ['' @
     '' seq:'' @ to_string_nat (unat (mdp_sequence_number u)) @
     '' '' @ update_toString (me_market_update u) @ '']''"

text \<open>The four queue types of the system.\<close>

type_synonym ClientRequestLFQueue = "MatchingEngineClientRequest lfqueue"
type_synonym ClientResponseLFQueue = "MatchingEngineClientResponse lfqueue"
type_synonym MarketUpdateLFQueue = "MatchingEngineMarketUpdate lfqueue"
type_synonym MDPMarketUpdateLFQueue = "MDPMarketUpdate lfqueue"

end
