(* ===== verification/OrderBook.thy ===== *)
theory OrderBook
  imports LadderView Messages
begin

section \<open>The matching engine's order book\<close>

text \<open>
  \<^verbatim>\<open>exchange/matching/OrderBook.hpp\<close> and \<^verbatim>\<open>OrderBook.cc\<close>, with the structs of \<^verbatim>\<open>Order.hpp\<close>. The
  book extends the price ladder by the table that finds an order from its client's identifiers and by
  the counter of market order identifiers. \<open>sendClientResponse\<close> and \<open>sendMarketUpdate\<close> of
  \<^verbatim>\<open>MatchingEngine.hpp\<close> push into the two outgoing queues, which the operations thread along as
  \<open>me_out\<close>. The members \<^verbatim>\<open>client_response\<close> and \<^verbatim>\<open>market_update\<close> are scratch space that every
  operation fills before it sends it, and the logger only writes a file: neither is part of the state.
\<close>

record MatchingEngineOrder = order_node +
  o_ticker_id :: TickerID
  o_client_id :: ClientID
  o_client_order_id :: OrderID
  o_market_order_id :: OrderID

record order_book = "MatchingEngineOrder price_ladder" +
  ob_ticker_id :: TickerID
  cid_oid_to_order :: "nat \<Rightarrow> nat \<Rightarrow> ptr"
  next_market_order_id :: OrderID

record me_out =
  outgoing_responses :: ClientResponseLFQueue
  outgoing_market_updates :: MarketUpdateLFQueue

definition default_order :: MatchingEngineOrder where
  "default_order =
     \<lparr>o_side = Side_INVALID, o_price = PRICE_INVALID, o_quantity = QUANTITY_INVALID,
      o_priority = PRIORITY_INVALID, prev_order = None, next_order = None,
      o_ticker_id = TICKER_ID_INVALID, o_client_id = CLIENT_ID_INVALID,
      o_client_order_id = ORDER_ID_INVALID, o_market_order_id = ORDER_ID_INVALID\<rparr>"

text \<open>
  The constructor. It does not initialise its two tables of pointers, but \<open>add\<close> and \<open>cancel\<close> test their
  entries for null. The model takes them as null, which the code relies on: a book is far larger than
  what the allocator serves from recycled memory, so its pages come zeroed from the kernel.
\<close>

definition MatchingEngineOrderBook :: "TickerID \<Rightarrow> order_book" where
  "MatchingEngineOrderBook ticker_id =
     \<lparr>bids_by_price = None, asks_by_price = None, price_orders_at_price = (\<lambda>_. None),
      orders_at_price_pool = MemPool default_level MATCHING_ENGINE_MAX_PRICE_LEVELS,
      order_pool = MemPool default_order MATCHING_ENGINE_MAX_ORDER_IDS,
      ob_ticker_id = ticker_id, cid_oid_to_order = (\<lambda>_ _. None), next_market_order_id = 1\<rparr>"

definition sendClientResponse :: "MatchingEngineClientResponse \<Rightarrow> me_out \<Rightarrow> me_out" where
  "sendClientResponse client_response out =
     out\<lparr>outgoing_responses := lf_push (outgoing_responses out) client_response\<rparr>"

definition sendMarketUpdate :: "MatchingEngineMarketUpdate \<Rightarrow> me_out \<Rightarrow> me_out" where
  "sendMarketUpdate market_update out =
     out\<lparr>outgoing_market_updates := lf_push (outgoing_market_updates out) market_update\<rparr>"

definition generateNewMarketOrderId :: "order_book \<Rightarrow> OrderID \<times> order_book" where
  "generateNewMarketOrderId b =
     (next_market_order_id b, b\<lparr>next_market_order_id := next_market_order_id b + 1\<rparr>)"

definition getNextPriority :: "Price \<Rightarrow> order_book \<Rightarrow> Priority res" where
  "getNextPriority price b =
     (let orders_at_price = getOrdersAtPrice b price in
      if orders_at_price = None then Inr 1
      else
        bindE (lvl_at b orders_at_price) (\<lambda>l.
        bindE (ord_at b (first_order l)) (\<lambda>f.
        bindE (ord_at b (prev_order f)) (\<lambda>v.
        Inr (o_priority v + 1)))))"

text \<open>\<^verbatim>\<open>cid_oid_to_order.at(order->client_id).at(order->client_order_id) = p\<close>.\<close>

definition set_cid_oid :: "ptr \<Rightarrow> MatchingEngineOrder \<Rightarrow> order_book \<Rightarrow> order_book res" where
  "set_cid_oid p v b =
     bindE (arr_at MATCHING_ENGINE_MAX_NUM_CLIENTS (cid_oid_to_order b) (unat (o_client_id v))) (\<lambda>row.
     bindE (arr_set MATCHING_ENGINE_MAX_ORDER_IDS row (unat (o_client_order_id v)) p) (\<lambda>row'.
     Inr (b\<lparr>cid_oid_to_order := (cid_oid_to_order b)(unat (o_client_id v) := row')\<rparr>)))"

definition removeOrder :: "ptr \<Rightarrow> order_book \<Rightarrow> order_book res" where
  "removeOrder = removeOrder_with (set_cid_oid None)"

definition addOrder :: "ptr \<Rightarrow> order_book \<Rightarrow> order_book res" where
  "addOrder order b = bindE (link_order order b) (\<lambda>b1. bindE (ord_at b1 order) (\<lambda>v. set_cid_oid order v b1))"

subsection \<open>Matching\<close>

definition match_order :: "TickerID \<Rightarrow> ClientID \<Rightarrow> Side \<Rightarrow> OrderID \<Rightarrow> OrderID \<Rightarrow> ptr \<Rightarrow> Quantity \<Rightarrow>
    order_book \<times> me_out \<Rightarrow> (order_book \<times> me_out \<times> Quantity) res" where
  "match_order ticker_id client_id side client_order_id new_market_order_id itr leaves_quantity = (\<lambda>(b, out).
     bindE (ord_at b itr) (\<lambda>order0.
     let order_quantity = o_quantity order0;
         fill_quantity = min order_quantity leaves_quantity;
         leaves_quantity' = leaves_quantity - fill_quantity
     in
     bindE (upd_ord itr (\<lambda>v. v\<lparr>o_quantity := o_quantity v - fill_quantity\<rparr>) b) (\<lambda>b1.
     bindE (ord_at b1 itr) (\<lambda>order.
     let out1 = sendClientResponse
           \<lparr>rs_type = CRS_FILLED, rs_client_id = client_id, rs_ticker_id = ticker_id,
            rs_client_order_id = client_order_id, rs_market_order_id = new_market_order_id, rs_side = side,
            rs_price = o_price order, rs_exec_quantity = fill_quantity,
            rs_leaves_quantity = leaves_quantity'\<rparr> out;
         out2 = sendClientResponse
           \<lparr>rs_type = CRS_FILLED, rs_client_id = o_client_id order, rs_ticker_id = ticker_id,
            rs_client_order_id = o_client_order_id order, rs_market_order_id = o_market_order_id order,
            rs_side = o_side order, rs_price = o_price order, rs_exec_quantity = fill_quantity,
            rs_leaves_quantity = o_quantity order\<rparr> out1
     in if o_quantity order = 0
        then
          let out3 = sendMarketUpdate
                \<lparr>mu_type = MU_CANCEL, mu_order_id = o_market_order_id order, mu_ticker_id = ticker_id,
                 mu_side = o_side order, mu_price = o_price order, mu_quantity = order_quantity,
                 mu_priority = PRIORITY_INVALID\<rparr> out2
          in bindE (removeOrder itr b1) (\<lambda>b2. Inr (b2, out3, leaves_quantity'))
        else
          Inr (b1, sendMarketUpdate
                \<lparr>mu_type = MU_MODIFY, mu_order_id = o_market_order_id order, mu_ticker_id = ticker_id,
                 mu_side = o_side order, mu_price = o_price order, mu_quantity = o_quantity order,
                 mu_priority = o_priority order\<rparr> out2, leaves_quantity')))))"

subsection \<open>The matching loop ends\<close>

text \<open>
  Every iteration either uses up the incoming quantity or releases an order, in any state of the
  heap, so the loop needs no bound.
\<close>

lemma upd_ord_live: "upd_ord p g b = Inr b' \<Longrightarrow> live (order_pool b') = live (order_pool b)"
  by (cases p) auto

lemma upd_lvl_pool: "upd_lvl p g b = Inr b' \<Longrightarrow> order_pool b' = order_pool b"
  by (cases p) auto

lemma removeOrderAtPrice_pool: "removeOrderAtPrice sd p b = Inr b' \<Longrightarrow> order_pool b' = order_pool b"
  unfolding removeOrderAtPrice_def
  by (auto simp: bindE_eq_Inr_iff Let_def dest!: upd_lvl_pool split: if_splits)

lemma unlink_order_live:
  assumes "unlink_order p b = Inr b'"
  shows "live (order_pool b') = live (order_pool b)"
  using assms unfolding unlink_order_def
  by (auto simp: bindE_eq_Inr_iff Let_def dest!: upd_ord_live upd_lvl_pool removeOrderAtPrice_pool split: if_splits)

lemma set_cid_oid_pool: "set_cid_oid p v b = Inr b' \<Longrightarrow> order_pool b' = order_pool b"
  by (auto simp: set_cid_oid_def bindE_eq_Inr_iff)

lemma removeOrder_live:
  assumes "removeOrder p b = Inr b'"
  shows "card (live (order_pool b')) < card (live (order_pool b))"
proof -
  from assms obtain b1 v b2 pl where steps: "unlink_order p b = Inr b1" "set_cid_oid None v b1 = Inr b2"
      "deallocate p (order_pool b2) = Inr pl" and b': "b' = b2\<lparr>order_pool := pl\<rparr>"
    by (auto simp: removeOrder_def removeOrder_with_def bindE_eq_Inr_iff)
  from deallocate_Inr [OF steps(3)] obtain i where "i \<in> live (order_pool b2)"
      "live pl = live (order_pool b2) - {i}" by blast
  moreover have "live (order_pool b2) = live (order_pool b)"
    using unlink_order_live [OF steps(1)] set_cid_oid_pool [OF steps(2)] by simp
  ultimately show ?thesis using b' by (simp add: card_Diff1_less del: card_Diff_insert card_Diff_singleton)
qed

lemma match_order_progress:
  assumes "match_order tid cid sd oid mid itr leaves (b, out) = Inr (b', out', leaves')"
  shows "leaves' = 0 \<or> card (live (order_pool b')) < card (live (order_pool b))"
proof (cases itr)
  case None
  then show ?thesis using assms by (simp add: match_order_def)
next
  case (Some a)
  let ?q = "o_quantity (Ord b a)"
  have "leaves = min ?q leaves \<or> ?q = min ?q leaves" by (auto simp: min_def)
  moreover have "card (live (order_pool b')) < card (live (order_pool b))"
    if "removeOrder (Some a) (b\<lparr>order_pool := set_obj a g (order_pool b)\<rparr>) = Inr b'" for g
    using removeOrder_live [OF that] by simp
  ultimately show ?thesis
    using assms Some unfolding match_order_def
    by (auto simp: Let_def bindE_eq_Inr_iff split: if_splits)
qed

text \<open>
  The two loops of \<open>checkForMatch\<close>, one for each side: they walk the best level of the opposite side,
  and stop at a price the incoming order does not reach.
\<close>

definition no_match :: "Side \<Rightarrow> Price \<Rightarrow> Price \<Rightarrow> bool" where
  "no_match side price resting \<longleftrightarrow> (if side = Side_BUY then price < resting else price > resting)"

function match_loop :: "ClientID \<Rightarrow> OrderID \<Rightarrow> TickerID \<Rightarrow> Side \<Rightarrow> Price \<Rightarrow> OrderID \<Rightarrow> Quantity \<Rightarrow>
    order_book \<Rightarrow> me_out \<Rightarrow> (order_book \<times> me_out \<times> Quantity) res" where
  "match_loop client_id client_order_id ticker_id side price new_market_order_id leaves_quantity b out =
     (let best = (if side = Side_BUY then asks_by_price b else bids_by_price b) in
      if leaves_quantity = 0 \<or> best = None then Inr (b, out, leaves_quantity)
      else
        bindE (lvl_at b best) (\<lambda>level.
        bindE (ord_at b (first_order level)) (\<lambda>itr.
        if no_match side price (o_price itr) then Inr (b, out, leaves_quantity)
        else
          bindE (match_order ticker_id client_id side client_order_id new_market_order_id
                   (first_order level) leaves_quantity (b, out)) (\<lambda>(b', out', leaves_quantity').
          match_loop client_id client_order_id ticker_id side price new_market_order_id leaves_quantity' b' out'))))"
  by pat_completeness auto
termination
  by (relation "measure (\<lambda>(_, _, _, _, _, _, leaves, b, _).
        if leaves = 0 then 0 else Suc (card (live (order_pool b))))")
     (auto dest!: match_order_progress)

declare match_loop.simps [simp del]

definition checkForMatch :: "ClientID \<Rightarrow> OrderID \<Rightarrow> TickerID \<Rightarrow> Side \<Rightarrow> Price \<Rightarrow> Quantity \<Rightarrow> OrderID \<Rightarrow>
    order_book \<times> me_out \<Rightarrow> (order_book \<times> me_out \<times> Quantity) res" where
  "checkForMatch client_id client_order_id ticker_id side price quantity new_market_order_id = (\<lambda>(b, out).
     if side = Side_BUY \<or> side = Side_SELL
     then match_loop client_id client_order_id ticker_id side price new_market_order_id quantity b out
     else Inr (b, out, quantity))"

text \<open>
  \<open>add\<close>. The response that acknowledges the order is built by aggregate initialisation with
  \<^verbatim>\<open>ticker_id_\<close> and \<^verbatim>\<open>client_id\<close> in each other's place (\<^verbatim>\<open>OrderBook.cc\<close>, lines 100 to 108), and the
  model keeps it so; the ticker is a 32-bit value as the client is. \<open>add_rest\<close> is the second half of the
  function, for the quantity the matching has left.
\<close>

definition add_rest :: "ClientID \<Rightarrow> OrderID \<Rightarrow> TickerID \<Rightarrow> Side \<Rightarrow> Price \<Rightarrow> OrderID \<Rightarrow>
    order_book \<times> me_out \<times> Quantity \<Rightarrow> (order_book \<times> me_out) res" where
  "add_rest client_id client_order_id ticker_id side price new_market_order_id = (\<lambda>(b, out, leaves_quantity).
     if leaves_quantity \<noteq> 0
     then
       bindE (getNextPriority price b) (\<lambda>priority.
       bindE (allocate \<lparr>o_side = side, o_price = price, o_quantity = leaves_quantity, o_priority = priority,
                        prev_order = None, next_order = None, o_ticker_id = ticker_id, o_client_id = client_id,
                        o_client_order_id = client_order_id, o_market_order_id = new_market_order_id\<rparr>
                (order_pool b)) (\<lambda>(order, pl).
       bindE (addOrder (Some order) (b\<lparr>order_pool := pl\<rparr>)) (\<lambda>b'.
       Inr (b', sendMarketUpdate
              \<lparr>mu_type = MU_ADD, mu_order_id = new_market_order_id, mu_ticker_id = ticker_id, mu_side = side,
               mu_price = price, mu_quantity = leaves_quantity, mu_priority = priority\<rparr> out))))
     else Inr (b, out))"

definition add :: "ClientID \<Rightarrow> OrderID \<Rightarrow> TickerID \<Rightarrow> Side \<Rightarrow> Price \<Rightarrow> Quantity \<Rightarrow>
    order_book \<times> me_out \<Rightarrow> (order_book \<times> me_out) res" where
  "add client_id client_order_id ticker_id side price quantity = (\<lambda>(b, out).
     let (new_market_order_id, b0) = generateNewMarketOrderId b;
         out0 = sendClientResponse
           \<lparr>rs_type = CRS_ACCEPTED, rs_client_id = ticker_id, rs_ticker_id = client_id,
            rs_client_order_id = client_order_id, rs_market_order_id = new_market_order_id, rs_side = side,
            rs_price = price, rs_exec_quantity = 0, rs_leaves_quantity = quantity\<rparr> out
     in
     bindE (checkForMatch client_id client_order_id ticker_id side price quantity new_market_order_id (b0, out0))
       (add_rest client_id client_order_id ticker_id side price new_market_order_id))"

subsection \<open>Cancelling\<close>

definition cancel :: "ClientID \<Rightarrow> OrderID \<Rightarrow> TickerID \<Rightarrow> order_book \<times> me_out \<Rightarrow> (order_book \<times> me_out) res" where
  "cancel client_id order_id ticker_id = (\<lambda>(b, out).
     bindE
       (if unat client_id < MATCHING_ENGINE_MAX_NUM_CLIENTS
        then arr_at MATCHING_ENGINE_MAX_ORDER_IDS (cid_oid_to_order b (unat client_id)) (unat order_id)
        else Inr None) (\<lambda>exchange_order.
     if exchange_order = None
     then Inr (b, sendClientResponse
            \<lparr>rs_type = CRS_CANCEL_REJECTED, rs_client_id = client_id, rs_ticker_id = ticker_id,
             rs_client_order_id = order_id, rs_market_order_id = ORDER_ID_INVALID, rs_side = Side_INVALID,
             rs_price = PRICE_INVALID, rs_exec_quantity = QUANTITY_INVALID,
             rs_leaves_quantity = QUANTITY_INVALID\<rparr> out)
     else
       bindE (ord_at b exchange_order) (\<lambda>v.
       bindE (removeOrder exchange_order b) (\<lambda>b1.
       Inr (b1, sendClientResponse
              \<lparr>rs_type = CRS_CANCELLED, rs_client_id = client_id, rs_ticker_id = ticker_id,
               rs_client_order_id = order_id, rs_market_order_id = o_market_order_id v, rs_side = o_side v,
               rs_price = o_price v, rs_exec_quantity = QUANTITY_INVALID, rs_leaves_quantity = o_quantity v\<rparr>
             (sendMarketUpdate
              \<lparr>mu_type = MU_CANCEL, mu_order_id = o_market_order_id v, mu_ticker_id = ticker_id,
               mu_side = o_side v, mu_price = o_price v, mu_quantity = 0, mu_priority = o_priority v\<rparr> out))))))"

end
