(* ===== verification/BookSpec.thy ===== *)
theory BookSpec
  imports OrderBook
begin

section \<open>What an order book promises\<close>

text \<open>
  The specification of the order book on plain lists: a book is, for each side, a list of prices with
  queues of orders (links left out). \<open>spec_match\<close> fills an incoming quantity against the opposite side
  in price-time order, \<open>spec_add\<close> rests what is left, \<open>spec_cancel\<close> takes an order out. The laws of
  price-time matching are proved here, on the lists; the theory \<open>BookRefine\<close> shows that the code
  computes these functions and sends these messages.
\<close>

type_synonym book = "Side \<Rightarrow> MatchingEngineOrder book_side"

text \<open>A fill: the resting order as it stood, the quantity, and what the incoming order has left.\<close>

type_synonym fill = "MatchingEngineOrder \<times> Quantity \<times> Quantity"

function spec_match :: "Side \<Rightarrow> Price \<Rightarrow> Quantity \<Rightarrow> MatchingEngineOrder book_side \<Rightarrow>
    fill list \<times> MatchingEngineOrder book_side \<times> Quantity" where
  "spec_match sd p leaves [] = ([], [], leaves)"
| "spec_match sd p leaves ((q, []) # ls) = spec_match sd p leaves ls"
| "spec_match sd p leaves ((q, x # xs) # ls) =
     (if leaves = 0 \<or> no_match sd p q then ([], (q, x # xs) # ls, leaves)
      else let fill = min (o_quantity x) leaves in
        if o_quantity x - fill = 0
        then (let (fs, ls', leaves') = spec_match sd p (leaves - fill) (if xs = [] then ls else (q, xs) # ls)
              in ((x, fill, leaves - fill) # fs, ls', leaves'))
        else ([(x, fill, leaves - fill)], (q, x\<lparr>o_quantity := o_quantity x - fill\<rparr> # xs) # ls, leaves - fill))"
  by pat_completeness auto
termination
  by (relation "measure (\<lambda>(_, _, _, ls). length (all_orders ls) + length ls)") auto

definition next_priority :: "Price \<Rightarrow> MatchingEngineOrder book_side \<Rightarrow> Priority" where
  "next_priority p ls = (case map_of ls p of None \<Rightarrow> 1 | Some os \<Rightarrow> o_priority (last os) + 1)"

definition new_order :: "ClientID \<Rightarrow> OrderID \<Rightarrow> TickerID \<Rightarrow> Side \<Rightarrow> Price \<Rightarrow> Quantity \<Rightarrow> OrderID \<Rightarrow> Priority \<Rightarrow>
    MatchingEngineOrder" where
  "new_order cid coid tid sd p leaves moid prio =
     \<lparr>o_side = sd, o_price = p, o_quantity = leaves, o_priority = prio, prev_order = None, next_order = None,
      o_ticker_id = tid, o_client_id = cid, o_client_order_id = coid, o_market_order_id = moid\<rparr>"

text \<open>The book after an order has come in, and the messages its fills cause.\<close>

definition spec_add :: "ClientID \<Rightarrow> OrderID \<Rightarrow> TickerID \<Rightarrow> Side \<Rightarrow> Price \<Rightarrow> Quantity \<Rightarrow> OrderID \<Rightarrow> book \<Rightarrow> book" where
  "spec_add cid coid tid sd p qty moid v =
     (let (fills, rest, leaves) = spec_match sd p qty (v (opposite sd));
          v1 = v(opposite sd := rest)
      in if leaves = 0 then v1
         else v1(sd := enqueue sd p (new_order cid coid tid sd p leaves moid (next_priority p (v sd))) (v sd)))"

definition taker_fill :: "ClientID \<Rightarrow> OrderID \<Rightarrow> TickerID \<Rightarrow> Side \<Rightarrow> OrderID \<Rightarrow> fill \<Rightarrow> MatchingEngineClientResponse" where
  "taker_fill cid coid tid sd moid = (\<lambda>(x, fill, leaves).
     \<lparr>rs_type = CRS_FILLED, rs_client_id = cid, rs_ticker_id = tid, rs_client_order_id = coid,
      rs_market_order_id = moid, rs_side = sd, rs_price = o_price x, rs_exec_quantity = fill,
      rs_leaves_quantity = leaves\<rparr>)"

definition maker_fill :: "TickerID \<Rightarrow> fill \<Rightarrow> MatchingEngineClientResponse" where
  "maker_fill tid = (\<lambda>(x, fill, leaves).
     \<lparr>rs_type = CRS_FILLED, rs_client_id = o_client_id x, rs_ticker_id = tid,
      rs_client_order_id = o_client_order_id x, rs_market_order_id = o_market_order_id x, rs_side = o_side x,
      rs_price = o_price x, rs_exec_quantity = fill, rs_leaves_quantity = o_quantity x - fill\<rparr>)"

definition fill_update :: "TickerID \<Rightarrow> fill \<Rightarrow> MatchingEngineMarketUpdate" where
  "fill_update tid = (\<lambda>(x, fill, leaves).
     if o_quantity x - fill = 0
     then \<lparr>mu_type = MU_CANCEL, mu_order_id = o_market_order_id x, mu_ticker_id = tid, mu_side = o_side x,
           mu_price = o_price x, mu_quantity = o_quantity x, mu_priority = PRIORITY_INVALID\<rparr>
     else \<lparr>mu_type = MU_MODIFY, mu_order_id = o_market_order_id x, mu_ticker_id = tid, mu_side = o_side x,
           mu_price = o_price x, mu_quantity = o_quantity x - fill, mu_priority = o_priority x\<rparr>)"

definition fill_responses :: "ClientID \<Rightarrow> OrderID \<Rightarrow> TickerID \<Rightarrow> Side \<Rightarrow> OrderID \<Rightarrow> fill list \<Rightarrow>
    MatchingEngineClientResponse list" where
  "fill_responses cid coid tid sd moid fs =
     concat (map (\<lambda>f. [taker_fill cid coid tid sd moid f, maker_fill tid f]) fs)"

definition accepted :: "ClientID \<Rightarrow> OrderID \<Rightarrow> TickerID \<Rightarrow> Side \<Rightarrow> Price \<Rightarrow> Quantity \<Rightarrow> OrderID \<Rightarrow>
    MatchingEngineClientResponse" where
  "accepted cid coid tid sd p qty moid =
     \<lparr>rs_type = CRS_ACCEPTED, rs_client_id = tid, rs_ticker_id = cid, rs_client_order_id = coid,
      rs_market_order_id = moid, rs_side = sd, rs_price = p, rs_exec_quantity = 0, rs_leaves_quantity = qty\<rparr>"

definition add_responses :: "ClientID \<Rightarrow> OrderID \<Rightarrow> TickerID \<Rightarrow> Side \<Rightarrow> Price \<Rightarrow> Quantity \<Rightarrow> OrderID \<Rightarrow> book \<Rightarrow>
    MatchingEngineClientResponse list" where
  "add_responses cid coid tid sd p qty moid v =
     accepted cid coid tid sd p qty moid #
     fill_responses cid coid tid sd moid (fst (spec_match sd p qty (v (opposite sd))))"

definition add_updates :: "TickerID \<Rightarrow> Side \<Rightarrow> Price \<Rightarrow> Quantity \<Rightarrow> OrderID \<Rightarrow> book \<Rightarrow>
    MatchingEngineMarketUpdate list" where
  "add_updates tid sd p qty moid v =
     (let (fills, rest, leaves) = spec_match sd p qty (v (opposite sd))
      in map (fill_update tid) fills @
         (if leaves = 0 then []
          else [\<lparr>mu_type = MU_ADD, mu_order_id = moid, mu_ticker_id = tid, mu_side = sd, mu_price = p,
                 mu_quantity = leaves, mu_priority = next_priority p (v sd)\<rparr>]))"

text \<open>Orders are told apart by their client's identifiers.\<close>

definition has_key :: "ClientID \<Rightarrow> OrderID \<Rightarrow> MatchingEngineOrder \<Rightarrow> bool" where
  "has_key cid coid x \<longleftrightarrow> o_client_id x = cid \<and> o_client_order_id x = coid"

definition spec_find :: "ClientID \<Rightarrow> OrderID \<Rightarrow> book \<Rightarrow> MatchingEngineOrder option" where
  "spec_find cid coid v = find (has_key cid coid) (all_orders (v Side_BUY) @ all_orders (v Side_SELL))"

definition spec_cancel :: "ClientID \<Rightarrow> OrderID \<Rightarrow> book \<Rightarrow> book" where
  "spec_cancel cid coid v =
     (case spec_find cid coid v of
        None \<Rightarrow> v
      | Some x \<Rightarrow> v(o_side x := remove_where (has_key cid coid) (v (o_side x))))"

definition cancel_responses :: "ClientID \<Rightarrow> OrderID \<Rightarrow> TickerID \<Rightarrow> book \<Rightarrow> MatchingEngineClientResponse list" where
  "cancel_responses cid coid tid v =
     (case spec_find cid coid v of
        None \<Rightarrow>
          [\<lparr>rs_type = CRS_CANCEL_REJECTED, rs_client_id = cid, rs_ticker_id = tid, rs_client_order_id = coid,
            rs_market_order_id = ORDER_ID_INVALID, rs_side = Side_INVALID, rs_price = PRICE_INVALID,
            rs_exec_quantity = QUANTITY_INVALID, rs_leaves_quantity = QUANTITY_INVALID\<rparr>]
      | Some x \<Rightarrow>
          [\<lparr>rs_type = CRS_CANCELLED, rs_client_id = cid, rs_ticker_id = tid, rs_client_order_id = coid,
            rs_market_order_id = o_market_order_id x, rs_side = o_side x, rs_price = o_price x,
            rs_exec_quantity = QUANTITY_INVALID, rs_leaves_quantity = o_quantity x\<rparr>])"

definition cancel_updates :: "ClientID \<Rightarrow> OrderID \<Rightarrow> TickerID \<Rightarrow> book \<Rightarrow> MatchingEngineMarketUpdate list" where
  "cancel_updates cid coid tid v =
     (case spec_find cid coid v of
        None \<Rightarrow> []
      | Some x \<Rightarrow>
          [\<lparr>mu_type = MU_CANCEL, mu_order_id = o_market_order_id x, mu_ticker_id = tid, mu_side = o_side x,
            mu_price = o_price x, mu_quantity = 0, mu_priority = o_priority x\<rparr>])"

subsection \<open>Well-formed books\<close>

definition side_wf :: "Side \<Rightarrow> MatchingEngineOrder book_side \<Rightarrow> bool" where
  "side_wf sd ls \<longleftrightarrow>
     sorted_wrt (better sd) (map fst ls) \<and>
     (\<forall>(q, xs) \<in> set ls. xs \<noteq> [] \<and> (\<forall>x \<in> set xs. o_side x = sd \<and> o_price x = q \<and> o_quantity x \<noteq> 0))"

definition uncrossed :: "book \<Rightarrow> bool" where
  "uncrossed v \<longleftrightarrow> (\<forall>p \<in> prices (v Side_BUY). \<forall>q \<in> prices (v Side_SELL). p < q)"

definition book_wf :: "book \<Rightarrow> bool" where
  "book_wf v \<longleftrightarrow> side_wf Side_BUY (v Side_BUY) \<and> side_wf Side_SELL (v Side_SELL) \<and> uncrossed v"

lemma side_wf_Nil [simp]: "side_wf sd []"
  by (simp add: side_wf_def)

lemma side_wf_Cons:
  "side_wf sd ((q, xs) # ls) \<longleftrightarrow>
     xs \<noteq> [] \<and> (\<forall>x \<in> set xs. o_side x = sd \<and> o_price x = q \<and> o_quantity x \<noteq> 0) \<and>
     (\<forall>r \<in> prices ls. better sd q r) \<and> side_wf sd ls"
  by (auto simp: side_wf_def prices_def)

subsection \<open>Laws of price-time matching\<close>

text \<open>Total quantities, as numbers.\<close>

definition filled :: "fill list \<Rightarrow> nat" where
  "filled fs = (\<Sum>f \<leftarrow> fs. unat (fst (snd f)))"

definition resting :: "MatchingEngineOrder book_side \<Rightarrow> nat" where
  "resting ls = (\<Sum>x \<leftarrow> all_orders ls. unat (o_quantity x))"

lemma filled_simps [simp]: "filled [] = 0" "filled (f # fs) = unat (fst (snd f)) + filled fs"
  by (simp_all add: filled_def)

lemma resting_simps [simp]:
  "resting [] = 0" "resting (e # ls) = (\<Sum>x \<leftarrow> snd e. unat (o_quantity x)) + resting ls"
  by (simp_all add: resting_def)

text \<open>The three ways a step of matching can go.\<close>

abbreviation drop_head :: "Price \<Rightarrow> 'o list \<Rightarrow> 'o book_side \<Rightarrow> 'o book_side" where
  "drop_head q xs ls \<equiv> (if xs = [] then ls else (q, xs) # ls)"

lemma spec_match_stop:
  "leaves = 0 \<or> no_match sd p q \<Longrightarrow> spec_match sd p leaves ((q, x # xs) # ls) = ([], (q, x # xs) # ls, leaves)"
  by simp

lemma spec_match_full:
  assumes "leaves \<noteq> 0" and "\<not> no_match sd p q" and "o_quantity x \<le> leaves"
    and "spec_match sd p (leaves - o_quantity x) (drop_head q xs ls) = (fs, ls', leaves')"
  shows "spec_match sd p leaves ((q, x # xs) # ls) = ((x, o_quantity x, leaves - o_quantity x) # fs, ls', leaves')"
  using assms by (simp add: Let_def min_def)

lemma spec_match_partial:
  assumes "\<not> no_match sd p q" and "leaves < o_quantity x" and "leaves \<noteq> 0"
  shows "spec_match sd p leaves ((q, x # xs) # ls) =
    ([(x, leaves, 0)], (q, x\<lparr>o_quantity := o_quantity x - leaves\<rparr> # xs) # ls, 0)"
proof -
  have "min (o_quantity x) leaves = leaves" "o_quantity x \<noteq> leaves" using assms(2) by (auto simp: min_def)
  then show ?thesis using assms(1,3) by (simp add: Let_def)
qed

lemmas spec_match_steps = spec_match_stop spec_match_full spec_match_partial

lemma spec_match_induct [case_names Nil Empty Stop Full Partial]:
  assumes "\<And>leaves. P leaves [] ([], [], leaves)"
    and "\<And>leaves q ls r. P leaves ls r \<Longrightarrow> spec_match sd p leaves ls = r \<Longrightarrow> P leaves ((q, []) # ls) r"
    and "\<And>leaves q x xs ls. leaves = 0 \<or> no_match sd p q \<Longrightarrow>
           P leaves ((q, x # xs) # ls) ([], (q, x # xs) # ls, leaves)"
    and "\<And>leaves q x xs ls fs ls' leaves'. leaves \<noteq> 0 \<Longrightarrow> \<not> no_match sd p q \<Longrightarrow> o_quantity x \<le> leaves \<Longrightarrow>
           spec_match sd p (leaves - o_quantity x) (drop_head q xs ls) = (fs, ls', leaves') \<Longrightarrow>
           P (leaves - o_quantity x) (drop_head q xs ls) (fs, ls', leaves') \<Longrightarrow>
           P leaves ((q, x # xs) # ls) ((x, o_quantity x, leaves - o_quantity x) # fs, ls', leaves')"
    and "\<And>leaves q x xs ls. leaves \<noteq> 0 \<Longrightarrow> \<not> no_match sd p q \<Longrightarrow> leaves < o_quantity x \<Longrightarrow>
           P leaves ((q, x # xs) # ls)
             ([(x, leaves, 0)], (q, x\<lparr>o_quantity := o_quantity x - leaves\<rparr> # xs) # ls, 0)"
  shows "P leaves ls (spec_match sd p leaves ls)"
proof (induction "length (all_orders ls) + length ls" arbitrary: leaves ls rule: less_induct)
  case less
  show ?case
  proof (cases ls)
    case Nil
    then show ?thesis using assms(1) by simp
  next
    case (Cons e ls0)
    obtain q ys where e: "e = (q, ys)" by (cases e)
    show ?thesis
    proof (cases ys)
      case Nil
      have "P leaves ls0 (spec_match sd p leaves ls0)" by (rule less) (simp add: Cons e Nil)
      then show ?thesis using assms(2) by (simp add: Cons e Nil)
    next
      case ys: (Cons x xs)
      consider "leaves = 0 \<or> no_match sd p q" | "leaves \<noteq> 0" "\<not> no_match sd p q" "o_quantity x \<le> leaves"
        | "leaves \<noteq> 0" "\<not> no_match sd p q" "leaves < o_quantity x" by force
      then show ?thesis
      proof cases
        case 2
        obtain fs ls' leaves' where r: "spec_match sd p (leaves - o_quantity x) (drop_head q xs ls0) = (fs, ls', leaves')"
          by (metis prod_cases3)
        have "P (leaves - o_quantity x) (drop_head q xs ls0) (fs, ls', leaves')"
          unfolding r [symmetric] by (rule less) (simp add: Cons e ys)
        then show ?thesis
          unfolding Cons e ys spec_match_full [OF 2 r] using assms(4) 2 r by blast
      qed (use assms(3,5) spec_match_stop spec_match_partial in \<open>simp_all add: Cons e ys\<close>)
    qed
  qed
qed

text \<open>No quantity is lost or made: what comes in is filled or left, what is filled leaves the book.\<close>

lemma spec_match_conserves:
  "case spec_match sd p leaves ls of (fs, ls', leaves') \<Rightarrow>
     unat leaves = filled fs + unat leaves' \<and> resting ls = filled fs + resting ls'"
proof (induction rule: spec_match_induct)
  case (Full leaves q x xs ls fs ls' leaves')
  have "unat leaves = unat (o_quantity x) + unat (leaves - o_quantity x)"
    using Full(3) by (simp add: unat_sub word_le_nat_alt)
  with Full show ?case by (auto split: if_splits)
next
  case (Partial leaves q x xs ls)
  have "unat (o_quantity x) = unat leaves + unat (o_quantity x - leaves)"
    using Partial(3) by (simp add: unat_sub word_le_nat_alt word_less_nat_alt)
  then show ?case by simp
qed auto

text \<open>Fills go to the resting orders in price-time order, and all but the last use the order up.\<close>

lemma spec_match_priority:
  "case spec_match sd p leaves ls of (fs, ls', leaves') \<Rightarrow>
     map fst fs = take (length fs) (all_orders ls) \<and>
     (\<forall>f \<in> set (butlast fs). fst (snd f) = o_quantity (fst f)) \<and>
     (\<forall>f \<in> set fs. fst (snd f) \<le> o_quantity (fst f))"
proof (induction rule: spec_match_induct)
  case (Full leaves q x xs ls fs ls' leaves')
  have "all_orders (drop_head q xs ls) = xs @ all_orders ls" by simp
  with Full(5) show ?case by (auto split: if_splits)
qed auto

text \<open>Every fill is at a price the incoming order accepts.\<close>

lemma spec_match_prices_reached:
  assumes "side_wf sd' ls"
  shows "case spec_match sd p leaves ls of (fs, ls', leaves') \<Rightarrow> \<forall>f \<in> set fs. \<not> no_match sd p (o_price (fst f))"
  using assms
proof (induction rule: spec_match_induct)
  case (Full leaves q x xs ls fs ls' leaves')
  then have "side_wf sd' (drop_head q xs ls)" "o_price x = q" by (auto simp: side_wf_Cons)
  with Full show ?case by auto
qed (auto simp: side_wf_Cons)

lemma spec_match_keeps_prices:
  "case spec_match sd p leaves ls of (fs, ls', leaves') \<Rightarrow> prices ls' \<subseteq> prices ls"
proof (induction rule: spec_match_induct)
  case (Full leaves q x xs ls fs ls' leaves')
  then show ?case by (auto split: if_splits)
qed auto

lemma spec_match_keeps_size:
  "case spec_match sd p leaves ls of (fs, ls', leaves') \<Rightarrow>
     length (all_orders ls') \<le> length (all_orders ls) \<and> length ls' \<le> length ls"
proof (induction rule: spec_match_induct)
  case (Full leaves q x xs ls fs ls' leaves')
  then show ?case by (auto split: if_splits)
qed auto

lemma spec_match_keeps_wf:
  assumes "side_wf sd' ls"
  shows "case spec_match sd p leaves ls of (fs, ls', leaves') \<Rightarrow> side_wf sd' ls'"
  using assms
proof (induction rule: spec_match_induct)
  case (Full leaves q x xs ls fs ls' leaves')
  then have "side_wf sd' (drop_head q xs ls)" by (auto simp: side_wf_Cons)
  with Full show ?case by simp
next
  case (Partial leaves q x xs ls)
  then show ?case by (auto simp: side_wf_Cons)
qed (auto simp: side_wf_Cons)

text \<open>Quantity is left only when no resting order can be reached any more.\<close>

lemma spec_match_exhausts:
  assumes "side_wf (opposite sd) ls" and "trading_side sd"
  shows "case spec_match sd p leaves ls of (fs, ls', leaves') \<Rightarrow>
     leaves' = 0 \<or> (\<forall>q \<in> prices ls'. no_match sd p q)"
  using assms(1)
proof (induction rule: spec_match_induct)
  case (Stop leaves q x xs ls)
  have "no_match sd p r" if "no_match sd p q" "better (opposite sd) q r" for r
    using that assms(2) by (auto simp: no_match_def better_def trading_side_def)
  with Stop show ?case by (auto simp: side_wf_Cons)
next
  case (Full leaves q x xs ls fs ls' leaves')
  then have "side_wf (opposite sd) (drop_head q xs ls)" by (auto simp: side_wf_Cons)
  with Full show ?case by simp
qed (auto simp: side_wf_Cons)

lemma spec_match_keeps_keys:
  assumes "\<forall>x \<in> set (all_orders ls). \<not> has_key c k x"
  shows "case spec_match sd p leaves ls of (fs, ls', leaves') \<Rightarrow> \<forall>x \<in> set (all_orders ls'). \<not> has_key c k x"
  using assms
proof (induction rule: spec_match_induct)
  case (Full leaves q x xs ls fs ls' leaves')
  then show ?case by (auto split: if_splits)
qed (auto simp: has_key_def)

lemma spec_match_facts:
  assumes "spec_match sd p leaves ls = (fs, ls', leaves')"
  shows "unat leaves = filled fs + unat leaves'" "resting ls = filled fs + resting ls'"
    "prices ls' \<subseteq> prices ls" "length (all_orders ls') \<le> length (all_orders ls)" "length ls' \<le> length ls"
    "side_wf sd' ls \<Longrightarrow> side_wf sd' ls'" "side_wf sd' ls \<Longrightarrow> f \<in> set fs \<Longrightarrow> \<not> no_match sd p (o_price (fst f))"
    "side_wf (opposite sd) ls \<Longrightarrow> trading_side sd \<Longrightarrow> leaves' \<noteq> 0 \<Longrightarrow> q \<in> prices ls' \<Longrightarrow> no_match sd p q"
    "(\<And>x. x \<in> set (all_orders ls) \<Longrightarrow> \<not> has_key c k x) \<Longrightarrow> x \<in> set (all_orders ls') \<Longrightarrow> \<not> has_key c k x"
  using assms spec_match_conserves [where sd = sd and p = p and leaves = leaves and ls = ls]
    spec_match_keeps_prices [where sd = sd and p = p and leaves = leaves and ls = ls]
    spec_match_keeps_size [where sd = sd and p = p and leaves = leaves and ls = ls]
    spec_match_keeps_wf [where sd = sd and p = p and leaves = leaves and ls = ls and sd' = sd']
    spec_match_prices_reached [where sd = sd and p = p and leaves = leaves and ls = ls and sd' = sd']
    spec_match_exhausts [where sd = sd and p = p and leaves = leaves and ls = ls]
    spec_match_keeps_keys [where sd = sd and p = p and leaves = leaves and ls = ls and c = c and k = k]
  by auto

lemma enqueue_wf:
  assumes "side_wf sd ls" and "trading_side sd" and "o_side x = sd" and "o_price x = p" and "o_quantity x \<noteq> 0"
  shows "side_wf sd (enqueue sd p x ls)"
proof -
  have "sorted_wrt (better sd) (map fst (enqueue sd p x ls))"
    using assms(1,2) by (intro enqueue_sorted) (simp_all add: side_wf_def)
  moreover have "\<forall>(q, xs) \<in> set (enqueue sd p x ls). xs \<noteq> [] \<and> (\<forall>x \<in> set xs. o_side x = sd \<and> o_price x = q \<and> o_quantity x \<noteq> 0)"
    using assms(1,3-5) unfolding side_wf_def by (induction sd p x ls rule: enqueue.induct) auto
  ultimately show ?thesis by (simp add: side_wf_def)
qed

lemma book_wf_side:
  assumes "trading_side sd"
  shows "book_wf v \<longleftrightarrow> side_wf sd (v sd) \<and> side_wf (opposite sd) (v (opposite sd)) \<and>
    (\<forall>p \<in> prices (v sd). \<forall>q \<in> prices (v (opposite sd)). no_match sd p q)"
  using assms by (auto simp: book_wf_def uncrossed_def no_match_def trading_side_def)

lemma spec_add_wf:
  assumes wf: "book_wf v" and sd: "trading_side sd"
  shows "book_wf (spec_add cid coid tid sd p qty moid v)"
proof -
  obtain fs rest leaves where m: "spec_match sd p qty (v (opposite sd)) = (fs, rest, leaves)" by (metis prod_cases3)
  note wf' = wf [unfolded book_wf_side [OF sd]]
  have opp: "side_wf (opposite sd) (v (opposite sd))" using wf' by simp
  have rest: "side_wf (opposite sd) rest" "prices rest \<subseteq> prices (v (opposite sd))"
    using spec_match_facts(3,6) [OF m] opp by simp_all
  show ?thesis
  proof (cases "leaves = 0")
    case True
    then show ?thesis using wf' rest sd m unfolding book_wf_side [OF sd] by (auto simp: spec_add_def)
  next
    case False
    let ?x = "new_order cid coid tid sd p leaves moid (next_priority p (v sd))"
    have "side_wf sd (enqueue sd p ?x (v sd))"
      using wf' sd False by (intro enqueue_wf) (simp_all add: new_order_def)
    moreover have "\<forall>q \<in> prices rest. no_match sd p q"
      using spec_match_facts(8) [OF m opp sd False] by blast
    moreover have "no_match sd r q" if "r \<in> prices (enqueue sd p ?x (v sd))" "q \<in> prices rest" for r q
      using that calculation(2) wf' rest(2) unfolding prices_enqueue by blast
    ultimately show ?thesis using rest(1) sd m False unfolding book_wf_side [OF sd] by (simp add: spec_add_def)
  qed
qed

lemma remove_where_prices: "prices (remove_where P ls) \<subseteq> prices ls"
  by (induction ls) (auto simp: remove_where_def)

lemma remove_where_wf:
  assumes "side_wf sd ls"
  shows "side_wf sd (remove_where P ls)"
  using assms
proof (induction ls)
  case (Cons e ls)
  obtain q xs where "e = (q, xs)" by (cases e)
  moreover have "r \<in> prices (remove_where P ls) \<Longrightarrow> r \<in> prices ls" for r
    using remove_where_prices [of P ls] by blast
  ultimately show ?case using Cons by (auto simp: side_wf_Cons)
qed (simp add: remove_where_def)

lemma spec_find_side:
  assumes "book_wf v" and "spec_find cid coid v = Some x"
  shows "trading_side (o_side x)" "x \<in> set (all_orders (v (o_side x)))" "has_key cid coid x"
proof -
  have x: "x \<in> set (all_orders (v Side_BUY) @ all_orders (v Side_SELL))" "has_key cid coid x"
    using assms(2) unfolding spec_find_def by (metis find_Some_iff nth_mem)+
  moreover have "o_side y = sd" if "side_wf sd ls" "y \<in> set (all_orders ls)" for y sd ls
    using that by (auto simp: side_wf_def all_orders_def)
  ultimately show "trading_side (o_side x)" "x \<in> set (all_orders (v (o_side x)))" "has_key cid coid x"
    using assms(1) unfolding book_wf_def by (metis Un_iff set_append trading_side_simps)+
qed

lemma spec_cancel_wf:
  assumes wf: "book_wf v"
  shows "book_wf (spec_cancel cid coid v)"
proof (cases "spec_find cid coid v")
  case None
  then show ?thesis using wf by (simp add: spec_cancel_def)
next
  case (Some x)
  note sd = spec_find_side(1) [OF wf Some]
  let ?r = "remove_where (has_key cid coid) (v (o_side x))"
  note wf' = wf [unfolded book_wf_side [OF sd]]
  have "side_wf (o_side x) ?r" using wf' by (intro remove_where_wf) simp
  moreover have "no_match (o_side x) p q" if "p \<in> prices ?r" "q \<in> prices (v (opposite (o_side x)))" for p q
    using that wf' remove_where_prices by blast
  ultimately show ?thesis
    using wf' sd unfolding book_wf_side [OF sd] by (simp add: spec_cancel_def Some)
qed

end
