(* ===== verification/BookRefine.thy ===== *)
theory BookRefine
  imports BookSpec
begin

section \<open>The order book does what it promises\<close>

text \<open>
  The representation relation between the pointer structure and the lists of \<open>BookSpec\<close>, and the
  proof that \<open>add\<close> and \<open>cancel\<close> compute \<open>spec_add\<close> and \<open>spec_cancel\<close>, send the messages these
  prescribe, and keep the book well formed.
\<close>

subsection \<open>Representation\<close>

definition order_key :: "MatchingEngineOrder \<Rightarrow> nat \<times> nat" where
  "order_key v = (unat (o_client_id v), unat (o_client_order_id v))"

definition key_ok :: "nat \<times> nat \<Rightarrow> bool" where
  "key_ok k \<longleftrightarrow> fst k < MATCHING_ENGINE_MAX_NUM_CLIENTS \<and> snd k < MATCHING_ENGINE_MAX_ORDER_IDS"

definition find_key :: "order_book \<Rightarrow> nat \<times> nat \<Rightarrow> ptr" where
  "find_key b k = cid_oid_to_order b (fst k) (snd k)"

text \<open>The table finds exactly the linked orders.\<close>

definition index_ok :: "order_book \<Rightarrow> nat set \<Rightarrow> bool" where
  "index_ok b A \<longleftrightarrow>
     (\<forall>a \<in> A. key_ok (order_key (Ord b a)) \<and> find_key b (order_key (Ord b a)) = Some a) \<and>
     (\<forall>k a. find_key b k = Some a \<longrightarrow> a \<in> A \<and> order_key (Ord b a) = k)"

definition core_inv :: "order_book \<Rightarrow> (Side \<Rightarrow> side_list) \<Rightarrow> bool" where
  "core_inv b f \<longleftrightarrow>
     ladder_inv b f {} \<and> index_ok b (orders_of f) \<and>
     pool_size (orders_at_price_pool b) = MATCHING_ENGINE_MAX_PRICE_LEVELS \<and>
     pool_size (order_pool b) = MATCHING_ENGINE_MAX_ORDER_IDS"

definition view :: "order_book \<Rightarrow> (Side \<Rightarrow> side_list) \<Rightarrow> book" where
  "view b f = (\<lambda>sd. side_view b (f sd))"

text \<open>The book \<open>b\<close> holds the lists \<open>v\<close>.\<close>

definition represents :: "order_book \<Rightarrow> book \<Rightarrow> bool" where
  "represents b v \<longleftrightarrow>
     book_wf v \<and> (\<exists>f. core_inv b f \<and> (\<forall>sd. trading_side sd \<longrightarrow> v sd = side_view b (f sd)))"

lemma ladder_inv_cong:
  assumes "bids_by_price b' = bids_by_price b" "asks_by_price b' = asks_by_price b"
    "price_orders_at_price b' = price_orders_at_price b"
    "orders_at_price_pool b' = orders_at_price_pool b" "order_pool b' = order_pool b"
  shows "ladder_inv b' f ex = ladder_inv b f ex" "side_view b' ls = side_view b ls"
  using assms
  by (simp_all add: ladder_inv_def side_ok_def level_ok_def slots_ok_def best_of_def side_view_def)

lemma ladder_inv_book_fields [simp]:
  fixes b :: order_book
  shows "ladder_inv (b\<lparr>cid_oid_to_order := i\<rparr>) f ex = ladder_inv b f ex"
    "ladder_inv (b\<lparr>next_market_order_id := n\<rparr>) f ex = ladder_inv b f ex"
    "side_view (b\<lparr>cid_oid_to_order := i\<rparr>) ls = side_view b ls"
    "side_view (b\<lparr>next_market_order_id := n\<rparr>) ls = side_view b ls"
  by (rule ladder_inv_cong; simp)+

lemma order_book_more:
  assumes "price_ladder.more b' = price_ladder.more b"
  shows "cid_oid_to_order b' = cid_oid_to_order b" "next_market_order_id b' = next_market_order_id b"
    "ob_ticker_id b' = ob_ticker_id b"
  using assms by (cases b'; cases b; simp)+

lemma index_ok_unique:
  assumes "index_ok b A" "a \<in> A" "c \<in> A"
  shows "order_key (Ord b a) = order_key (Ord b c) \<longleftrightarrow> a = c"
  using assms unfolding index_ok_def by (metis option.inject)

lemma has_key_iff: "has_key (o_client_id v) (o_client_order_id v) w \<longleftrightarrow> order_key w = order_key v"
  by (auto simp: has_key_def order_key_def word_unat_eq_iff)

lemma payload_order_sel [simp]:
  "o_client_id (payload v) = o_client_id v" "o_client_order_id (payload v) = o_client_order_id v"
  "o_market_order_id (payload v) = o_market_order_id v" "o_ticker_id (payload v) = o_ticker_id v"
  by (simp_all add: payload_def)

lemma payload_order_fields:
  assumes "payload v = payload w"
  shows "o_client_id v = o_client_id w" "o_client_order_id v = o_client_order_id w"
    "o_market_order_id v = o_market_order_id w" "o_ticker_id v = o_ticker_id w"
  using assms by (metis payload_order_sel)+

lemma order_key_payload [simp]: "order_key (payload v) = order_key v"
  by (simp add: order_key_def)

lemma order_key_cong: "payload v = payload w \<Longrightarrow> order_key v = order_key w"
  by (metis order_key_payload)

lemma set_cid_oid_ok:
  assumes "key_ok (order_key v)"
  shows "\<exists>b'. set_cid_oid p v b = Inr b' \<and> (\<forall>k. find_key b' k = (if k = order_key v then p else find_key b k)) \<and>
    (\<exists>i. b' = b\<lparr>cid_oid_to_order := i\<rparr>)"
  using assms by (auto simp: set_cid_oid_def key_ok_def order_key_def find_key_def)

lemma index_ok_delete:
  assumes idx: "index_ok b A" and a: "a \<in> A"
    and tab: "\<And>k. find_key b' k = (if k = order_key (Ord b a) then None else find_key b k)"
    and same: "\<And>c. order_key (Ord b' c) = order_key (Ord b c)"
  shows "index_ok b' (A - {a})"
  using index_ok_unique [OF idx _ a] idx unfolding index_ok_def tab same by auto

lemma index_ok_insert:
  assumes idx: "index_ok b A" and a: "key_ok (order_key (Ord b' a))" "find_key b (order_key (Ord b' a)) = None"
    and tab: "\<And>k. find_key b' k = (if k = order_key (Ord b' a) then Some a else find_key b k)"
    and same: "\<And>c. c \<in> A \<Longrightarrow> order_key (Ord b' c) = order_key (Ord b c)"
  shows "index_ok b' (insert a A)"
  using idx a same unfolding index_ok_def tab by auto

subsection \<open>Taking an order out of the book\<close>

lemma removeOrder_core:
  assumes core: "core_inv b f" and sd: "trading_side sd" and a: "a \<in> orders_in (f sd)"
    and key: "P = has_key (o_client_id (Ord b a)) (o_client_order_id (Ord b a))"
  shows "\<exists>b' f'. removeOrder (Some a) b = Inr b' \<and> core_inv b' f' \<and>
    side_view b' (f' sd) = remove_where P (side_view b (f sd)) \<and>
    side_view b' (f' (opposite sd)) = side_view b (f (opposite sd)) \<and>
    next_market_order_id b' = next_market_order_id b \<and> ob_ticker_id b' = ob_ticker_id b"
proof -
  have inv: "ladder_inv b f {}" and idx: "index_ok b (orders_of f)" using core by (simp_all add: core_inv_def)
  have aof: "a \<in> orders_of f" using a orders_of_side [OF sd] by auto
  obtain b1 f1 where run1: "unlink_order (Some a) b = Inr b1" and u: "unlinked b f {} sd a b1 f1"
    using unlink_order_refines [OF inv sd a] by blast
  have inv1: "ladder_inv b1 f1 {a}" and fr: "ladder_frame b b1" and of1: "orders_of f1 = orders_of f - {a}"
    and v1: "side_view b1 (f1 sd) = remove_where P (side_view b (f sd))"
      "side_view b1 (f1 (opposite sd)) = side_view b (f (opposite sd))"
    using u index_ok_unique [OF idx _ aof] by (auto simp: unlinked_def key has_key_iff)
  have more: "cid_oid_to_order b1 = cid_oid_to_order b" "next_market_order_id b1 = next_market_order_id b"
      "ob_ticker_id b1 = ob_ticker_id b"
    using fr by (auto simp: ladder_frame_def dest: order_book_more)
  have same: "order_key (Ord b1 c) = order_key (Ord b c)" for c
    using fr by (intro order_key_cong) (simp add: ladder_frame_def)
  have "key_ok (order_key (Ord b1 a))" using idx aof same by (simp add: index_ok_def)
  then obtain b2 i where run2: "set_cid_oid None (Ord b1 a) b1 = Inr b2" and b2: "b2 = b1\<lparr>cid_oid_to_order := i\<rparr>"
    and tab: "\<And>k. find_key b2 k = (if k = order_key (Ord b a) then None else find_key b1 k)"
    using set_cid_oid_ok [of "Ord b1 a" None b1] same by auto
  have inv2: "ladder_inv b2 f1 {a}" using inv1 by (simp add: b2)
  obtain pl where run3: "deallocate (Some a) (order_pool b2) = Inr pl" and
      pl: "ladder_inv (b2\<lparr>order_pool := pl\<rparr>) f1 {}" "\<forall>c. obj pl c = Ord b2 c" "pool_size pl = pool_size (order_pool b2)"
    using ladder_inv_release [OF inv2] by blast
  let ?b = "b2\<lparr>order_pool := pl\<rparr>"
  have "removeOrder (Some a) b = Inr ?b"
    using run1 run2 run3 by (simp add: removeOrder_def removeOrder_with_def)
  moreover have "index_ok ?b (orders_of f1)"
    unfolding of1
  proof (rule index_ok_delete [OF idx aof])
    show "find_key ?b k = (if k = order_key (Ord b a) then None else find_key b k)" for k
      using tab [of k] more(1) by (simp add: find_key_def)
  qed (simp add: pl(2) b2 same)
  moreover have "side_view ?b ls = side_view b1 ls" for ls
    by (rule side_view_cong) (simp_all add: pl(2) b2)
  ultimately show ?thesis
    using core fr pl v1 more by (intro exI [of _ ?b] exI [of _ f1]) (simp add: core_inv_def ladder_frame_def b2)
qed

subsection \<open>One fill\<close>

text \<open>Messages sent, in order.\<close>

definition emit :: "MatchingEngineClientResponse list \<Rightarrow> MatchingEngineMarketUpdate list \<Rightarrow> me_out \<Rightarrow> me_out" where
  "emit rs us out =
     \<lparr>outgoing_responses = lf_push_all (outgoing_responses out) rs,
      outgoing_market_updates = lf_push_all (outgoing_market_updates out) us\<rparr>"

lemma emit_emit [simp]: "emit rs' us' (emit rs us out) = emit (rs @ rs') (us @ us') out"
  by (simp add: emit_def lf_push_all_append)

lemma send_emit [simp]:
  "sendClientResponse r out = emit [r] [] out" "sendMarketUpdate u out = emit [] [u] out" "emit [] [] out = out"
  by (simp_all add: emit_def sendClientResponse_def sendMarketUpdate_def)

text \<open>The head of a side, seen through its view.\<close>

lemma side_head:
  assumes inv: "ladder_inv b f ex" and sd: "trading_side sd" and v: "side_view b (f sd) = (q, x # xs) # ls"
  obtains l a as vs where "f sd = (l, a # as) # vs" and "best_of sd b = Some l" and "first_order (L b l) = Some a"
    and "l_price (L b l) = q" and "payload (Ord b a) = x" and "o_price (Ord b a) = q" and "o_side (Ord b a) = sd"
    and "map (\<lambda>c. payload (Ord b c)) as = xs" and "side_view b vs = ls"
proof -
  have side: "side_ok b sd (f sd)" using inv by (simp add: ladder_inv_side [OF sd])
  obtain l qs vs where f: "f sd = (l, qs) # vs" using v by (cases "f sd") auto
  with v obtain a as where qs: "qs = a # as" by auto
  from f have "(l, qs) \<in> set (f sd)" by simp
  from side_okD [OF side this] side f qs v that show ?thesis by (auto simp: side_ok_def)
qed

lemma set_quantity_core:
  assumes core: "core_inv b f" and sd: "trading_side sd" and f: "f sd = (l, a # as) # vs"
    and b': "b' = b\<lparr>order_pool := set_obj a (\<lambda>v. v\<lparr>o_quantity := o_quantity v - n\<rparr>) (order_pool b)\<rparr>"
  shows "core_inv b' f"
    "side_view b' (f sd) = (l_price (L b l), (payload (Ord b a))\<lparr>o_quantity := o_quantity (Ord b a) - n\<rparr> #
        map (\<lambda>c. payload (Ord b c)) as) # side_view b vs"
    "side_view b' (f (opposite sd)) = side_view b (f (opposite sd))"
proof -
  have inv: "ladder_inv b f {}" using core by (simp add: core_inv_def)
  have inv': "ladder_inv b' f {}"
    unfolding b' by (rule ladder_inv_same_orders [OF inv])
      (use inv in \<open>auto simp: ladder_inv_def same_place_def\<close>)
  have "order_key (Ord b' c) = order_key (Ord b c)" for c by (simp add: b' order_key_def)
  then have "index_ok b' (orders_of f)"
    using core by (simp add: core_inv_def index_ok_def find_key_def b')
  with inv' core show "core_inv b' f" by (simp add: core_inv_def b')
  have split: "f sd = [] @ (l, a # as) # vs" using f by simp
  have "a \<notin> set as" using queue_distinct [OF inv sd split] by simp
  moreover have "a \<notin> orders_in vs" "a \<notin> orders_in (f (opposite sd))"
    using orders_apart [OF inv sd split] by auto
  moreover have "side_view b' ms = side_view b ms" if "a \<notin> orders_in ms" for ms
    using that by (intro side_view_cong) (auto simp: b')
  ultimately show "side_view b' (f (opposite sd)) = side_view b (f (opposite sd))"
    "side_view b' (f sd) = (l_price (L b l), (payload (Ord b a))\<lparr>o_quantity := o_quantity (Ord b a) - n\<rparr> #
        map (\<lambda>c. payload (Ord b c)) as) # side_view b vs"
    using f by (auto simp: b' payload_def)
qed

lemma head_removed:
  assumes core: "core_inv b f" and sd: "trading_side sd" and f: "f sd = (l, a # as) # vs"
  shows "remove_where (has_key (o_client_id (Ord b a)) (o_client_order_id (Ord b a))) (side_view b (f sd)) =
    drop_head (l_price (L b l)) (map (\<lambda>c. payload (Ord b c)) as) (side_view b vs)"
proof -
  have inv: "ladder_inv b f {}" and idx: "index_ok b (orders_of f)" using core by (simp_all add: core_inv_def)
  have split: "f sd = [] @ (l, [] @ a # as) # vs" using f by simp
  have "a \<in> orders_of f" using f orders_of_side [OF sd, of f] by simp
  from index_ok_unique [OF idx _ this]
  have "\<forall>c \<in> orders_of f. has_key (o_client_id (Ord b a)) (o_client_order_id (Ord b a)) (payload (Ord b c)) \<longleftrightarrow> c = a"
    by (simp add: has_key_iff)
  from remove_where_view [OF inv sd split this] show ?thesis by (simp add: drop_order_def)
qed

text \<open>What a step of matching leaves of the book: the two views, and the fields it does not touch.\<close>

definition book_step :: "order_book \<Rightarrow> (Side \<Rightarrow> side_list) \<Rightarrow> Side \<Rightarrow> MatchingEngineOrder book_side \<Rightarrow>
    order_book \<Rightarrow> (Side \<Rightarrow> side_list) \<Rightarrow> bool" where
  "book_step b f opp ls b' f' \<longleftrightarrow>
     core_inv b' f' \<and> side_view b' (f' opp) = ls \<and>
     side_view b' (f' (opposite opp)) = side_view b (f (opposite opp)) \<and>
     next_market_order_id b' = next_market_order_id b \<and> ob_ticker_id b' = ob_ticker_id b"

lemma book_step_trans:
  "book_step b f opp ls b' f' \<Longrightarrow> book_step b' f' opp ls' b'' f'' \<Longrightarrow> book_step b f opp ls' b'' f''"
  by (simp add: book_step_def)

lemma book_step_refl: "core_inv b f \<Longrightarrow> side_view b (f opp) = ls \<Longrightarrow> book_step b f opp ls b f"
  by (simp add: book_step_def)

lemma match_order_unfold:
  assumes q: "o_quantity (Ord b a) = q" and n: "n = min q leaves"
    and b1: "b1 = b\<lparr>order_pool := set_obj a (\<lambda>v. v\<lparr>o_quantity := o_quantity v - n\<rparr>) (order_pool b)\<rparr>"
    and fl: "fl = (payload (Ord b a), n, leaves - n)"
  shows "match_order tid cid sd coid moid (Some a) leaves (b, out) =
    (if q - n = 0
     then bindE (removeOrder (Some a) b1) (\<lambda>b2.
       Inr (b2, emit (fill_responses cid coid tid sd moid [fl]) [fill_update tid fl] out, leaves - n))
     else Inr (b1, emit (fill_responses cid coid tid sd moid [fl]) [fill_update tid fl] out, leaves - n))"
  using q n unfolding b1 fl
  by (simp add: match_order_def Let_def fill_responses_def taker_fill_def maker_fill_def fill_update_def)

lemma match_order_full:
  assumes core: "core_inv b f" and opp: "trading_side opp" and v: "side_view b (f opp) = (q, x # xs) # ls"
    and a: "first_order (L b l) = Some a" "best_of opp b = Some l" and le: "o_quantity x \<le> leaves"
    and fl: "fl = (x, o_quantity x, leaves - o_quantity x)"
  shows "\<exists>b' f'. match_order tid cid sd coid moid (Some a) leaves (b, out) =
      Inr (b', emit (fill_responses cid coid tid sd moid [fl]) [fill_update tid fl] out, leaves - o_quantity x) \<and>
    book_step b f opp (drop_head q xs ls) b' f'"
proof -
  have inv: "ladder_inv b f {}" using core by (simp add: core_inv_def)
  obtain as vs where f: "f opp = (l, a # as) # vs" and x: "payload (Ord b a) = x" and q: "l_price (L b l) = q"
    and xs: "map (\<lambda>c. payload (Ord b c)) as = xs" and ls: "side_view b vs = ls"
    using side_head [OF inv opp v] a by (metis option.inject)
  have qx: "o_quantity (Ord b a) = o_quantity x" using x by auto
  define n where "n = min (o_quantity x) leaves"
  have n: "n = o_quantity x" using le by (simp add: n_def min_def)
  define b1 where "b1 = b\<lparr>order_pool := set_obj a (\<lambda>v. v\<lparr>o_quantity := o_quantity v - n\<rparr>) (order_pool b)\<rparr>"
  note set = set_quantity_core [OF core opp f b1_def]
  have "a \<in> orders_in (f opp)" using f by simp
  from removeOrder_core [OF set(1) opp this refl] obtain b2 f2 where
    run: "removeOrder (Some a) b1 = Inr b2" and core2: "core_inv b2 f2" and
    v2: "side_view b2 (f2 opp) = remove_where (has_key (o_client_id (Ord b1 a)) (o_client_order_id (Ord b1 a)))
            (side_view b1 (f opp))" "side_view b2 (f2 (opposite opp)) = side_view b1 (f (opposite opp))" and
    fr: "next_market_order_id b2 = next_market_order_id b1" "ob_ticker_id b2 = ob_ticker_id b1" by blast
  have "match_order tid cid sd coid moid (Some a) leaves (b, out) =
      Inr (b2, emit (fill_responses cid coid tid sd moid [fl]) [fill_update tid fl] out, leaves - o_quantity x)"
    using match_order_unfold [OF qx n_def b1_def refl, of tid cid sd coid moid out] run x n by (simp add: fl)
  moreover have "side_view b2 (f2 opp) = drop_head q xs ls"
  proof -
    have "l_price (L b1 l) = q" "map (\<lambda>c. payload (Ord b1 c)) as = xs" "side_view b1 vs = ls"
      using set(2) unfolding f q xs ls by simp_all
    then show ?thesis unfolding v2(1) head_removed [OF set(1) opp f] by auto
  qed
  ultimately show ?thesis using core2 v2(2) set(3) fr unfolding book_step_def by (auto simp: b1_def)
qed

lemma match_order_partial:
  assumes core: "core_inv b f" and opp: "trading_side opp" and v: "side_view b (f opp) = (q, x # xs) # ls"
    and a: "first_order (L b l) = Some a" "best_of opp b = Some l" and less: "leaves < o_quantity x"
    and fl: "fl = (x, leaves, 0)"
  shows "\<exists>b' f'. match_order tid cid sd coid moid (Some a) leaves (b, out) =
      Inr (b', emit (fill_responses cid coid tid sd moid [fl]) [fill_update tid fl] out, 0) \<and>
    book_step b f opp ((q, x\<lparr>o_quantity := o_quantity x - leaves\<rparr> # xs) # ls) b' f'"
proof -
  have inv: "ladder_inv b f {}" using core by (simp add: core_inv_def)
  obtain as vs where f: "f opp = (l, a # as) # vs" and x: "payload (Ord b a) = x" and q: "l_price (L b l) = q"
    and xs: "map (\<lambda>c. payload (Ord b c)) as = xs" and ls: "side_view b vs = ls"
    using side_head [OF inv opp v] a by (metis option.inject)
  have qx: "o_quantity (Ord b a) = o_quantity x" using x by auto
  define n where "n = min (o_quantity x) leaves"
  have n: "n = leaves" "o_quantity x \<noteq> leaves" using less by (auto simp: n_def min_def)
  define b1 where "b1 = b\<lparr>order_pool := set_obj a (\<lambda>v. v\<lparr>o_quantity := o_quantity v - n\<rparr>) (order_pool b)\<rparr>"
  note set = set_quantity_core [OF core opp f b1_def]
  have "match_order tid cid sd coid moid (Some a) leaves (b, out) =
      Inr (b1, emit (fill_responses cid coid tid sd moid [fl]) [fill_update tid fl] out, 0)"
    using match_order_unfold [OF qx n_def b1_def refl, of tid cid sd coid moid out] x n by (simp add: fl)
  moreover have "book_step b f opp ((q, x\<lparr>o_quantity := o_quantity x - leaves\<rparr> # xs) # ls) b1 f"
    using set x q xs ls qx n unfolding book_step_def by (simp add: b1_def)
  ultimately show ?thesis by blast
qed

subsection \<open>The matching loop\<close>

lemma best_opposite:
  "trading_side sd \<Longrightarrow> (if sd = Side_BUY then asks_by_price b else bids_by_price b) = best_of (opposite sd) b"
  by (auto simp: best_of_def trading_side_def)

lemma match_loop_stop:
  assumes core: "core_inv b f" and sd: "trading_side sd"
    and stop: "leaves = 0 \<or> side_view b (f (opposite sd)) = [] \<or>
      (\<exists>q x xs ls. side_view b (f (opposite sd)) = (q, x # xs) # ls \<and> no_match sd p q)"
  shows "match_loop cid coid tid sd p moid leaves b out = Inr (b, out, leaves)"
proof -
  have inv: "ladder_inv b f {}" using core by (simp add: core_inv_def)
  have opp: "trading_side (opposite sd)" using sd by simp
  have side: "side_ok b (opposite sd) (f (opposite sd))" using inv by (simp add: ladder_inv_side [OF sd])
  show ?thesis
  proof (cases "leaves = 0 \<or> side_view b (f (opposite sd)) = []")
    case True
    then have "leaves = 0 \<or> best_of (opposite sd) b = None"
      using side by (auto simp: side_ok_def side_view_def)
    then show ?thesis by (subst match_loop.simps) (auto simp: best_opposite [OF sd])
  next
    case False
    with stop obtain q x xs ls where v: "side_view b (f (opposite sd)) = (q, x # xs) # ls" "no_match sd p q" by blast
    obtain l a as vs where "f (opposite sd) = (l, a # as) # vs" and
      h: "best_of (opposite sd) b = Some l" "first_order (L b l) = Some a" "l_price (L b l) = q"
         "payload (Ord b a) = x" "o_price (Ord b a) = q"
      by (rule side_head [OF inv opp v(1)])
    show ?thesis by (subst match_loop.simps) (use v(2) h in \<open>simp add: best_opposite [OF sd]\<close>)
  qed
qed

lemma match_loop_step:
  assumes core: "core_inv b f" and sd: "trading_side sd" and v: "side_view b (f (opposite sd)) = (q, x # xs) # ls"
    and go: "leaves \<noteq> 0" "\<not> no_match sd p q"
  obtains l a where "best_of (opposite sd) b = Some l" and "first_order (L b l) = Some a"
    and "match_loop cid coid tid sd p moid leaves b out =
      bindE (match_order tid cid sd coid moid (Some a) leaves (b, out))
        (\<lambda>(b', out', leaves'). match_loop cid coid tid sd p moid leaves' b' out')"
proof -
  have inv: "ladder_inv b f {}" using core by (simp add: core_inv_def)
  have opp: "trading_side (opposite sd)" using sd by simp
  obtain l a as vs where "f (opposite sd) = (l, a # as) # vs" and
    h: "best_of (opposite sd) b = Some l" "first_order (L b l) = Some a" "l_price (L b l) = q"
       "payload (Ord b a) = x" "o_price (Ord b a) = q"
    by (rule side_head [OF inv opp v])
  moreover have "match_loop cid coid tid sd p moid leaves b out =
      bindE (match_order tid cid sd coid moid (Some a) leaves (b, out))
        (\<lambda>(b', out', leaves'). match_loop cid coid tid sd p moid leaves' b' out')"
    by (subst match_loop.simps) (use h go in \<open>simp add: best_opposite [OF sd]\<close>)
  ultimately show ?thesis using that by blast
qed

text \<open>The loop computes \<open>spec_match\<close> and sends the messages of its fills.\<close>

definition loop_result :: "ClientID \<Rightarrow> OrderID \<Rightarrow> TickerID \<Rightarrow> Side \<Rightarrow> Price \<Rightarrow> OrderID \<Rightarrow> Quantity \<Rightarrow>
    order_book \<Rightarrow> (Side \<Rightarrow> side_list) \<Rightarrow> me_out \<Rightarrow> fill list \<times> MatchingEngineOrder book_side \<times> Quantity \<Rightarrow> bool" where
  "loop_result cid coid tid sd p moid leaves b f out = (\<lambda>(fs, ls', leaves').
     \<exists>b' f'. match_loop cid coid tid sd p moid leaves b out =
         Inr (b', emit (fill_responses cid coid tid sd moid fs) (map (fill_update tid) fs) out, leaves') \<and>
       book_step b f (opposite sd) ls' b' f')"

lemma loop_result_stop:
  assumes "core_inv b f" and "trading_side sd" and "side_view b (f (opposite sd)) = ls"
    and "leaves = 0 \<or> ls = [] \<or> (\<exists>q x xs ls0. ls = (q, x # xs) # ls0 \<and> no_match sd p q)"
  shows "loop_result cid coid tid sd p moid leaves b f out ([], ls, leaves)"
  using match_loop_stop [OF assms(1,2), of leaves p cid coid tid moid out] assms(3,4)
    book_step_refl [OF assms(1), of "opposite sd" ls]
  by (auto simp: loop_result_def fill_responses_def)

lemma loop_result_full:
  assumes core: "core_inv b f" and sd: "trading_side sd" and v: "side_view b (f (opposite sd)) = (q, x # xs) # ls"
    and go: "leaves \<noteq> 0" "\<not> no_match sd p q" and le: "o_quantity x \<le> leaves"
    and IH: "\<And>b f out. core_inv b f \<Longrightarrow> side_view b (f (opposite sd)) = drop_head q xs ls \<Longrightarrow>
      loop_result cid coid tid sd p moid (leaves - o_quantity x) b f out (fs, ls', leaves')"
  shows "loop_result cid coid tid sd p moid leaves b f out
    ((x, o_quantity x, leaves - o_quantity x) # fs, ls', leaves')"
proof -
  define fl where "fl = (x, o_quantity x, leaves - o_quantity x)"
  define out1 where "out1 = emit (fill_responses cid coid tid sd moid [fl]) [fill_update tid fl] out"
  obtain l a where h: "best_of (opposite sd) b = Some l" "first_order (L b l) = Some a"
    and loop: "match_loop cid coid tid sd p moid leaves b out =
      bindE (match_order tid cid sd coid moid (Some a) leaves (b, out))
        (\<lambda>(b', out', leaves'). match_loop cid coid tid sd p moid leaves' b' out')"
    by (rule match_loop_step [OF core sd v go])
  obtain b1 f1 where m: "match_order tid cid sd coid moid (Some a) leaves (b, out) =
      Inr (b1, out1, leaves - o_quantity x)"
    and st1: "book_step b f (opposite sd) (drop_head q xs ls) b1 f1"
    using match_order_full [OF core opposite_simps(1) [OF sd] v h(2,1) le fl_def] unfolding out1_def by blast
  have "core_inv b1 f1" "side_view b1 (f1 (opposite sd)) = drop_head q xs ls"
    using st1 unfolding book_step_def by blast+
  from IH [OF this, of out1] obtain b2 f2 where
    rest: "match_loop cid coid tid sd p moid (leaves - o_quantity x) b1 out1 =
      Inr (b2, emit (fill_responses cid coid tid sd moid fs) (map (fill_update tid) fs) out1, leaves')"
    and st2: "book_step b1 f1 (opposite sd) ls' b2 f2" unfolding loop_result_def by auto
  have "emit (fill_responses cid coid tid sd moid fs) (map (fill_update tid) fs) out1 =
      emit (fill_responses cid coid tid sd moid (fl # fs)) (map (fill_update tid) (fl # fs)) out"
    by (simp add: out1_def fill_responses_def)
  with loop m rest book_step_trans [OF st1 st2] show ?thesis
    unfolding loop_result_def fl_def by auto
qed

lemma loop_result_partial:
  assumes core: "core_inv b f" and sd: "trading_side sd" and v: "side_view b (f (opposite sd)) = (q, x # xs) # ls"
    and go: "leaves \<noteq> 0" "\<not> no_match sd p q" and less: "leaves < o_quantity x"
  shows "loop_result cid coid tid sd p moid leaves b f out
    ([(x, leaves, 0)], (q, x\<lparr>o_quantity := o_quantity x - leaves\<rparr> # xs) # ls, 0)"
proof -
  obtain l a where h: "best_of (opposite sd) b = Some l" "first_order (L b l) = Some a"
    and loop: "match_loop cid coid tid sd p moid leaves b out =
      bindE (match_order tid cid sd coid moid (Some a) leaves (b, out))
        (\<lambda>(b', out', leaves'). match_loop cid coid tid sd p moid leaves' b' out')"
    by (rule match_loop_step [OF core sd v go])
  obtain b1 f1 where m: "match_order tid cid sd coid moid (Some a) leaves (b, out) =
      Inr (b1, emit (fill_responses cid coid tid sd moid [(x, leaves, 0)]) [fill_update tid (x, leaves, 0)] out, 0)"
    and st1: "book_step b f (opposite sd) ((q, x\<lparr>o_quantity := o_quantity x - leaves\<rparr> # xs) # ls) b1 f1"
    using match_order_partial [OF core opposite_simps(1) [OF sd] v h(2,1) less refl] by blast
  have "core_inv b1 f1" using st1 by (simp add: book_step_def)
  from match_loop_stop [OF this sd, of 0] loop m st1 show ?thesis
    unfolding loop_result_def by auto
qed

lemma match_loop_refines:
  assumes sd: "trading_side sd" and "core_inv b f" and "side_view b (f (opposite sd)) = ls"
  shows "loop_result cid coid tid sd p moid leaves b f out (spec_match sd p leaves ls)"
proof -
  have "\<forall>b f out. core_inv b f \<longrightarrow> side_view b (f (opposite sd)) = ls \<longrightarrow>
      loop_result cid coid tid sd p moid leaves b f out (spec_match sd p leaves ls)"
  proof (induction rule: spec_match_induct)
    case (Empty leaves q ls r)
    have "side_view b (f (opposite sd)) \<noteq> (q, []) # ls" if "core_inv b f" for b f
    proof -
      have "side_ok b (opposite sd) (f (opposite sd))" using that by (simp add: core_inv_def ladder_inv_side [OF sd])
      then show ?thesis using side_view_nonempty by (metis list.set_intros(1) snd_conv)
    qed
    then show ?case by blast
  next
    case (Full leaves q x xs ls fs ls' leaves')
    from Full(1-3,5) show ?case by (intro allI impI loop_result_full [OF _ sd]) blast+
  next
    case (Partial leaves q x xs ls)
    then show ?case by (intro allI impI loop_result_partial [OF _ sd])
  qed (intro allI impI loop_result_stop [OF _ sd]; auto)+
  then show ?thesis using assms(2,3) by blast
qed

subsection \<open>Resting an order\<close>

lemma map_of_view:
  assumes "side_ok b sd ls" and "(l, qs) \<in> set ls"
  shows "map_of (side_view b ls) (l_price (L b l)) = Some (map (\<lambda>a. payload (Ord b a)) qs)"
proof (rule map_of_is_SomeI)
  have "sorted_wrt (better sd) (map fst (side_view b ls))" by (rule side_view_sorted [OF assms(1)])
  then show "distinct (map fst (side_view b ls))"
    by (rule sorted_wrt_distinct) (simp add: better_def)
  show "(l_price (L b l), map (\<lambda>a. payload (Ord b a)) qs) \<in> set (side_view b ls)"
    using assms(2) by (force simp: side_view_def)
qed

lemma getNextPriority_ok:
  assumes inv: "ladder_inv b f ex" and sd: "trading_side sd"
    and free: "slot_free p (side_view b (f sd))" "slot_free p (side_view b (f (opposite sd)))"
    and opp: "p \<notin> prices (side_view b (f (opposite sd)))"
  shows "getNextPriority p b = Inr (next_priority p (side_view b (f sd)))"
proof (cases "getOrdersAtPrice b p")
  case None
  have side: "side_ok b sd (f sd)" using inv by (simp add: ladder_inv_side [OF sd])
  have "p \<notin> fst ` set (side_view b (f sd))"
    using side_okD(2) [OF side] None by (force simp: side_view_def getOrdersAtPrice_def)
  then have "map_of (side_view b (f sd)) p = None" by (simp add: map_of_eq_None_iff)
  then show ?thesis using None by (simp add: getNextPriority_def next_priority_def)
next
  case (Some l)
  have side: "side_ok b sd (f sd)" using inv by (simp add: ladder_inv_side [OF sd])
  obtain qs where l: "(l, qs) \<in> set (f sd)" "l_price (L b l) = p" "l_side (L b l) = sd"
    by (rule slot_level [OF inv sd Some free opp])
  note lok = side_okD [OF side l(1)]
  have "qs \<noteq> []" "opv b (hd qs) = Some (last qs)" using lok(4) ring_pv_hd by (auto simp: ring_def)
  then show ?thesis
    using map_of_view [OF side l(1)] lok(3) l(2) Some
    by (simp add: getNextPriority_def next_priority_def last_map)
qed

lemma addOrder_core:
  assumes inv: "ladder_inv b f {a}" and idx: "index_ok b (orders_of f)" and sd: "trading_side sd"
    and x: "Ord b a = x" "o_side x = sd" "o_price x = p" "payload x = x"
    and slot: "\<And>l. getOrdersAtPrice b p = Some l \<Longrightarrow> l_price (L b l) = p \<and> l_side (L b l) = sd"
    and key: "key_ok (order_key x)" "find_key b (order_key x) = None"
    and sizes: "pool_size (orders_at_price_pool b) = MATCHING_ENGINE_MAX_PRICE_LEVELS"
      "pool_size (order_pool b) = MATCHING_ENGINE_MAX_ORDER_IDS"
    and room: "card (live (orders_at_price_pool b)) + 2 \<le> pool_size (orders_at_price_pool b)"
  shows "\<exists>b' f'. addOrder (Some a) b = Inr b' \<and> core_inv b' f' \<and>
    side_view b' (f' sd) = enqueue sd p x (side_view b (f sd)) \<and>
    side_view b' (f' (opposite sd)) = side_view b (f (opposite sd)) \<and>
    next_market_order_id b' = next_market_order_id b \<and> ob_ticker_id b' = ob_ticker_id b"
proof -
  obtain b1 f1 where run1: "link_order (Some a) b = Inr b1" and lk: "linked b f {a} sd p a b1 f1"
    using link_order_refines [OF inv _ sd _ _ slot room] x by auto
  have fr: "ladder_frame b b1" and inv1: "ladder_inv b1 f1 {}" and of1: "orders_of f1 = insert a (orders_of f)"
    using lk by (auto simp: linked_def)
  have more: "cid_oid_to_order b1 = cid_oid_to_order b" "next_market_order_id b1 = next_market_order_id b"
      "ob_ticker_id b1 = ob_ticker_id b"
    using fr by (auto simp: ladder_frame_def dest: order_book_more)
  have keys: "order_key (Ord b1 c) = order_key (Ord b c)" for c
    using fr by (intro order_key_cong) (simp add: ladder_frame_def)
  obtain b2 i where run2: "set_cid_oid (Some a) (Ord b1 a) b1 = Inr b2" and b2: "b2 = b1\<lparr>cid_oid_to_order := i\<rparr>"
    and tab: "\<And>k. find_key b2 k = (if k = order_key x then Some a else find_key b1 k)"
    using set_cid_oid_ok [of "Ord b1 a" "Some a" b1] keys x(1) key(1) by auto
  have "index_ok b2 (orders_of f1)" unfolding of1
  proof (rule index_ok_insert [OF idx])
    show "find_key b2 k = (if k = order_key (Ord b2 a) then Some a else find_key b k)" for k
      using tab [of k] keys [of a] x(1) more(1) by (simp add: find_key_def b2)
  qed (use keys x(1) key in \<open>simp_all add: b2\<close>)
  then have "core_inv b2 f1"
    using inv1 fr sizes by (simp add: core_inv_def b2 ladder_frame_def)
  moreover have "addOrder (Some a) b = Inr b2" using run1 run2 by (simp add: addOrder_def)
  moreover have "side_view b2 (f1 sd) = enqueue sd p x (side_view b (f sd))"
    "side_view b2 (f1 (opposite sd)) = side_view b (f (opposite sd))"
    using lk x by (simp_all add: linked_def b2)
  ultimately show ?thesis using more by (auto simp: b2)
qed

lemma rest_order_core:
  assumes core: "core_inv b f" and sd: "trading_side sd"
    and x: "o_side x = sd" "o_price x = p" "payload x = x"
    and free: "slot_free p (side_view b (f sd))" "slot_free p (side_view b (f (opposite sd)))"
    and opp: "p \<notin> prices (side_view b (f (opposite sd)))"
    and key: "key_ok (order_key x)" "find_key b (order_key x) = None"
    and room: "has_room (view b f)"
  shows "\<exists>a pl b' f'. allocate x (order_pool b) = Inr (a, pl) \<and> addOrder (Some a) (b\<lparr>order_pool := pl\<rparr>) = Inr b' \<and>
    core_inv b' f' \<and> side_view b' (f' sd) = enqueue sd p x (side_view b (f sd)) \<and>
    side_view b' (f' (opposite sd)) = side_view b (f (opposite sd)) \<and>
    next_market_order_id b' = next_market_order_id b \<and> ob_ticker_id b' = ob_ticker_id b"
proof -
  have inv: "ladder_inv b f {}" and idx: "index_ok b (orders_of f)"
    and sizes: "pool_size (orders_at_price_pool b) = MATCHING_ENGINE_MAX_PRICE_LEVELS"
      "pool_size (order_pool b) = MATCHING_ENGINE_MAX_ORDER_IDS"
    using core by (simp_all add: core_inv_def)
  have live: "levels_of f = live (orders_at_price_pool b)" "orders_of f = live (order_pool b)"
    using inv by (auto simp: ladder_inv_def)
  note room' = room [unfolded has_room_side [OF sd] view_def]
  have room_o: "card (live (order_pool b)) + 2 \<le> pool_size (order_pool b)"
    using card_orders [OF sd, of f b] room' sizes live by simp
  have room_l: "card (live (orders_at_price_pool b)) + 2 \<le> pool_size (orders_at_price_pool b)"
    using card_levels [OF sd, of f b] room' sizes live by simp
  obtain a pl where al: "allocate x (order_pool b) = Inr (a, pl)" and a: "a \<notin> orders_of f" "obj pl a = x"
    and inv0: "ladder_inv (b\<lparr>order_pool := pl\<rparr>) f {a}" and pl: "\<forall>c. c \<noteq> a \<longrightarrow> obj pl c = Ord b c"
      "pool_size pl = pool_size (order_pool b)"
    using ladder_inv_alloc [OF inv room_o, of x] by auto
  let ?b0 = "b\<lparr>order_pool := pl\<rparr>"
  have view0: "side_view ?b0 (f s) = side_view b (f s)" if "trading_side s" for s
    using a(1) pl(1) orders_of_side [OF that, of f] by (intro side_view_cong) auto
  have same: "obj pl c = Ord b c" if "c \<in> orders_of f" for c using that a(1) pl(1) by metis
  have "l_price (L ?b0 l) = p \<and> l_side (L ?b0 l) = sd" if "getOrdersAtPrice ?b0 p = Some l" for l
    using that slot_level [OF inv sd _ free opp, of l] by (auto simp: getOrdersAtPrice_def)
  moreover have "index_ok ?b0 (orders_of f)"
    using idx same by (simp add: index_ok_def find_key_def)
  ultimately have "\<exists>b' f'. addOrder (Some a) ?b0 = Inr b' \<and> core_inv b' f' \<and>
      side_view b' (f' sd) = enqueue sd p x (side_view ?b0 (f sd)) \<and>
      side_view b' (f' (opposite sd)) = side_view ?b0 (f (opposite sd)) \<and>
      next_market_order_id b' = next_market_order_id ?b0 \<and> ob_ticker_id b' = ob_ticker_id ?b0"
    using x a key sizes pl(2) room_l by (intro addOrder_core [OF inv0 _ sd]) (simp_all add: find_key_def)
  then show ?thesis using al view0 sd by auto
qed

subsection \<open>Adding an order\<close>

lemma find_key_none:
  assumes "core_inv b f" and "trading_side sd"
    and "\<And>x. x \<in> set (all_orders (side_view b (f sd))) \<union> set (all_orders (side_view b (f (opposite sd)))) \<Longrightarrow>
      \<not> has_key cid coid x"
  shows "find_key b (unat cid, unat coid) = None"
proof (rule ccontr)
  assume "find_key b (unat cid, unat coid) \<noteq> None"
  then obtain a where a: "a \<in> orders_of f" "order_key (Ord b a) = (unat cid, unat coid)"
    using assms(1) unfolding core_inv_def index_ok_def by blast
  then have "has_key cid coid (payload (Ord b a))"
    by (simp add: order_key_def has_key_def word_unat_eq_iff)
  with assms(3) a(1) show False
    using orders_of_side [OF assms(2), of f] by (auto simp: side_view_orders)
qed

lemma spec_find_None:
  "spec_find cid coid v = None \<longleftrightarrow>
   (\<forall>x \<in> set (all_orders (v Side_BUY)) \<union> set (all_orders (v Side_SELL)). \<not> has_key cid coid x)"
  by (auto simp: spec_find_def find_None_iff)

lemma spec_find_None_side:
  assumes "trading_side sd" and "spec_find cid coid v = None"
  shows "x \<in> set (all_orders (v sd)) \<union> set (all_orders (v (opposite sd))) \<Longrightarrow> \<not> has_key cid coid x"
  using assms unfolding spec_find_None by (auto simp: trading_side_def)

text \<open>What \<open>add\<close> does once the loop has filled what it could.\<close>

lemma add_after_match:
  assumes step: "book_step b f (opposite sd) rest b1 f1" and sd: "trading_side sd" and left: "leaves \<noteq> 0"
    and free: "slot_free p (side_view b (f sd))" "slot_free p rest" and opp: "p \<notin> prices rest"
    and key: "unat cid < MATCHING_ENGINE_MAX_NUM_CLIENTS" "unat coid < MATCHING_ENGINE_MAX_ORDER_IDS"
      "\<And>x. x \<in> set (all_orders (side_view b (f sd))) \<union> set (all_orders rest) \<Longrightarrow> \<not> has_key cid coid x"
    and room: "has_room (view b1 f1)"
    and x: "x = new_order cid coid tid sd p leaves moid (next_priority p (side_view b (f sd)))"
  shows "\<exists>a pl b' f'. getNextPriority p b1 = Inr (o_priority x) \<and>
    allocate x (order_pool b1) = Inr (a, pl) \<and> addOrder (Some a) (b1\<lparr>order_pool := pl\<rparr>) = Inr b' \<and>
    core_inv b' f' \<and> side_view b' (f' sd) = enqueue sd p x (side_view b (f sd)) \<and>
    side_view b' (f' (opposite sd)) = rest \<and> next_market_order_id b' = next_market_order_id b"
proof -
  have core: "core_inv b1 f1" and v1: "side_view b1 (f1 (opposite sd)) = rest" "side_view b1 (f1 sd) = side_view b (f sd)"
    and nid: "next_market_order_id b1 = next_market_order_id b"
    using step by (simp_all add: book_step_def)
  have inv: "ladder_inv b1 f1 {}" using core by (simp add: core_inv_def)
  have "getNextPriority p b1 = Inr (o_priority x)"
    using getNextPriority_ok [OF inv sd] free opp v1 by (simp add: x new_order_def)
  moreover have "key_ok (order_key x)" using key by (simp add: x new_order_def key_ok_def order_key_def)
  moreover have "find_key b1 (order_key x) = None"
    using find_key_none [OF core sd, of cid coid] key(3) v1 by (simp add: x new_order_def order_key_def)
  ultimately show ?thesis
    using rest_order_core [OF core sd, of x p] free opp v1 room nid by (auto simp: x new_order_def payload_def)
qed

theorem add_refines_core:
  assumes core: "core_inv b f" and wf: "book_wf (view b f)" and sd: "trading_side sd"
    and key: "unat cid < MATCHING_ENGINE_MAX_NUM_CLIENTS" "unat coid < MATCHING_ENGINE_MAX_ORDER_IDS"
      "spec_find cid coid (view b f) = None"
    and free: "slot_free p (view b f sd)" "slot_free p (view b f (opposite sd))"
    and room: "has_room (view b f)"
  shows "\<exists>b' f'. add cid coid tid sd p qty (b, out) =
      Inr (b', emit (add_responses cid coid tid sd p qty (next_market_order_id b) (view b f))
                    (add_updates tid sd p qty (next_market_order_id b) (view b f)) out) \<and>
    core_inv b' f' \<and> (\<forall>s. trading_side s \<longrightarrow>
      side_view b' (f' s) = spec_add cid coid tid sd p qty (next_market_order_id b) (view b f) s) \<and>
    next_market_order_id b' = next_market_order_id b + 1"
proof -
  let ?moid = "next_market_order_id b"
  define b0 where "b0 = b\<lparr>next_market_order_id := ?moid + 1\<rparr>"
  define out0 where "out0 = emit [accepted cid coid tid sd p qty ?moid] [] out"
  have core0: "core_inv b0 f" using core by (simp add: b0_def core_inv_def index_ok_def find_key_def)
  have v0: "side_view b0 (f s) = view b f s" for s by (simp add: b0_def view_def)
  obtain fs rest leaves where m: "spec_match sd p qty (view b f (opposite sd)) = (fs, rest, leaves)"
    by (metis prod_cases3)
  note facts = spec_match_facts [OF m]
  obtain b1 f1 where loop: "match_loop cid coid tid sd p ?moid qty b0 out0 =
      Inr (b1, emit (fill_responses cid coid tid sd ?moid fs) (map (fill_update tid) fs) out0, leaves)"
    and st: "book_step b0 f (opposite sd) rest b1 f1"
    using match_loop_refines [OF sd core0 refl, of cid coid tid p ?moid qty out0] m
    unfolding v0 loop_result_def by auto
  have core1: "core_inv b1 f1" and v1: "side_view b1 (f1 (opposite sd)) = rest" "side_view b1 (f1 sd) = view b f sd"
    and nid: "next_market_order_id b1 = ?moid + 1"
    using st v0 [of sd] by (simp_all add: book_step_def b0_def)
  have run: "add cid coid tid sd p qty (b, out) = bindE (match_loop cid coid tid sd p ?moid qty b0 out0)
      (add_rest cid coid tid sd p ?moid)"
    using sd by (auto simp: add_def generateNewMarketOrderId_def checkForMatch_def b0_def out0_def accepted_def trading_side_def)
  have both: "(\<forall>s. trading_side s \<longrightarrow> P s) \<longleftrightarrow> P sd \<and> P (opposite sd)" for P
    using sd by (auto simp: trading_side_def)
  show ?thesis
  proof (cases "leaves = 0")
    case True
    then show ?thesis
      unfolding both using run loop core1 v1 nid m sd
      by (auto simp: add_rest_def out0_def spec_add_def add_responses_def add_updates_def)
  next
    case False
    define x where "x = new_order cid coid tid sd p leaves ?moid (next_priority p (side_view b0 (f sd)))"
    have opp: "side_wf (opposite sd) (view b f (opposite sd))" using wf by (simp add: book_wf_side [OF sd])
    have "p \<notin> prices rest" using facts(8) [OF opp sd False, of p] by (auto simp: no_match_def)
    moreover have "slot_free p (side_view b0 (f sd))" "slot_free p rest"
      using free facts(3) unfolding v0 slot_free_def by blast+
    moreover have "\<not> has_key cid coid y" if "y \<in> set (all_orders (side_view b0 (f sd))) \<union> set (all_orders rest)" for y
      using that facts(9) [of cid coid y] spec_find_None_side [OF sd key(3)] unfolding v0 by blast
    moreover have "has_room (view b1 f1)"
      using room facts(4,5) unfolding has_room_side [OF sd] by (simp add: view_def [of b1 f1] v1)
    ultimately obtain a pl b' f' where r: "getNextPriority p b1 = Inr (o_priority x)"
      "allocate x (order_pool b1) = Inr (a, pl)" "addOrder (Some a) (b1\<lparr>order_pool := pl\<rparr>) = Inr b'"
      "core_inv b' f'" "side_view b' (f' sd) = enqueue sd p x (view b f sd)" "side_view b' (f' (opposite sd)) = rest"
      "next_market_order_id b' = ?moid + 1"
      using add_after_match [OF st sd False _ _ _ key(1,2) _ _ x_def] unfolding v0 by (auto simp: b0_def)
    have "add_rest cid coid tid sd p ?moid (b1, out1, leaves) =
        Inr (b', emit [] [\<lparr>mu_type = MU_ADD, mu_order_id = ?moid, mu_ticker_id = tid, mu_side = sd, mu_price = p,
          mu_quantity = leaves, mu_priority = o_priority x\<rparr>] out1)" for out1
      using r(1-3) False by (simp add: add_rest_def x_def new_order_def)
    then show ?thesis
      unfolding both using run loop r m sd False
      by (auto simp: out0_def spec_add_def add_responses_def add_updates_def x_def v0 new_order_def)
  qed
qed

subsection \<open>Cancelling an order\<close>

lemma all_orders_view:
  "set (all_orders (view b f Side_BUY) @ all_orders (view b f Side_SELL)) = (\<lambda>a. payload (Ord b a)) ` orders_of f"
  by (auto simp: view_def side_view_orders orders_of_def)

lemma spec_find_view:
  assumes core: "core_inv b f"
  shows "spec_find cid coid (view b f) = map_option (\<lambda>a. payload (Ord b a)) (find_key b (unat cid, unat coid))"
proof (cases "find_key b (unat cid, unat coid)")
  case None
  have "\<not> has_key cid coid (payload (Ord b a))" if "a \<in> orders_of f" for a
  proof
    assume "has_key cid coid (payload (Ord b a))"
    then have "order_key (Ord b a) = (unat cid, unat coid)" by (simp add: has_key_def order_key_def)
    then show False using core that None by (metis core_inv_def index_ok_def option.distinct(1))
  qed
  then show ?thesis using None unfolding spec_find_def by (simp add: find_None_iff all_orders_view del: set_append)
next
  case (Some a)
  have idx: "index_ok b (orders_of f)" using core by (simp add: core_inv_def)
  have a: "a \<in> orders_of f" "order_key (Ord b a) = (unat cid, unat coid)"
    using idx Some unfolding index_ok_def by blast+
  have only: "has_key cid coid (payload (Ord b c)) \<longleftrightarrow> c = a" if "c \<in> orders_of f" for c
    using index_ok_unique [OF idx that a(1)] a(2)
    by (auto simp: has_key_def order_key_def word_unat_eq_iff)
  let ?xs = "all_orders (view b f Side_BUY) @ all_orders (view b f Side_SELL)"
  have "find (has_key cid coid) ?xs \<noteq> None"
    using only a(1) all_orders_view [of b f] unfolding find_None_iff by blast
  then obtain x where x: "find (has_key cid coid) ?xs = Some x" by blast
  then have "x \<in> set ?xs" "has_key cid coid x" by (metis find_Some_iff nth_mem)+
  then have "x = payload (Ord b a)" using only unfolding all_orders_view by blast
  with x Some show ?thesis by (simp add: spec_find_def)
qed

lemma cancel_refines_core:
  assumes core: "core_inv b f" and wf: "book_wf (view b f)"
    and dom: "unat cid < MATCHING_ENGINE_MAX_NUM_CLIENTS \<Longrightarrow> unat coid < MATCHING_ENGINE_MAX_ORDER_IDS"
  shows "\<exists>b' f'. cancel cid coid tid (b, out) =
      Inr (b', emit (cancel_responses cid coid tid (view b f)) (cancel_updates cid coid tid (view b f)) out) \<and>
    core_inv b' f' \<and> (\<forall>s. trading_side s \<longrightarrow> side_view b' (f' s) = spec_cancel cid coid (view b f) s) \<and>
    next_market_order_id b' = next_market_order_id b"
proof (cases "find_key b (unat cid, unat coid)")
  case None
  then have none: "spec_find cid coid (view b f) = None" by (simp add: spec_find_view [OF core])
  have "cancel cid coid tid (b, out) = Inr (b, emit (cancel_responses cid coid tid (view b f)) [] out)"
    using None dom none by (auto simp: cancel_def find_key_def cancel_responses_def)
  then show ?thesis using core none by (auto simp: cancel_updates_def spec_cancel_def view_def)
next
  case (Some a)
  have idx: "index_ok b (orders_of f)" using core by (simp add: core_inv_def)
  have a: "a \<in> orders_of f" "order_key (Ord b a) = (unat cid, unat coid)" "key_ok (unat cid, unat coid)"
    using idx Some unfolding index_ok_def by (metis)+
  have found: "spec_find cid coid (view b f) = Some (payload (Ord b a))"
    using Some by (simp add: spec_find_view [OF core])
  define sd where "sd = o_side (Ord b a)"
  have sd: "trading_side sd" using spec_find_side(1) [OF wf found] by (simp add: sd_def)
  have key: "has_key (o_client_id (Ord b a)) (o_client_order_id (Ord b a)) = has_key cid coid"
    using spec_find_side(3) [OF wf found] by (auto simp: has_key_def)
  have "a \<in> orders_in (f sd)"
    unfolding sd_def using core a(1) by (intro order_in_side [of b f "{}"]) (simp_all add: core_inv_def)
  from removeOrder_core [OF core sd this refl] obtain b' f' where r: "removeOrder (Some a) b = Inr b'" "core_inv b' f'"
      "side_view b' (f' sd) = remove_where (has_key cid coid) (side_view b (f sd))"
      "side_view b' (f' (opposite sd)) = side_view b (f (opposite sd))"
      "next_market_order_id b' = next_market_order_id b"
    unfolding key by blast
  have "cancel cid coid tid (b, out) =
      Inr (b', emit (cancel_responses cid coid tid (view b f)) (cancel_updates cid coid tid (view b f)) out)"
    using Some a(3) r(1) found
    by (simp add: cancel_def find_key_def key_ok_def cancel_responses_def cancel_updates_def)
  moreover have "spec_cancel cid coid (view b f) = (view b f)(sd := remove_where (has_key cid coid) (view b f sd))"
    by (simp add: spec_cancel_def found sd_def)
  then have "side_view b' (f' s) = spec_cancel cid coid (view b f) s" if s: "trading_side s" for s
  proof -
    have "s = sd \<or> s = opposite sd" using sd s by (auto simp: trading_side_def)
    then show ?thesis using \<open>spec_cancel cid coid (view b f) = _\<close> r(3,4) sd by (auto simp: view_def)
  qed
  ultimately show ?thesis using r by blast
qed

subsection \<open>The contract of the book\<close>

lemma same_sides:
  assumes "v Side_BUY = w Side_BUY" and "v Side_SELL = w Side_SELL"
  shows "book_wf v = book_wf w" "has_room v = has_room w" "spec_find cid coid v = spec_find cid coid w"
    "trading_side sd \<Longrightarrow> v sd = w sd"
  using assms by (auto simp: book_wf_def uncrossed_def has_room_def spec_find_def trading_side_def)

lemma represents_view:
  assumes "represents b v"
  obtains f where "core_inv b f" and "v Side_BUY = view b f Side_BUY" and "v Side_SELL = view b f Side_SELL"
  using assms unfolding represents_def view_def by (metis trading_side_simps)

lemma initial_book: "represents (MatchingEngineOrderBook t) (\<lambda>_. [])"
proof -
  have "core_inv (MatchingEngineOrderBook t) (\<lambda>_. [])"
    by (simp add: core_inv_def ladder_inv_def side_ok_def slots_ok_def levels_of_def orders_of_def index_ok_def
        find_key_def MatchingEngineOrderBook_def best_of_def pool_inv_MemPool limit_defs)
  then show ?thesis by (auto simp: represents_def book_wf_def uncrossed_def)
qed

lemma add_represents:
  assumes rep: "represents b v" and sd: "trading_side sd"
    and key: "unat cid < MATCHING_ENGINE_MAX_NUM_CLIENTS" "unat coid < MATCHING_ENGINE_MAX_ORDER_IDS"
      "spec_find cid coid v = None"
    and free: "slot_free p (v Side_BUY)" "slot_free p (v Side_SELL)" and room: "has_room v"
  shows "\<exists>b'. add cid coid tid sd p qty (b, out) =
      Inr (b', emit (add_responses cid coid tid sd p qty (next_market_order_id b) v)
                    (add_updates tid sd p qty (next_market_order_id b) v) out) \<and>
    represents b' (spec_add cid coid tid sd p qty (next_market_order_id b) v) \<and>
    next_market_order_id b' = next_market_order_id b + 1"
proof -
  let ?moid = "next_market_order_id b"
  obtain f where core: "core_inv b f" and sides: "v Side_BUY = view b f Side_BUY" "v Side_SELL = view b f Side_SELL"
    by (rule represents_view [OF rep])
  note eq = same_sides [OF sides]
  have wf: "book_wf v" using rep by (simp add: represents_def)
  have opp: "trading_side (opposite sd)" using sd by simp
  have "slot_free p (view b f sd)" "slot_free p (view b f (opposite sd))"
    using free sides sd by (auto simp: trading_side_def)
  from add_refines_core [OF core _ sd key(1,2) _ this, of tid qty out] wf key(3) room eq(1-3) obtain b' f' where
    run: "add cid coid tid sd p qty (b, out) = Inr (b', emit (add_responses cid coid tid sd p qty ?moid (view b f))
                    (add_updates tid sd p qty ?moid (view b f)) out)" and core': "core_inv b' f'" and
    v': "\<And>s. trading_side s \<Longrightarrow> side_view b' (f' s) = spec_add cid coid tid sd p qty ?moid (view b f) s" and
    nid: "next_market_order_id b' = ?moid + 1" by auto
  have same: "add_responses cid coid tid sd p qty ?moid (view b f) = add_responses cid coid tid sd p qty ?moid v"
    "add_updates tid sd p qty ?moid (view b f) = add_updates tid sd p qty ?moid v"
    "trading_side s \<Longrightarrow> spec_add cid coid tid sd p qty ?moid (view b f) s = spec_add cid coid tid sd p qty ?moid v s" for s
    using eq(4) [OF sd] eq(4) [OF opp] eq(4) [of s]
    by (simp_all add: add_responses_def add_updates_def spec_add_def Let_def split: prod.splits)
  have "represents b' (spec_add cid coid tid sd p qty ?moid v)"
    unfolding represents_def using spec_add_wf [OF wf sd] core' v' same(3) by metis
  with run nid same show ?thesis by auto
qed

lemma cancel_represents:
  assumes rep: "represents b v"
    and dom: "unat cid < MATCHING_ENGINE_MAX_NUM_CLIENTS \<Longrightarrow> unat coid < MATCHING_ENGINE_MAX_ORDER_IDS"
  shows "\<exists>b'. cancel cid coid tid (b, out) =
      Inr (b', emit (cancel_responses cid coid tid v) (cancel_updates cid coid tid v) out) \<and>
    represents b' (spec_cancel cid coid v) \<and> next_market_order_id b' = next_market_order_id b"
proof -
  obtain f where core: "core_inv b f" and sides: "v Side_BUY = view b f Side_BUY" "v Side_SELL = view b f Side_SELL"
    by (rule represents_view [OF rep])
  note eq = same_sides [OF sides]
  have wf: "book_wf v" using rep by (simp add: represents_def)
  obtain b' f' where run: "cancel cid coid tid (b, out) =
      Inr (b', emit (cancel_responses cid coid tid (view b f)) (cancel_updates cid coid tid (view b f)) out)"
    and core': "core_inv b' f'" and v': "\<And>s. trading_side s \<Longrightarrow> side_view b' (f' s) = spec_cancel cid coid (view b f) s"
    and nid: "next_market_order_id b' = next_market_order_id b"
    using cancel_refines_core [OF core _ dom, where tid = tid and out = out] wf eq(1) by blast
  have "spec_cancel cid coid (view b f) s = spec_cancel cid coid v s" if s: "trading_side s" for s
    using eq(4) s spec_find_side(1) [OF wf, of cid coid]
    by (auto simp: spec_cancel_def eq(3) [symmetric] split: option.split)
  then have "represents b' (spec_cancel cid coid v)"
    unfolding represents_def using spec_cancel_wf [OF wf] core' v' by metis
  then show ?thesis using run nid by (simp add: cancel_responses_def cancel_updates_def eq(3))
qed

end
