(* ===== verification/MatchingEngine.thy ===== *)
theory MatchingEngine
  imports BookRefine
begin

section \<open>The matching engine\<close>

text \<open>
  \<^verbatim>\<open>exchange/matching/MatchingEngine.hpp\<close> and \<^verbatim>\<open>MatchingEngine.cc\<close>: one order book per ticker, the
  dispatch of client requests, and the loop that reads them from the incoming queue. What the loop
  relies on is the contract of a book, stated as a locale; the order book provides it.
\<close>

record matching_engine =
  ticker_order_book :: "nat \<Rightarrow> order_book"
  incoming_requests :: ClientRequestLFQueue
  outgoing :: me_out
  me_is_running :: bool

text \<open>The constructor: a book for every ticker, the queues handed in by \<^verbatim>\<open>exchange_main.cc\<close>.\<close>

definition MatchingEngine :: "ClientRequestLFQueue \<Rightarrow> me_out \<Rightarrow> matching_engine" where
  "MatchingEngine client_requests out =
     \<lparr>ticker_order_book = (\<lambda>i. MatchingEngineOrderBook (of_nat i)), incoming_requests = client_requests,
      outgoing = out, me_is_running = False\<rparr>"

definition start :: "matching_engine \<Rightarrow> matching_engine" where
  "start e = e\<lparr>me_is_running := True\<rparr>"

definition stop :: "matching_engine \<Rightarrow> matching_engine" where
  "stop e = e\<lparr>me_is_running := False\<rparr>"

text \<open>The switch of \<open>processClientRequest\<close>, on the book it has looked up.\<close>

definition book_request :: "MatchingEngineClientRequest \<Rightarrow> order_book \<times> me_out \<Rightarrow> (order_book \<times> me_out) res" where
  "book_request r s =
     (case rq_type r of
        CRQ_NEW \<Rightarrow> add (rq_client_id r) (rq_order_id r) (rq_ticker_id r) (rq_side r) (rq_price r) (rq_quantity r) s
      | CRQ_CANCEL \<Rightarrow> cancel (rq_client_id r) (rq_order_id r) (rq_ticker_id r) s
      | CRQ_INVALID \<Rightarrow> FATAL (''Received invalid client-request-type:'' @ clientRequestTypeToString (rq_type r)))"

definition processClientRequest :: "MatchingEngineClientRequest \<Rightarrow> matching_engine \<Rightarrow> matching_engine res" where
  "processClientRequest r e =
     bindE (arr_at MATCHING_ENGINE_MAX_TICKERS (ticker_order_book e) (unat (rq_ticker_id r))) (\<lambda>order_book.
     bindE (book_request r (order_book, outgoing e)) (\<lambda>(order_book', out').
     Inr (e\<lparr>ticker_order_book := (ticker_order_book e)(unat (rq_ticker_id r) := order_book'), outgoing := out'\<rparr>)))"

text \<open>One iteration of the loop of \<open>run\<close>, and the loop for at most \<open>n\<close> iterations.\<close>

definition run_once :: "matching_engine \<Rightarrow> matching_engine res" where
  "run_once e =
     (case getNextToRead (incoming_requests e) of
        None \<Rightarrow> Inr e
      | Some client_request \<Rightarrow>
          bindE (processClientRequest client_request e) (\<lambda>e'.
          bindE (updateReadIndex (incoming_requests e')) (\<lambda>q.
          Inr (e'\<lparr>incoming_requests := q\<rparr>))))"

fun run :: "nat \<Rightarrow> matching_engine \<Rightarrow> matching_engine res" where
  "run 0 e = Inr e"
| "run (Suc n) e = (if me_is_running e then bindE (run_once e) (run n) else Inr e)"

subsection \<open>The contract of a book\<close>

type_synonym book_state = "book \<times> OrderID"

fun spec_request :: "MatchingEngineClientRequest \<Rightarrow> book_state \<Rightarrow> book_state" where
  "spec_request r (v, n) =
     (case rq_type r of
        CRQ_NEW \<Rightarrow> (spec_add (rq_client_id r) (rq_order_id r) (rq_ticker_id r) (rq_side r) (rq_price r)
                     (rq_quantity r) n v, n + 1)
      | CRQ_CANCEL \<Rightarrow> (spec_cancel (rq_client_id r) (rq_order_id r) v, n)
      | CRQ_INVALID \<Rightarrow> (v, n))"

fun request_responses :: "MatchingEngineClientRequest \<Rightarrow> book_state \<Rightarrow> MatchingEngineClientResponse list" where
  "request_responses r (v, n) =
     (case rq_type r of
        CRQ_NEW \<Rightarrow> add_responses (rq_client_id r) (rq_order_id r) (rq_ticker_id r) (rq_side r) (rq_price r)
                    (rq_quantity r) n v
      | CRQ_CANCEL \<Rightarrow> cancel_responses (rq_client_id r) (rq_order_id r) (rq_ticker_id r) v
      | CRQ_INVALID \<Rightarrow> [])"

fun request_updates :: "MatchingEngineClientRequest \<Rightarrow> book_state \<Rightarrow> MatchingEngineMarketUpdate list" where
  "request_updates r (v, n) =
     (case rq_type r of
        CRQ_NEW \<Rightarrow> add_updates (rq_ticker_id r) (rq_side r) (rq_price r) (rq_quantity r) n v
      | CRQ_CANCEL \<Rightarrow> cancel_updates (rq_client_id r) (rq_order_id r) (rq_ticker_id r) v
      | CRQ_INVALID \<Rightarrow> [])"

text \<open>
  What a request has to satisfy for the book to handle it: identifiers inside the tables, a side to
  trade on, and for a new order a fresh identifier, a price that shares no slot of the price table
  with another price of the book, and room in the pools.
\<close>

fun admissible :: "MatchingEngineClientRequest \<Rightarrow> book_state \<Rightarrow> bool" where
  "admissible r (v, n) \<longleftrightarrow>
     (case rq_type r of
        CRQ_NEW \<Rightarrow> unat (rq_client_id r) < MATCHING_ENGINE_MAX_NUM_CLIENTS \<and>
          unat (rq_order_id r) < MATCHING_ENGINE_MAX_ORDER_IDS \<and> trading_side (rq_side r) \<and> spec_find (rq_client_id r) (rq_order_id r) v = None \<and>
          slot_free (rq_price r) (v Side_BUY) \<and> slot_free (rq_price r) (v Side_SELL) \<and> has_room v
      | CRQ_CANCEL \<Rightarrow> unat (rq_client_id r) < MATCHING_ENGINE_MAX_NUM_CLIENTS \<longrightarrow>
          unat (rq_order_id r) < MATCHING_ENGINE_MAX_ORDER_IDS
      | CRQ_INVALID \<Rightarrow> False)"

fun admissible_all :: "MatchingEngineClientRequest list \<Rightarrow> book_state \<Rightarrow> bool" where
  "admissible_all [] s = True"
| "admissible_all (r # rs) s = (admissible r s \<and> admissible_all rs (spec_request r s))"

fun all_responses :: "MatchingEngineClientRequest list \<Rightarrow> book_state \<Rightarrow> MatchingEngineClientResponse list" where
  "all_responses [] s = []"
| "all_responses (r # rs) s = request_responses r s @ all_responses rs (spec_request r s)"

fun all_updates :: "MatchingEngineClientRequest list \<Rightarrow> book_state \<Rightarrow> MatchingEngineMarketUpdate list" where
  "all_updates [] s = []"
| "all_updates (r # rs) s = request_updates r s @ all_updates rs (spec_request r s)"

locale ticker_book =
  fixes holds :: "'b \<Rightarrow> book_state \<Rightarrow> bool"
    and handle :: "MatchingEngineClientRequest \<Rightarrow> 'b \<times> me_out \<Rightarrow> ('b \<times> me_out) res"
  assumes holds_wf: "holds b s \<Longrightarrow> book_wf (fst s)"
    and handle_spec: "holds b s \<Longrightarrow> admissible r s \<Longrightarrow>
      \<exists>b'. handle r (b, out) = Inr (b', emit (request_responses r s) (request_updates r s) out) \<and>
           holds b' (spec_request r s)"
begin

text \<open>A book that meets the contract handles any sequence of admissible requests.\<close>

lemma handle_all:
  "holds b s \<Longrightarrow> admissible_all rs s \<Longrightarrow>
   \<exists>b'. fold_res handle rs (b, out) = Inr (b', emit (all_responses rs s) (all_updates rs s) out) \<and>
        holds b' (fold spec_request rs s)"
proof (induction rs arbitrary: b s out)
  case Nil
  then show ?case by simp
next
  case (Cons r rs)
  then have adm: "admissible r s" and rest: "admissible_all rs (spec_request r s)" by simp_all
  obtain b1 where b1: "handle r (b, out) = Inr (b1, emit (request_responses r s) (request_updates r s) out)"
      "holds b1 (spec_request r s)"
    using handle_spec [OF Cons.prems(1) adm] by blast
  from Cons.IH [OF b1(2) rest, of "emit (request_responses r s) (request_updates r s) out"] b1(1)
  show ?case by auto
qed

lemma handle_all_wf:
  assumes "holds b s" and "admissible_all rs s"
  shows "book_wf (fst (fold spec_request rs s))"
  using handle_all [OF assms] holds_wf by blast

end

definition holds_book :: "order_book \<Rightarrow> book_state \<Rightarrow> bool" where
  "holds_book b s \<longleftrightarrow> represents b (fst s) \<and> next_market_order_id b = snd s"

interpretation ob: ticker_book holds_book book_request
proof unfold_locales
  fix b s
  assume "holds_book b s"
  then show "book_wf (fst s)" by (simp add: holds_book_def represents_def)
next
  fix b :: order_book and s :: book_state and r and out :: me_out
  assume rep: "holds_book b s" and adm: "admissible r s"
  obtain v n where s: "s = (v, n)" by (cases s)
  have v: "represents b v" and n: "next_market_order_id b = n" using rep by (simp_all add: holds_book_def s)
  show "\<exists>b'. book_request r (b, out) = Inr (b', emit (request_responses r s) (request_updates r s) out) \<and>
      holds_book b' (spec_request r s)"
  proof (cases "rq_type r")
    case CRQ_NEW
    with add_represents [OF v, of "rq_side r" "rq_client_id r" "rq_order_id r" "rq_price r" "rq_ticker_id r"
        "rq_quantity r" out] adm n show ?thesis
      by (auto simp: s book_request_def holds_book_def)
  next
    case CRQ_CANCEL
    with cancel_represents [OF v, where cid = "rq_client_id r" and coid = "rq_order_id r" and tid = "rq_ticker_id r"
        and out = out] adm n show ?thesis
      by (auto simp: s book_request_def holds_book_def)
  qed (use adm s in simp)
qed

lemma initial_holds: "holds_book (MatchingEngineOrderBook t) (\<lambda>_. [], 1)"
  using initial_book [of t] by (simp add: holds_book_def) (simp add: MatchingEngineOrderBook_def)

subsection \<open>The engine\<close>

type_synonym market = "nat \<Rightarrow> book_state"

definition engine_holds :: "matching_engine \<Rightarrow> market \<Rightarrow> bool" where
  "engine_holds e S \<longleftrightarrow> (\<forall>t < MATCHING_ENGINE_MAX_TICKERS. holds_book (ticker_order_book e t) (S t))"

abbreviation ticker_of :: "MatchingEngineClientRequest \<Rightarrow> nat" where
  "ticker_of r \<equiv> unat (rq_ticker_id r)"

definition engine_step :: "MatchingEngineClientRequest \<Rightarrow> market \<Rightarrow> market" where
  "engine_step r S = S(ticker_of r := spec_request r (S (ticker_of r)))"

fun engine_admissible :: "MatchingEngineClientRequest list \<Rightarrow> market \<Rightarrow> bool" where
  "engine_admissible [] S = True"
| "engine_admissible (r # rs) S \<longleftrightarrow>
     ticker_of r < MATCHING_ENGINE_MAX_TICKERS \<and> admissible r (S (ticker_of r)) \<and> engine_admissible rs (engine_step r S)"

fun engine_responses :: "MatchingEngineClientRequest list \<Rightarrow> market \<Rightarrow> MatchingEngineClientResponse list" where
  "engine_responses [] S = []"
| "engine_responses (r # rs) S = request_responses r (S (ticker_of r)) @ engine_responses rs (engine_step r S)"

fun engine_updates :: "MatchingEngineClientRequest list \<Rightarrow> market \<Rightarrow> MatchingEngineMarketUpdate list" where
  "engine_updates [] S = []"
| "engine_updates (r # rs) S = request_updates r (S (ticker_of r)) @ engine_updates rs (engine_step r S)"

lemma processClientRequest_spec:
  assumes "engine_holds e S" and "ticker_of r < MATCHING_ENGINE_MAX_TICKERS" and "admissible r (S (ticker_of r))"
  shows "\<exists>b'. processClientRequest r e =
      Inr (e\<lparr>ticker_order_book := (ticker_order_book e)(ticker_of r := b'),
             outgoing := emit (request_responses r (S (ticker_of r))) (request_updates r (S (ticker_of r))) (outgoing e)\<rparr>) \<and>
    holds_book b' (spec_request r (S (ticker_of r)))"
proof -
  have "holds_book (ticker_order_book e (ticker_of r)) (S (ticker_of r))"
    using assms(1,2) by (simp add: engine_holds_def)
  from ob.handle_spec [OF this assms(3), of "outgoing e"] assms(2) show ?thesis
    by (auto simp: processClientRequest_def)
qed

lemma run_spec:
  assumes "me_is_running e" and "lf_inv (incoming_requests e)" and "engine_holds e S"
    and "engine_admissible (lf_contents (incoming_requests e)) S"
  shows "\<exists>e'. run (length (lf_contents (incoming_requests e))) e = Inr e' \<and> me_is_running e' \<and>
    lf_inv (incoming_requests e') \<and> lf_contents (incoming_requests e') = [] \<and>
    engine_holds e' (fold engine_step (lf_contents (incoming_requests e)) S) \<and>
    outgoing e' = emit (engine_responses (lf_contents (incoming_requests e)) S)
                       (engine_updates (lf_contents (incoming_requests e)) S) (outgoing e)"
  using assms
proof (induction "lf_contents (incoming_requests e)" arbitrary: e S)
  case Nil
  then show ?case by simp
next
  case (Cons r rs)
  let ?q = "incoming_requests e" and ?t = "ticker_of r"
  have c: "lf_contents ?q = r # rs" using Cons.hyps(2) by simp
  have adm: "?t < MATCHING_ENGINE_MAX_TICKERS" "admissible r (S ?t)" "engine_admissible rs (engine_step r S)"
    using Cons.prems(4) by (simp_all add: c)
  obtain b' where p: "processClientRequest r e = Inr (e\<lparr>ticker_order_book := (ticker_order_book e)(?t := b'),
      outgoing := emit (request_responses r (S ?t)) (request_updates r (S ?t)) (outgoing e)\<rparr>)"
      "holds_book b' (spec_request r (S ?t))"
    using processClientRequest_spec [OF Cons.prems(3) adm(1,2)] by blast
  have "lf_contents ?q \<noteq> []" using c by simp
  note pop = updateReadIndex_tl [OF Cons.prems(2) this]
  define e1 where "e1 = e\<lparr>ticker_order_book := (ticker_order_book e)(?t := b'),
      outgoing := emit (request_responses r (S ?t)) (request_updates r (S ?t)) (outgoing e),
      incoming_requests := lf_popped ?q\<rparr>"
  have once: "run_once e = Inr e1"
    using p(1) pop(1) by (simp add: run_once_def getNextToRead_hd [OF Cons.prems(2)] c e1_def)
  have "engine_holds e1 (engine_step r S)"
    using Cons.prems(3) p(2) by (simp add: engine_holds_def engine_step_def e1_def)
  from Cons.hyps(1) [of e1 "engine_step r S"] this pop adm(3) Cons.prems(1) obtain e' where
    "run (length rs) e1 = Inr e'" "me_is_running e'" "lf_inv (incoming_requests e')"
    "lf_contents (incoming_requests e') = []" "engine_holds e' (fold engine_step rs (engine_step r S))"
    "outgoing e' = emit (engine_responses rs (engine_step r S)) (engine_updates rs (engine_step r S)) (outgoing e1)"
    by (auto simp: e1_def c)
  then show ?case using once Cons.prems(1) by (auto simp: c e1_def)
qed

end
