(* ===== verification/WireFormat.thy ===== *)
theory WireFormat
  imports Messages
begin

section \<open>Messages as bytes\<close>

text \<open>
  The processes exchange the packed structs of \<open>Messages\<close> by copying their object representation
  into socket buffers and casting it back (\<^verbatim>\<open>#pragma pack(push, 1)\<close>, \<^verbatim>\<open>send(&x, sizeof x)\<close>,
  \<^verbatim>\<open>reinterpret_cast\<close>). This theory has that representation for a little-endian machine with
  two's complement integers, which is the platform the build targets: the fields in the order of
  their declaration, without padding, each at the width of its typedef. A byte that names no
  enumerator is read as \<open>INVALID\<close>.
\<close>

type_synonym byte = "8 word"

fun le_bytes :: "nat \<Rightarrow> nat \<Rightarrow> byte list" where
  "le_bytes 0 x = []"
| "le_bytes (Suc n) x = of_nat (x mod 256) # le_bytes n (x div 256)"

fun le_nat :: "byte list \<Rightarrow> nat" where
  "le_nat [] = 0"
| "le_nat (b # bs) = unat b + 256 * le_nat bs"

text \<open>The unsigned field of \<open>n\<close> bytes at an offset.\<close>

definition field :: "byte list \<Rightarrow> nat \<Rightarrow> nat \<Rightarrow> nat" where
  "field bs off n = le_nat (take n (drop off bs))"

definition price_bytes :: "Price \<Rightarrow> byte list" where
  "price_bytes p = le_bytes 8 (nat (p mod 2 ^ 64))"

definition price_field :: "byte list \<Rightarrow> nat \<Rightarrow> Price" where
  "price_field bs off = (let n = int (field bs off 8) in if n < 2 ^ 63 then n else n - 2 ^ 64)"

definition price_ok :: "Price \<Rightarrow> bool" where
  "price_ok p \<longleftrightarrow> - (2 ^ 63) \<le> p \<and> p < 2 ^ 63"

subsection \<open>Enumerations\<close>

fun side_byte :: "Side \<Rightarrow> byte" where
  "side_byte Side_INVALID = 0"
| "side_byte Side_BUY = 1"
| "side_byte Side_SELL = - 1"
| "side_byte Side_MAX = 2"

definition byte_side :: "byte \<Rightarrow> Side" where
  "byte_side b = (if b = 1 then Side_BUY else if b = - 1 then Side_SELL else if b = 2 then Side_MAX else Side_INVALID)"

fun request_type_byte :: "ClientRequestType \<Rightarrow> byte" where
  "request_type_byte CRQ_INVALID = 0"
| "request_type_byte CRQ_NEW = 1"
| "request_type_byte CRQ_CANCEL = 2"

definition byte_request_type :: "byte \<Rightarrow> ClientRequestType" where
  "byte_request_type b = (if b = 1 then CRQ_NEW else if b = 2 then CRQ_CANCEL else CRQ_INVALID)"

fun response_type_byte :: "ClientResponseType \<Rightarrow> byte" where
  "response_type_byte CRS_INVALID = 0"
| "response_type_byte CRS_ACCEPTED = 1"
| "response_type_byte CRS_CANCELLED = 2"
| "response_type_byte CRS_FILLED = 3"
| "response_type_byte CRS_CANCEL_REJECTED = 4"

definition byte_response_type :: "byte \<Rightarrow> ClientResponseType" where
  "byte_response_type b =
     (if b = 1 then CRS_ACCEPTED else if b = 2 then CRS_CANCELLED else if b = 3 then CRS_FILLED
      else if b = 4 then CRS_CANCEL_REJECTED else CRS_INVALID)"

fun update_type_byte :: "MarketUpdateType \<Rightarrow> byte" where
  "update_type_byte MU_INVALID = 0"
| "update_type_byte MU_CLEAR = 1"
| "update_type_byte MU_ADD = 2"
| "update_type_byte MU_MODIFY = 3"
| "update_type_byte MU_CANCEL = 4"
| "update_type_byte MU_TRADE = 5"
| "update_type_byte MU_SNAPSHOT_START = 6"
| "update_type_byte MU_SNAPSHOT_END = 7"

definition byte_update_type :: "byte \<Rightarrow> MarketUpdateType" where
  "byte_update_type b =
     (if b = 1 then MU_CLEAR else if b = 2 then MU_ADD else if b = 3 then MU_MODIFY else if b = 4 then MU_CANCEL
      else if b = 5 then MU_TRADE else if b = 6 then MU_SNAPSHOT_START else if b = 7 then MU_SNAPSHOT_END
      else MU_INVALID)"

subsection \<open>The three messages\<close>

definition encode_request :: "MatchingEngineClientRequest \<Rightarrow> byte list" where
  "encode_request r =
     [request_type_byte (rq_type r)] @ le_bytes 4 (unat (rq_client_id r)) @ le_bytes 4 (unat (rq_ticker_id r)) @
     le_bytes 8 (unat (rq_order_id r)) @ [side_byte (rq_side r)] @ price_bytes (rq_price r) @
     le_bytes 4 (unat (rq_quantity r))"

definition encode_om_request :: "OrderManagementClientRequest \<Rightarrow> byte list" where
  "encode_om_request m = le_bytes 8 (unat (omrq_sequence_number m)) @ encode_request (me_client_request m)"

definition SIZEOF_OM_REQUEST :: nat where
  "SIZEOF_OM_REQUEST = 38"

definition decode_om_request :: "byte list \<Rightarrow> OrderManagementClientRequest" where
  "decode_om_request bs =
     \<lparr>omrq_sequence_number = of_nat (field bs 0 8),
      me_client_request =
        \<lparr>rq_type = byte_request_type (bs ! 8), rq_client_id = of_nat (field bs 9 4), rq_ticker_id = of_nat (field bs 13 4),
         rq_order_id = of_nat (field bs 17 8), rq_side = byte_side (bs ! 25), rq_price = price_field bs 26,
         rq_quantity = of_nat (field bs 34 4)\<rparr>\<rparr>"

definition encode_response :: "MatchingEngineClientResponse \<Rightarrow> byte list" where
  "encode_response r =
     [response_type_byte (rs_type r)] @ le_bytes 4 (unat (rs_client_id r)) @ le_bytes 4 (unat (rs_ticker_id r)) @
     le_bytes 8 (unat (rs_client_order_id r)) @ le_bytes 8 (unat (rs_market_order_id r)) @ [side_byte (rs_side r)] @
     price_bytes (rs_price r) @ le_bytes 4 (unat (rs_exec_quantity r)) @ le_bytes 4 (unat (rs_leaves_quantity r))"

definition encode_om_response :: "OrderManagementClientResponse \<Rightarrow> byte list" where
  "encode_om_response m = le_bytes 8 (unat (omrs_sequence_number m)) @ encode_response (me_client_response m)"

definition SIZEOF_OM_RESPONSE :: nat where
  "SIZEOF_OM_RESPONSE = 50"

definition decode_om_response :: "byte list \<Rightarrow> OrderManagementClientResponse" where
  "decode_om_response bs =
     \<lparr>omrs_sequence_number = of_nat (field bs 0 8),
      me_client_response =
        \<lparr>rs_type = byte_response_type (bs ! 8), rs_client_id = of_nat (field bs 9 4), rs_ticker_id = of_nat (field bs 13 4),
         rs_client_order_id = of_nat (field bs 17 8), rs_market_order_id = of_nat (field bs 25 8),
         rs_side = byte_side (bs ! 33), rs_price = price_field bs 34, rs_exec_quantity = of_nat (field bs 42 4),
         rs_leaves_quantity = of_nat (field bs 46 4)\<rparr>\<rparr>"

definition encode_update :: "MatchingEngineMarketUpdate \<Rightarrow> byte list" where
  "encode_update u =
     [update_type_byte (mu_type u)] @ le_bytes 8 (unat (mu_order_id u)) @ le_bytes 4 (unat (mu_ticker_id u)) @
     [side_byte (mu_side u)] @ price_bytes (mu_price u) @ le_bytes 4 (unat (mu_quantity u)) @
     le_bytes 8 (unat (mu_priority u))"

definition encode_mdp :: "MDPMarketUpdate \<Rightarrow> byte list" where
  "encode_mdp m = le_bytes 8 (unat (mdp_sequence_number m)) @ encode_update (me_market_update m)"

definition SIZEOF_MDP :: nat where
  "SIZEOF_MDP = 42"

definition decode_mdp :: "byte list \<Rightarrow> MDPMarketUpdate" where
  "decode_mdp bs =
     \<lparr>mdp_sequence_number = of_nat (field bs 0 8),
      me_market_update =
        \<lparr>mu_type = byte_update_type (bs ! 8), mu_order_id = of_nat (field bs 9 8), mu_ticker_id = of_nat (field bs 17 4),
         mu_side = byte_side (bs ! 21), mu_price = price_field bs 22, mu_quantity = of_nat (field bs 30 4),
         mu_priority = of_nat (field bs 34 8)\<rparr>\<rparr>"

subsection \<open>The receive loop\<close>

text \<open>
  The loop every receive callback runs over the valid part of its socket's buffer:
  \<^verbatim>\<open>for (; index + sizeof(M) <= next_recv_valid_index; index += sizeof(M)) body(...)\<close>, after which
  what is left moves to the front of the buffer.
\<close>

function recv_loop :: "nat \<Rightarrow> (byte list \<Rightarrow> 'm) \<Rightarrow> ('m \<Rightarrow> 's \<Rightarrow> 's res) \<Rightarrow> byte list \<Rightarrow> 's \<Rightarrow> (byte list \<times> 's) res" where
  "recv_loop msz decode body buf s =
     (if msz = 0 \<or> length buf < msz then Inr (buf, s)
      else bindE (body (decode (take msz buf)) s) (\<lambda>s'. recv_loop msz decode body (drop msz buf) s'))"
  by pat_completeness auto
termination
  by (relation "measure (\<lambda>(msz, decode, body, buf, s). length buf)") auto

declare recv_loop.simps [simp del]

subsection \<open>Round trips\<close>

lemma length_le_bytes [simp]: "length (le_bytes n x) = n"
  by (induction n arbitrary: x) auto

lemma le_nat_le_bytes: "le_nat (le_bytes n x) = x mod 256 ^ n"
proof (induction n arbitrary: x)
  case (Suc n)
  have "unat (of_nat (x mod 256) :: byte) = x mod 256" by (simp add: unat_of_nat)
  then show ?case using Suc by (simp add: mod_mult2_eq)
qed simp

lemma le_nat_word [simp]:
  "le_nat (le_bytes 8 (unat (w :: 64 word))) = unat w" "le_nat (le_bytes 4 (unat (v :: 32 word))) = unat v"
  using unsigned_less [of w, where ?'a = nat] unsigned_less [of v, where ?'a = nat]
  by (simp_all add: le_nat_le_bytes)

lemma le_nat_price:
  assumes "price_ok p"
  shows "(let n = int (le_nat (price_bytes p)) in if n < 2 ^ 63 then n else n - 2 ^ 64) = p"
proof -
  have "0 \<le> p mod 2 ^ 64" "p mod 2 ^ 64 < 2 ^ 64" by simp_all
  then have "int (le_nat (price_bytes p)) = p mod 2 ^ 64" by (simp add: price_bytes_def le_nat_le_bytes zmod_int)
  moreover have "p mod 2 ^ 64 = (if p < 0 then p + 2 ^ 64 else p)"
  proof (cases "p < 0")
    case True
    then have "(p + 2 ^ 64) mod 2 ^ 64 = p + 2 ^ 64" using assms by (intro mod_pos_pos_trivial) (simp_all add: price_ok_def)
    then show ?thesis using True by simp
  qed (use assms in \<open>simp add: price_ok_def\<close>)
  ultimately show ?thesis using assms by (simp add: Let_def price_ok_def)
qed

lemma length_price_bytes [simp]: "length (price_bytes p) = 8"
  by (simp add: price_bytes_def)

lemma byte_round_trips [simp]:
  "byte_side (side_byte sd) = sd" "byte_request_type (request_type_byte rt) = rt"
  "byte_response_type (response_type_byte st) = st" "byte_update_type (update_type_byte ut) = ut"
  by (cases sd, simp_all add: byte_side_def) (cases rt, simp_all add: byte_request_type_def,
      cases st, simp_all add: byte_response_type_def, cases ut, simp_all add: byte_update_type_def)

lemma size_of [simp]:
  "length (encode_om_request m) = SIZEOF_OM_REQUEST" "length (encode_om_response r) = SIZEOF_OM_RESPONSE"
  "length (encode_mdp u) = SIZEOF_MDP"
  by (simp_all add: encode_om_request_def encode_request_def SIZEOF_OM_REQUEST_def encode_om_response_def
      encode_response_def SIZEOF_OM_RESPONSE_def encode_mdp_def encode_update_def SIZEOF_MDP_def)

lemma decode_encode_request:
  "price_ok (rq_price (me_client_request m)) \<Longrightarrow> decode_om_request (encode_om_request m) = m"
  using le_nat_price [of "rq_price (me_client_request m)"]
  by (simp add: decode_om_request_def encode_om_request_def encode_request_def field_def price_field_def nth_append)

lemma decode_encode_response:
  "price_ok (rs_price (me_client_response m)) \<Longrightarrow> decode_om_response (encode_om_response m) = m"
  using le_nat_price [of "rs_price (me_client_response m)"]
  by (simp add: decode_om_response_def encode_om_response_def encode_response_def field_def price_field_def nth_append)

lemma decode_encode_mdp:
  "price_ok (mu_price (me_market_update m)) \<Longrightarrow> decode_mdp (encode_mdp m) = m"
  using le_nat_price [of "mu_price (me_market_update m)"]
  by (simp add: decode_mdp_def encode_mdp_def encode_update_def field_def price_field_def nth_append)

subsection \<open>What a receiver may rely on\<close>

lemma recv_loop_short: "length buf < msz \<Longrightarrow> recv_loop msz decode body buf s = Inr (buf, s)"
  by (simp add: recv_loop.simps)

lemma recv_loop_step:
  "length bs = msz \<Longrightarrow> 0 < msz \<Longrightarrow>
   recv_loop msz decode body (bs @ rest) s = bindE (body (decode bs) s) (\<lambda>s'. recv_loop msz decode body rest s')"
  by (subst recv_loop.simps) simp

text \<open>Bytes may come in any pieces: what is left of one piece is completed by the next.\<close>

lemma recv_loop_append:
  assumes "0 < msz"
  shows "recv_loop msz decode body (a @ b) s =
    bindE (recv_loop msz decode body a s) (\<lambda>(rest, s'). recv_loop msz decode body (rest @ b) s')"
proof (induction "length a" arbitrary: a s rule: less_induct)
  case less
  show ?case
  proof (cases "length a < msz")
    case True
    then show ?thesis by (simp add: recv_loop_short)
  next
    case False
    have split: "a = take msz a @ drop msz a" "length (take msz a) = msz" using False by simp_all
    have len: "length (drop msz a) < length a" using False assms by simp
    have "recv_loop msz decode body (a @ b) s =
        bindE (body (decode (take msz a)) s) (\<lambda>s'. recv_loop msz decode body (drop msz a @ b) s')"
      using recv_loop_step [OF split(2) assms, of decode body "drop msz a @ b" s] split(1) by (metis append_assoc)
    moreover have "recv_loop msz decode body a s =
        bindE (body (decode (take msz a)) s) (\<lambda>s'. recv_loop msz decode body (drop msz a) s')"
      using recv_loop_step [OF split(2) assms, of decode body "drop msz a" s] split(1) by metis
    ultimately show ?thesis using less [OF len] by (cases "body (decode (take msz a)) s") simp_all
  qed
qed

locale wire_format =
  fixes encode :: "'m \<Rightarrow> byte list" and decode :: "byte list \<Rightarrow> 'm" and msz :: nat and ok :: "'m \<Rightarrow> bool"
  assumes size_pos: "0 < msz"
    and length_encode: "length (encode m) = msz"
    and decode_encode: "ok m \<Longrightarrow> decode (encode m) = m"
begin

text \<open>A buffer of whole messages and the beginning of another is worked off message by message.\<close>

lemma recv_messages:
  assumes "\<forall>m \<in> set ms. ok m" and "length tail < msz"
  shows "recv_loop msz decode body (concat (map encode ms) @ tail) s = bindE (fold_res body ms s) (\<lambda>s'. Inr (tail, s'))"
  using assms(1)
proof (induction ms arbitrary: s)
  case Nil
  then show ?case using assms(2) by (simp add: recv_loop_short)
next
  case (Cons m ms)
  then have "recv_loop msz decode body (encode m @ (concat (map encode ms) @ tail)) s =
      bindE (body m s) (\<lambda>s'. recv_loop msz decode body (concat (map encode ms) @ tail) s')"
    using recv_loop_step [OF length_encode size_pos, of decode body m] decode_encode [of m] by simp
  then show ?case using Cons by (cases "body m s") simp_all
qed

lemma recv_in_two:
  assumes "\<forall>m \<in> set ms. ok m" and "concat (map encode ms) = a @ b"
  shows "bindE (recv_loop msz decode body a s) (\<lambda>(rest, s'). recv_loop msz decode body (rest @ b) s') =
    bindE (fold_res body ms s) (\<lambda>s'. Inr ([], s'))"
  using recv_messages [OF assms(1), of "[]" body s] recv_loop_append [OF size_pos, of decode body a b s] size_pos assms(2)
  by simp

end

interpretation req: wire_format encode_om_request decode_om_request SIZEOF_OM_REQUEST
  "\<lambda>m. price_ok (rq_price (me_client_request m))"
  by unfold_locales (simp_all add: decode_encode_request, simp add: SIZEOF_OM_REQUEST_def)

interpretation rsp: wire_format encode_om_response decode_om_response SIZEOF_OM_RESPONSE
  "\<lambda>m. price_ok (rs_price (me_client_response m))"
  by unfold_locales (simp_all add: decode_encode_response, simp add: SIZEOF_OM_RESPONSE_def)

interpretation mdp: wire_format encode_mdp decode_mdp SIZEOF_MDP
  "\<lambda>m. price_ok (mu_price (me_market_update m))"
  by unfold_locales (simp_all add: decode_encode_mdp, simp add: SIZEOF_MDP_def)

end
