(* ===== verification/Sockets.thy ===== *)
theory Sockets
  imports WireFormat
begin

section \<open>Buffered sockets\<close>

text \<open>
  \<^verbatim>\<open>common/TCPSocket.cc\<close> and \<^verbatim>\<open>common/McastSocket.cc\<close>: a send buffer that fills until the next
  \<^verbatim>\<open>sendAndRecv\<close>, and a receive buffer whose owner takes whole messages out. The kernel is the
  environment: what \<^verbatim>\<open>recvmsg\<close> and \<^verbatim>\<open>recv\<close> deliver is an input, and what is handed to \<^verbatim>\<open>::send\<close> is
  added to the bytes sent. The two buffers are modelled by their valid parts, so the lengths of the
  lists are \<^verbatim>\<open>next_send_valid_index\<close> and \<^verbatim>\<open>next_recv_valid_index\<close>.
\<close>

definition BUFFER_SIZE :: nat where
  "BUFFER_SIZE = 64 * 1024 * 1024"

record socket =
  socket_fd :: int
  send_buffer :: "byte list"
  recv_buffer :: "byte list"
  sent_bytes :: "byte list"

definition new_socket :: "int \<Rightarrow> socket" where
  "new_socket fd = \<lparr>socket_fd = fd, send_buffer = [], recv_buffer = [], sent_bytes = []\<rparr>"

text \<open>
  \<^verbatim>\<open>TCPSocket::send\<close> copies without looking at the room that is left; past the end of the buffer the
  copy is undefined. \<^verbatim>\<open>McastSocket::send\<close> asserts, after the copy, that the buffer is not full.
\<close>

definition tcp_send :: "byte list \<Rightarrow> socket \<Rightarrow> socket res" where
  "tcp_send data s =
     (if length (send_buffer s) + length data \<le> BUFFER_SIZE
      then Inr (s\<lparr>send_buffer := send_buffer s @ data\<rparr>) else Inl OutOfBounds)"

definition mcast_send :: "byte list \<Rightarrow> socket \<Rightarrow> socket res" where
  "mcast_send data s =
     bindE (if length (send_buffer s) + length data \<le> BUFFER_SIZE
            then Inr (s\<lparr>send_buffer := send_buffer s @ data\<rparr>) else Inl OutOfBounds) (\<lambda>s1.
     bindE (ASSERT (length (send_buffer s1) < BUFFER_SIZE)
              ''Mcast socket buffer filled up and sendAndRecv() not called. '') (\<lambda>_.
     Inr s1))"

text \<open>
  \<^verbatim>\<open>sendAndRecv\<close>, for a socket that lives inside a larger state: \<open>get\<close> and \<open>put\<close> reach it, \<open>callback\<close>
  is the receive callback and \<open>input\<close> is what the kernel delivers, with its time stamp. The number of
  bytes \<^verbatim>\<open>::send\<close> accepted is only logged and the buffer is emptied in any case.
\<close>

definition flush :: "socket \<Rightarrow> socket" where
  "flush s = s\<lparr>sent_bytes := sent_bytes s @ send_buffer s, send_buffer := []\<rparr>"

definition tcp_sendAndRecv :: "('s \<Rightarrow> socket) \<Rightarrow> (socket \<Rightarrow> 's \<Rightarrow> 's) \<Rightarrow> (Nanos \<Rightarrow> 's \<Rightarrow> 's res) \<Rightarrow>
    (byte list \<times> Nanos) option \<Rightarrow> 's \<Rightarrow> (bool \<times> 's) res" where
  "tcp_sendAndRecv get put callback input s =
     bindE (case input of
              None \<Rightarrow> Inr (False, s)
            | Some (bytes, kernel_time) \<Rightarrow>
                if bytes = [] then Inr (False, s)
                else bindE (callback kernel_time (put ((get s)\<lparr>recv_buffer := recv_buffer (get s) @ bytes\<rparr>) s))
                  (\<lambda>s1. Inr (True, s1))) (\<lambda>(read, s1).
     Inr (read, put (flush (get s1)) s1))"

definition mcast_sendAndRecv :: "('s \<Rightarrow> socket) \<Rightarrow> (socket \<Rightarrow> 's \<Rightarrow> 's) \<Rightarrow> ('s \<Rightarrow> 's res) \<Rightarrow> byte list \<Rightarrow> 's \<Rightarrow>
    (bool \<times> 's) res" where
  "mcast_sendAndRecv get put callback bytes s =
     bindE (if bytes = [] then Inr s
            else callback (put ((get s)\<lparr>recv_buffer := recv_buffer (get s) @ bytes\<rparr>) s)) (\<lambda>s1.
     Inr (bytes \<noteq> [], if send_buffer (get s1) = [] then s1 else put (flush (get s1)) s1))"

text \<open>\<^verbatim>\<open>sendAndRecv\<close> of a socket that only sends: nothing is received.\<close>

definition mcast_flush :: "socket \<Rightarrow> socket" where
  "mcast_flush s = (if send_buffer s = [] then s else flush s)"

lemma new_socket_simps [simp]:
  "send_buffer (new_socket fd) = []" "recv_buffer (new_socket fd) = []" "sent_bytes (new_socket fd) = []"
  by (simp_all add: new_socket_def)

lemma flush_simps [simp]:
  "send_buffer (flush s) = []" "recv_buffer (flush s) = recv_buffer s"
  "sent_bytes (flush s) = sent_bytes s @ send_buffer s" "socket_fd (flush s) = socket_fd s"
  by (simp_all add: flush_def)

lemma tcp_send_ok:
  "length (send_buffer s) + length data \<le> BUFFER_SIZE \<Longrightarrow> tcp_send data s = Inr (s\<lparr>send_buffer := send_buffer s @ data\<rparr>)"
  by (simp add: tcp_send_def)

lemma mcast_send_iff:
  "mcast_send data s = Inr s' \<longleftrightarrow>
   length (send_buffer s) + length data < BUFFER_SIZE \<and> s' = s\<lparr>send_buffer := send_buffer s @ data\<rparr>"
  by (auto simp: mcast_send_def res_simps)


lemma mcast_send_ok:
  "length (send_buffer s) + length data < BUFFER_SIZE \<Longrightarrow> mcast_send data s = Inr (s\<lparr>send_buffer := send_buffer s @ data\<rparr>)"
  by (simp add: mcast_send_iff)

lemma mcast_flush_simps [simp]:
  "send_buffer (mcast_flush s) = []" "recv_buffer (mcast_flush s) = recv_buffer s"
  "sent_bytes (mcast_flush s) = sent_bytes s @ send_buffer s"
  by (simp_all add: mcast_flush_def)

text \<open>Everything written to a socket so far, sent or still in the buffer.\<close>

definition written :: "socket \<Rightarrow> byte list" where
  "written s = sent_bytes s @ send_buffer s"

lemma written_simps [simp]:
  "written (mcast_flush s) = written s" "written (s\<lparr>send_buffer := send_buffer s @ data\<rparr>) = written s @ data"
  "written (new_socket fd) = []"
  by (simp_all add: written_def)

end
