(* ===== verification/MarketData.thy ===== *)
theory MarketData
  imports Sockets MemPool
begin

section \<open>The market data publisher and the snapshot synthesizer\<close>

text \<open>
  \<^verbatim>\<open>exchange/market_data/MarketDataPublisher.cc\<close> numbers the engine's market updates, multicasts them
  and forwards them to \<^verbatim>\<open>SnapshotSynthesizer.cc\<close>, which keeps one update message per live order and
  multicasts them all every minute. Clock readings and the descriptors of new sockets are arguments.
\<close>

subsection \<open>Publisher\<close>

record publisher =
  next_increment_sequence_number :: "64 word"
  pb_outgoing_market_updates :: MarketUpdateLFQueue
  snapshot_market_updates :: MDPMarketUpdateLFQueue
  incremental_socket :: socket

definition default_mdp :: MDPMarketUpdate where
  "default_mdp = \<lparr>mdp_sequence_number = 0, me_market_update = default_update\<rparr>"

definition MarketDataPublisher :: "MarketUpdateLFQueue \<Rightarrow> int \<Rightarrow> publisher res" where
  "MarketDataPublisher market_updates fd =
     bindE (ASSERT (fd \<ge> 0) ''Unable to create incremental mcast socket. error : '') (\<lambda>_.
     Inr \<lparr>next_increment_sequence_number = 1, pb_outgoing_market_updates = market_updates,
          snapshot_market_updates = LockFreeQueue default_mdp MATCHING_ENGINE_MAX_MARKET_UPDATES,
          incremental_socket = new_socket fd\<rparr>)"

text \<open>
  The body of the publishing loop. The two \<^verbatim>\<open>send\<close> calls write the sequence number and then the
  message, which is the layout of the packed \<open>MDPMarketUpdate\<close>. The code advances the read index
  before it copies the message into the second queue; with no producer running in between, the slot
  still holds it.
\<close>

definition publish_update :: "MatchingEngineMarketUpdate \<Rightarrow>
    64 word \<times> MDPMarketUpdateLFQueue \<times> socket \<Rightarrow> (64 word \<times> MDPMarketUpdateLFQueue \<times> socket) res" where
  "publish_update market_update = (\<lambda>(seq, q, sock).
     bindE (mcast_send (le_bytes 8 (unat seq)) sock) (\<lambda>sock1.
     bindE (mcast_send (encode_update market_update) sock1) (\<lambda>sock2.
     Inr (seq + 1, lf_push q \<lparr>mdp_sequence_number = seq, me_market_update = market_update\<rparr>, sock2))))"

text \<open>One pass of the publisher's outer loop.\<close>

definition publisher_run_once :: "publisher \<Rightarrow> publisher res" where
  "publisher_run_once p =
     bindE (lf_drain publish_update (pb_outgoing_market_updates p)
              (next_increment_sequence_number p, snapshot_market_updates p, incremental_socket p))
       (\<lambda>(q, seq, q', sock).
     Inr (p\<lparr>pb_outgoing_market_updates := q, next_increment_sequence_number := seq,
            snapshot_market_updates := q', incremental_socket := mcast_flush sock\<rparr>))"

fun number_from :: "64 word \<Rightarrow> MatchingEngineMarketUpdate list \<Rightarrow> MDPMarketUpdate list" where
  "number_from seq [] = []"
| "number_from seq (u # us) = \<lparr>mdp_sequence_number = seq, me_market_update = u\<rparr> # number_from (seq + 1) us"

abbreviation stream_bytes :: "64 word \<Rightarrow> MatchingEngineMarketUpdate list \<Rightarrow> byte list" where
  "stream_bytes n us \<equiv> concat (map encode_mdp (number_from n us))"

lemma length_number_from [simp]: "length (number_from n us) = length us"
  by (induction us arbitrary: n) auto

lemma number_from_append: "number_from n (us @ ws) = number_from n us @ number_from (n + of_nat (length us)) ws"
  by (induction us arbitrary: n) (simp_all add: algebra_simps)

lemma publish_all:
  assumes "length (send_buffer sock) + SIZEOF_MDP * length us < BUFFER_SIZE"
  shows "fold_res publish_update us (seq, q, sock) =
   Inr (seq + of_nat (length us), lf_push_all q (number_from seq us), sock\<lparr>send_buffer := send_buffer sock @ stream_bytes seq us\<rparr>)"
  using assms
proof (induction us arbitrary: seq q sock)
  case (Cons u us)
  let ?m = "\<lparr>mdp_sequence_number = seq, me_market_update = u\<rparr>"
  let ?sock = "sock\<lparr>send_buffer := send_buffer sock @ encode_mdp ?m\<rparr>"
  have len: "length (le_bytes 8 (unat seq)) + length (encode_update u) = SIZEOF_MDP"
    using size_of(3) [of ?m] by (simp add: encode_mdp_def)
  have "publish_update u (seq, q, sock) = Inr (seq + 1, lf_push q ?m, ?sock)"
    using Cons.prems len by (simp add: publish_update_def mcast_send_ok encode_mdp_def)
  moreover have "length (send_buffer ?sock) + SIZEOF_MDP * length us < BUFFER_SIZE" using Cons.prems by simp
  ultimately show ?case using Cons.IH [of ?sock "seq + 1" "lf_push q ?m"] by (simp add: add.assoc)
qed simp

lemma publisher_run_once_spec:
  assumes "lf_inv (pb_outgoing_market_updates p)" and "us = lf_contents (pb_outgoing_market_updates p)"
    and "length (send_buffer (incremental_socket p)) + SIZEOF_MDP * length us < BUFFER_SIZE"
  shows "\<exists>p'. publisher_run_once p = Inr p' \<and> pb_outgoing_market_updates p' = lf_emptied (pb_outgoing_market_updates p) \<and>
    next_increment_sequence_number p' = next_increment_sequence_number p + of_nat (length us) \<and>
    snapshot_market_updates p' = lf_push_all (snapshot_market_updates p) (number_from (next_increment_sequence_number p) us) \<and>
    sent_bytes (incremental_socket p') = written (incremental_socket p) @ stream_bytes (next_increment_sequence_number p) us \<and>
    send_buffer (incremental_socket p') = []"
  using publish_all [of "incremental_socket p" us] assms
  by (simp add: publisher_run_once_def lf_drain_fold written_def)

subsection \<open>Synthesizer\<close>

record synthesizer =
  snapshot_md_updates :: MDPMarketUpdateLFQueue
  ticker_orders :: "nat \<Rightarrow> nat \<Rightarrow> ptr"
  last_increment_sequence_number :: "64 word"
  last_snapshot_time :: Nanos
  snap_order_pool :: "MatchingEngineMarketUpdate mempool"
  snapshot_socket :: socket

definition SnapshotSynthesizer :: "MDPMarketUpdateLFQueue \<Rightarrow> int \<Rightarrow> synthesizer res" where
  "SnapshotSynthesizer market_updates fd =
     bindE (ASSERT (fd \<ge> 0) ''Unable to create snapshot mcast socket. error: '') (\<lambda>_.
     Inr \<lparr>snapshot_md_updates = market_updates, ticker_orders = (\<lambda>_ _. None), last_increment_sequence_number = 0,
          last_snapshot_time = 0, snap_order_pool = MemPool default_update MATCHING_ENGINE_MAX_ORDER_IDS,
          snapshot_socket = new_socket fd\<rparr>)"

definition set_ticker_order :: "nat \<Rightarrow> nat \<Rightarrow> ptr \<Rightarrow> synthesizer \<Rightarrow> synthesizer" where
  "set_ticker_order t k p s = s\<lparr>ticker_orders := (ticker_orders s)(t := (ticker_orders s t)(k := p))\<rparr>"

text \<open>\<^verbatim>\<open>ticker_orders.at(ticker_id)\<close>, then \<^verbatim>\<open>orders->at(order_id)\<close>.\<close>

definition order_slot :: "MatchingEngineMarketUpdate \<Rightarrow> synthesizer \<Rightarrow> ptr res" where
  "order_slot u s =
     arr_at MATCHING_ENGINE_MAX_ORDER_IDS (ticker_orders s (unat (mu_ticker_id u))) (unat (mu_order_id u))"

text \<open>The assertions that \<open>MODIFY\<close> and \<open>CANCEL\<close> share.\<close>

definition existing_order :: "MatchingEngineMarketUpdate \<Rightarrow> synthesizer \<Rightarrow> ptr res" where
  "existing_order u s =
     bindE (order_slot u s) (\<lambda>order.
     bindE (ASSERT (order \<noteq> None) (''Received : '' @ update_toString u @ '' but order does not exist.'')) (\<lambda>_.
     bindE (get_obj (snap_order_pool s) order) (\<lambda>v.
     bindE (ASSERT (mu_order_id v = mu_order_id u) ''Expecting existing order to match the new one.'') (\<lambda>_.
     bindE (ASSERT (mu_side v = mu_side u) ''Expecting existing order to match the new one.'') (\<lambda>_.
     Inr order)))))"

text \<open>The switch on the type of the update.\<close>

definition snapshot_switch :: "MatchingEngineMarketUpdate \<Rightarrow> synthesizer \<Rightarrow> synthesizer res" where
  "snapshot_switch u s =
     (let t = unat (mu_ticker_id u); k = unat (mu_order_id u) in
      case mu_type u of
        MU_ADD \<Rightarrow>
          bindE (order_slot u s) (\<lambda>order.
          bindE (case order of
                   None \<Rightarrow> Inr ()
                 | Some a \<Rightarrow> ASSERT False (''Received : '' @ update_toString u @ '' but already exists : '' @
                     update_toString (obj (snap_order_pool s) a))) (\<lambda>_.
          bindE (allocate u (snap_order_pool s)) (\<lambda>(a, pl).
          Inr (set_ticker_order t k (Some a) (s\<lparr>snap_order_pool := pl\<rparr>)))))
      | MU_MODIFY \<Rightarrow>
          bindE (existing_order u s) (\<lambda>order.
          bindE (upd_obj order (\<lambda>v. v\<lparr>mu_quantity := mu_quantity u, mu_price := mu_price u\<rparr>)
                   (snap_order_pool s)) (\<lambda>pl.
          Inr (s\<lparr>snap_order_pool := pl\<rparr>)))
      | MU_CANCEL \<Rightarrow>
          bindE (existing_order u s) (\<lambda>order.
          bindE (deallocate order (snap_order_pool s)) (\<lambda>pl.
          Inr (set_ticker_order t k None (s\<lparr>snap_order_pool := pl\<rparr>))))
      | _ \<Rightarrow> Inr s)"

definition addToSnapshot :: "MDPMarketUpdate \<Rightarrow> synthesizer \<Rightarrow> synthesizer res" where
  "addToSnapshot market_update s =
     (let u = me_market_update market_update in
      bindE (arr_at MATCHING_ENGINE_MAX_TICKERS (ticker_orders s) (unat (mu_ticker_id u))) (\<lambda>orders.
      bindE (snapshot_switch u s) (\<lambda>s1.
      bindE (ASSERT (mdp_sequence_number market_update = last_increment_sequence_number s1 + 1)
               ''Expected incremental sequence number to increase'') (\<lambda>_.
      Inr (s1\<lparr>last_increment_sequence_number := mdp_sequence_number market_update\<rparr>)))))"

text \<open>
  \<^verbatim>\<open>publishSnapshot\<close>: the start marker with the last sequence number, for every ticker a clear and its
  live orders by identifier, and the end marker, numbered from 0. Every message is sent off at once but
  the clears, which wait in the buffer for the next one.
\<close>

definition send_message :: "bool \<Rightarrow> MatchingEngineMarketUpdate \<Rightarrow> 64 word \<times> socket \<Rightarrow> (64 word \<times> socket) res" where
  "send_message at_once u = (\<lambda>(snapshot_size, sock).
     bindE (mcast_send (encode_mdp \<lparr>mdp_sequence_number = snapshot_size, me_market_update = u\<rparr>) sock) (\<lambda>sock1.
     Inr (snapshot_size + 1, if at_once then mcast_flush sock1 else sock1)))"

definition clear_update :: "nat \<Rightarrow> MatchingEngineMarketUpdate" where
  "clear_update ticker_id = default_update\<lparr>mu_type := MU_CLEAR, mu_ticker_id := of_nat ticker_id\<rparr>"

definition live_orders :: "synthesizer \<Rightarrow> nat \<Rightarrow> MatchingEngineMarketUpdate list" where
  "live_orders s t =
     map (\<lambda>a. obj (snap_order_pool s) a)
       (List.map_filter (\<lambda>k. ticker_orders s t k) [0..<MATCHING_ENGINE_MAX_ORDER_IDS])"

definition publish_ticker :: "synthesizer \<Rightarrow> nat \<Rightarrow> 64 word \<times> socket \<Rightarrow> (64 word \<times> socket) res" where
  "publish_ticker s t st =
     bindE (send_message False (clear_update t) st) (fold_res (send_message True) (live_orders s t))"

definition publishSnapshot :: "synthesizer \<Rightarrow> synthesizer res" where
  "publishSnapshot s =
     (let marker = (\<lambda>ty. default_update\<lparr>mu_type := ty, mu_order_id := last_increment_sequence_number s\<rparr>)
      in bindE (send_message True (marker MU_SNAPSHOT_START) (0, snapshot_socket s)) (\<lambda>st1.
         bindE (fold_res (publish_ticker s) [0..<MATCHING_ENGINE_MAX_TICKERS] st1) (\<lambda>st2.
         bindE (send_message True (marker MU_SNAPSHOT_END) st2) (\<lambda>(_, sock).
         Inr (s\<lparr>snapshot_socket := sock\<rparr>)))))"

definition NANOS_TO_SECS :: Nanos where
  "NANOS_TO_SECS = 1000000000"

text \<open>One pass of the outer loop; \<open>now\<close> and \<open>now'\<close> are the two clock readings.\<close>

definition synthesizer_run_once :: "Nanos \<Rightarrow> Nanos \<Rightarrow> synthesizer \<Rightarrow> synthesizer res" where
  "synthesizer_run_once now now' s =
     bindE (lf_drain addToSnapshot (snapshot_md_updates s) s) (\<lambda>(q, s1).
     let s2 = s1\<lparr>snapshot_md_updates := q\<rparr>
     in if now - last_snapshot_time s2 > 60 * NANOS_TO_SECS
        then publishSnapshot (s2\<lparr>last_snapshot_time := now'\<rparr>)
        else Inr s2)"

subsection \<open>What a published snapshot puts on the wire\<close>

definition ticker_snapshot :: "synthesizer \<Rightarrow> nat \<Rightarrow> MatchingEngineMarketUpdate list" where
  "ticker_snapshot s t = clear_update t # live_orders s t"

definition snapshot_messages :: "synthesizer \<Rightarrow> MatchingEngineMarketUpdate list" where
  "snapshot_messages s =
     (let marker = (\<lambda>ty. default_update\<lparr>mu_type := ty, mu_order_id := last_increment_sequence_number s\<rparr>)
      in marker MU_SNAPSHOT_START # concat (map (ticker_snapshot s) [0..<MATCHING_ENGINE_MAX_TICKERS]) @
         [marker MU_SNAPSHOT_END])"

text \<open>A message that fits into the buffer is written after what was written before.\<close>

lemma send_message_ok:
  assumes "length (send_buffer sock) + SIZEOF_MDP < BUFFER_SIZE"
  shows "\<exists>sock'. send_message at_once u (n, sock) = Inr (n + 1, sock') \<and> written sock' = written sock @ stream_bytes n [u] \<and>
    length (send_buffer sock') \<le> (if at_once then 0 else length (send_buffer sock) + SIZEOF_MDP)"
  using assms by (simp add: send_message_def mcast_send_ok)

lemma send_messages_at_once:
  assumes "length (send_buffer sock) + SIZEOF_MDP < BUFFER_SIZE"
  shows "\<exists>sock'. fold_res (send_message True) us (n, sock) = Inr (n + of_nat (length us), sock') \<and>
    written sock' = written sock @ stream_bytes n us \<and> length (send_buffer sock') \<le> length (send_buffer sock)"
  using assms
proof (induction us arbitrary: n sock)
  case (Cons u us)
  obtain sock1 where s1: "send_message True u (n, sock) = Inr (n + 1, sock1)" "written sock1 = written sock @ stream_bytes n [u]"
      "send_buffer sock1 = []"
    using send_message_ok [OF Cons.prems, of True u n] by auto
  obtain sock' where "fold_res (send_message True) us (n + 1, sock1) = Inr (n + 1 + of_nat (length us), sock')"
      "written sock' = written sock1 @ stream_bytes (n + 1) us" "length (send_buffer sock') \<le> length (send_buffer sock1)"
    using Cons.IH [of sock1 "n + 1"] s1(3) Cons.prems by auto
  then show ?case using s1 by (simp add: add.assoc)
qed simp

lemma publish_ticker_ok:
  assumes "length (send_buffer sock) + 2 * SIZEOF_MDP < BUFFER_SIZE"
  shows "\<exists>sock'. publish_ticker s t (n, sock) = Inr (n + of_nat (length (ticker_snapshot s t)), sock') \<and>
    written sock' = written sock @ stream_bytes n (ticker_snapshot s t) \<and>
    length (send_buffer sock') \<le> length (send_buffer sock) + SIZEOF_MDP"
proof -
  obtain sock1 where s1: "send_message False (clear_update t) (n, sock) = Inr (n + 1, sock1)"
      "written sock1 = written sock @ stream_bytes n [clear_update t]" "length (send_buffer sock1) \<le> length (send_buffer sock) + SIZEOF_MDP"
    using send_message_ok [of sock False "clear_update t" n] assms by auto
  obtain sock' where "fold_res (send_message True) (live_orders s t) (n + 1, sock1) = Inr (n + 1 + of_nat (length (live_orders s t)), sock')"
      "written sock' = written sock1 @ stream_bytes (n + 1) (live_orders s t)" "length (send_buffer sock') \<le> length (send_buffer sock1)"
    using send_messages_at_once [of sock1 "live_orders s t" "n + 1"] s1(3) assms by auto
  then show ?thesis using s1 by (simp add: publish_ticker_def ticker_snapshot_def add.assoc)
qed

lemma publish_tickers_ok:
  assumes "length (send_buffer sock) + SIZEOF_MDP * (length ts + 1) < BUFFER_SIZE"
  shows "\<exists>sock'. fold_res (publish_ticker s) ts (n, sock) = Inr (n + of_nat (length (concat (map (ticker_snapshot s) ts))), sock') \<and>
    written sock' = written sock @ stream_bytes n (concat (map (ticker_snapshot s) ts)) \<and>
    length (send_buffer sock') \<le> length (send_buffer sock) + SIZEOF_MDP * length ts"
  using assms
proof (induction ts arbitrary: n sock)
  case (Cons t ts)
  let ?k = "length (ticker_snapshot s t)"
  obtain sock1 where s1: "publish_ticker s t (n, sock) = Inr (n + of_nat ?k, sock1)"
      "written sock1 = written sock @ stream_bytes n (ticker_snapshot s t)"
      "length (send_buffer sock1) \<le> length (send_buffer sock) + SIZEOF_MDP"
    using publish_ticker_ok [of sock s t n] Cons.prems by (auto simp: algebra_simps)
  have "length (send_buffer sock1) + SIZEOF_MDP * (length ts + 1) < BUFFER_SIZE" using s1(3) Cons.prems by simp
  from Cons.IH [OF this, of "n + of_nat ?k"] s1 show ?case
    by (auto simp: number_from_append add.assoc)
qed simp

lemma publishSnapshot_ok:
  assumes "send_buffer (snapshot_socket s) = []"
  shows "\<exists>sock. publishSnapshot s = Inr (s\<lparr>snapshot_socket := sock\<rparr>) \<and> send_buffer sock = [] \<and>
    sent_bytes sock = sent_bytes (snapshot_socket s) @ stream_bytes 0 (snapshot_messages s)"
proof -
  let ?marker = "\<lambda>ty. default_update\<lparr>mu_type := ty, mu_order_id := last_increment_sequence_number s\<rparr>"
  let ?body = "concat (map (ticker_snapshot s) [0..<MATCHING_ENGINE_MAX_TICKERS])"
  note sizes = SIZEOF_MDP_def BUFFER_SIZE_def MATCHING_ENGINE_MAX_TICKERS_def
  obtain s1 where s1: "send_message True (?marker MU_SNAPSHOT_START) (0, snapshot_socket s) = Inr (1, s1)"
      "written s1 = written (snapshot_socket s) @ stream_bytes 0 [?marker MU_SNAPSHOT_START]" "send_buffer s1 = []"
    using send_message_ok [of "snapshot_socket s" True "?marker MU_SNAPSHOT_START" 0] assms by (auto simp: sizes)
  obtain s2 where s2: "fold_res (publish_ticker s) [0..<MATCHING_ENGINE_MAX_TICKERS] (1, s1) = Inr (1 + of_nat (length ?body), s2)"
      "written s2 = written s1 @ stream_bytes 1 ?body" "length (send_buffer s2) \<le> SIZEOF_MDP * MATCHING_ENGINE_MAX_TICKERS"
    using publish_tickers_ok [of s1 "[0..<MATCHING_ENGINE_MAX_TICKERS]" s 1] s1(3) by (auto simp: sizes)
  obtain s3 where s3: "send_message True (?marker MU_SNAPSHOT_END) (1 + of_nat (length ?body), s2) = Inr (1 + of_nat (length ?body) + 1, s3)"
      "written s3 = written s2 @ stream_bytes (1 + of_nat (length ?body)) [?marker MU_SNAPSHOT_END]" "send_buffer s3 = []"
    using send_message_ok [of s2 True "?marker MU_SNAPSHOT_END" "1 + of_nat (length ?body)"] s2(3) by (auto simp: sizes)
  have "sent_bytes s3 = sent_bytes (snapshot_socket s) @ stream_bytes 0 (snapshot_messages s)"
    using s1(2) s2(2) s3(2,3) assms
    by (simp add: written_def snapshot_messages_def Let_def number_from_append)
  then show ?thesis using s1(1) s2(1) s3(1,3) by (intro exI [of _ s3]) (simp add: publishSnapshot_def Let_def)
qed

end
