(* ===== verification/SnapshotRefine.thy ===== *)
theory SnapshotRefine
  imports MarketData
begin

section \<open>The snapshot is a map from orders to their last state\<close>

text \<open>
  The specification of the synthesizer: a map from ticker and order identifier to the message that
  would add the order as it now stands. Each incremental update changes the map at one place, or is
  refused; \<open>addToSnapshot\<close>, with its pool and its pointers, computes that change.
\<close>

type_synonym snapshot = "nat \<Rightarrow> nat \<Rightarrow> MatchingEngineMarketUpdate option"

fun apply_update :: "MatchingEngineMarketUpdate \<Rightarrow> snapshot \<Rightarrow> snapshot option" where
  "apply_update u m =
     (let t = unat (mu_ticker_id u); k = unat (mu_order_id u) in
      case mu_type u of
        MU_ADD \<Rightarrow> (case m t k of None \<Rightarrow> Some (m(t := (m t)(k \<mapsto> u))) | Some w \<Rightarrow> None)
      | MU_MODIFY \<Rightarrow>
          (case m t k of
             None \<Rightarrow> None
           | Some w \<Rightarrow> if mu_side w = mu_side u
               then Some (m(t := (m t)(k \<mapsto> w\<lparr>mu_quantity := mu_quantity u, mu_price := mu_price u\<rparr>))) else None)
      | MU_CANCEL \<Rightarrow>
          (case m t k of
             None \<Rightarrow> None
           | Some w \<Rightarrow> if mu_side w = mu_side u then Some (m(t := (m t)(k := None))) else None)
      | _ \<Rightarrow> Some m)"

declare apply_update.simps [simp del]

fun apply_updates :: "MatchingEngineMarketUpdate list \<Rightarrow> snapshot \<Rightarrow> snapshot option" where
  "apply_updates [] m = Some m"
| "apply_updates (u # us) m = (case apply_update u m of None \<Rightarrow> None | Some m' \<Rightarrow> apply_updates us m')"

lemma apply_updates_append:
  "apply_updates (us @ ws) m = (case apply_updates us m of None \<Rightarrow> None | Some m' \<Rightarrow> apply_updates ws m')"
  by (induction us arbitrary: m) (auto split: option.splits)

definition snap :: "synthesizer \<Rightarrow> snapshot" where
  "snap s = (\<lambda>t k. map_option (obj (snap_order_pool s)) (ticker_orders s t k))"

definition slot_addr :: "synthesizer \<Rightarrow> nat set" where
  "slot_addr s = {a. \<exists>t k. ticker_orders s t k = Some a}"

definition snap_inv :: "synthesizer \<Rightarrow> bool" where
  "snap_inv s \<longleftrightarrow>
     pool_inv (snap_order_pool s) \<and> pool_size (snap_order_pool s) = MATCHING_ENGINE_MAX_ORDER_IDS \<and>
     live (snap_order_pool s) = slot_addr s \<and>
     (\<forall>t k a t' k'. ticker_orders s t k = Some a \<longrightarrow> ticker_orders s t' k' = Some a \<longrightarrow> t = t' \<and> k = k') \<and>
     (\<forall>t k a. ticker_orders s t k = Some a \<longrightarrow> unat (mu_order_id (obj (snap_order_pool s) a)) = k)"

lemma set_ticker_order_simps [simp]:
  "ticker_orders (set_ticker_order t k p s) t' k' = (if t' = t \<and> k' = k then p else ticker_orders s t' k')"
  "snap_order_pool (set_ticker_order t k p s) = snap_order_pool s"
  "last_increment_sequence_number (set_ticker_order t k p s) = last_increment_sequence_number s"
  "snapshot_socket (set_ticker_order t k p s) = snapshot_socket s"
  "last_snapshot_time (set_ticker_order t k p s) = last_snapshot_time s"
  "snapshot_md_updates (set_ticker_order t k p s) = snapshot_md_updates s"
  by (simp_all add: set_ticker_order_def)

lemma slot_addr_set:
  "slot_addr (set_ticker_order t k p s) =
     {x. p = Some x} \<union> {x. \<exists>t' k'. (t' \<noteq> t \<or> k' \<noteq> k) \<and> ticker_orders s t' k' = Some x}"
  unfolding slot_addr_def set_ticker_order_simps by (rule set_eqI) (simp, metis)

text \<open>The three changes, on the invariant and on the map.\<close>

lemma snap_add:
  assumes inv: "snap_inv s" and free: "ticker_orders s t k = None" and k: "unat (mu_order_id u) = k"
    and room: "card (live (snap_order_pool s)) + 2 \<le> MATCHING_ENGINE_MAX_ORDER_IDS"
  shows "\<exists>a pl. allocate u (snap_order_pool s) = Inr (a, pl) \<and>
    (let s' = set_ticker_order t k (Some a) (s\<lparr>snap_order_pool := pl\<rparr>)
     in snap_inv s' \<and> snap s' = (snap s)(t := (snap s t)(k \<mapsto> u)) \<and>
        card (live (snap_order_pool s')) \<le> card (live (snap_order_pool s)) + 1)"
proof -
  have pool: "pool_inv (snap_order_pool s)" "pool_size (snap_order_pool s) = MATCHING_ENGINE_MAX_ORDER_IDS"
      "live (snap_order_pool s) = slot_addr s"
    using inv by (simp_all add: snap_inv_def)
  define a where "a = next_free_index (snap_order_pool s)"
  have a: "a \<notin> live (snap_order_pool s)" using pool(1) by (simp add: a_def pool_inv_def live_def)
  then have a': "ticker_orders s t' k' \<noteq> Some a" for t' k' using pool(3) by (auto simp: slot_addr_def)
  obtain pl where pl: "allocate u (snap_order_pool s) = Inr (a, pl)" "pool_inv pl"
      "pool_size pl = pool_size (snap_order_pool s)" "live pl = insert a (live (snap_order_pool s))"
      "obj pl a = u" "\<And>j. j \<noteq> a \<Longrightarrow> obj pl j = obj (snap_order_pool s) j"
    using allocate_ok [OF pool(1), of u] room pool(2) unfolding a_def by auto
  let ?s = "set_ticker_order t k (Some a) (s\<lparr>snap_order_pool := pl\<rparr>)"
  have same: "obj pl c = obj (snap_order_pool s) c" if "ticker_orders s t' k' = Some c" for t' k' c
    using that a' pl(6) by metis
  have addr: "slot_addr ?s = insert a (slot_addr s)" unfolding slot_addr_set using free
    by (auto simp: slot_addr_def) (metis option.distinct(1))
  have "snap_inv ?s"
    unfolding snap_inv_def addr using inv pl pool a' k same
    by (auto simp: snap_inv_def split: if_splits)
  moreover have "snap ?s = (snap s)(t := (snap s t)(k \<mapsto> u))"
    using same pl(5) by (auto simp: snap_def fun_eq_iff map_option_case split: option.split)
  moreover have "card (live pl) \<le> card (live (snap_order_pool s)) + 1" using pl(4) by (simp add: card_insert_if)
  ultimately show ?thesis using pl(1) by (auto simp: Let_def)
qed

lemma snap_modify:
  assumes inv: "snap_inv s" and a: "ticker_orders s t k = Some a"
    and s': "s' = s\<lparr>snap_order_pool := set_obj a (\<lambda>v. v\<lparr>mu_quantity := q, mu_price := p\<rparr>) (snap_order_pool s)\<rparr>"
  shows "snap_inv s'" "snap s' = (snap s)(t := (snap s t)(k \<mapsto> (obj (snap_order_pool s) a)\<lparr>mu_quantity := q, mu_price := p\<rparr>))"
proof -
  have only: "ticker_orders s t' k' = Some a \<longleftrightarrow> t' = t \<and> k' = k" for t' k'
    using inv a unfolding snap_inv_def by blast
  show "snap_inv s'" using inv by (auto simp: s' snap_inv_def slot_addr_def)
  show "snap s' = (snap s)(t := (snap s t)(k \<mapsto> (obj (snap_order_pool s) a)\<lparr>mu_quantity := q, mu_price := p\<rparr>))"
  proof (intro ext)
    fix t' k'
    show "snap s' t' k' = ((snap s)(t := (snap s t)(k \<mapsto> (obj (snap_order_pool s) a)\<lparr>mu_quantity := q, mu_price := p\<rparr>))) t' k'"
    proof (cases "t' = t \<and> k' = k")
      case True
      then show ?thesis using a by (simp add: snap_def s')
    next
      case False
      then have "ticker_orders s t' k' \<noteq> Some a" using only by simp
      then show ?thesis using False by (cases "ticker_orders s t' k'") (auto simp: snap_def s')
    qed
  qed
qed

lemma snap_cancel:
  assumes inv: "snap_inv s" and a: "ticker_orders s t k = Some a"
  shows "\<exists>pl. deallocate (Some a) (snap_order_pool s) = Inr pl \<and>
    (let s' = set_ticker_order t k None (s\<lparr>snap_order_pool := pl\<rparr>)
     in snap_inv s' \<and> snap s' = (snap s)(t := (snap s t)(k := None)) \<and>
        card (live (snap_order_pool s')) \<le> card (live (snap_order_pool s)))"
proof -
  have pool: "pool_inv (snap_order_pool s)" "live (snap_order_pool s) = slot_addr s"
    using inv by (simp_all add: snap_inv_def)
  have only: "ticker_orders s t' k' = Some a \<longleftrightarrow> t' = t \<and> k' = k" for t' k'
    using inv a unfolding snap_inv_def by blast
  have "a \<in> live (snap_order_pool s)" using pool(2) a by (auto simp: slot_addr_def)
  then obtain pl where pl: "deallocate (Some a) (snap_order_pool s) = Inr pl" "pool_inv pl"
      "pool_size pl = pool_size (snap_order_pool s)" "live pl = live (snap_order_pool s) - {a}"
      "\<And>j. obj pl j = obj (snap_order_pool s) j"
    using deallocate_ok [OF pool(1)] by blast
  let ?s = "set_ticker_order t k None (s\<lparr>snap_order_pool := pl\<rparr>)"
  have addr: "slot_addr ?s = slot_addr s - {a}" unfolding slot_addr_set using only
    by (auto simp: slot_addr_def) (metis option.inject)
  have "snap_inv ?s"
    unfolding snap_inv_def addr using inv pl pool by (auto simp: snap_inv_def split: if_splits)
  moreover have "snap ?s = (snap s)(t := (snap s t)(k := None))"
    using pl(5) by (auto simp: snap_def fun_eq_iff map_option_case split: option.split)
  moreover have "card (live pl) \<le> card (live (snap_order_pool s))" using pl(4) by (simp add: card_mono)
  ultimately show ?thesis using pl(1) by (auto simp: Let_def)
qed

lemma existing_order_ok:
  assumes inv: "snap_inv s" and a: "ticker_orders s (unat (mu_ticker_id u)) (unat (mu_order_id u)) = Some a"
    and k: "unat (mu_order_id u) < MATCHING_ENGINE_MAX_ORDER_IDS" and sd: "mu_side (obj (snap_order_pool s) a) = mu_side u"
  shows "existing_order u s = Inr (Some a)"
proof -
  have "mu_order_id (obj (snap_order_pool s) a) = mu_order_id u"
    using inv a by (simp add: snap_inv_def word_unat_eq_iff)
  then show ?thesis using a k sd by (simp add: existing_order_def order_slot_def)
qed

text \<open>One incremental update.\<close>

lemma addToSnapshot_refines:
  assumes inv: "snap_inv s" and seq: "mdp_sequence_number mu = last_increment_sequence_number s + 1"
    and u: "u = me_market_update mu" and t: "unat (mu_ticker_id u) < MATCHING_ENGINE_MAX_TICKERS"
    and k: "unat (mu_order_id u) < MATCHING_ENGINE_MAX_ORDER_IDS"
    and room: "card (live (snap_order_pool s)) + 2 \<le> MATCHING_ENGINE_MAX_ORDER_IDS"
    and ap: "apply_update u (snap s) = Some m"
  shows "\<exists>s'. addToSnapshot mu s = Inr s' \<and> snap_inv s' \<and> snap s' = m \<and>
    last_increment_sequence_number s' = mdp_sequence_number mu \<and>
    card (live (snap_order_pool s')) \<le> card (live (snap_order_pool s)) + 1 \<and>
    snapshot_socket s' = snapshot_socket s \<and> last_snapshot_time s' = last_snapshot_time s"
proof -
  define T K where "T = unat (mu_ticker_id u)" and "K = unat (mu_order_id u)"
  have fin: "snap_inv (s1\<lparr>last_increment_sequence_number := n\<rparr>) = snap_inv s1" "snap (s1\<lparr>last_increment_sequence_number := n\<rparr>) = snap s1"
    for s1 n by (simp_all add: snap_inv_def slot_addr_def snap_def)
  note defs = addToSnapshot_def snapshot_switch_def Let_def u [symmetric] T_def [symmetric] K_def [symmetric]
  show ?thesis
  proof (cases "mu_type u")
    case MU_ADD
    then have none: "ticker_orders s T K = None" and m: "m = (snap s)(T := (snap s T)(K \<mapsto> u))"
      using ap by (auto simp: apply_update.simps Let_def snap_def T_def K_def split: option.splits)
    obtain a pl where r: "allocate u (snap_order_pool s) = Inr (a, pl)"
        "snap_inv (set_ticker_order T K (Some a) (s\<lparr>snap_order_pool := pl\<rparr>))"
        "snap (set_ticker_order T K (Some a) (s\<lparr>snap_order_pool := pl\<rparr>)) = m"
        "card (live pl) \<le> card (live (snap_order_pool s)) + 1"
      using snap_add [OF inv none K_def [symmetric] room] m by (auto simp: Let_def)
    show ?thesis
      using MU_ADD none r seq t k by (simp add: defs order_slot_def fin)
  next
    case MU_MODIFY
    then obtain a where a: "ticker_orders s T K = Some a" "mu_side (obj (snap_order_pool s) a) = mu_side u"
      and m: "m = (snap s)(T := (snap s T)(K \<mapsto> (obj (snap_order_pool s) a)\<lparr>mu_quantity := mu_quantity u, mu_price := mu_price u\<rparr>))"
      using ap by (auto simp: apply_update.simps Let_def snap_def T_def K_def split: option.splits if_splits)
    show ?thesis
      using MU_MODIFY a seq t existing_order_ok [of s u a] inv k snap_modify [OF inv a(1) refl] m
      by (simp add: defs fin)
  next
    case MU_CANCEL
    then obtain a where a: "ticker_orders s T K = Some a" "mu_side (obj (snap_order_pool s) a) = mu_side u"
      and m: "m = (snap s)(T := (snap s T)(K := None))"
      using ap by (auto simp: apply_update.simps Let_def snap_def T_def K_def split: option.splits if_splits)
    obtain pl where r: "deallocate (Some a) (snap_order_pool s) = Inr pl"
        "snap_inv (set_ticker_order T K None (s\<lparr>snap_order_pool := pl\<rparr>))"
        "snap (set_ticker_order T K None (s\<lparr>snap_order_pool := pl\<rparr>)) = m"
        "card (live pl) \<le> card (live (snap_order_pool s))"
      using snap_cancel [OF inv a(1)] m by (auto simp: Let_def)
    show ?thesis
      using MU_CANCEL a seq t existing_order_ok [of s u a] inv k r by (simp add: defs fin)
  qed (use ap seq t inv in \<open>simp_all add: defs fin apply_update.simps\<close>)
qed

text \<open>A numbered stream of updates, each inside the tables.\<close>

definition in_tables :: "MatchingEngineMarketUpdate \<Rightarrow> bool" where
  "in_tables u \<longleftrightarrow>
     unat (mu_ticker_id u) < MATCHING_ENGINE_MAX_TICKERS \<and> unat (mu_order_id u) < MATCHING_ENGINE_MAX_ORDER_IDS"

lemma addToSnapshot_stream:
  assumes "snap_inv s" and "n = last_increment_sequence_number s + 1" and "\<forall>u \<in> set us. in_tables u"
    and "card (live (snap_order_pool s)) + length us < MATCHING_ENGINE_MAX_ORDER_IDS"
    and "apply_updates us (snap s) = Some m"
  shows "\<exists>s'. fold_res addToSnapshot (number_from n us) s = Inr s' \<and> snap_inv s' \<and> snap s' = m \<and>
    last_increment_sequence_number s' + 1 = n + of_nat (length us) \<and>
    snapshot_socket s' = snapshot_socket s \<and> last_snapshot_time s' = last_snapshot_time s"
  using assms
proof (induction us arbitrary: s n)
  case Nil
  then show ?case by simp
next
  case (Cons u us)
  let ?mu = "\<lparr>mdp_sequence_number = n, me_market_update = u\<rparr>"
  obtain m1 where m1: "apply_update u (snap s) = Some m1" "apply_updates us m1 = Some m"
    using Cons.prems(5) by (auto split: option.splits)
  have "in_tables u" using Cons.prems(3) by simp
  then obtain s1 where s1: "addToSnapshot ?mu s = Inr s1" "snap_inv s1" "snap s1 = m1"
      "last_increment_sequence_number s1 = n" "card (live (snap_order_pool s1)) \<le> card (live (snap_order_pool s)) + 1"
      "snapshot_socket s1 = snapshot_socket s" "last_snapshot_time s1 = last_snapshot_time s"
    using addToSnapshot_refines [of s ?mu u m1] Cons.prems m1(1) by (auto simp: in_tables_def)
  from Cons.IH [of s1 "n + 1"] s1 Cons.prems m1(2)
  obtain s' where "fold_res addToSnapshot (number_from (n + 1) us) s1 = Inr s'" "snap_inv s'" "snap s' = m"
      "last_increment_sequence_number s' + 1 = n + 1 + of_nat (length us)"
      "snapshot_socket s' = snapshot_socket s1" "last_snapshot_time s' = last_snapshot_time s1"
    by auto
  with s1 show ?case by (auto simp: algebra_simps)
qed

lemma initial_snapshot:
  assumes "SnapshotSynthesizer q fd = Inr s"
  shows "snap_inv s" "snap s = (\<lambda>_ _. None)" "live (snap_order_pool s) = {}" "last_increment_sequence_number s = 0"
    "snapshot_socket s = new_socket fd" "last_snapshot_time s = 0" "snapshot_md_updates s = q"
  using assms
  by (auto simp: SnapshotSynthesizer_def res_simps snap_inv_def snap_def slot_addr_def pool_inv_MemPool limit_defs)

text \<open>Updates that do not fit fail an assertion.\<close>

lemma existing_order_none:
  assumes inv: "snap_inv s" and k: "unat (mu_order_id u) < MATCHING_ENGINE_MAX_ORDER_IDS"
    and bad: "case snap s (unat (mu_ticker_id u)) (unat (mu_order_id u)) of None \<Rightarrow> True | Some w \<Rightarrow> mu_side w \<noteq> mu_side u"
  shows "\<exists>msg. existing_order u s = Inl (AssertFailed msg)"
proof (cases "ticker_orders s (unat (mu_ticker_id u)) (unat (mu_order_id u))")
  case None
  then show ?thesis using k by (simp add: existing_order_def order_slot_def)
next
  case (Some a)
  then have "mu_order_id (obj (snap_order_pool s) a) = mu_order_id u" "mu_side (obj (snap_order_pool s) a) \<noteq> mu_side u"
    using inv bad by (simp_all add: snap_inv_def word_unat_eq_iff snap_def)
  then show ?thesis using Some k by (simp add: existing_order_def order_slot_def)
qed

lemma snapshot_switch_number:
  "snapshot_switch u s = Inr s1 \<Longrightarrow> last_increment_sequence_number s1 = last_increment_sequence_number s"
  by (cases "mu_type u") (auto simp: snapshot_switch_def Let_def res_simps split: option.splits)

lemma addToSnapshot_only_asserts:
  assumes inv: "snap_inv s" and t: "unat (mu_ticker_id u) < MATCHING_ENGINE_MAX_TICKERS"
    and k: "unat (mu_order_id u) < MATCHING_ENGINE_MAX_ORDER_IDS"
    and room: "card (live (snap_order_pool s)) + 2 \<le> MATCHING_ENGINE_MAX_ORDER_IDS"
    and bad: "apply_update u (snap s) = None"
  shows "\<exists>msg. addToSnapshot \<lparr>mdp_sequence_number = n, me_market_update = u\<rparr> s = Inl (AssertFailed msg)"
proof -
  let ?T = "unat (mu_ticker_id u)" and ?K = "unat (mu_order_id u)"
  consider (add) "mu_type u = MU_ADD" "snap s ?T ?K \<noteq> None"
    | (old) "mu_type u = MU_MODIFY \<or> mu_type u = MU_CANCEL"
        "case snap s ?T ?K of None \<Rightarrow> True | Some w \<Rightarrow> mu_side w \<noteq> mu_side u"
    using bad by (auto simp: apply_update.simps Let_def split: MarketUpdateType.splits option.splits if_splits)
  then show ?thesis
  proof cases
    case add
    then obtain a where "ticker_orders s ?T ?K = Some a" by (auto simp: snap_def)
    then show ?thesis using add(1) t k by (simp add: addToSnapshot_def snapshot_switch_def Let_def order_slot_def)
  next
    case old
    then show ?thesis using existing_order_none [OF inv k old(2)] t by (auto simp: addToSnapshot_def snapshot_switch_def Let_def)
  qed
qed

lemma addToSnapshot_refuses:
  assumes inv: "snap_inv s" and t: "unat (mu_ticker_id u) < MATCHING_ENGINE_MAX_TICKERS"
    and k: "unat (mu_order_id u) < MATCHING_ENGINE_MAX_ORDER_IDS"
    and room: "card (live (snap_order_pool s)) + 2 \<le> MATCHING_ENGINE_MAX_ORDER_IDS"
    and bad: "\<not> (n = last_increment_sequence_number s + 1 \<and> apply_update u (snap s) \<noteq> None)"
  shows "\<exists>msg. addToSnapshot \<lparr>mdp_sequence_number = n, me_market_update = u\<rparr> s = Inl (AssertFailed msg)"
proof (cases "apply_update u (snap s)")
  case None
  then show ?thesis by (rule addToSnapshot_only_asserts [OF inv t k room])
next
  case (Some m)
  let ?mk = "\<lambda>n. \<lparr>mdp_sequence_number = n, me_market_update = u\<rparr>"
  let ?ok = "last_increment_sequence_number s + 1"
  obtain s' where "addToSnapshot (?mk ?ok) s = Inr s'"
    using addToSnapshot_refines [OF inv _ refl, of "?mk ?ok" m] t k room Some by auto
  then obtain s1 where "snapshot_switch u s = Inr s1" by (auto simp: addToSnapshot_def Let_def res_simps)
  moreover have "n \<noteq> ?ok" using bad Some by simp
  ultimately show ?thesis using t snapshot_switch_number [of u s s1] by (simp add: addToSnapshot_def)
qed

subsection \<open>A published snapshot holds every live order\<close>

text \<open>The messages that stand for a table of orders.\<close>

definition restartable :: "snapshot \<Rightarrow> bool" where
  "restartable m \<longleftrightarrow> (\<forall>t k u. m t k = Some u \<longrightarrow>
     mu_type u = MU_ADD \<and> unat (mu_ticker_id u) = t \<and> unat (mu_order_id u) = k \<and> in_tables u)"

lemma apply_ignored:
  "mu_type u = MU_CLEAR \<or> mu_type u = MU_SNAPSHOT_START \<or> mu_type u = MU_SNAPSHOT_END \<Longrightarrow> apply_update u m = Some m"
  by (auto simp: apply_update.simps Let_def)

lemma apply_ticker_orders:
  assumes "restartable M" and "distinct ks" and "\<And>k. k \<in> set ks \<Longrightarrow> m t k = None"
  shows "apply_updates (List.map_filter (M t) ks) m =
    Some (m(t := (\<lambda>k. if k \<in> set ks \<and> M t k \<noteq> None then M t k else m t k)))"
  using assms(2,3)
proof (induction ks arbitrary: m)
  case Nil
  then show ?case by (simp add: map_filter_simps)
next
  case (Cons k ks)
  show ?case
  proof (cases "M t k")
    case None
    then show ?thesis using Cons by (auto simp: map_filter_simps fun_eq_iff)
  next
    case (Some u)
    then have u: "mu_type u = MU_ADD" "unat (mu_ticker_id u) = t" "unat (mu_order_id u) = k"
      using assms(1) by (auto simp: restartable_def)
    let ?m = "m(t := (m t)(k \<mapsto> u))"
    have "apply_update u m = Some ?m" using u Cons.prems by (simp add: apply_update.simps Let_def)
    then have "apply_updates (List.map_filter (M t) (k # ks)) m = apply_updates (List.map_filter (M t) ks) ?m"
      using Some by (simp add: map_filter_simps)
    also have "\<dots> = Some (?m(t := (\<lambda>k. if k \<in> set ks \<and> M t k \<noteq> None then M t k else ?m t k)))"
      by (rule Cons.IH) (use Cons.prems in auto)
    also have "?m(t := (\<lambda>k. if k \<in> set ks \<and> M t k \<noteq> None then M t k else ?m t k)) =
        m(t := (\<lambda>k'. if k' \<in> set (k # ks) \<and> M t k' \<noteq> None then M t k' else m t k'))"
      using Some by (auto simp: fun_eq_iff)
    finally show ?thesis .
  qed
qed

lemma apply_tickers:
  assumes "restartable (snap s)" and "distinct ts" and "\<And>t. t \<in> set ts \<Longrightarrow> m t = (\<lambda>_. None)"
  shows "apply_updates (concat (map (ticker_snapshot s) ts)) m =
    Some (\<lambda>t. if t \<in> set ts then (\<lambda>k. if k < MATCHING_ENGINE_MAX_ORDER_IDS then snap s t k else None) else m t)"
  using assms(2,3)
proof (induction ts arbitrary: m)
  case Nil
  then show ?case by simp
next
  case (Cons t ts)
  let ?m = "m(t := (\<lambda>k. if k < MATCHING_ENGINE_MAX_ORDER_IDS then snap s t k else None))"
  have "map (obj (snap_order_pool s)) (List.map_filter (ticker_orders s t) ks) = List.map_filter (snap s t) ks" for ks
    by (induction ks) (auto simp: map_filter_simps snap_def split: option.splits)
  then have "apply_updates (ticker_snapshot s t) m = apply_updates (List.map_filter (snap s t) [0..<MATCHING_ENGINE_MAX_ORDER_IDS]) m"
    unfolding ticker_snapshot_def live_orders_def clear_update_def by (simp add: apply_ignored)
  also have "\<dots> = Some ?m"
    using apply_ticker_orders [OF assms(1), of "[0..<MATCHING_ENGINE_MAX_ORDER_IDS]" m t] Cons.prems
    by (auto simp: fun_eq_iff)
  finally have step: "apply_updates (ticker_snapshot s t) m = Some ?m" .
  have "apply_updates (concat (map (ticker_snapshot s) (t # ts))) m =
      apply_updates (concat (map (ticker_snapshot s) ts)) ?m"
    using step by (simp add: apply_updates_append)
  also have "\<dots> = Some (\<lambda>t. if t \<in> set ts
      then (\<lambda>k. if k < MATCHING_ENGINE_MAX_ORDER_IDS then snap s t k else None) else ?m t)"
    by (rule Cons.IH) (use Cons.prems in auto)
  finally show ?case by (auto simp: fun_eq_iff)
qed

lemma snapshot_messages_rebuild:
  assumes "restartable (snap s)"
  shows "apply_updates (snapshot_messages s) (\<lambda>_ _. None) = Some (snap s)"
proof -
  have out: "snap s t k = None" if "\<not> t < MATCHING_ENGINE_MAX_TICKERS \<or> \<not> k < MATCHING_ENGINE_MAX_ORDER_IDS" for t k
    using that assms unfolding restartable_def in_tables_def by (metis option.exhaust)
  have "(\<lambda>t. if t \<in> set [0..<MATCHING_ENGINE_MAX_TICKERS]
      then (\<lambda>k. if k < MATCHING_ENGINE_MAX_ORDER_IDS then snap s t k else None) else (\<lambda>_. None)) = snap s"
    using out by (auto simp: fun_eq_iff)
  then show ?thesis
    using apply_tickers [OF assms, of "[0..<MATCHING_ENGINE_MAX_TICKERS]" "\<lambda>_ _. None"]
    by (simp add: snapshot_messages_def Let_def apply_ignored apply_updates_append)
qed

end
