(* ===== verification/Replay.thy ===== *)
theory Replay
  imports MatchingEngine SnapshotRefine "HOL-Library.Multiset"
begin

section \<open>The market data stream determines the book\<close>

text \<open>
  Replaying the market updates the engine sends, from an empty snapshot, gives for every ticker
  exactly the orders that rest in its book, with their side, price, quantity and priority. The proof
  is on the specification: each request changes the image of the book the way its updates change the
  snapshot.
\<close>

definition add_update :: "TickerID \<Rightarrow> MatchingEngineOrder \<Rightarrow> MatchingEngineMarketUpdate" where
  "add_update tid x =
     \<lparr>mu_type = MU_ADD, mu_order_id = o_market_order_id x, mu_ticker_id = tid, mu_side = o_side x,
      mu_price = o_price x, mu_quantity = o_quantity x, mu_priority = o_priority x\<rparr>"

abbreviation moid :: "MatchingEngineOrder \<Rightarrow> nat" where
  "moid x \<equiv> unat (o_market_order_id x)"

definition image_of :: "TickerID \<Rightarrow> MatchingEngineOrder list \<Rightarrow> nat \<Rightarrow> MatchingEngineMarketUpdate option" where
  "image_of tid xs = map_of (map (\<lambda>x. (moid x, add_update tid x)) xs)"

lemma image_of_simps [simp]:
  "image_of tid [] = (\<lambda>_. None)" "image_of tid (x # xs) = (image_of tid xs)(moid x \<mapsto> add_update tid x)"
  by (simp_all add: image_of_def)

lemma image_of_None: "image_of tid xs k = None \<longleftrightarrow> k \<notin> moid ` set xs"
  by (induction xs) auto

lemma image_of_perm:
  assumes "mset xs = mset ys" and "distinct (map moid xs)"
  shows "image_of tid xs = image_of tid ys"
proof -
  let ?f = "\<lambda>x. (moid x, add_update tid x)"
  have "distinct (map moid ys)"
    using assms(2) mset_eq_imp_distinct_iff [of "map moid xs" "map moid ys"] assms(1) by simp
  moreover have "set (map ?f xs) = set (map ?f ys)" using mset_eq_setD [OF assms(1)] by simp
  ultimately show ?thesis
    unfolding image_of_def using assms(2) by (intro map_of_inject_set [THEN iffD2]) (simp_all add: comp_def)
qed

lemma apply_add:
  "m (unat tid) (moid x) = None \<Longrightarrow>
   apply_update (add_update tid x) m = Some (m(unat tid := (m (unat tid))(moid x \<mapsto> add_update tid x)))"
  by (simp add: apply_update.simps add_update_def Let_def)

text \<open>A fill, seen from the snapshot: the order leaves or has its quantity lowered.\<close>

lemma apply_fill_full:
  assumes "m (unat tid) = image_of tid (x # ys)" and "moid x \<notin> moid ` set ys" and "q = o_quantity x"
  shows "apply_update (fill_update tid (x, q, l)) m = Some (m(unat tid := image_of tid ys))"
proof -
  have "(image_of tid ys)(moid x := None) = image_of tid ys"
    using assms(2) image_of_None [of tid ys "moid x"] by auto
  then show ?thesis using assms
    by (simp add: apply_update.simps fill_update_def Let_def add_update_def)
qed

lemma apply_fill_partial:
  assumes "m (unat tid) = image_of tid (x # ys)" and "q < o_quantity x"
  shows "apply_update (fill_update tid (x, q, l)) m =
    Some (m(unat tid := image_of tid (x\<lparr>o_quantity := o_quantity x - q\<rparr> # ys)))"
proof -
  have "o_quantity x - q \<noteq> 0" using assms(2) by auto
  then show ?thesis using assms(1)
    by (simp add: apply_update.simps fill_update_def Let_def add_update_def)
qed

lemma replay_match:
  assumes "distinct (map moid (all_orders ls @ os))"
  shows "case spec_match sd p leaves ls of (fs, ls', leaves') \<Rightarrow>
    \<forall>m. m (unat tid) = image_of tid (all_orders ls @ os) \<longrightarrow>
      apply_updates (map (fill_update tid) fs) m = Some (m(unat tid := image_of tid (all_orders ls' @ os)))"
  using assms
proof (induction rule: spec_match_induct)
  case (Full leaves q x xs ls fs ls' leaves')
  have o: "all_orders (drop_head q xs ls) = xs @ all_orders ls" by simp
  show ?case
  proof (unfold case_prod_conv, intro allI impI)
    fix m assume "m (unat tid) = image_of tid (all_orders ((q, x # xs) # ls) @ os)"
    then have m: "m (unat tid) = image_of tid (x # xs @ all_orders ls @ os)" by simp
    have fresh: "moid x \<notin> moid ` set (xs @ all_orders ls @ os)" using Full(6) by auto
    show "apply_updates (map (fill_update tid) ((x, o_quantity x, leaves - o_quantity x) # fs)) m =
      Some (m(unat tid := image_of tid (all_orders ls' @ os)))"
      using apply_fill_full [where m = m and x = x and ys = "xs @ all_orders ls @ os" and tid = tid
          and q = "o_quantity x" and l = "leaves - o_quantity x"] m fresh Full(5,6) o
      by (simp add: fun_upd_def cong: if_cong)
  qed
next
  case (Partial leaves q x xs ls)
  show ?case
  proof (unfold case_prod_conv, intro allI impI)
    fix m assume "m (unat tid) = image_of tid (all_orders ((q, x # xs) # ls) @ os)"
    then show "apply_updates (map (fill_update tid) [(x, leaves, 0)]) m =
      Some (m(unat tid := image_of tid (all_orders ((q, x\<lparr>o_quantity := o_quantity x - leaves\<rparr> # xs) # ls) @ os)))"
      using apply_fill_partial [where m = m and tid = tid and x = x and ys = "xs @ all_orders ls @ os" and q = leaves
          and l = 0] Partial(3) by simp
  qed
qed auto


subsection \<open>Identifiers in a book\<close>

definition book_orders :: "book \<Rightarrow> MatchingEngineOrder list" where
  "book_orders v = all_orders (v Side_BUY) @ all_orders (v Side_SELL)"

definition client_key :: "MatchingEngineOrder \<Rightarrow> ClientID \<times> OrderID" where
  "client_key x = (o_client_id x, o_client_order_id x)"

text \<open>Market identifiers and client keys name one order each, and the next identifier is unused.\<close>

fun ids_wf :: "book_state \<Rightarrow> bool" where
  "ids_wf (v, n) \<longleftrightarrow>
     distinct (map moid (book_orders v)) \<and> distinct (map client_key (book_orders v)) \<and>
     (\<forall>x \<in> set (book_orders v). moid x < unat n)"

lemma mset_book_orders:
  "trading_side sd \<Longrightarrow> mset (book_orders v) = mset (all_orders (v (opposite sd)) @ all_orders (v sd))"
  by (auto simp: book_orders_def trading_side_def)

lemma distinct_book_orders:
  assumes "mset xs = mset (book_orders v)"
  shows "distinct (map f (book_orders v)) \<longleftrightarrow> distinct (map f xs)" "set (book_orders v) = set xs"
  using mset_eq_imp_distinct_iff [of "map f xs" "map f (book_orders v)"] assms mset_eq_setD [OF assms] by auto

lemma has_key_client_key: "has_key cid coid x \<longleftrightarrow> client_key x = (cid, coid)"
  by (auto simp: has_key_def client_key_def)

text \<open>Matching takes orders away from the front and changes nothing but quantities.\<close>

lemma spec_match_suffix:
  assumes "\<And>x q. f (x\<lparr>o_quantity := q\<rparr>) = f x"
  shows "case spec_match sd p leaves ls of (fs, ls', leaves') \<Rightarrow>
    \<exists>k. map f (all_orders ls') = drop k (map f (all_orders ls))"
proof (induction rule: spec_match_induct)
  case (Full leaves q x xs ls fs ls' leaves')
  have "all_orders (drop_head q xs ls) = xs @ all_orders ls" by simp
  with Full(5) obtain k where "map f (all_orders ls') = drop k (map f (xs @ all_orders ls))" by auto
  then show ?case by (auto intro: exI [of _ "Suc k"])
next
  case (Partial leaves q x xs ls)
  then show ?case by (auto simp: assms intro: exI [of _ 0])
qed (auto intro: exI [of _ 0])

lemma spec_match_ids:
  assumes "spec_match sd p leaves ls = (fs, ls', leaves')" and "\<And>x q. f (x\<lparr>o_quantity := q\<rparr>) = f x"
  shows "distinct (map f (all_orders ls @ os)) \<Longrightarrow> distinct (map f (all_orders ls' @ os))"
    "f ` set (all_orders ls') \<subseteq> f ` set (all_orders ls)"
proof -
  obtain k where k: "map f (all_orders ls') = drop k (map f (all_orders ls))"
    using spec_match_suffix [where f = f and sd = sd and p = p and leaves = leaves and ls = ls] assms by auto
  then have "set (map f (all_orders ls')) \<subseteq> set (map f (all_orders ls))" by (metis set_drop_subset)
  then show sub: "f ` set (all_orders ls') \<subseteq> f ` set (all_orders ls)" by simp
  show "distinct (map f (all_orders ls @ os)) \<Longrightarrow> distinct (map f (all_orders ls' @ os))"
    using k sub by (auto simp del: map_map simp flip: set_map)
qed

lemma mset_enqueue: "mset (all_orders (enqueue sd p x ls)) = add_mset x (mset (all_orders ls))"
  by (induction sd p x ls rule: enqueue.induct) auto

lemma all_orders_remove_where: "all_orders (remove_where P ls) = filter (\<lambda>x. \<not> P x) (all_orders ls)"
  by (induction ls) (auto simp: filter_empty_conv)

lemma image_of_lookup:
  "distinct (map moid xs) \<Longrightarrow> x \<in> set xs \<Longrightarrow> image_of tid xs (moid x) = Some (add_update tid x)"
  by (induction xs) (auto simp: image_iff)

lemma image_of_without:
  assumes "distinct (map moid xs)" and "x \<in> set xs" and "\<And>y. y \<in> set xs \<Longrightarrow> P y \<longleftrightarrow> y = x"
  shows "image_of tid (filter (\<lambda>y. \<not> P y) xs) = (image_of tid xs)(moid x := None)"
proof -
  let ?ys = "filter (\<lambda>y. \<not> P y) xs"
  have d: "distinct xs" using assms(1) by (simp add: distinct_map)
  have "set xs = set (x # ?ys)" "distinct (x # ?ys)" using assms(2,3) d by auto
  then have m: "mset xs = mset (x # ?ys)" using d set_eq_iff_mset_eq_distinct by blast
  then have "image_of tid xs = image_of tid (x # ?ys)" using assms(1) by (rule image_of_perm)
  moreover have "moid x \<notin> moid ` set ?ys"
    using assms by (auto simp: distinct_map dest: inj_onD)
  ultimately show ?thesis using image_of_None [of tid ?ys "moid x"] by auto
qed

subsection \<open>One request\<close>

abbreviation book_image :: "TickerID \<Rightarrow> book_state \<Rightarrow> nat \<Rightarrow> MatchingEngineMarketUpdate option" where
  "book_image tid s \<equiv> image_of tid (book_orders (fst s))"

lemma spec_add_orders:
  assumes "trading_side sd" and "spec_match sd p qty (v (opposite sd)) = (fs, rest, leaves)"
    and "x = new_order cid coid tid sd p leaves n (next_priority p (v sd))"
  shows "mset (book_orders (spec_add cid coid tid sd p qty n v)) =
    mset ((if leaves = 0 then [] else [x]) @ all_orders rest @ all_orders (v sd))"
  using assms by (simp add: mset_book_orders [OF assms(1)] spec_add_def mset_enqueue)

lemma replay_new:
  assumes sd: "trading_side sd" and wf: "ids_wf (v, n)" and new: "spec_find cid coid v = None"
    and n: "unat n + 1 < 2 ^ 64" and m: "m (unat tid) = image_of tid (book_orders v)"
    and v': "v' = spec_add cid coid tid sd p qty n v"
  shows "apply_updates (add_updates tid sd p qty n v) m = Some (m(unat tid := image_of tid (book_orders v')))"
    "ids_wf (v', n + 1)"
proof -
  obtain fs rest leaves where sm: "spec_match sd p qty (v (opposite sd)) = (fs, rest, leaves)" by (metis prod_cases3)
  let ?old = "all_orders (v (opposite sd)) @ all_orders (v sd)" and ?mid = "all_orders rest @ all_orders (v sd)"
  define x where "x = new_order cid coid tid sd p leaves n (next_priority p (v sd))"
  note old = distinct_book_orders [OF mset_book_orders [OF sd, of v, symmetric]]
  have perm: "mset (book_orders v') = mset ((if leaves = 0 then [] else [x]) @ ?mid)"
    unfolding v' by (rule spec_add_orders [OF sd sm x_def])
  have ids: "distinct (map moid ?old)" "distinct (map client_key ?old)" "\<And>y. y \<in> set ?old \<Longrightarrow> moid y < unat n"
    using wf old by (auto simp del: map_append set_append)
  have key: "client_key y \<noteq> client_key x" if "y \<in> set ?old" for y
    using that new old(2) by (auto simp: spec_find_None has_key_client_key book_orders_def client_key_def x_def new_order_def)
  have moid: "distinct (map moid ?mid)" "moid ` set ?mid \<subseteq> moid ` set ?old"
    using spec_match_ids(1) [OF sm, where f = moid and os = "all_orders (v sd)"]
      spec_match_ids(2) [OF sm, where f = moid] ids(1) by auto
  have ck: "distinct (map client_key ?mid)" "client_key ` set ?mid \<subseteq> client_key ` set ?old"
    using spec_match_ids(1) [OF sm, where f = client_key and os = "all_orders (v sd)"]
      spec_match_ids(2) [OF sm, where f = client_key] ids(2) by (auto simp: client_key_def)
  have mx: "moid x = unat n" by (simp add: x_def new_order_def)
  have fresh: "moid x \<notin> moid ` set ?mid" using moid(2) ids(3) mx by fastforce
  have keyx: "client_key x \<notin> client_key ` set ?mid" using ck(2) key by fastforce
  have d': "distinct (map moid (book_orders v'))" "distinct (map client_key (book_orders v'))"
    using moid(1) ck(1) fresh keyx unfolding distinct_book_orders(1) [OF perm [symmetric]] by (auto split: if_splits)
  have lt: "moid y \<le> unat n" if "y \<in> set (book_orders v')" for y
    using that moid(2) ids(3) mx unfolding distinct_book_orders(2) [OF perm [symmetric]] by (fastforce split: if_splits)
  have "unat (n + 1) = unat n + 1" using n by (simp add: unat_word_ariths)
  then show "ids_wf (v', n + 1)" using d' lt by fastforce
  have "image_of tid (book_orders v) = image_of tid ?old"
    using mset_book_orders [OF sd] wf by (intro image_of_perm) simp_all
  then have fills: "apply_updates (map (fill_update tid) fs) m = Some (m(unat tid := image_of tid ?mid))"
    using replay_match [OF ids(1), where sd = sd and p = p and leaves = qty and tid = tid] sm m by auto
  have img: "image_of tid (book_orders v') = image_of tid ((if leaves = 0 then [] else [x]) @ ?mid)"
    by (rule image_of_perm [OF perm d'(1)])
  show "apply_updates (add_updates tid sd p qty n v) m = Some (m(unat tid := image_of tid (book_orders v')))"
  proof (cases "leaves = 0")
    case True
    then show ?thesis using fills img sm by (simp add: add_updates_def)
  next
    case False
    have "\<lparr>mu_type = MU_ADD, mu_order_id = n, mu_ticker_id = tid, mu_side = sd, mu_price = p,
        mu_quantity = leaves, mu_priority = next_priority p (v sd)\<rparr> = add_update tid x"
      by (simp add: add_update_def x_def new_order_def)
    then show ?thesis
      using fills img False sm fresh image_of_None [of tid ?mid "moid x"]
        apply_add [of "m(unat tid := image_of tid ?mid)" tid x]
      by (simp add: add_updates_def apply_updates_append)
  qed
qed


lemma spec_cancel_orders:
  assumes wf: "book_wf v" and ids: "ids_wf (v, n)" and x: "spec_find cid coid v = Some x"
  shows "book_orders (spec_cancel cid coid v) = filter (\<lambda>y. \<not> has_key cid coid y) (book_orders v)"
    "x \<in> set (book_orders v)" "y \<in> set (book_orders v) \<Longrightarrow> has_key cid coid y \<longleftrightarrow> y = x"
proof -
  note side = spec_find_side [OF wf x]
  show x_in: "x \<in> set (book_orders v)" using side by (auto simp: book_orders_def trading_side_def)
  have inj: "inj_on client_key (set (book_orders v))" and dist: "distinct (book_orders v)"
    using ids by (simp_all add: distinct_map)
  show only: "has_key cid coid y \<longleftrightarrow> y = x" if "y \<in> set (book_orders v)" for y
    using that x_in side(3) inj unfolding has_key_client_key by (metis inj_onD)
  have "x \<notin> set (all_orders (v (opposite (o_side x))))"
    using side(1,2) dist by (auto simp: book_orders_def trading_side_def)
  then have "filter (\<lambda>y. \<not> has_key cid coid y) (all_orders (v (opposite (o_side x)))) = all_orders (v (opposite (o_side x)))"
    using only side(1) by (auto simp: book_orders_def trading_side_def intro!: filter_True)
  then show "book_orders (spec_cancel cid coid v) = filter (\<lambda>y. \<not> has_key cid coid y) (book_orders v)"
    using side(1) by (auto simp: book_orders_def spec_cancel_def x all_orders_remove_where trading_side_def)
qed

lemma replay_cancel:
  assumes wf: "book_wf v" and ids: "ids_wf (v, n)" and m: "m (unat tid) = image_of tid (book_orders v)"
    and v': "v' = spec_cancel cid coid v"
  shows "apply_updates (cancel_updates cid coid tid v) m = Some (m(unat tid := image_of tid (book_orders v')))"
    "ids_wf (v', n)"
proof -
  have "apply_updates (cancel_updates cid coid tid v) m = Some (m(unat tid := image_of tid (book_orders v'))) \<and> ids_wf (v', n)"
  proof (cases "spec_find cid coid v")
    case None
    then show ?thesis using ids m by (auto simp: v' spec_cancel_def cancel_updates_def fun_upd_idem)
  next
    case (Some x)
    note c = spec_cancel_orders [OF wf ids Some]
    have d: "distinct (map moid (book_orders v))" using ids by simp
    have "image_of tid (book_orders v') = (image_of tid (book_orders v))(moid x := None)"
      unfolding v' c(1) using d c(2,3) by (rule image_of_without)
    moreover have "m (unat tid) (moid x) = Some (add_update tid x)" using image_of_lookup [OF d c(2)] m by simp
    moreover have "ids_wf (v', n)" using ids c(1) by (auto simp: v' distinct_map inj_on_def)
    ultimately show ?thesis
      using m Some by (simp add: cancel_updates_def apply_update.simps Let_def add_update_def)
  qed
  then show "apply_updates (cancel_updates cid coid tid v) m = Some (m(unat tid := image_of tid (book_orders v')))"
    "ids_wf (v', n)" by auto
qed

lemma replay_request:
  assumes "book_wf (fst s)" and "ids_wf s" and "admissible r s" and "unat (snd s) + 1 < 2 ^ 64"
    and "m (ticker_of r) = book_image (rq_ticker_id r) s"
  shows "apply_updates (request_updates r s) m = Some (m(ticker_of r := book_image (rq_ticker_id r) (spec_request r s)))"
    "ids_wf (spec_request r s)" "book_wf (fst (spec_request r s))" "unat (snd (spec_request r s)) \<le> unat (snd s) + 1"
proof -
  obtain v n where s: "s = (v, n)" by (cases s)
  have "apply_updates (request_updates r s) m = Some (m(ticker_of r := book_image (rq_ticker_id r) (spec_request r s))) \<and>
      ids_wf (spec_request r s) \<and> book_wf (fst (spec_request r s)) \<and> unat (snd (spec_request r s)) \<le> unat (snd s) + 1"
  proof (cases "rq_type r")
    case CRQ_NEW
    then have a: "trading_side (rq_side r)" "spec_find (rq_client_id r) (rq_order_id r) v = None"
      using assms(3) by (simp_all add: s)
    have "unat (n + 1) \<le> unat n + 1" using assms(4) by (simp add: s unat_word_ariths)
    then show ?thesis
      using replay_new [OF a(1) _ a(2) _ _ refl, of n m "rq_ticker_id r"] spec_add_wf [OF _ a(1)] assms CRQ_NEW
      by (simp add: s del: ids_wf.simps)
  next
    case CRQ_CANCEL
    then show ?thesis
      using replay_cancel [OF _ _ _ refl, of v n m "rq_ticker_id r"] spec_cancel_wf assms
      by (simp add: s del: ids_wf.simps)
  qed (use assms(3) s in simp)
  then show "apply_updates (request_updates r s) m = Some (m(ticker_of r := book_image (rq_ticker_id r) (spec_request r s)))"
    "ids_wf (spec_request r s)" "book_wf (fst (spec_request r s))" "unat (snd (spec_request r s)) \<le> unat (snd s) + 1"
    by auto
qed

text \<open>The updates of a request name its ticker and identifiers the book has given out.\<close>

lemma fills_in_book:
  assumes "spec_match sd p qty ls = (fs, rest, leaves)" and "f \<in> set fs"
  shows "fst f \<in> set (all_orders ls)"
proof -
  have "map fst fs = take (length fs) (all_orders ls)"
    using spec_match_priority [where sd = sd and p = p and leaves = qty and ls = ls] assms(1) by simp
  moreover have "fst f \<in> set (map fst fs)" using assms(2) by simp
  ultimately show ?thesis by (metis in_set_takeD)
qed

lemma request_updates_ids:
  assumes "ids_wf s" and "book_wf (fst s)" and "admissible r s" and "u \<in> set (request_updates r s)"
  shows "mu_ticker_id u = rq_ticker_id r" "unat (mu_order_id u) \<le> unat (snd s)"
proof -
  obtain v n where s: "s = (v, n)" by (cases s)
  have lt: "moid x \<le> unat n" if "x \<in> set (book_orders v)" for x using assms(1) that by (auto simp: s)
  have "mu_ticker_id u = rq_ticker_id r \<and> unat (mu_order_id u) \<le> unat (snd s)"
  proof (cases "rq_type r")
    case CRQ_NEW
    then have sd: "trading_side (rq_side r)" using assms(3) by (simp add: s)
    obtain fs rest leaves where sm: "spec_match (rq_side r) (rq_price r) (rq_quantity r) (v (opposite (rq_side r))) = (fs, rest, leaves)"
      by (metis prod_cases3)
    have "moid (fst f) \<le> unat n" if "f \<in> set fs" for f
      using fills_in_book [OF sm that] sd by (intro lt) (auto simp: book_orders_def trading_side_def)
    then show ?thesis using assms(4) CRQ_NEW sm
      by (auto simp: s add_updates_def fill_update_def split: if_splits)
  next
    case CRQ_CANCEL
    then show ?thesis using assms spec_cancel_orders(2) lt
      by (auto simp: s cancel_updates_def split: option.splits)
  qed (use assms(3) s in simp)
  then show "mu_ticker_id u = rq_ticker_id r" "unat (mu_order_id u) \<le> unat (snd s)" by simp_all
qed

subsection \<open>All requests\<close>

definition market_image :: "market \<Rightarrow> snapshot" where
  "market_image S = (\<lambda>t. book_image (of_nat t) (S t))"

definition market_wf :: "nat \<Rightarrow> market \<Rightarrow> bool" where
  "market_wf k S \<longleftrightarrow> (\<forall>t. ids_wf (S t) \<and> book_wf (fst (S t)) \<and> unat (snd (S t)) + k \<le> MATCHING_ENGINE_MAX_ORDER_IDS)"

lemma replay_engine:
  assumes "market_wf (length rs) S" and "engine_admissible rs S"
  shows "apply_updates (engine_updates rs S) (market_image S) = Some (market_image (fold engine_step rs S)) \<and>
    (\<forall>u \<in> set (engine_updates rs S). in_tables u) \<and> market_wf 0 (fold engine_step rs S) \<and>
    (\<forall>t \<ge> MATCHING_ENGINE_MAX_TICKERS. fold engine_step rs S t = S t)"
  using assms
proof (induction rs arbitrary: S)
  case Nil
  then show ?case by simp
next
  case (Cons r rs)
  let ?t = "ticker_of r"
  have t: "?t < MATCHING_ENGINE_MAX_TICKERS" "admissible r (S ?t)" "engine_admissible rs (engine_step r S)"
    using Cons.prems(2) by simp_all
  have wf: "ids_wf (S ?t)" "book_wf (fst (S ?t))" "unat (snd (S ?t)) + Suc (length rs) \<le> MATCHING_ENGINE_MAX_ORDER_IDS"
    using Cons.prems(1) by (simp_all add: market_wf_def)
  have id: "market_image S ?t = book_image (rq_ticker_id r) (S ?t)" by (simp add: market_image_def)
  have small: "unat (snd (S ?t)) + 1 < 2 ^ 64" using wf(3) by (simp add: limit_defs)
  note step = replay_request [where m = "market_image S", OF wf(2,1) t(2) small id]
  have "market_wf (length rs) (engine_step r S)"
    unfolding market_wf_def
  proof
    fix t'
    have "ids_wf (S t')" "book_wf (fst (S t'))" "unat (snd (S t')) + Suc (length rs) \<le> MATCHING_ENGINE_MAX_ORDER_IDS"
      using Cons.prems(1) by (simp_all add: market_wf_def)
    then show "ids_wf (engine_step r S t') \<and> book_wf (fst (engine_step r S t')) \<and>
        unat (snd (engine_step r S t')) + length rs \<le> MATCHING_ENGINE_MAX_ORDER_IDS"
      using step(2-4) by (cases "t' = ?t") (simp_all add: engine_step_def)
  qed
  note IH = Cons.IH [OF this t(3)]
  have "(market_image S)(?t := book_image (rq_ticker_id r) (spec_request r (S ?t))) = market_image (engine_step r S)"
    by (auto simp: market_image_def engine_step_def fun_eq_iff)
  moreover have "in_tables u" if "u \<in> set (request_updates r (S ?t))" for u
    using request_updates_ids [OF wf(1,2) t(2) that] t(1) wf(3) by (simp add: in_tables_def)
  moreover have "engine_step r S t' = S t'" if "t' \<ge> MATCHING_ENGINE_MAX_TICKERS" for t'
    using that t(1) by (simp add: engine_step_def)
  ultimately show ?case using step(1) IH by (auto simp: apply_updates_append)
qed

text \<open>The image of a market is what a snapshot can carry.\<close>

lemma image_of_Some: "image_of tid xs k = Some u \<Longrightarrow> \<exists>x \<in> set xs. u = add_update tid x \<and> k = moid x"
  by (induction xs) (auto split: if_splits)

lemma market_image_restartable:
  assumes "market_wf 0 S" and "\<forall>t \<ge> MATCHING_ENGINE_MAX_TICKERS. S t = (\<lambda>_. [], n)"
  shows "restartable (market_image S)"
  unfolding restartable_def
proof (intro allI impI)
  fix t k u assume "market_image S t k = Some u"
  then obtain x where x: "x \<in> set (book_orders (fst (S t)))" "u = add_update (of_nat t) x" "k = moid x"
    using image_of_Some unfolding market_image_def by blast
  have t: "t < MATCHING_ENGINE_MAX_TICKERS"
    using x(1) assms(2) by (metis book_orders_def all_orders_simps(1) append_Nil empty_iff fst_conv not_le_imp_less set_empty2)
  obtain v m where S: "S t = (v, m)" by (cases "S t")
  have "ids_wf (S t)" "unat (snd (S t)) \<le> MATCHING_ENGINE_MAX_ORDER_IDS"
    using assms(1) by (simp_all add: market_wf_def)
  then have "moid x < MATCHING_ENGINE_MAX_ORDER_IDS" using x(1) by (fastforce simp: S)
  moreover have "unat (of_nat t :: TickerID) = t" using t by (simp add: limit_defs unat_of_nat take_bit_nat_eq_self)
  ultimately show "mu_type u = MU_ADD \<and> unat (mu_ticker_id u) = t \<and> unat (mu_order_id u) = k \<and> in_tables u"
    using t x(2,3) by (simp add: add_update_def in_tables_def)
qed

lemma initial_market: "k < MATCHING_ENGINE_MAX_ORDER_IDS \<Longrightarrow> market_wf k (\<lambda>_. (\<lambda>_. [], 1))"
  "market_image (\<lambda>_. (\<lambda>_. [], 1)) = (\<lambda>_ _. None)"
  by (simp_all add: market_wf_def market_image_def book_orders_def book_wf_def uncrossed_def)


subsection \<open>Engine, publisher and synthesizer in a row\<close>

abbreviation empty_market :: market where
  "empty_market \<equiv> (\<lambda>_. (\<lambda>_. [], 1))"

text \<open>What a pass of the synthesizer leaves in its tables does not depend on the clock or the socket.\<close>

lemma snap_fields [simp]:
  "snap (s\<lparr>snapshot_socket := sock\<rparr>) = snap s" "snap (s\<lparr>last_snapshot_time := n\<rparr>) = snap s"
  "snap (s\<lparr>snapshot_md_updates := q\<rparr>) = snap s"
  by (simp_all add: snap_def)

lemma synthesizer_pass:
  assumes q: "lf_inv q" "lf_contents q = number_from 1 us" and tab: "\<forall>u \<in> set us. in_tables u"
    and len: "length us < MATCHING_ENGINE_MAX_ORDER_IDS" and ap: "apply_updates us (\<lambda>_ _. None) = Some m"
    and s0: "SnapshotSynthesizer q fd = Inr s0"
  shows "\<exists>s'. synthesizer_run_once now now' s0 = Inr s' \<and> snap s' = m \<and>
    (60 * NANOS_TO_SECS < now \<longrightarrow> (\<exists>s2. snap s2 = m \<and> sent_bytes (snapshot_socket s') = stream_bytes 0 (snapshot_messages s2)))"
proof -
  note init = initial_snapshot [OF s0]
  obtain s1 where s1: "fold_res addToSnapshot (number_from 1 us) s0 = Inr s1" "snap s1 = m"
      "snapshot_socket s1 = new_socket fd" "last_snapshot_time s1 = 0"
    using addToSnapshot_stream [OF init(1) _ tab, of 1 m] init len ap by auto
  define s2 where "s2 = s1\<lparr>snapshot_md_updates := lf_emptied q, last_snapshot_time := now'\<rparr>"
  have run: "synthesizer_run_once now now' s0 =
      (if 60 * NANOS_TO_SECS < now then publishSnapshot s2 else Inr (s1\<lparr>snapshot_md_updates := lf_emptied q\<rparr>))"
    using s1 init(7) lf_drain_fold [OF q(1), of addToSnapshot s0] q(2)
    by (simp add: synthesizer_run_once_def Let_def s2_def)
  have s2: "snap s2 = m" "send_buffer (snapshot_socket s2) = []" "sent_bytes (snapshot_socket s2) = []"
    using s1 by (simp_all add: s2_def)
  obtain sock where sock: "publishSnapshot s2 = Inr (s2\<lparr>snapshot_socket := sock\<rparr>)"
      "sent_bytes sock = stream_bytes 0 (snapshot_messages s2)"
    using publishSnapshot_ok [OF s2(2)] s2(3) by auto
  show ?thesis
  proof (cases "60 * NANOS_TO_SECS < now")
    case True
    then show ?thesis using run sock s2(1) by auto
  next
    case False
    then show ?thesis using run s1(2) by simp
  qed
qed

lemma publisher_pass:
  assumes "lf_inv q" and "lf_contents q = us" and "length us < MATCHING_ENGINE_MAX_MARKET_UPDATES"
    and p: "MarketDataPublisher q fd = Inr p"
  shows "\<exists>p'. publisher_run_once p = Inr p' \<and> sent_bytes (incremental_socket p') = stream_bytes 1 us \<and>
    lf_inv (snapshot_market_updates p') \<and> lf_contents (snapshot_market_updates p') = number_from 1 us"
proof -
  let ?q = "LockFreeQueue default_mdp MATCHING_ENGINE_MAX_MARKET_UPDATES"
  have "lf_inv ?q" by (rule lf_inv_LockFreeQueue) (simp add: limit_defs)
  then have "lf_inv (lf_push_all ?q (number_from 1 us)) \<and> lf_contents (lf_push_all ?q (number_from 1 us)) = number_from 1 us"
    using lf_push_all_contents [of ?q "number_from 1 us"] assms(3) by simp
  moreover have "pb_outgoing_market_updates p = q" "snapshot_market_updates p = ?q" "incremental_socket p = new_socket fd"
      "next_increment_sequence_number p = 1"
    using p by (auto simp: MarketDataPublisher_def res_simps)
  moreover have "SIZEOF_MDP * length us < BUFFER_SIZE" using assms(3) by (simp add: limit_defs SIZEOF_MDP_def BUFFER_SIZE_def)
  ultimately show ?thesis using publisher_run_once_spec [of p us] assms(1,2) by auto
qed

lemma engine_pass:
  assumes "lf_inv q" and "engine_admissible (lf_contents q) empty_market"
    and "lf_inv (outgoing_market_updates out)" and "lf_contents (outgoing_market_updates out) = []"
    and "length (engine_updates (lf_contents q) empty_market) < lf_capacity (outgoing_market_updates out)"
  shows "\<exists>e'. run (length (lf_contents q)) (start (MatchingEngine q out)) = Inr e' \<and>
    engine_holds e' (fold engine_step (lf_contents q) empty_market) \<and>
    lf_inv (outgoing_market_updates (outgoing e')) \<and>
    lf_contents (outgoing_market_updates (outgoing e')) = engine_updates (lf_contents q) empty_market"
proof -
  let ?e = "start (MatchingEngine q out)"
  have e: "me_is_running ?e" "incoming_requests ?e = q" "outgoing ?e = out"
    by (simp_all add: start_def MatchingEngine_def)
  have "engine_holds ?e empty_market"
    using initial_holds by (simp add: engine_holds_def MatchingEngine_def start_def)
  moreover have "lf_count (outgoing_market_updates out) = 0" using assms(4) length_lf_contents by (metis list.size(3))
  ultimately show ?thesis
    using run_spec [OF e(1), of empty_market] e assms
      lf_push_all_contents [of "outgoing_market_updates out" "engine_updates (lf_contents q) empty_market"]
    by (auto simp: emit_def)
qed

end
