(* ===== verification/BookProps.thy ===== *)
theory BookProps
  imports MatchingEngine
begin

section \<open>Properties of the order book and the matching engine\<close>

text \<open>The concrete state the examples start from: an empty book and two queues with room.\<close>

definition ex_out :: me_out where
  "ex_out = \<lparr>outgoing_responses = LockFreeQueue default_response 8, outgoing_market_updates = LockFreeQueue default_update 8\<rparr>"

lemma slot_free_Nil [simp]: "slot_free p []"
  by (simp add: slot_free_def)

lemma has_room_empty [simp]: "has_room (\<lambda>_. [])"
  by (simp add: has_room_def limit_defs)

lemma spec_find_empty [simp]: "spec_find c k (\<lambda>_. []) = None"
  by (simp add: spec_find_def)

text \<open>A sell order of 10 at 100, by client 1 with order identifier 5, in an empty book of ticker 0.\<close>

definition ex_order :: MatchingEngineOrder where
  "ex_order = new_order 1 5 0 Side_SELL 100 10 1 1"

definition ex_book :: book where
  "ex_book = (\<lambda>_. [])(Side_SELL := [(100, [ex_order])])"

lemma ex_book_add: "spec_add 1 5 0 Side_SELL 100 10 1 (\<lambda>_. []) = ex_book"
  by (simp add: spec_add_def ex_book_def ex_order_def next_priority_def fun_eq_iff)

lemma ex_book_represented: "\<exists>b. represents b ex_book \<and> next_market_order_id b = 2"
proof -
  have "next_market_order_id (MatchingEngineOrderBook 0) = 1" by (simp add: MatchingEngineOrderBook_def)
  with add_represents [OF initial_book [of 0], of Side_SELL 1 5 100 0 10 ex_out] show ?thesis
    by (auto simp: limit_defs ex_book_add)
qed

lemma ex_book_ok:
  "spec_find 2 7 ex_book = None" "slot_free 105 (ex_book Side_BUY)" "slot_free 105 (ex_book Side_SELL)" "has_room ex_book"
  by (simp_all add: spec_find_def ex_book_def ex_order_def new_order_def has_key_def slot_free_def has_room_def
      limit_defs priceToIndex_def)

subsection \<open>Adding and cancelling\<close>

text \<open>C2: \<open>add\<close> refines price-time matching. On a book that holds the lists \<open>v\<close>, for an order with
  identifiers inside the tables and not in use, a price that shares no table slot with another price,
  and room in the pools, \<open>add\<close> returns (no assertion, no null pointer, no endless loop), the new
  book holds exactly the lists the specification prescribes, and the responses and market updates it
  sends are, in order, the ones the specification prescribes.\<close>

theorem add_refines_spec:
  assumes "represents b v" and "trading_side sd" and "unat cid < MATCHING_ENGINE_MAX_NUM_CLIENTS"
    and "unat coid < MATCHING_ENGINE_MAX_ORDER_IDS" and "spec_find cid coid v = None"
    and "slot_free p (v Side_BUY)" and "slot_free p (v Side_SELL)" and "has_room v"
  shows "\<exists>b'. add cid coid tid sd p qty (b, out) =
      Inr (b', emit (add_responses cid coid tid sd p qty (next_market_order_id b) v)
                    (add_updates tid sd p qty (next_market_order_id b) v) out) \<and>
    represents b' (spec_add cid coid tid sd p qty (next_market_order_id b) v) \<and>
    next_market_order_id b' = next_market_order_id b + 1"
  by (rule add_represents) (use assms in simp_all)

theorem add_refines_spec_witness:
  "\<exists>b b'. add 2 7 0 Side_BUY 105 4 (b, ex_out) =
      Inr (b', emit [accepted 2 7 0 Side_BUY 105 4 2,
                     taker_fill 2 7 0 Side_BUY 2 (ex_order, 4, 0), maker_fill 0 (ex_order, 4, 0)]
                    [fill_update 0 (ex_order, 4, 0)] ex_out) \<and>
    represents b' (ex_book(Side_SELL := [(100, [ex_order\<lparr>o_quantity := 6\<rparr>])]))"
proof -
  obtain b where b: "represents b ex_book" "next_market_order_id b = 2" using ex_book_represented by blast
  have m: "spec_match Side_BUY 105 4 (ex_book Side_SELL) =
      ([(ex_order, 4, 0)], [(100, [ex_order\<lparr>o_quantity := 6\<rparr>])], 0)"
    by (simp add: ex_book_def ex_order_def new_order_def no_match_def min_def)
  have "\<exists>b'. add 2 7 0 Side_BUY 105 4 (b, ex_out) =
      Inr (b', emit [accepted 2 7 0 Side_BUY 105 4 2,
                     taker_fill 2 7 0 Side_BUY 2 (ex_order, 4, 0), maker_fill 0 (ex_order, 4, 0)]
                    [fill_update 0 (ex_order, 4, 0)] ex_out) \<and>
    represents b' (ex_book(Side_SELL := [(100, [ex_order\<lparr>o_quantity := 6\<rparr>])]))"
    using add_refines_spec [OF b(1), of Side_BUY 2 7 105 0 4 ex_out] ex_book_ok
    by (auto simp: limit_defs b(2) add_responses_def add_updates_def fill_responses_def spec_add_def m)
  then show ?thesis by blast
qed

text \<open>C3: \<open>cancel\<close> refines the specification on every branch. An order identifier past the table
  makes \<^verbatim>\<open>at()\<close> throw inside a \<^verbatim>\<open>noexcept\<close> function, unless the client identifier is out of range too.
  Otherwise \<open>cancel\<close> returns: it takes out the order with these identifiers, if there is one, and
  nothing else, and sends the acknowledgement and the market update, or the rejection.\<close>

theorem cancel_refines_spec:
  assumes "represents b v"
  shows "if unat cid < MATCHING_ENGINE_MAX_NUM_CLIENTS \<and> \<not> unat coid < MATCHING_ENGINE_MAX_ORDER_IDS
    then cancel cid coid tid (b, out) = Inl OutOfRange
    else \<exists>b'. cancel cid coid tid (b, out) =
        Inr (b', emit (cancel_responses cid coid tid v) (cancel_updates cid coid tid v) out) \<and>
      represents b' (spec_cancel cid coid v) \<and> next_market_order_id b' = next_market_order_id b"
  using cancel_represents [OF assms, of cid coid tid out] by (auto simp: cancel_def)

theorem cancel_refines_spec_witness:
  "\<exists>b b'. cancel 1 5 0 (b, ex_out) =
      Inr (b', emit (cancel_responses 1 5 0 ex_book) (cancel_updates 1 5 0 ex_book) ex_out) \<and>
    represents b' (ex_book(Side_SELL := []))"
proof -
  obtain b where b: "represents b ex_book" using ex_book_represented by blast
  have "spec_cancel 1 5 ex_book = ex_book(Side_SELL := [])"
    by (simp add: spec_cancel_def spec_find_def ex_book_def ex_order_def new_order_def has_key_def)
  with cancel_refines_spec [OF b, of 1 5 0 ex_out] show ?thesis by (auto simp: limit_defs)
qed

subsection \<open>Price-time priority and conservation\<close>

lemma resting_enqueue: "resting (enqueue sd p x ls) = resting ls + unat (o_quantity x)"
  by (induction sd p x ls rule: enqueue.induct) auto

lemma add_spec_cases:
  assumes "represents b v" and "trading_side sd" and "unat cid < MATCHING_ENGINE_MAX_NUM_CLIENTS"
    and "unat coid < MATCHING_ENGINE_MAX_ORDER_IDS" and "spec_find cid coid v = None"
    and "slot_free p (v Side_BUY)" and "slot_free p (v Side_SELL)" and "has_room v"
    and m: "spec_match sd p qty (v (opposite sd)) = (fills, rest, leaves)"
  obtains b' us where "add cid coid tid sd p qty (b, out) =
      Inr (b', emit (accepted cid coid tid sd p qty (next_market_order_id b) #
                     fill_responses cid coid tid sd (next_market_order_id b) fills) us out)"
    and "represents b' (spec_add cid coid tid sd p qty (next_market_order_id b) v)"
  using add_represents [OF assms(1-8), of tid qty out] m that by (auto simp: add_responses_def)

text \<open>C25: no quantity is lost or invented. The fills \<open>add\<close> reports take from the opposite side
  exactly what they say, and the incoming quantity is what is filled plus what the order's own side
  gains.\<close>

theorem add_conserves_quantity:
  assumes "represents b v" and "trading_side sd" and "unat cid < MATCHING_ENGINE_MAX_NUM_CLIENTS"
    and "unat coid < MATCHING_ENGINE_MAX_ORDER_IDS" and "spec_find cid coid v = None"
    and "slot_free p (v Side_BUY)" and "slot_free p (v Side_SELL)" and "has_room v"
  shows "\<exists>b' v' fills us. add cid coid tid sd p qty (b, out) =
      Inr (b', emit (accepted cid coid tid sd p qty (next_market_order_id b) #
                     fill_responses cid coid tid sd (next_market_order_id b) fills) us out) \<and>
    represents b' v' \<and> resting (v (opposite sd)) = filled fills + resting (v' (opposite sd)) \<and>
    resting (v sd) + unat qty = filled fills + resting (v' sd)"
proof -
  obtain fills rest leaves where m: "spec_match sd p qty (v (opposite sd)) = (fills, rest, leaves)"
    by (metis prod_cases3)
  let ?v = "spec_add cid coid tid sd p qty (next_market_order_id b) v"
  have "resting (v (opposite sd)) = filled fills + resting (?v (opposite sd))"
    "resting (v sd) + unat qty = filled fills + resting (?v sd)"
    using spec_match_facts(1,2) [OF m] assms(2) m
    by (simp_all add: spec_add_def Let_def resting_enqueue new_order_def)
  with add_spec_cases [OF assms m] show ?thesis by metis
qed

theorem add_conserves_quantity_witness:
  "\<exists>b' v' fills us. add 1 5 0 Side_SELL 100 10 (MatchingEngineOrderBook 0, ex_out) =
      Inr (b', emit (accepted 1 5 0 Side_SELL 100 10 (next_market_order_id (MatchingEngineOrderBook 0)) #
                     fill_responses 1 5 0 Side_SELL (next_market_order_id (MatchingEngineOrderBook 0)) fills) us ex_out) \<and>
    represents b' v' \<and> resting [] = filled fills + resting (v' Side_BUY) \<and>
    10 = filled fills + resting (v' Side_SELL)"
  using add_conserves_quantity [OF initial_book [of 0], of Side_SELL 1 5 100 0 10 ex_out]
  by (simp add: limit_defs)

text \<open>C11: matching follows price-time priority. The orders filled are the first ones of the opposite
  side, best price first and oldest first within a price; all but the last of them are filled
  completely and none beyond its quantity; each is at a price the incoming order accepts; and the
  book is well formed and uncrossed afterwards: every bid is below every ask, every resting order
  has a positive quantity and sits at its own price.\<close>

theorem add_price_time_priority:
  assumes "represents b v" and "trading_side sd" and "unat cid < MATCHING_ENGINE_MAX_NUM_CLIENTS"
    and "unat coid < MATCHING_ENGINE_MAX_ORDER_IDS" and "spec_find cid coid v = None"
    and "slot_free p (v Side_BUY)" and "slot_free p (v Side_SELL)" and "has_room v"
  shows "\<exists>b' v' fills us. add cid coid tid sd p qty (b, out) =
      Inr (b', emit (accepted cid coid tid sd p qty (next_market_order_id b) #
                     fill_responses cid coid tid sd (next_market_order_id b) fills) us out) \<and>
    represents b' v' \<and> book_wf v' \<and>
    map fst fills = take (length fills) (all_orders (v (opposite sd))) \<and>
    (\<forall>f \<in> set (butlast fills). fst (snd f) = o_quantity (fst f)) \<and>
    (\<forall>f \<in> set fills. fst (snd f) \<le> o_quantity (fst f) \<and> \<not> no_match sd p (o_price (fst f)))"
proof -
  obtain fills rest leaves where m: "spec_match sd p qty (v (opposite sd)) = (fills, rest, leaves)"
    by (metis prod_cases3)
  have "side_wf (opposite sd) (v (opposite sd))"
    using assms(1) by (simp add: represents_def book_wf_side [OF assms(2)])
  from spec_match_facts(7) [OF m this]
  have "\<forall>f \<in> set fills. \<not> no_match sd p (o_price (fst f))" by blast
  moreover have "map fst fills = take (length fills) (all_orders (v (opposite sd)))"
    "\<forall>f \<in> set (butlast fills). fst (snd f) = o_quantity (fst f)" "\<forall>f \<in> set fills. fst (snd f) \<le> o_quantity (fst f)"
    using spec_match_priority [where sd = sd and p = p and leaves = qty and ls = "v (opposite sd)"] m by simp_all
  moreover obtain b' us where "add cid coid tid sd p qty (b, out) =
      Inr (b', emit (accepted cid coid tid sd p qty (next_market_order_id b) #
                     fill_responses cid coid tid sd (next_market_order_id b) fills) us out)"
    and r: "represents b' (spec_add cid coid tid sd p qty (next_market_order_id b) v)"
    by (rule add_spec_cases [OF assms m])
  moreover have "book_wf (spec_add cid coid tid sd p qty (next_market_order_id b) v)"
    using r by (simp add: represents_def)
  ultimately show ?thesis by blast
qed

theorem add_price_time_priority_witness:
  "\<exists>b b' v' fills us. add 2 7 0 Side_BUY 105 4 (b, ex_out) =
      Inr (b', emit (accepted 2 7 0 Side_BUY 105 4 2 # fill_responses 2 7 0 Side_BUY 2 fills) us ex_out) \<and>
    represents b' v' \<and> book_wf v' \<and> map fst fills = take (length fills) [ex_order]"
proof -
  obtain b where b: "represents b ex_book" "next_market_order_id b = 2" using ex_book_represented by blast
  have "all_orders (ex_book Side_SELL) = [ex_order]" by (simp add: ex_book_def)
  with add_price_time_priority [OF b(1), of Side_BUY 2 7 105 0 4 ex_out] ex_book_ok b(2) show ?thesis
    by (simp add: limit_defs) blast
qed

subsection \<open>The engine\<close>

text \<open>C12: the engine's loop works off the requests in its queue, in order and each once. If every
  request is admissible when its turn comes, the loop returns after as many iterations as there are
  requests, with the queue empty, every ticker's book in the state the specification prescribes for
  the requests to that ticker, and the prescribed responses and market updates sent in order.\<close>

theorem engine_runs_requests:
  assumes "me_is_running e" and "lf_inv (incoming_requests e)" and "engine_holds e S"
    and "engine_admissible (lf_contents (incoming_requests e)) S"
  shows "\<exists>e'. run (length (lf_contents (incoming_requests e))) e = Inr e' \<and>
    lf_contents (incoming_requests e') = [] \<and>
    engine_holds e' (fold engine_step (lf_contents (incoming_requests e)) S) \<and>
    outgoing e' = emit (engine_responses (lf_contents (incoming_requests e)) S)
                       (engine_updates (lf_contents (incoming_requests e)) S) (outgoing e)"
  using run_spec [OF assms] by blast

text \<open>A client enters a sell order for ticker 3, then takes it back.\<close>

definition ex_requests :: "MatchingEngineClientRequest list" where
  "ex_requests =
     [\<lparr>rq_type = CRQ_NEW, rq_client_id = 1, rq_ticker_id = 3, rq_order_id = 5, rq_side = Side_SELL,
       rq_price = 100, rq_quantity = 10\<rparr>,
      \<lparr>rq_type = CRQ_CANCEL, rq_client_id = 1, rq_ticker_id = 3, rq_order_id = 5, rq_side = Side_SELL,
       rq_price = 100, rq_quantity = 10\<rparr>]"

definition ex_engine :: matching_engine where
  "ex_engine = start (MatchingEngine (lf_push_all (LockFreeQueue default_request 8) ex_requests) ex_out)"

lemma initial_engine: "engine_holds (MatchingEngine q out) (\<lambda>_. (\<lambda>_. [], 1))"
  using initial_holds by (simp add: engine_holds_def MatchingEngine_def)

theorem engine_runs_requests_witness:
  "\<exists>e'. run 2 ex_engine = Inr e' \<and> lf_contents (incoming_requests e') = [] \<and>
    engine_holds e' (fold engine_step ex_requests (\<lambda>_. (\<lambda>_. [], 1)))"
proof -
  let ?q = "incoming_requests ex_engine"
  have q: "lf_inv ?q" "lf_contents ?q = ex_requests"
    using lf_push_all_contents [of "LockFreeQueue default_request 8" ex_requests]
      lf_inv_LockFreeQueue [of 8 default_request]
    by (simp_all add: ex_engine_def start_def MatchingEngine_def ex_requests_def)
  have "me_is_running ex_engine" "engine_holds ex_engine (\<lambda>_. (\<lambda>_. [], 1))"
    using initial_engine by (simp_all add: ex_engine_def start_def engine_holds_def)
  moreover have "engine_admissible ex_requests (\<lambda>_. (\<lambda>_. [], 1))"
    by (simp add: ex_requests_def limit_defs engine_step_def)
  moreover have "length ex_requests = 2" by (simp add: ex_requests_def)
  ultimately show ?thesis
    using engine_runs_requests [of ex_engine "\<lambda>_. (\<lambda>_. [], 1)"] q by auto
qed

text \<open>Requests the engine cannot dispatch stop the process: a ticker without a book makes \<^verbatim>\<open>at()\<close>
  throw, and a request that is neither new nor a cancel is fatal.\<close>

lemma engine_rejects_bad_requests:
  "processClientRequest r e =
     (if \<not> unat (rq_ticker_id r) < MATCHING_ENGINE_MAX_TICKERS then Inl OutOfRange
      else if rq_type r = CRQ_INVALID then Inl (FatalError ''Received invalid client-request-type:INVALID'')
      else bindE (book_request r (ticker_order_book e (unat (rq_ticker_id r)), outgoing e)) (\<lambda>(b', out').
        Inr (e\<lparr>ticker_order_book := (ticker_order_book e)(unat (rq_ticker_id r) := b'), outgoing := out'\<rparr>)))"
  by (auto simp: processClientRequest_def book_request_def FATAL_def)

end
