(* ===== verification/MarketProps.thy ===== *)
theory MarketProps
  imports Replay BookProps
begin

section \<open>Properties of the market data path\<close>

text \<open>
  What the exchange's three threads promise together: the published stream is numbered without gaps,
  and what the synthesizer has made of it is, for every ticker, the content of the engine's book.
\<close>

lemma ex_queue:
  "lf_inv (lf_push_all (LockFreeQueue default_request 8) ex_requests)"
  "lf_contents (lf_push_all (LockFreeQueue default_request 8) ex_requests) = ex_requests"
  "engine_admissible ex_requests empty_market" "length ex_requests = 2"
  "length (engine_updates ex_requests empty_market) = 2"
proof -
  have "lf_inv (LockFreeQueue default_request 8)" by (rule lf_inv_LockFreeQueue) simp
  then show "lf_inv (lf_push_all (LockFreeQueue default_request 8) ex_requests)"
    "lf_contents (lf_push_all (LockFreeQueue default_request 8) ex_requests) = ex_requests"
    using lf_push_all_contents [of "LockFreeQueue default_request 8" ex_requests] by (simp_all add: ex_requests_def)
qed (simp_all add: ex_requests_def limit_defs engine_step_def add_updates_def cancel_updates_def spec_add_def
      spec_find_def has_key_def new_order_def)

lemma ex_out_empty:
  "lf_inv (outgoing_market_updates ex_out)" "lf_contents (outgoing_market_updates ex_out) = []"
  "lf_capacity (outgoing_market_updates ex_out) = 8"
  by (simp_all add: ex_out_def lf_inv_LockFreeQueue)

text \<open>C4: from an empty exchange, run the engine over any admissible queue of requests, then one pass
  of the publisher and one of the synthesizer. All three return; the multicast stream is the engine's
  market updates numbered from 1; and the synthesizer's tables hold for every ticker exactly the
  orders that rest in the engine's book, with side, price, quantity and priority as the book has them.\<close>

theorem snapshot_tracks_books:
  assumes "lf_inv q" and "engine_admissible (lf_contents q) empty_market"
    and "lf_inv (outgoing_market_updates out)" and "lf_contents (outgoing_market_updates out) = []"
    and "length (engine_updates (lf_contents q) empty_market) < lf_capacity (outgoing_market_updates out)"
    and "length (lf_contents q) < MATCHING_ENGINE_MAX_ORDER_IDS"
    and "length (engine_updates (lf_contents q) empty_market) < MATCHING_ENGINE_MAX_MARKET_UPDATES"
    and "fd \<ge> 0" and "fd' \<ge> 0"
  shows "\<exists>e' p p' s s'. run (length (lf_contents q)) (start (MatchingEngine q out)) = Inr e' \<and>
    MarketDataPublisher (outgoing_market_updates (outgoing e')) fd = Inr p \<and> publisher_run_once p = Inr p' \<and>
    SnapshotSynthesizer (snapshot_market_updates p') fd' = Inr s \<and> synthesizer_run_once now now' s = Inr s' \<and>
    engine_holds e' (fold engine_step (lf_contents q) empty_market) \<and>
    sent_bytes (incremental_socket p') = stream_bytes 1 (engine_updates (lf_contents q) empty_market) \<and>
    snap s' = market_image (fold engine_step (lf_contents q) empty_market)"
proof -
  let ?us = "engine_updates (lf_contents q) empty_market"
  obtain e' where e: "run (length (lf_contents q)) (start (MatchingEngine q out)) = Inr e'"
      "engine_holds e' (fold engine_step (lf_contents q) empty_market)"
      "lf_inv (outgoing_market_updates (outgoing e'))" "lf_contents (outgoing_market_updates (outgoing e')) = ?us"
    using engine_pass [OF assms(1-5)] by auto
  obtain p where p0: "MarketDataPublisher (outgoing_market_updates (outgoing e')) fd = Inr p"
    using assms(8) by (simp add: MarketDataPublisher_def)
  obtain p' where p: "publisher_run_once p = Inr p'" "sent_bytes (incremental_socket p') = stream_bytes 1 ?us"
      "lf_inv (snapshot_market_updates p')" "lf_contents (snapshot_market_updates p') = number_from 1 ?us"
    using publisher_pass [OF e(3,4) assms(7) p0] by blast
  obtain s where s0: "SnapshotSynthesizer (snapshot_market_updates p') fd' = Inr s"
    using assms(9) by (simp add: SnapshotSynthesizer_def)
  have "apply_updates ?us (\<lambda>_ _. None) = Some (market_image (fold engine_step (lf_contents q) empty_market)) \<and>
      (\<forall>u \<in> set ?us. in_tables u)"
    using replay_engine [OF initial_market(1) assms(2)] assms(6) initial_market(2) by simp
  moreover have "length ?us < MATCHING_ENGINE_MAX_ORDER_IDS" using assms(7) by (simp add: limit_defs)
  ultimately obtain s' where "synthesizer_run_once now now' s = Inr s'"
      "snap s' = market_image (fold engine_step (lf_contents q) empty_market)"
    using synthesizer_pass [OF p(3,4) _ _ _ s0, of _ now now'] by blast
  then show ?thesis using e(1,2) p0 p(1,2) s0 by blast
qed

theorem snapshot_tracks_books_witness:
  "\<exists>e' p p' s s'. run 2 ex_engine = Inr e' \<and>
    MarketDataPublisher (outgoing_market_updates (outgoing e')) 3 = Inr p \<and> publisher_run_once p = Inr p' \<and>
    SnapshotSynthesizer (snapshot_market_updates p') 4 = Inr s \<and> synthesizer_run_once 0 0 s = Inr s' \<and>
    snap s' = market_image (fold engine_step ex_requests empty_market)"
  using snapshot_tracks_books [OF ex_queue(1) _ ex_out_empty(1,2), of 3 4 0 0, unfolded ex_queue(2)] ex_out_empty(3) ex_queue(3-5)
  unfolding ex_engine_def by (auto simp: limit_defs)

text \<open>C26: the synthesizer takes an incremental update exactly when its number is the next one and the
  update fits the orders it knows (an \<open>ADD\<close> of an unknown order, a \<open>MODIFY\<close> or \<open>CANCEL\<close> of a known
  one on the same side); then its tables change as the specification says and nothing else moves. Any
  other update fails an assertion, which ends the process.\<close>

theorem addToSnapshot_exact:
  assumes "snap_inv s" and "unat (mu_ticker_id u) < MATCHING_ENGINE_MAX_TICKERS"
    and "unat (mu_order_id u) < MATCHING_ENGINE_MAX_ORDER_IDS"
    and "card (live (snap_order_pool s)) + 2 \<le> MATCHING_ENGINE_MAX_ORDER_IDS"
  shows "case addToSnapshot \<lparr>mdp_sequence_number = n, me_market_update = u\<rparr> s of
      Inr s' \<Rightarrow> n = last_increment_sequence_number s + 1 \<and> apply_update u (snap s) = Some (snap s') \<and>
        snap_inv s' \<and> last_increment_sequence_number s' = n \<and> snapshot_socket s' = snapshot_socket s
    | Inl e \<Rightarrow> (\<exists>msg. e = AssertFailed msg) \<and>
        (n \<noteq> last_increment_sequence_number s + 1 \<or> apply_update u (snap s) = None)"
proof (cases "n = last_increment_sequence_number s + 1 \<and> apply_update u (snap s) \<noteq> None")
  case True
  then obtain m where "apply_update u (snap s) = Some m" "n = last_increment_sequence_number s + 1" by blast
  then show ?thesis
    using addToSnapshot_refines [OF assms(1) _ refl, of "\<lparr>mdp_sequence_number = n, me_market_update = u\<rparr>" m] assms
    by auto
next
  case False
  then obtain msg where "addToSnapshot \<lparr>mdp_sequence_number = n, me_market_update = u\<rparr> s = Inl (AssertFailed msg)"
    using addToSnapshot_refuses [OF assms] by blast
  then show ?thesis using False by auto
qed


definition ex_synthesizer :: synthesizer where
  "ex_synthesizer = \<lparr>snapshot_md_updates = LockFreeQueue default_mdp 8, ticker_orders = (\<lambda>_ _. None),
     last_increment_sequence_number = 0, last_snapshot_time = 0,
     snap_order_pool = MemPool default_update MATCHING_ENGINE_MAX_ORDER_IDS, snapshot_socket = new_socket 4\<rparr>"

lemma ex_synthesizer_init: "SnapshotSynthesizer (LockFreeQueue default_mdp 8) 4 = Inr ex_synthesizer"
  by (simp add: SnapshotSynthesizer_def ex_synthesizer_def)

theorem addToSnapshot_exact_witness:
  "case addToSnapshot \<lparr>mdp_sequence_number = 1, me_market_update = add_update 0 ex_order\<rparr> ex_synthesizer of
     Inr s' \<Rightarrow> snap s' = (\<lambda>_ _. None)(0 := (\<lambda>_. None)(1 \<mapsto> add_update 0 ex_order))
   | Inl e \<Rightarrow> False"
proof -
  let ?u = "add_update 0 ex_order"
  have u: "unat (mu_ticker_id ?u) = 0" "unat (mu_order_id ?u) = 1" "mu_type ?u = MU_ADD"
    by (simp_all add: add_update_def ex_order_def new_order_def)
  note init = initial_snapshot [OF ex_synthesizer_init]
  have "apply_update ?u (snap ex_synthesizer) = Some ((\<lambda>_ _. None)(0 := (\<lambda>_. None)(1 \<mapsto> ?u)))"
    using u init(2) by (simp add: apply_update.simps Let_def)
  then show ?thesis
    using addToSnapshot_exact [of ex_synthesizer ?u 1] init u by (auto simp: limit_defs split: sum.splits)
qed

text \<open>C14: a receiver that has seen nothing but one published snapshot knows every book. After a run
  of engine, publisher and synthesizer from an empty exchange, with a minute gone since the last snapshot, the bytes sent on the snapshot
  socket are those of messages numbered from 0, and adding the orders they carry to an empty table gives
  exactly the orders of all books.\<close>

theorem published_snapshot_rebuilds_books:
  assumes "lf_inv q" and "engine_admissible (lf_contents q) empty_market"
    and "lf_inv (outgoing_market_updates out)" and "lf_contents (outgoing_market_updates out) = []"
    and "length (engine_updates (lf_contents q) empty_market) < lf_capacity (outgoing_market_updates out)"
    and "length (lf_contents q) < MATCHING_ENGINE_MAX_ORDER_IDS"
    and "length (engine_updates (lf_contents q) empty_market) < MATCHING_ENGINE_MAX_MARKET_UPDATES"
    and "fd \<ge> 0" and "fd' \<ge> 0" and "now > 60 * NANOS_TO_SECS"
  shows "\<exists>e' p p' s s' msgs. run (length (lf_contents q)) (start (MatchingEngine q out)) = Inr e' \<and>
    MarketDataPublisher (outgoing_market_updates (outgoing e')) fd = Inr p \<and> publisher_run_once p = Inr p' \<and>
    SnapshotSynthesizer (snapshot_market_updates p') fd' = Inr s \<and> synthesizer_run_once now now' s = Inr s' \<and>
    sent_bytes (snapshot_socket s') = stream_bytes 0 msgs \<and>
    apply_updates msgs (\<lambda>_ _. None) = Some (market_image (fold engine_step (lf_contents q) empty_market))"
proof -
  let ?us = "engine_updates (lf_contents q) empty_market" and ?S = "fold engine_step (lf_contents q) empty_market"
  obtain e' where e: "run (length (lf_contents q)) (start (MatchingEngine q out)) = Inr e'"
      "lf_inv (outgoing_market_updates (outgoing e'))" "lf_contents (outgoing_market_updates (outgoing e')) = ?us"
    using engine_pass [OF assms(1-5)] by auto
  obtain p where p0: "MarketDataPublisher (outgoing_market_updates (outgoing e')) fd = Inr p"
    using assms(8) by (simp add: MarketDataPublisher_def)
  obtain p' where p: "publisher_run_once p = Inr p'"
      "lf_inv (snapshot_market_updates p')" "lf_contents (snapshot_market_updates p') = number_from 1 ?us"
    using publisher_pass [OF e(2,3) assms(7) p0] by blast
  obtain s where s0: "SnapshotSynthesizer (snapshot_market_updates p') fd' = Inr s"
    using assms(9) by (simp add: SnapshotSynthesizer_def)
  have r: "apply_updates ?us (\<lambda>_ _. None) = Some (market_image ?S)" "\<forall>u \<in> set ?us. in_tables u"
      "market_wf 0 ?S" "\<forall>t \<ge> MATCHING_ENGINE_MAX_TICKERS. ?S t = (\<lambda>_. [], 1)"
    using replay_engine [OF initial_market(1) assms(2)] assms(6) initial_market(2) by simp_all
  have "length ?us < MATCHING_ENGINE_MAX_ORDER_IDS" using assms(7) by (simp add: limit_defs)
  from synthesizer_pass [OF p(2,3) r(2) this r(1) s0, of now now'] assms(10) obtain s' s2 where
    s: "synthesizer_run_once now now' s = Inr s'" "snap s2 = market_image ?S"
      "sent_bytes (snapshot_socket s') = stream_bytes 0 (snapshot_messages s2)" by auto
  have "apply_updates (snapshot_messages s2) (\<lambda>_ _. None) = Some (market_image ?S)"
    using snapshot_messages_rebuild [of s2] market_image_restartable [OF r(3,4)] s(2) by simp
  then show ?thesis using e(1) p0 p(1) s0 s(1,3) by blast
qed

theorem published_snapshot_rebuilds_books_witness:
  "\<exists>e' p p' s s' msgs. run 2 ex_engine = Inr e' \<and>
    MarketDataPublisher (outgoing_market_updates (outgoing e')) 3 = Inr p \<and> publisher_run_once p = Inr p' \<and>
    SnapshotSynthesizer (snapshot_market_updates p') 4 = Inr s \<and> synthesizer_run_once 60000000001 0 s = Inr s' \<and>
    sent_bytes (snapshot_socket s') = stream_bytes 0 msgs \<and>
    apply_updates msgs (\<lambda>_ _. None) = Some (market_image (fold engine_step ex_requests empty_market))"
  using published_snapshot_rebuilds_books [OF ex_queue(1) _ ex_out_empty(1,2), where now = 60000000001 and now' = 0
      and fd = 3 and fd' = 4, unfolded ex_queue(2)] ex_out_empty(3) ex_queue(3-5)
  unfolding ex_engine_def by (auto simp: limit_defs NANOS_TO_SECS_def)

end
