(* ===== verification/FifoSequencer.thy ===== *)
theory FifoSequencer
  imports Messages "HOL-Library.Multiset"
begin

section \<open>The request sequencer\<close>

text \<open>
  \<^verbatim>\<open>exchange/order_server/FifoSequencer.hpp\<close>: requests are collected with the time they were received
  and published to the matching engine in the order of these times. \<^verbatim>\<open>std::sort\<close> is an argument of
  the model: the standard fixes its result up to the order of elements that compare equal, which is
  what the locale \<open>std_sort\<close> says.
\<close>

definition MATCHING_ENGINE_MAX_PENDING_REQUESTS :: nat where
  "MATCHING_ENGINE_MAX_PENDING_REQUESTS = 1024"

record RecvTimeClientRequest =
  recv_time :: Nanos
  request :: MatchingEngineClientRequest

record FIFOSequencer =
  sq_incoming_requests :: ClientRequestLFQueue
  pending_client_requests :: "nat \<Rightarrow> RecvTimeClientRequest"
  pending_size :: nat

definition new_sequencer :: "ClientRequestLFQueue \<Rightarrow> FIFOSequencer" where
  "new_sequencer client_requests =
     \<lparr>sq_incoming_requests = client_requests, pending_client_requests = (\<lambda>_. \<lparr>recv_time = 0, request = default_request\<rparr>),
      pending_size = 0\<rparr>"

definition addClientRequest :: "Nanos \<Rightarrow> MatchingEngineClientRequest \<Rightarrow> FIFOSequencer \<Rightarrow> FIFOSequencer res" where
  "addClientRequest rx_time r sq =
     (if pending_size sq \<ge> MATCHING_ENGINE_MAX_PENDING_REQUESTS then FATAL ''Too many requests''
      else bindE (arr_set MATCHING_ENGINE_MAX_PENDING_REQUESTS (pending_client_requests sq) (pending_size sq)
                   \<lparr>recv_time = rx_time, request = r\<rparr>) (\<lambda>arr.
        Inr (sq\<lparr>pending_client_requests := arr, pending_size := pending_size sq + 1\<rparr>)))"

text \<open>The pending requests as a list, and an array with a list written to its front.\<close>

definition pending :: "FIFOSequencer \<Rightarrow> RecvTimeClientRequest list" where
  "pending sq = map (pending_client_requests sq) [0..<pending_size sq]"

definition write_front :: "'a list \<Rightarrow> (nat \<Rightarrow> 'a) \<Rightarrow> nat \<Rightarrow> 'a" where
  "write_front xs arr = (\<lambda>i. if i < length xs then xs ! i else arr i)"

definition sequenceAndPublish ::
    "(RecvTimeClientRequest list \<Rightarrow> RecvTimeClientRequest list) \<Rightarrow> FIFOSequencer \<Rightarrow> FIFOSequencer" where
  "sequenceAndPublish std_sort_by_time sq =
     (if pending_size sq = 0 then sq
      else let sorted_requests = std_sort_by_time (pending sq)
        in sq\<lparr>pending_client_requests := write_front sorted_requests (pending_client_requests sq),
              sq_incoming_requests := lf_push_all (sq_incoming_requests sq) (map request sorted_requests),
              pending_size := 0\<rparr>)"

subsection \<open>What the sequencer relies on\<close>

locale std_sort =
  fixes srt :: "'a list \<Rightarrow> 'a list" and key :: "'a \<Rightarrow> int"
  assumes srt_mset: "mset (srt xs) = mset xs"
    and srt_sorted: "sorted (map key (srt xs))"
begin

lemma srt_set: "set (srt xs) = set xs"
  by (rule mset_eq_setD [OF srt_mset])

lemma srt_length: "length (srt xs) = length xs"
  by (rule mset_eq_length [OF srt_mset])

text \<open>With pairwise different keys nothing is left open.\<close>

lemma srt_unique:
  assumes "distinct (map key xs)"
  shows "srt xs = sort_key key xs"
proof (rule map_sorted_distinct_set_unique)
  show "inj_on key (set (srt xs) \<union> set (sort_key key xs))"
    using assms by (simp add: srt_set distinct_map)
  show "distinct (map key (srt xs))"
    using assms mset_eq_imp_distinct_iff [of "map key (srt xs)" "map key xs"] srt_mset by simp
  show "distinct (map key (sort_key key xs))"
    using assms mset_eq_imp_distinct_iff [of "map key (sort_key key xs)" "map key xs"] by simp
qed (simp_all add: srt_sorted srt_set)

end

interpretation sk: std_sort "sort_key recv_time" recv_time
  by unfold_locales simp_all

subsection \<open>Behaviour\<close>

lemma pending_new [simp]: "pending (new_sequencer q) = []"
  by (simp add: pending_def new_sequencer_def)

lemma length_pending [simp]: "length (pending sq) = pending_size sq"
  by (simp add: pending_def)

lemma addClientRequest_ok:
  assumes "pending_size sq < MATCHING_ENGINE_MAX_PENDING_REQUESTS"
  shows "\<exists>sq'. addClientRequest t r sq = Inr sq' \<and> pending sq' = pending sq @ [\<lparr>recv_time = t, request = r\<rparr>] \<and>
    pending_size sq' = pending_size sq + 1 \<and> sq_incoming_requests sq' = sq_incoming_requests sq"
  using assms by (simp add: addClientRequest_def pending_def)

lemma addClientRequest_full:
  "MATCHING_ENGINE_MAX_PENDING_REQUESTS \<le> pending_size sq \<Longrightarrow>
   addClientRequest t r sq = Inl (FatalError ''Too many requests'')"
  by (simp add: addClientRequest_def FATAL_def)

lemma sequenceAndPublish_contents:
  assumes "lf_inv (sq_incoming_requests sq)" and "\<And>xs. mset (srt xs) = mset xs"
    and "lf_count (sq_incoming_requests sq) + pending_size sq < lf_capacity (sq_incoming_requests sq)"
  shows "lf_contents (sq_incoming_requests (sequenceAndPublish srt sq)) =
      lf_contents (sq_incoming_requests sq) @ map request (srt (pending sq)) \<and>
    lf_inv (sq_incoming_requests (sequenceAndPublish srt sq)) \<and> pending_size (sequenceAndPublish srt sq) = 0"
proof -
  have len: "length (srt (pending sq)) = pending_size sq"
    using mset_eq_length [OF assms(2)] by simp
  show ?thesis
  proof (cases "pending_size sq = 0")
    case True
    then have "srt (pending sq) = []" using len by simp
    then show ?thesis using True assms(1) by (simp add: sequenceAndPublish_def)
  next
    case False
    then show ?thesis
      using lf_push_all_contents [OF assms(1), of "map request (srt (pending sq))"] assms(3) len
      by (simp add: sequenceAndPublish_def Let_def)
  qed
qed

text \<open>C29: publishing empties the sequencer and appends exactly the pending requests to the engine's
  queue, none lost and none invented, in an order in which receive times never decrease. This is all
  that \<^verbatim>\<open>std::sort\<close> guarantees.\<close>

theorem sequencer_publishes_in_time_order:
  assumes "\<And>xs. mset (srt xs) = mset xs" and "\<And>xs. sorted (map recv_time (srt xs))"
    and "lf_inv (sq_incoming_requests sq)"
    and "lf_count (sq_incoming_requests sq) + pending_size sq < lf_capacity (sq_incoming_requests sq)"
  shows "\<exists>rs. lf_contents (sq_incoming_requests (sequenceAndPublish srt sq)) =
      lf_contents (sq_incoming_requests sq) @ map request rs \<and>
    mset rs = mset (pending sq) \<and> sorted (map recv_time rs) \<and> pending (sequenceAndPublish srt sq) = [] \<and>
    (distinct (map recv_time (pending sq)) \<longrightarrow> rs = sort_key recv_time (pending sq))"
proof -
  have "std_sort srt recv_time" using assms(1,2) by unfold_locales
  then have "distinct (map recv_time (pending sq)) \<longrightarrow> srt (pending sq) = sort_key recv_time (pending sq)"
    using std_sort.srt_unique by blast
  then show ?thesis
    using sequenceAndPublish_contents [OF assms(3,1,4)] assms(1,2) by (auto simp: pending_def)
qed

definition ex_sequencer :: FIFOSequencer where
  "ex_sequencer = \<lparr>sq_incoming_requests = LockFreeQueue default_request 8,
     pending_client_requests = (\<lambda>i. \<lparr>recv_time = 5 - int i, request = default_request\<lparr>rq_order_id := of_nat i\<rparr>\<rparr>),
     pending_size = 2\<rparr>"

theorem sequencer_publishes_in_time_order_witness:
  "map rq_order_id (lf_contents (sq_incoming_requests (sequenceAndPublish (sort_key recv_time) ex_sequencer))) = [1, 0]"
proof -
  have p: "pending ex_sequencer = [\<lparr>recv_time = 5, request = default_request\<lparr>rq_order_id := 0\<rparr>\<rparr>,
      \<lparr>recv_time = 4, request = default_request\<lparr>rq_order_id := 1\<rparr>\<rparr>]"
    by (simp add: pending_def ex_sequencer_def upt_rec)
  have "lf_inv (sq_incoming_requests ex_sequencer)" "lf_contents (sq_incoming_requests ex_sequencer) = []"
    "lf_count (sq_incoming_requests ex_sequencer) + pending_size ex_sequencer < lf_capacity (sq_incoming_requests ex_sequencer)"
    by (simp_all add: ex_sequencer_def lf_inv_LockFreeQueue)
  then show ?thesis
    using sequencer_publishes_in_time_order [of "sort_key recv_time" ex_sequencer] p by auto
qed

text \<open>\<^verbatim>\<open>std::sort\<close> is not stable, and all requests of one read from a socket carry the same receive
  time, so the order in which one client sent its requests is not kept: for two requests that arrive
  together there is a conforming \<^verbatim>\<open>std::sort\<close> under which they are published in the opposite order.\<close>

theorem sequencer_may_reverse_equal_times:
  "\<exists>srt. (\<forall>xs. mset (srt xs) = mset xs \<and> sorted (map recv_time (srt xs))) \<and>
     (\<forall>t a b q. lf_inv q \<longrightarrow> lf_contents q = [] \<longrightarrow> 2 < lf_capacity q \<longrightarrow>
       (\<exists>sq1 sq2. addClientRequest t a (new_sequencer q) = Inr sq1 \<and> addClientRequest t b sq1 = Inr sq2 \<and>
         lf_contents (sq_incoming_requests (sequenceAndPublish srt sq2)) = [b, a]))"
proof (rule exI [where x = "\<lambda>xs. sort_key recv_time (rev xs)"], intro conjI allI impI)
  let ?srt = "\<lambda>xs. sort_key recv_time (rev xs)"
  show "mset (?srt xs) = mset xs" "sorted (map recv_time (?srt xs))" for xs by simp_all
  fix t a b and q :: ClientRequestLFQueue
  assume q: "lf_inv q" "lf_contents q = []" "2 < lf_capacity q"
  have n: "lf_count q = 0" using q(2) length_lf_contents by (metis list.size(3))
  obtain sq1 where sq1: "addClientRequest t a (new_sequencer q) = Inr sq1"
      "pending sq1 = [\<lparr>recv_time = t, request = a\<rparr>]" "pending_size sq1 = 1" "sq_incoming_requests sq1 = q"
    using addClientRequest_ok [of "new_sequencer q" t a]
    by (auto simp: new_sequencer_def MATCHING_ENGINE_MAX_PENDING_REQUESTS_def pending_def)
  then obtain sq2 where sq2: "addClientRequest t b sq1 = Inr sq2"
      "pending sq2 = [\<lparr>recv_time = t, request = a\<rparr>, \<lparr>recv_time = t, request = b\<rparr>]" "pending_size sq2 = 2"
      "sq_incoming_requests sq2 = q"
    using addClientRequest_ok [of sq1 t b] by (auto simp: MATCHING_ENGINE_MAX_PENDING_REQUESTS_def)
  have "lf_contents (sq_incoming_requests (sequenceAndPublish ?srt sq2)) = [b, a]"
    using sequenceAndPublish_contents [of sq2 ?srt] q sq2 n by simp
  then show "\<exists>sq1 sq2. addClientRequest t a (new_sequencer q) = Inr sq1 \<and> addClientRequest t b sq1 = Inr sq2 \<and>
      lf_contents (sq_incoming_requests (sequenceAndPublish ?srt sq2)) = [b, a]"
    using sq1(1) sq2(1) by blast
qed

theorem sequencer_may_reverse_equal_times_witness:
  "\<exists>srt sq1 sq2. (\<forall>xs. mset (srt xs) = mset xs) \<and>
     addClientRequest 0 (default_request\<lparr>rq_order_id := 1\<rparr>) (new_sequencer (LockFreeQueue default_request 8)) = Inr sq1 \<and>
     addClientRequest 0 (default_request\<lparr>rq_order_id := 2\<rparr>) sq1 = Inr sq2 \<and>
     lf_contents (sq_incoming_requests (sequenceAndPublish srt sq2)) =
       [default_request\<lparr>rq_order_id := 2\<rparr>, default_request\<lparr>rq_order_id := 1\<rparr>]"
proof -
  have "lf_inv (LockFreeQueue default_request 8)" by (rule lf_inv_LockFreeQueue) simp
  moreover obtain srt where srt: "\<forall>xs. mset (srt xs) = mset xs \<and> sorted (map recv_time (srt xs))"
      "\<forall>t a b q. lf_inv q \<longrightarrow> lf_contents q = [] \<longrightarrow> 2 < lf_capacity q \<longrightarrow>
       (\<exists>sq1 sq2. addClientRequest t a (new_sequencer q) = Inr sq1 \<and> addClientRequest t b sq1 = Inr sq2 \<and>
         lf_contents (sq_incoming_requests (sequenceAndPublish srt sq2)) = [b, a])"
    using sequencer_may_reverse_equal_times by blast
  ultimately show ?thesis
    using srt(2) [rule_format, of "LockFreeQueue default_request 8" 0 "default_request\<lparr>rq_order_id := 1\<rparr>"
        "default_request\<lparr>rq_order_id := 2\<rparr>"] srt(1) by (simp add: exI [of _ srt])
qed

end
