(* ===== verification/OrderServer.thy ===== *)
theory OrderServer
  imports FifoSequencer Sockets
begin

section \<open>The order server\<close>

text \<open>
  \<^verbatim>\<open>exchange/order_server/OrderServer.hpp\<close> and \<^verbatim>\<open>OrderServer.cc\<close>, with the \<^verbatim>\<open>common/TCPServer.cc\<close> it
  runs on: client connections, the check of sequence numbers, the hand-over to the sequencer, and the
  responses on their way back. Sockets are objects in a store, pointers to them are their addresses.
\<close>

record order_server =
  os_outgoing_responses :: ClientResponseLFQueue
  cid_next_outgoing_sequence_number :: "nat \<Rightarrow> 64 word"
  cid_next_expected_sequence_number :: "nat \<Rightarrow> 64 word"
  cid_tcp_sockets :: "nat \<Rightarrow> nat option"
  sockets :: "nat \<Rightarrow> socket"
  listener_socket :: nat
  receive_sockets :: "nat list"
  send_sockets :: "nat list"
  fifo_sequencer :: FIFOSequencer

definition OrderServer :: "ClientRequestLFQueue \<Rightarrow> ClientResponseLFQueue \<Rightarrow> order_server" where
  "OrderServer client_request client_response =
     \<lparr>os_outgoing_responses = client_response, cid_next_outgoing_sequence_number = (\<lambda>_. 1),
      cid_next_expected_sequence_number = (\<lambda>_. 1), cid_tcp_sockets = (\<lambda>_. None),
      sockets = (\<lambda>_. new_socket (- 1)), listener_socket = 0, receive_sockets = [], send_sockets = [],
      fifo_sequencer = new_sequencer client_request\<rparr>"

definition put_socket :: "nat \<Rightarrow> socket \<Rightarrow> order_server \<Rightarrow> order_server" where
  "put_socket k sock s = s\<lparr>sockets := (sockets s)(k := sock)\<rparr>"

subsection \<open>Requests\<close>

text \<open>
  The body of the receive loop. \<^verbatim>\<open>cid_tcp_sockets\<close> and \<^verbatim>\<open>cid_next_expected_sequence_number\<close> are indexed
  without a check, so a client identifier past the table is undefined behaviour.
\<close>

definition accept_request :: "nat \<Rightarrow> Nanos \<Rightarrow> OrderManagementClientRequest \<Rightarrow> order_server \<Rightarrow> order_server res" where
  "accept_request socket rx_time r s =
     (let cid = unat (rq_client_id (me_client_request r)) in
      if \<not> cid < MATCHING_ENGINE_MAX_NUM_CLIENTS then Inl OutOfBounds
      else
        let s1 = (if cid_tcp_sockets s cid = None then s\<lparr>cid_tcp_sockets := (cid_tcp_sockets s)(cid := Some socket)\<rparr> else s)
        in if cid_tcp_sockets s1 cid \<noteq> Some socket then Inr s1
           else if omrq_sequence_number r \<noteq> cid_next_expected_sequence_number s1 cid then Inr s1
           else bindE (addClientRequest rx_time (me_client_request r) (fifo_sequencer s1)) (\<lambda>sq.
             Inr (s1\<lparr>cid_next_expected_sequence_number :=
                       (cid_next_expected_sequence_number s1)(cid := cid_next_expected_sequence_number s1 cid + 1),
                     fifo_sequencer := sq\<rparr>)))"

definition recvCallBack :: "nat \<Rightarrow> Nanos \<Rightarrow> order_server \<Rightarrow> order_server res" where
  "recvCallBack socket rx_time s =
     (if length (recv_buffer (sockets s socket)) \<ge> SIZEOF_OM_REQUEST
      then bindE (recv_loop SIZEOF_OM_REQUEST decode_om_request (accept_request socket rx_time)
                    (recv_buffer (sockets s socket)) s) (\<lambda>(rest, s1).
           Inr (put_socket socket ((sockets s1 socket)\<lparr>recv_buffer := rest\<rparr>) s1))
      else Inr s)"

definition recvFinishedCallBack ::
    "(RecvTimeClientRequest list \<Rightarrow> RecvTimeClientRequest list) \<Rightarrow> order_server \<Rightarrow> order_server" where
  "recvFinishedCallBack srt s = s\<lparr>fifo_sequencer := sequenceAndPublish srt (fifo_sequencer s)\<rparr>"

subsection \<open>Responses\<close>

definition send_response :: "MatchingEngineClientResponse \<Rightarrow> order_server \<Rightarrow> order_server res" where
  "send_response r s =
     (let cid = unat (rs_client_id r) in
      bindE (arr_at MATCHING_ENGINE_MAX_NUM_CLIENTS (cid_next_outgoing_sequence_number s) cid) (\<lambda>seq.
      case cid_tcp_sockets s cid of
        None \<Rightarrow> Inl (AssertFailed (''Do not have a TCPSocket for ClientID : '' @ to_string_nat cid))
      | Some k \<Rightarrow>
          bindE (tcp_send (le_bytes 8 (unat seq)) (sockets s k)) (\<lambda>sock1.
          bindE (tcp_send (encode_response r) sock1) (\<lambda>sock2.
          Inr (put_socket k sock2 (s\<lparr>cid_next_outgoing_sequence_number :=
                 (cid_next_outgoing_sequence_number s)(cid := seq + 1)\<rparr>))))))"

definition send_responses :: "order_server \<Rightarrow> order_server res" where
  "send_responses s =
     bindE (lf_drain send_response (os_outgoing_responses s) s) (\<lambda>(q, s1). Inr (s1\<lparr>os_outgoing_responses := q\<rparr>))"

subsection \<open>Connections\<close>

text \<open>
  \<^verbatim>\<open>TCPServer::poll\<close>: what \<^verbatim>\<open>epoll_wait\<close> reports, and the descriptors \<^verbatim>\<open>accept\<close> hands out with the
  addresses of the sockets made for them, are inputs.
\<close>

record poll_event =
  ev_socket :: nat
  ev_in :: bool
  ev_out :: bool
  ev_err :: bool

definition push_new :: "'a \<Rightarrow> 'a list \<Rightarrow> 'a list" where
  "push_new x xs = (if x \<in> set xs then xs else xs @ [x])"

definition poll_one :: "poll_event \<Rightarrow> bool \<times> order_server \<Rightarrow> bool \<times> order_server" where
  "poll_one e = (\<lambda>(have_new_connection, s).
     let k = ev_socket e in
     if ev_in e \<and> k = listener_socket s then (True, s)
     else
       let s1 = (if ev_in e then s\<lparr>receive_sockets := push_new k (receive_sockets s)\<rparr> else s);
           s2 = (if ev_out e then s1\<lparr>send_sockets := push_new k (send_sockets s1)\<rparr> else s1);
           s3 = (if ev_err e then s2\<lparr>receive_sockets := push_new k (receive_sockets s2)\<rparr> else s2)
       in (have_new_connection, s3))"

definition accept_one :: "nat \<times> int \<Rightarrow> order_server \<Rightarrow> order_server" where
  "accept_one = (\<lambda>(k, fd) s.
     (put_socket k (new_socket fd) s)\<lparr>receive_sockets := push_new k (receive_sockets s)\<rparr>)"

definition server_poll :: "poll_event list \<Rightarrow> (nat \<times> int) list \<Rightarrow> order_server \<Rightarrow> order_server" where
  "server_poll events accepted s =
     (let (have_new_connection, s1) = fold poll_one events (False, s)
      in if have_new_connection then fold accept_one accepted s1 else s1)"

definition socket_sendAndRecv :: "(byte list \<times> Nanos) option \<Rightarrow> nat \<Rightarrow> order_server \<Rightarrow> (bool \<times> order_server) res" where
  "socket_sendAndRecv input k s = tcp_sendAndRecv (\<lambda>s. sockets s k) (put_socket k) (recvCallBack k) input s"

fun sendAndRecv_all :: "(nat \<Rightarrow> (byte list \<times> Nanos) option) \<Rightarrow> nat list \<Rightarrow> order_server \<Rightarrow> (bool \<times> order_server) res" where
  "sendAndRecv_all input [] s = Inr (False, s)"
| "sendAndRecv_all input (k # ks) s =
     bindE (socket_sendAndRecv (input k) k s) (\<lambda>(r, s1).
     bindE (sendAndRecv_all input ks s1) (\<lambda>(r', s2). Inr (r \<or> r', s2)))"

definition server_sendAndRecv :: "(RecvTimeClientRequest list \<Rightarrow> RecvTimeClientRequest list) \<Rightarrow>
    (nat \<Rightarrow> (byte list \<times> Nanos) option) \<Rightarrow> (nat \<Rightarrow> (byte list \<times> Nanos) option) \<Rightarrow> order_server \<Rightarrow> order_server res" where
  "server_sendAndRecv srt input input' s =
     bindE (sendAndRecv_all input (receive_sockets s) s) (\<lambda>(recv, s1).
     let s2 = (if recv then recvFinishedCallBack srt s1 else s1)
     in bindE (sendAndRecv_all input' (send_sockets s2) s2) (\<lambda>(_, s3). Inr s3))"

text \<open>One pass of the server's loop.\<close>

definition order_server_run_once :: "(RecvTimeClientRequest list \<Rightarrow> RecvTimeClientRequest list) \<Rightarrow> poll_event list \<Rightarrow>
    (nat \<times> int) list \<Rightarrow> (nat \<Rightarrow> (byte list \<times> Nanos) option) \<Rightarrow> (nat \<Rightarrow> (byte list \<times> Nanos) option) \<Rightarrow>
    order_server \<Rightarrow> order_server res" where
  "order_server_run_once srt events accepted input input' s =
     bindE (server_sendAndRecv srt input input' (server_poll events accepted s)) send_responses"

subsection \<open>A stream of requests from one client\<close>

fun number_requests :: "64 word \<Rightarrow> MatchingEngineClientRequest list \<Rightarrow> OrderManagementClientRequest list" where
  "number_requests n [] = []"
| "number_requests n (r # rs) = \<lparr>omrq_sequence_number = n, me_client_request = r\<rparr> # number_requests (n + 1) rs"

lemma number_requests_append:
  "number_requests n (xs @ ys) = number_requests n xs @ number_requests (n + of_nat (length xs)) ys"
  by (induction xs arbitrary: n) (simp_all add: algebra_simps)

lemma set_number_requests: "m \<in> set (number_requests n rs) \<Longrightarrow> me_client_request m \<in> set rs"
  by (induction rs arbitrary: n) auto

text \<open>The server serves client \<open>cid\<close> on socket \<open>k\<close>, or would from its first request on.\<close>

definition served :: "nat \<Rightarrow> nat \<Rightarrow> order_server \<Rightarrow> bool" where
  "served k cid s \<longleftrightarrow> cid < MATCHING_ENGINE_MAX_NUM_CLIENTS \<and> (cid_tcp_sockets s cid = None \<or> cid_tcp_sockets s cid = Some k)"

definition from_client :: "nat \<Rightarrow> MatchingEngineClientRequest \<Rightarrow> bool" where
  "from_client cid r \<longleftrightarrow> unat (rq_client_id r) = cid"

abbreviation stamped :: "Nanos \<Rightarrow> MatchingEngineClientRequest list \<Rightarrow> RecvTimeClientRequest list" where
  "stamped t rs \<equiv> map (\<lambda>r. \<lparr>recv_time = t, request = r\<rparr>) rs"

lemma accept_next:
  assumes "served k cid s" and "from_client cid r" and "pending_size (fifo_sequencer s) < MATCHING_ENGINE_MAX_PENDING_REQUESTS"
  shows "\<exists>s'. accept_request k t \<lparr>omrq_sequence_number = cid_next_expected_sequence_number s cid, me_client_request = r\<rparr> s = Inr s' \<and>
    served k cid s' \<and> cid_tcp_sockets s' = (cid_tcp_sockets s)(cid := Some k) \<and>
    cid_next_expected_sequence_number s' =
      (cid_next_expected_sequence_number s)(cid := cid_next_expected_sequence_number s cid + 1) \<and>
    pending (fifo_sequencer s') = pending (fifo_sequencer s) @ stamped t [r] \<and>
    pending_size (fifo_sequencer s') = pending_size (fifo_sequencer s) + 1 \<and>
    sq_incoming_requests (fifo_sequencer s') = sq_incoming_requests (fifo_sequencer s) \<and> sockets s' = sockets s"
proof -
  obtain sq where "addClientRequest t r (fifo_sequencer s) = Inr sq" "pending sq = pending (fifo_sequencer s) @ stamped t [r]"
      "pending_size sq = pending_size (fifo_sequencer s) + 1"
      "sq_incoming_requests sq = sq_incoming_requests (fifo_sequencer s)"
    using addClientRequest_ok [OF assms(3), of t r] by auto
  then show ?thesis using assms(1,2)
    by (auto simp: accept_request_def Let_def served_def from_client_def fun_upd_idem)
qed

lemma accept_stream:
  assumes "served k cid s" and "\<forall>r \<in> set rs. from_client cid r"
    and "pending_size (fifo_sequencer s) + length rs \<le> MATCHING_ENGINE_MAX_PENDING_REQUESTS"
  shows "\<exists>s'. fold_res (accept_request k t) (number_requests (cid_next_expected_sequence_number s cid) rs) s = Inr s' \<and>
    served k cid s' \<and> (rs \<noteq> [] \<longrightarrow> cid_tcp_sockets s' cid = Some k) \<and>
    cid_next_expected_sequence_number s' cid = cid_next_expected_sequence_number s cid + of_nat (length rs) \<and>
    pending (fifo_sequencer s') = pending (fifo_sequencer s) @ stamped t rs \<and>
    sq_incoming_requests (fifo_sequencer s') = sq_incoming_requests (fifo_sequencer s) \<and> sockets s' = sockets s"
  using assms
proof (induction rs arbitrary: s)
  case Nil
  then show ?case by simp
next
  case (Cons r rs)
  let ?n = "cid_next_expected_sequence_number s cid"
  obtain s1 where s1: "accept_request k t \<lparr>omrq_sequence_number = ?n, me_client_request = r\<rparr> s = Inr s1"
      "served k cid s1" "cid_tcp_sockets s1 cid = Some k" "cid_next_expected_sequence_number s1 cid = ?n + 1"
      "pending (fifo_sequencer s1) = pending (fifo_sequencer s) @ stamped t [r]"
      "pending_size (fifo_sequencer s1) = pending_size (fifo_sequencer s) + 1"
      "sq_incoming_requests (fifo_sequencer s1) = sq_incoming_requests (fifo_sequencer s)" "sockets s1 = sockets s"
    using accept_next [of k cid s r t] Cons.prems by auto
  obtain s' where "fold_res (accept_request k t) (number_requests (?n + 1) rs) s1 = Inr s'" "served k cid s'"
      "rs \<noteq> [] \<longrightarrow> cid_tcp_sockets s' cid = Some k"
      "cid_next_expected_sequence_number s' cid = ?n + 1 + of_nat (length rs)"
      "pending (fifo_sequencer s') = pending (fifo_sequencer s1) @ stamped t rs"
      "sq_incoming_requests (fifo_sequencer s') = sq_incoming_requests (fifo_sequencer s1)" "sockets s' = sockets s1"
    using Cons.IH [OF s1(2)] Cons.prems s1(4,6) by auto
  moreover have "cid_tcp_sockets s' cid = Some k" using calculation(1,3) s1(3) by (cases "rs = []") auto
  ultimately show ?case using s1 by (auto simp: algebra_simps)
qed

text \<open>Numbers the server does not expect are dropped without an effect.\<close>

lemma accept_other_number:
  assumes "cid < MATCHING_ENGINE_MAX_NUM_CLIENTS" and "cid_tcp_sockets s cid = Some k" and "from_client cid r"
    and "n \<noteq> cid_next_expected_sequence_number s cid"
  shows "accept_request k t \<lparr>omrq_sequence_number = n, me_client_request = r\<rparr> s = Inr s"
  using assms by (auto simp: accept_request_def Let_def from_client_def)

lemma drop_stream:
  assumes "cid < MATCHING_ENGINE_MAX_NUM_CLIENTS" and "cid_tcp_sockets s cid = Some k" and "\<forall>r \<in> set rs. from_client cid r"
    and "\<forall>i < length rs. n + of_nat i \<noteq> cid_next_expected_sequence_number s cid"
  shows "fold_res (accept_request k t) (number_requests n rs) s = Inr s"
  using assms(3,4)
proof (induction rs arbitrary: n)
  case (Cons r rs)
  have "n \<noteq> cid_next_expected_sequence_number s cid" using Cons.prems(2) [rule_format, of 0] by simp
  then have "accept_request k t \<lparr>omrq_sequence_number = n, me_client_request = r\<rparr> s = Inr s"
    using Cons.prems(1) by (intro accept_other_number [OF assms(1,2)]) simp_all
  moreover have "n + 1 + of_nat i \<noteq> cid_next_expected_sequence_number s cid" if "i < length rs" for i
    using Cons.prems(2) [rule_format, of "Suc i"] that by (simp add: algebra_simps)
  ultimately show ?case using Cons by simp
qed simp

end
