(* ===== verification/Gateway.thy ===== *)
theory Gateway
  imports OrderServer
begin

section \<open>The order gateway of a trading client\<close>

text \<open>
  \<^verbatim>\<open>trading/order_gateway/Gateway.cc\<close>: the client's end of the connection to the order server. It
  numbers and sends the strategy's requests, and checks the client identifier and the sequence number
  of every response before it hands it on.
\<close>

record gateway =
  gw_client_id :: ClientID
  outgoing_request :: ClientRequestLFQueue
  incoming_response :: ClientResponseLFQueue
  next_outgoing_sequence_number :: "64 word"
  gw_next_expected_sequence_number :: "64 word"
  tcp_socket :: socket

definition OrderGateway :: "ClientID \<Rightarrow> ClientRequestLFQueue \<Rightarrow> ClientResponseLFQueue \<Rightarrow> gateway" where
  "OrderGateway client_id outgoing incoming =
     \<lparr>gw_client_id = client_id, outgoing_request = outgoing, incoming_response = incoming,
      next_outgoing_sequence_number = 1, gw_next_expected_sequence_number = 1, tcp_socket = new_socket (- 1)\<rparr>"

definition put_tcp_socket :: "socket \<Rightarrow> gateway \<Rightarrow> gateway" where
  "put_tcp_socket sock g = g\<lparr>tcp_socket := sock\<rparr>"

text \<open>The body of the sending loop of \<^verbatim>\<open>run\<close>.\<close>

definition gateway_send :: "MatchingEngineClientRequest \<Rightarrow> gateway \<Rightarrow> gateway res" where
  "gateway_send client_request g =
     bindE (tcp_send (le_bytes 8 (unat (next_outgoing_sequence_number g))) (tcp_socket g)) (\<lambda>sock1.
     bindE (tcp_send (encode_request client_request) sock1) (\<lambda>sock2.
     Inr (g\<lparr>tcp_socket := sock2, next_outgoing_sequence_number := next_outgoing_sequence_number g + 1\<rparr>)))"

text \<open>The body of the receiving loop of \<^verbatim>\<open>recvCallback\<close>, and the callback.\<close>

definition accept_response :: "OrderManagementClientResponse \<Rightarrow> gateway \<Rightarrow> gateway res" where
  "accept_response response g =
     (if rs_client_id (me_client_response response) \<noteq> gw_client_id g then Inr g
      else if omrs_sequence_number response \<noteq> gw_next_expected_sequence_number g then Inr g
      else Inr (g\<lparr>gw_next_expected_sequence_number := gw_next_expected_sequence_number g + 1,
                  incoming_response := lf_push (incoming_response g) (me_client_response response)\<rparr>))"

definition gateway_recvCallback :: "Nanos \<Rightarrow> gateway \<Rightarrow> gateway res" where
  "gateway_recvCallback rx_time g =
     (if length (recv_buffer (tcp_socket g)) \<ge> SIZEOF_OM_RESPONSE
      then bindE (recv_loop SIZEOF_OM_RESPONSE decode_om_response accept_response (recv_buffer (tcp_socket g)) g) (\<lambda>(rest, g1).
           Inr (put_tcp_socket ((tcp_socket g1)\<lparr>recv_buffer := rest\<rparr>) g1))
      else Inr g)"

text \<open>One pass of the loop of \<^verbatim>\<open>run\<close>.\<close>

definition gateway_run_once :: "(byte list \<times> Nanos) option \<Rightarrow> gateway \<Rightarrow> gateway res" where
  "gateway_run_once input g =
     bindE (tcp_sendAndRecv tcp_socket put_tcp_socket gateway_recvCallback input g) (\<lambda>(_, g1).
     bindE (lf_drain gateway_send (outgoing_request g1) g1) (\<lambda>(q, g2).
     Inr (g2\<lparr>outgoing_request := q\<rparr>)))"

subsection \<open>Sending\<close>

abbreviation request_bytes :: "64 word \<Rightarrow> MatchingEngineClientRequest list \<Rightarrow> byte list" where
  "request_bytes n rs \<equiv> concat (map encode_om_request (number_requests n rs))"

lemma length_request_bytes: "length (request_bytes n rs) = SIZEOF_OM_REQUEST * length rs"
  by (induction rs arbitrary: n) simp_all

lemma gateway_send_all:
  assumes "length (send_buffer (tcp_socket g)) + SIZEOF_OM_REQUEST * length rs \<le> BUFFER_SIZE"
  shows "fold_res gateway_send rs g =
    Inr (g\<lparr>tcp_socket := (tcp_socket g)\<lparr>send_buffer := send_buffer (tcp_socket g) @
             request_bytes (next_outgoing_sequence_number g) rs\<rparr>,
           next_outgoing_sequence_number := next_outgoing_sequence_number g + of_nat (length rs)\<rparr>)"
  using assms
proof (induction rs arbitrary: g)
  case (Cons r rs)
  let ?n = "next_outgoing_sequence_number g"
  let ?m = "encode_om_request \<lparr>omrq_sequence_number = ?n, me_client_request = r\<rparr>"
  define g1 where "g1 = g\<lparr>tcp_socket := (tcp_socket g)\<lparr>send_buffer := send_buffer (tcp_socket g) @ ?m\<rparr>,
    next_outgoing_sequence_number := ?n + 1\<rparr>"
  have len: "length (le_bytes 8 (unat ?n)) + length (encode_request r) = SIZEOF_OM_REQUEST"
    using size_of(1) [of "\<lparr>omrq_sequence_number = ?n, me_client_request = r\<rparr>"] by (simp add: encode_om_request_def)
  have "gateway_send r g = Inr g1"
    using Cons.prems len by (simp add: gateway_send_def tcp_send_ok encode_om_request_def g1_def)
  moreover have "length (send_buffer (tcp_socket g1)) + SIZEOF_OM_REQUEST * length rs \<le> BUFFER_SIZE"
    using Cons.prems by (simp add: g1_def)
  ultimately show ?case using Cons.IH [of g1] by (simp add: g1_def add.assoc)
qed simp

text \<open>Two passes put the queued requests on the wire: one fills the buffer, the next flushes it.\<close>

lemma gateway_sends:
  assumes "lf_inv (outgoing_request g)" and "send_buffer (tcp_socket g) = []"
    and "SIZEOF_OM_REQUEST * length (lf_contents (outgoing_request g)) \<le> BUFFER_SIZE"
  shows "\<exists>g1 g2. gateway_run_once None g = Inr g1 \<and> gateway_run_once None g1 = Inr g2 \<and>
    sent_bytes (tcp_socket g2) = sent_bytes (tcp_socket g) @
      request_bytes (next_outgoing_sequence_number g) (lf_contents (outgoing_request g)) \<and>
    lf_contents (outgoing_request g2) = [] \<and>
    next_outgoing_sequence_number g2 = next_outgoing_sequence_number g + of_nat (length (lf_contents (outgoing_request g)))"
proof -
  let ?rs = "lf_contents (outgoing_request g)"
  let ?b = "request_bytes (next_outgoing_sequence_number g) ?rs"
  define g1 where "g1 = g\<lparr>tcp_socket := (flush (tcp_socket g))\<lparr>send_buffer := ?b\<rparr>,
    next_outgoing_sequence_number := next_outgoing_sequence_number g + of_nat (length ?rs), outgoing_request := lf_emptied (outgoing_request g)\<rparr>"
  have one: "gateway_run_once None g = Inr g1"
    using gateway_send_all [of "put_tcp_socket (flush (tcp_socket g)) g" ?rs] assms
    by (simp add: lf_drain_fold [OF assms(1)] gateway_run_once_def tcp_sendAndRecv_def put_tcp_socket_def g1_def)
  have e: "lf_inv (lf_emptied (outgoing_request g))" "lf_contents (lf_emptied (outgoing_request g)) = []"
    using lf_emptied_inv [OF assms(1)] by simp_all
  have "gateway_run_once None g1 = Inr (put_tcp_socket (flush (tcp_socket g1)) g1)"
    using e lf_emptied_empty [OF e]
    by (simp add: lf_drain_fold [OF e(1)] gateway_run_once_def tcp_sendAndRecv_def put_tcp_socket_def g1_def)
  then show ?thesis using one e(2) assms(2) by (simp add: g1_def put_tcp_socket_def)
qed

subsection \<open>Receiving\<close>

fun number_responses :: "64 word \<Rightarrow> MatchingEngineClientResponse list \<Rightarrow> OrderManagementClientResponse list" where
  "number_responses n [] = []"
| "number_responses n (r # rs) = \<lparr>omrs_sequence_number = n, me_client_response = r\<rparr> # number_responses (n + 1) rs"

lemma set_number_responses: "m \<in> set (number_responses n rs) \<Longrightarrow> me_client_response m \<in> set rs"
  by (induction rs arbitrary: n) auto

lemma accept_responses:
  assumes "\<forall>r \<in> set rs. rs_client_id r = gw_client_id g"
  shows "fold_res accept_response (number_responses (gw_next_expected_sequence_number g) rs) g =
    Inr (g\<lparr>gw_next_expected_sequence_number := gw_next_expected_sequence_number g + of_nat (length rs),
           incoming_response := lf_push_all (incoming_response g) rs\<rparr>)"
  using assms
proof (induction rs arbitrary: g)
  case (Cons r rs)
  let ?g = "g\<lparr>gw_next_expected_sequence_number := gw_next_expected_sequence_number g + 1,
    incoming_response := lf_push (incoming_response g) r\<rparr>"
  have "fold_res accept_response (number_responses (gw_next_expected_sequence_number ?g) rs) ?g =
      Inr (?g\<lparr>gw_next_expected_sequence_number := gw_next_expected_sequence_number ?g + of_nat (length rs),
             incoming_response := lf_push_all (incoming_response ?g) rs\<rparr>)"
    by (rule Cons.IH) (use Cons.prems in simp)
  moreover have "accept_response \<lparr>omrs_sequence_number = gw_next_expected_sequence_number g, me_client_response = r\<rparr> g = Inr ?g"
    using Cons.prems by (simp add: accept_response_def)
  ultimately show ?case by (simp add: add.assoc)
qed simp

abbreviation response_bytes :: "64 word \<Rightarrow> MatchingEngineClientResponse list \<Rightarrow> byte list" where
  "response_bytes n rs \<equiv> concat (map encode_om_response (number_responses n rs))"

text \<open>What the order server puts into the buffer of a client's socket.\<close>

lemma send_to_client:
  assumes "\<forall>r \<in> set rs. unat (rs_client_id r) = cid" and "cid < MATCHING_ENGINE_MAX_NUM_CLIENTS"
    and "cid_tcp_sockets s cid = Some k"
    and "length (send_buffer (sockets s k)) + SIZEOF_OM_RESPONSE * length rs \<le> BUFFER_SIZE"
  shows "fold_res send_response rs s =
    Inr (put_socket k ((sockets s k)\<lparr>send_buffer := send_buffer (sockets s k) @
           response_bytes (cid_next_outgoing_sequence_number s cid) rs\<rparr>)
          (s\<lparr>cid_next_outgoing_sequence_number := (cid_next_outgoing_sequence_number s)
             (cid := cid_next_outgoing_sequence_number s cid + of_nat (length rs))\<rparr>))"
  using assms(1,3,4)
proof (induction rs arbitrary: s)
  case Nil
  then show ?case by (simp add: put_socket_def)
next
  case (Cons r rs)
  let ?n = "cid_next_outgoing_sequence_number s cid"
  let ?m = "\<lparr>omrs_sequence_number = ?n, me_client_response = r\<rparr>"
  define s1 where "s1 = put_socket k ((sockets s k)\<lparr>send_buffer := send_buffer (sockets s k) @ encode_om_response ?m\<rparr>)
    (s\<lparr>cid_next_outgoing_sequence_number := (cid_next_outgoing_sequence_number s)(cid := ?n + 1)\<rparr>)"
  have len: "length (le_bytes 8 (unat ?n)) + length (encode_response r) = SIZEOF_OM_RESPONSE"
    using size_of(2) [of ?m] by (simp add: encode_om_response_def)
  have "send_response r s = Inr s1"
    using Cons.prems assms(2) len by (simp add: send_response_def Let_def tcp_send_ok encode_om_response_def s1_def)
  moreover have "length (send_buffer (sockets s1 k)) + SIZEOF_OM_RESPONSE * length rs \<le> BUFFER_SIZE" "cid_tcp_sockets s1 cid = Some k"
    using Cons.prems by (simp_all add: s1_def put_socket_def)
  ultimately show ?case using Cons.IH [of s1] Cons.prems(1)
    by (simp add: s1_def put_socket_def add.assoc fun_upd_def cong: if_cong)
qed


end
