(* ===== verification/ServerProps.thy ===== *)
theory ServerProps
  imports Gateway BookProps
begin

section \<open>Properties of the order entry path\<close>

text \<open>
  From a client's strategy through its gateway, over the connection, to the sequencer of the exchange,
  and back.
\<close>

lemma recvCallBack_whole:
  assumes "recv_buffer (sockets s k) = concat (map encode_om_request ms)"
    and "\<forall>m \<in> set ms. price_ok (rq_price (me_client_request m))"
    and "fold_res (accept_request k t) ms s = Inr s'" and "sockets s' = sockets s"
  shows "recvCallBack k t s = Inr (put_socket k ((sockets s k)\<lparr>recv_buffer := []\<rparr>) s')"
proof (cases "ms = []")
  case True
  then have "recv_buffer (sockets s k) = []" "s' = s" using assms by simp_all
  then show ?thesis by (simp add: recvCallBack_def SIZEOF_OM_REQUEST_def put_socket_def fun_upd_idem)
next
  case False
  have "length (concat (map encode_om_request ms)) = SIZEOF_OM_REQUEST * length ms"
    by (induction ms) simp_all
  then have "SIZEOF_OM_REQUEST \<le> length (recv_buffer (sockets s k))" using assms(1) False by (cases ms) simp_all
  then show ?thesis
    using req.recv_messages [OF assms(2), of "[]" "accept_request k t" s] req.size_pos assms
    by (simp add: recvCallBack_def)
qed

lemma gateway_to_sequencer:
  assumes "lf_inv (outgoing_request g)" and "send_buffer (tcp_socket g) = []" and "sent_bytes (tcp_socket g) = []"
    and "lf_contents (outgoing_request g) = rs" and "SIZEOF_OM_REQUEST * length rs \<le> BUFFER_SIZE"
    and "\<forall>r \<in> set rs. rq_client_id r = gw_client_id g \<and> price_ok (rq_price r)"
    and "cid = unat (gw_client_id g)" and "served k cid s" and "recv_buffer (sockets s k) = []"
    and "cid_next_expected_sequence_number s cid = next_outgoing_sequence_number g"
    and "pending_size (fifo_sequencer s) + length rs \<le> MATCHING_ENGINE_MAX_PENDING_REQUESTS"
  shows "\<exists>g1 g2 s'. gateway_run_once None g = Inr g1 \<and> gateway_run_once None g1 = Inr g2 \<and>
    recvCallBack k t (put_socket k ((sockets s k)\<lparr>recv_buffer := sent_bytes (tcp_socket g2)\<rparr>) s) = Inr s' \<and>
    pending (fifo_sequencer s') = pending (fifo_sequencer s) @ stamped t rs \<and>
    cid_next_expected_sequence_number s' cid = next_outgoing_sequence_number g2 \<and>
    recv_buffer (sockets s' k) = [] \<and> sq_incoming_requests (fifo_sequencer s') = sq_incoming_requests (fifo_sequencer s)"
proof -
  obtain g1 g2 where g: "gateway_run_once None g = Inr g1" "gateway_run_once None g1 = Inr g2"
      "sent_bytes (tcp_socket g2) = request_bytes (next_outgoing_sequence_number g) rs"
      "next_outgoing_sequence_number g2 = next_outgoing_sequence_number g + of_nat (length rs)"
    using gateway_sends [OF assms(1,2)] assms(3-5) by auto
  let ?s = "put_socket k ((sockets s k)\<lparr>recv_buffer := sent_bytes (tcp_socket g2)\<rparr>) s"
  have s: "served k cid ?s" "fifo_sequencer ?s = fifo_sequencer s"
      "cid_next_expected_sequence_number ?s cid = next_outgoing_sequence_number g"
    using assms(8,10) by (simp_all add: put_socket_def served_def)
  have cl: "\<forall>r \<in> set rs. from_client cid r" using assms(6,7) by (simp add: from_client_def)
  obtain s' where s': "fold_res (accept_request k t) (number_requests (next_outgoing_sequence_number g) rs) ?s = Inr s'"
      "cid_next_expected_sequence_number s' cid = next_outgoing_sequence_number g + of_nat (length rs)"
      "pending (fifo_sequencer s') = pending (fifo_sequencer s) @ stamped t rs" "sockets s' = sockets ?s"
      "sq_incoming_requests (fifo_sequencer s') = sq_incoming_requests (fifo_sequencer s)"
    using accept_stream [OF s(1) cl, of t] assms(11) s(2,3) by auto
  have "\<forall>m \<in> set (number_requests (next_outgoing_sequence_number g) rs). price_ok (rq_price (me_client_request m))"
    using set_number_requests assms(6) by blast
  then have "recvCallBack k t ?s = Inr (put_socket k ((sockets ?s k)\<lparr>recv_buffer := []\<rparr>) s')"
    using s'(1,4) g(3) by (intro recvCallBack_whole) (simp_all add: put_socket_def)
  then show ?thesis using g s'(2,3,5) by (auto simp: put_socket_def)
qed

text \<open>C17: what a strategy queues reaches the exchange. A gateway whose queue holds the requests \<open>rs\<close> of
  its client puts them on the wire in two passes of its loop; when these bytes arrive at the order
  server on the client's connection, and the numbers continue where the server is, the sequencer gets
  exactly \<open>rs\<close>, in order and each once, stamped with the receive time, and no byte is left over.\<close>

theorem requests_reach_sequencer:
  assumes "lf_inv (outgoing_request g)" and "send_buffer (tcp_socket g) = []" and "sent_bytes (tcp_socket g) = []"
    and "lf_contents (outgoing_request g) = rs" and "SIZEOF_OM_REQUEST * length rs \<le> BUFFER_SIZE"
    and "\<forall>r \<in> set rs. rq_client_id r = gw_client_id g \<and> price_ok (rq_price r)"
    and "cid = unat (gw_client_id g)" and "served k cid s" and "recv_buffer (sockets s k) = []"
    and "cid_next_expected_sequence_number s cid = next_outgoing_sequence_number g"
    and "pending_size (fifo_sequencer s) + length rs \<le> MATCHING_ENGINE_MAX_PENDING_REQUESTS"
  shows "\<exists>g1 g2 s'. gateway_run_once None g = Inr g1 \<and> gateway_run_once None g1 = Inr g2 \<and>
    recvCallBack k t (put_socket k ((sockets s k)\<lparr>recv_buffer := sent_bytes (tcp_socket g2)\<rparr>) s) = Inr s' \<and>
    pending (fifo_sequencer s') = pending (fifo_sequencer s) @ stamped t rs \<and>
    cid_next_expected_sequence_number s' cid = next_outgoing_sequence_number g2 \<and>
    recv_buffer (sockets s' k) = []"
  using gateway_to_sequencer [OF assms, of t] by blast

definition ex_order_request :: MatchingEngineClientRequest where
  "ex_order_request = \<lparr>rq_type = CRQ_NEW, rq_client_id = 7, rq_ticker_id = 3, rq_order_id = 5, rq_side = Side_SELL,
     rq_price = - 100, rq_quantity = 10\<rparr>"

definition ex_gateway :: gateway where
  "ex_gateway = OrderGateway 7 (lf_push_all (LockFreeQueue default_request 8) [ex_order_request, ex_order_request])
     (LockFreeQueue default_response 8)"

lemma ex_gateway_facts:
  "lf_inv (outgoing_request ex_gateway)" "lf_contents (outgoing_request ex_gateway) = [ex_order_request, ex_order_request]"
  "tcp_socket ex_gateway = new_socket (- 1)" "gw_client_id ex_gateway = 7" "next_outgoing_sequence_number ex_gateway = 1"
proof -
  have "lf_inv (LockFreeQueue default_request 8)" by (rule lf_inv_LockFreeQueue) simp
  then show "lf_inv (outgoing_request ex_gateway)" "lf_contents (outgoing_request ex_gateway) = [ex_order_request, ex_order_request]"
    using lf_push_all_contents [of "LockFreeQueue default_request 8" "[ex_order_request, ex_order_request]"]
    by (simp_all add: ex_gateway_def OrderGateway_def)
qed (simp_all add: ex_gateway_def OrderGateway_def)

definition ex_server :: order_server where
  "ex_server = OrderServer (LockFreeQueue default_request 8) (LockFreeQueue default_response 8)"

lemma ex_server_facts:
  "served k 7 ex_server" "recv_buffer (sockets ex_server k) = []" "cid_next_expected_sequence_number ex_server c = 1"
  "pending (fifo_sequencer ex_server) = []" "pending_size (fifo_sequencer ex_server) = 0" "cid_tcp_sockets ex_server c = None"
  by (simp_all add: ex_server_def OrderServer_def served_def limit_defs) (simp add: new_sequencer_def)

theorem requests_reach_sequencer_witness:
  "\<exists>g1 g2 s'. gateway_run_once None ex_gateway = Inr g1 \<and> gateway_run_once None g1 = Inr g2 \<and>
    recvCallBack 4 9 (put_socket 4 ((sockets ex_server 4)\<lparr>recv_buffer := sent_bytes (tcp_socket g2)\<rparr>) ex_server) = Inr s' \<and>
    pending (fifo_sequencer s') = stamped 9 [ex_order_request, ex_order_request]"
  using requests_reach_sequencer [OF ex_gateway_facts(1) _ _ ex_gateway_facts(2), of 7 4 ex_server 9]
    ex_gateway_facts ex_server_facts
  by (simp add: SIZEOF_OM_REQUEST_def BUFFER_SIZE_def ex_order_request_def price_ok_def
      MATCHING_ENGINE_MAX_PENDING_REQUESTS_def) blast

text \<open>C27: a request is never taken twice. If the numbered requests a server has just accepted from a
  client come again (fewer than \<open>2 ^ 64\<close> of them), every one is dropped and the server's state does
  not change.\<close>

theorem replayed_requests_are_dropped:
  assumes "served k cid s" and "\<forall>r \<in> set rs. from_client cid r" and "rs \<noteq> []" and "length rs < 2 ^ 64"
    and "pending_size (fifo_sequencer s) + length rs \<le> MATCHING_ENGINE_MAX_PENDING_REQUESTS"
    and "n = cid_next_expected_sequence_number s cid"
  shows "\<exists>s'. fold_res (accept_request k t) (number_requests n rs) s = Inr s' \<and>
    pending (fifo_sequencer s') = pending (fifo_sequencer s) @ stamped t rs \<and>
    fold_res (accept_request k t') (number_requests n rs) s' = Inr s'"
proof -
  obtain s' where s': "fold_res (accept_request k t) (number_requests n rs) s = Inr s'" "cid_tcp_sockets s' cid = Some k"
      "cid_next_expected_sequence_number s' cid = n + of_nat (length rs)"
      "pending (fifo_sequencer s') = pending (fifo_sequencer s) @ stamped t rs"
    using accept_stream [OF assms(1,2,5), of t] assms(3,6) by auto
  have "cid < MATCHING_ENGINE_MAX_NUM_CLIENTS" using assms(1) by (simp add: served_def)
  moreover have "\<forall>i < length rs. n + of_nat i \<noteq> cid_next_expected_sequence_number s' cid"
  proof (intro allI impI)
    fix i assume i: "i < length rs"
    then have "unat (of_nat i :: 64 word) \<noteq> unat (of_nat (length rs) :: 64 word)"
      using assms(4) by (simp add: unat_of_nat take_bit_nat_eq_self)
    then show "n + of_nat i \<noteq> cid_next_expected_sequence_number s' cid" using s'(3) by auto
  qed
  ultimately show ?thesis using drop_stream [OF _ s'(2) assms(2), of n t'] s' by blast
qed

theorem replayed_requests_are_dropped_witness:
  "\<exists>s'. fold_res (accept_request 4 9) (number_requests 1 [ex_order_request]) ex_server = Inr s' \<and>
    pending (fifo_sequencer s') = stamped 9 [ex_order_request] \<and>
    fold_res (accept_request 4 11) (number_requests 1 [ex_order_request]) s' = Inr s'"
  using replayed_requests_are_dropped [OF ex_server_facts(1), of "[ex_order_request]" 1 4 9 11] ex_server_facts
  by (simp add: from_client_def ex_order_request_def MATCHING_ENGINE_MAX_PENDING_REQUESTS_def)


text \<open>C18: responses reach the client. The responses for one client in the server's queue are sent on the
  client's socket; when these bytes arrive at the client's gateway, whose next expected number is the
  server's next number, exactly these responses are delivered to the strategy's queue, in order.\<close>

theorem responses_reach_strategy:
  assumes "lf_inv (os_outgoing_responses s)" and "lf_contents (os_outgoing_responses s) = rs"
    and "\<forall>r \<in> set rs. rs_client_id r = gw_client_id g \<and> price_ok (rs_price r)"
    and "cid = unat (gw_client_id g)" and "cid < MATCHING_ENGINE_MAX_NUM_CLIENTS" and "cid_tcp_sockets s cid = Some k"
    and "send_buffer (sockets s k) = []" and "SIZEOF_OM_RESPONSE * length rs \<le> BUFFER_SIZE"
    and "gw_next_expected_sequence_number g = cid_next_outgoing_sequence_number s cid"
    and "lf_inv (incoming_response g)" and "lf_count (incoming_response g) + length rs < lf_capacity (incoming_response g)"
  shows "\<exists>s' g'. send_responses s = Inr s' \<and> lf_contents (os_outgoing_responses s') = [] \<and>
    gateway_recvCallback t (put_tcp_socket ((tcp_socket g)\<lparr>recv_buffer := send_buffer (sockets s' k)\<rparr>) g) = Inr g' \<and>
    lf_contents (incoming_response g') = lf_contents (incoming_response g) @ rs \<and>
    gw_next_expected_sequence_number g' = cid_next_outgoing_sequence_number s' cid"
proof -
  let ?n = "cid_next_outgoing_sequence_number s cid"
  let ?b = "response_bytes ?n rs"
  define s' where "s' = (put_socket k ((sockets s k)\<lparr>send_buffer := ?b\<rparr>) (s\<lparr>cid_next_outgoing_sequence_number :=
    (cid_next_outgoing_sequence_number s)(cid := ?n + of_nat (length rs))\<rparr>))\<lparr>os_outgoing_responses := lf_emptied (os_outgoing_responses s)\<rparr>"
  have "\<forall>r \<in> set rs. unat (rs_client_id r) = cid" using assms(3,4) by simp
  then have "send_responses s = Inr s'"
    using send_to_client [of rs cid s k] assms(2,5-8) by (simp add: send_responses_def lf_drain_fold [OF assms(1)] s'_def)
  moreover have "lf_contents (os_outgoing_responses s') = []" using lf_emptied_inv [OF assms(1)] by (simp add: s'_def)
  moreover define g0 where "g0 = put_tcp_socket ((tcp_socket g)\<lparr>recv_buffer := send_buffer (sockets s' k)\<rparr>) g"
  have b: "recv_buffer (tcp_socket g0) = ?b" by (simp add: g0_def put_tcp_socket_def s'_def put_socket_def)
  define g1 where "g1 = g0\<lparr>gw_next_expected_sequence_number := ?n + of_nat (length rs),
    incoming_response := lf_push_all (incoming_response g) rs\<rparr>"
  have ok: "\<forall>m \<in> set (number_responses ?n rs). price_ok (rs_price (me_client_response m))"
    using set_number_responses assms(3) by blast
  have "fold_res accept_response (number_responses ?n rs) g0 = Inr g1"
    using accept_responses [of rs g0] assms(3,9) by (simp add: g0_def put_tcp_socket_def g1_def)
  then have loop: "recv_loop SIZEOF_OM_RESPONSE decode_om_response accept_response ?b g0 = Inr ([], g1)"
    using rsp.recv_messages [OF ok, of "[]" accept_response g0] rsp.size_pos by simp
  have "\<exists>g'. gateway_recvCallback t g0 = Inr g' \<and> incoming_response g' = incoming_response g1 \<and>
      gw_next_expected_sequence_number g' = gw_next_expected_sequence_number g1"
  proof (cases "rs = []")
    case True
    then show ?thesis using b assms(9)
      by (simp add: gateway_recvCallback_def g1_def SIZEOF_OM_RESPONSE_def g0_def put_tcp_socket_def)
  next
    case False
    then have "SIZEOF_OM_RESPONSE \<le> length ?b" by (cases rs) simp_all
    then show ?thesis using b loop by (simp add: gateway_recvCallback_def put_tcp_socket_def)
  qed
  moreover have "lf_contents (incoming_response g1) = lf_contents (incoming_response g) @ rs"
    using lf_push_all_contents [OF assms(10,11)] by (simp add: g1_def)
  ultimately show ?thesis by (auto simp: g0_def g1_def s'_def put_socket_def)
qed

definition ex_answer :: MatchingEngineClientResponse where
  "ex_answer = \<lparr>rs_type = CRS_FILLED, rs_client_id = 7, rs_ticker_id = 3, rs_client_order_id = 5, rs_market_order_id = 1,
     rs_side = Side_SELL, rs_price = 100, rs_exec_quantity = 4, rs_leaves_quantity = 6\<rparr>"

theorem responses_reach_strategy_witness:
  "\<exists>s' g'. send_responses (ex_server\<lparr>os_outgoing_responses := lf_push_all (LockFreeQueue default_response 8) [ex_answer],
      cid_tcp_sockets := (\<lambda>_. None)(7 := Some 4)\<rparr>) = Inr s' \<and>
    gateway_recvCallback 9 (put_tcp_socket ((tcp_socket ex_gateway)\<lparr>recv_buffer := send_buffer (sockets s' 4)\<rparr>) ex_gateway) = Inr g' \<and>
    lf_contents (incoming_response g') = [ex_answer]"
proof -
  have "lf_inv (LockFreeQueue default_response 8)" by (rule lf_inv_LockFreeQueue) simp
  then have q: "lf_inv (lf_push_all (LockFreeQueue default_response 8) [ex_answer])"
    "lf_contents (lf_push_all (LockFreeQueue default_response 8) [ex_answer]) = [ex_answer]"
    "lf_inv (incoming_response ex_gateway)" "lf_contents (incoming_response ex_gateway) = []"
    "lf_capacity (incoming_response ex_gateway) = 8" "lf_count (incoming_response ex_gateway) = 0"
    using lf_push_all_contents [of "LockFreeQueue default_response 8" "[ex_answer]"]
    by (simp_all add: ex_gateway_def OrderGateway_def)
  have e: "gw_next_expected_sequence_number ex_gateway = 1" "send_buffer (sockets ex_server 4) = []"
    "cid_next_outgoing_sequence_number ex_server 7 = 1" "gw_client_id ex_gateway = 7"
    by (simp_all add: ex_gateway_def OrderGateway_def ex_server_def OrderServer_def)
  let ?s = "ex_server\<lparr>os_outgoing_responses := lf_push_all (LockFreeQueue default_response 8) [ex_answer],
    cid_tcp_sockets := (\<lambda>_. None)(7 := Some 4)\<rparr>"
  have "lf_inv (os_outgoing_responses ?s)" "lf_contents (os_outgoing_responses ?s) = [ex_answer]" using q(1,2) by simp_all
  moreover have "\<forall>r \<in> set [ex_answer]. rs_client_id r = gw_client_id ex_gateway \<and> price_ok (rs_price r)"
    by (simp add: e ex_answer_def price_ok_def)
  moreover have "(7 :: nat) = unat (gw_client_id ex_gateway)" "(7 :: nat) < MATCHING_ENGINE_MAX_NUM_CLIENTS"
    "cid_tcp_sockets ?s 7 = Some 4" "send_buffer (sockets ?s 4) = []" "SIZEOF_OM_RESPONSE * length [ex_answer] \<le> BUFFER_SIZE"
    "gw_next_expected_sequence_number ex_gateway = cid_next_outgoing_sequence_number ?s 7"
    "lf_count (incoming_response ex_gateway) + length [ex_answer] < lf_capacity (incoming_response ex_gateway)"
    using e q(5,6) by (simp_all add: limit_defs SIZEOF_OM_RESPONSE_def BUFFER_SIZE_def)
  ultimately show ?thesis
    using responses_reach_strategy [of ?s "[ex_answer]" ex_gateway 7 4 9] q(3,4) by (simp only: append_Nil) blast
qed

text \<open>C39: because the acknowledgement of a new order carries the ticker where the client belongs, a valid
  new order for a ticker whose number is not a connected client's stops the exchange: the order is
  booked, and then the order server fails an assertion on the acknowledgement it is to deliver.\<close>

theorem acknowledgement_stops_order_server:
  assumes "represents b v" and "trading_side sd" and "unat cid < MATCHING_ENGINE_MAX_NUM_CLIENTS"
    and "unat coid < MATCHING_ENGINE_MAX_ORDER_IDS" and "spec_find cid coid v = None"
    and "slot_free p (v Side_BUY)" and "slot_free p (v Side_SELL)" and "has_room v"
    and "lf_inv (outgoing_responses out)" and "lf_contents (outgoing_responses out) = []"
    and "length (add_responses cid coid tid sd p qty (next_market_order_id b) v) < lf_capacity (outgoing_responses out)"
    and "unat tid < MATCHING_ENGINE_MAX_NUM_CLIENTS" and "cid_tcp_sockets s (unat tid) = None"
  shows "\<exists>b' out'. add cid coid tid sd p qty (b, out) = Inr (b', out') \<and>
    represents b' (spec_add cid coid tid sd p qty (next_market_order_id b) v) \<and>
    send_responses (s\<lparr>os_outgoing_responses := outgoing_responses out'\<rparr>) =
      Inl (AssertFailed (''Do not have a TCPSocket for ClientID : '' @ to_string_nat (unat tid)))"
proof -
  let ?rs = "add_responses cid coid tid sd p qty (next_market_order_id b) v"
  obtain b' us where add: "add cid coid tid sd p qty (b, out) = Inr (b', emit ?rs us out)"
      "represents b' (spec_add cid coid tid sd p qty (next_market_order_id b) v)"
    using add_represents [OF assms(1-8)] by blast
  define q where "q = lf_push_all (outgoing_responses out) ?rs"
  have "lf_count (outgoing_responses out) = 0" using assms(10) length_lf_contents by (metis list.size(3))
  then have q: "lf_inv q" "lf_contents q = ?rs"
    using lf_push_all_contents [OF assms(9), of ?rs] assms(10,11) by (simp_all add: q_def)
  obtain rest where rs: "?rs = accepted cid coid tid sd p qty (next_market_order_id b) # rest"
    by (simp add: add_responses_def)
  let ?ack = "accepted cid coid tid sd p qty (next_market_order_id b)"
  let ?err = "AssertFailed (''Do not have a TCPSocket for ClientID : '' @ to_string_nat (unat tid))"
  have "send_response ?ack (s\<lparr>os_outgoing_responses := q\<rparr>) = Inl ?err"
    using assms(12,13) by (simp add: send_response_def accepted_def)
  then have "send_responses (s\<lparr>os_outgoing_responses := q\<rparr>) = Inl ?err"
    using q(2) rs by (simp add: send_responses_def lf_drain_fold [OF q(1)])
  then show ?thesis using add by (auto simp: emit_def q_def)
qed

theorem acknowledgement_stops_order_server_witness:
  "\<exists>b' out'. add 7 5 3 Side_SELL 100 10 (MatchingEngineOrderBook 3, ex_out) = Inr (b', out') \<and>
    send_responses (ex_server\<lparr>os_outgoing_responses := outgoing_responses out'\<rparr>) =
      Inl (AssertFailed (''Do not have a TCPSocket for ClientID : '' @ ''3''))"
proof -
  have "lf_inv (outgoing_responses ex_out)" "lf_contents (outgoing_responses ex_out) = []"
    "lf_capacity (outgoing_responses ex_out) = 8"
    by (simp_all add: ex_out_def lf_inv_LockFreeQueue)
  moreover have "length (add_responses 7 5 3 Side_SELL 100 10 n (\<lambda>_. [])) = 1" for n
    by (simp add: add_responses_def fill_responses_def)
  moreover have "to_string_nat (unat (3 :: TickerID)) = ''3''" by code_simp
  ultimately show ?thesis
    using acknowledgement_stops_order_server [OF initial_book [of 3], of Side_SELL 7 5 100 ex_out 3 10 ex_server]
      ex_server_facts(6)
    by (simp add: limit_defs) blast
qed

end
