(* ===== verification/MarketDataConsumer.thy ===== *)
theory MarketDataConsumer
  imports MarketData Sockets
begin

section \<open>The market data consumer of a trading client\<close>

text \<open>
  \<^verbatim>\<open>trading/market_data/MarketDataConsumer.cc\<close>: the client follows the incremental stream as long as
  its numbers have no gap; after a gap it joins the snapshot stream, collects a whole snapshot and the
  incremental updates after it, and hands both on at once. \<^verbatim>\<open>std::map<size_t, MatchingEngineMarketUpdate>\<close>
  is an association list in the order of its keys. Whether a socket can be made and joined is the
  environment's answer.
\<close>

type_synonym QueuedMarketUpdates = "(64 word \<times> MatchingEngineMarketUpdate) list"

fun map_put :: "64 word \<Rightarrow> 'v \<Rightarrow> (64 word \<times> 'v) list \<Rightarrow> (64 word \<times> 'v) list" where
  "map_put k v [] = [(k, v)]"
| "map_put k v ((k', v') # m) =
     (if k < k' then (k, v) # (k', v') # m else if k = k' then (k, v) # m else (k', v') # map_put k v m)"

record consumer =
  mc_next_expected_sequence_number :: "64 word"
  incoming_md_queue :: MarketUpdateLFQueue
  in_recovery_mode :: bool
  snapshot_queued_msgs :: QueuedMarketUpdates
  incremental_queued_msgs :: QueuedMarketUpdates
  incremental_mcast_socket :: socket
  snapshot_mcast_socket :: socket

text \<open>The environment's answers to \<^verbatim>\<open>McastSocket::init\<close> and \<^verbatim>\<open>McastSocket::join\<close>.\<close>

record join_result =
  init_fd :: int
  joined :: bool

definition MarketDataConsumer :: "MarketUpdateLFQueue \<Rightarrow> join_result \<Rightarrow> consumer res" where
  "MarketDataConsumer market_update_queue env =
     bindE (ASSERT (init_fd env \<ge> 0) ''Unable to create incremental market data multicast socket'') (\<lambda>_.
     bindE (ASSERT (joined env) ''Join failed on:'') (\<lambda>_.
     Inr \<lparr>mc_next_expected_sequence_number = 1, incoming_md_queue = market_update_queue, in_recovery_mode = False,
          snapshot_queued_msgs = [], incremental_queued_msgs = [],
          incremental_mcast_socket = new_socket (init_fd env), snapshot_mcast_socket = new_socket (- 1)\<rparr>))"

definition startSnapshotSync :: "join_result \<Rightarrow> consumer \<Rightarrow> consumer res" where
  "startSnapshotSync env c =
     bindE (ASSERT (init_fd env \<ge> 0) ''Unable to create snapshot mcast socker. error : '') (\<lambda>_.
     bindE (ASSERT (joined env) ''Join failed on:'') (\<lambda>_.
     Inr (c\<lparr>snapshot_queued_msgs := [], incremental_queued_msgs := [],
            snapshot_mcast_socket := (snapshot_mcast_socket c)\<lparr>socket_fd := init_fd env\<rparr>\<rparr>)))"

definition is_marker :: "MatchingEngineMarketUpdate \<Rightarrow> bool" where
  "is_marker u \<longleftrightarrow> mu_type u = MU_SNAPSHOT_START \<or> mu_type u = MU_SNAPSHOT_END"

text \<open>
  The two loops of \<^verbatim>\<open>checkSnapshotSync\<close>: over the queued snapshot, and over the queued increments.
  They give whether no gap was found, and \<^verbatim>\<open>final_events\<close>; the second also the next expected number.
  \<^verbatim>\<open>next_snapshot_sequence_number\<close> is an \<^verbatim>\<open>int\<close> that counts the queued messages and is cast to
  \<^verbatim>\<open>size_t\<close>; memory holds fewer than \<open>2 ^ 31\<close> of them, so it is the 64-bit count here.
\<close>

fun scan_snapshot :: "64 word \<Rightarrow> QueuedMarketUpdates \<Rightarrow> MatchingEngineMarketUpdate list \<Rightarrow>
    bool \<times> MatchingEngineMarketUpdate list" where
  "scan_snapshot next [] events = (True, events)"
| "scan_snapshot next ((k, u) # msgs) events =
     (if k \<noteq> next then (False, events)
      else scan_snapshot (next + 1) msgs (if is_marker u then events else events @ [u]))"

fun scan_incrementals :: "64 word \<Rightarrow> QueuedMarketUpdates \<Rightarrow> MatchingEngineMarketUpdate list \<Rightarrow>
    bool \<times> 64 word \<times> MatchingEngineMarketUpdate list" where
  "scan_incrementals next [] events = (True, next, events)"
| "scan_incrementals next ((k, u) # msgs) events =
     (if k < next then scan_incrementals next msgs events
      else if k \<noteq> next then (False, next, events)
      else scan_incrementals (next + 1) msgs (if is_marker u then events else events @ [u]))"

definition checkSnapshotSync :: "consumer \<Rightarrow> consumer" where
  "checkSnapshotSync c =
     (if snapshot_queued_msgs c = [] then c
      else if mu_type (snd (hd (snapshot_queued_msgs c))) \<noteq> MU_SNAPSHOT_START then c\<lparr>snapshot_queued_msgs := []\<rparr>
      else let (have_complete_snapshot, events) = scan_snapshot 0 (snapshot_queued_msgs c) [] in
        if \<not> have_complete_snapshot then c\<lparr>snapshot_queued_msgs := []\<rparr>
        else let last_snapshot_msg = snd (last (snapshot_queued_msgs c)) in
          if mu_type last_snapshot_msg \<noteq> MU_SNAPSHOT_END then c
          else let (have_complete_incrementals, next, final_events) =
              scan_incrementals (mu_order_id last_snapshot_msg + 1) (incremental_queued_msgs c) events;
              c1 = c\<lparr>mc_next_expected_sequence_number := next\<rparr>
            in if \<not> have_complete_incrementals then c1\<lparr>snapshot_queued_msgs := []\<rparr>
               else c1\<lparr>incoming_md_queue := lf_push_all (incoming_md_queue c1) final_events,
                       snapshot_queued_msgs := [], incremental_queued_msgs := [], in_recovery_mode := False,
                       snapshot_mcast_socket := (snapshot_mcast_socket c1)\<lparr>socket_fd := - 1\<rparr>\<rparr>)"

definition queueMessage :: "bool \<Rightarrow> MDPMarketUpdate \<Rightarrow> consumer \<Rightarrow> consumer" where
  "queueMessage is_snapshot m c =
     checkSnapshotSync
       (if is_snapshot
        then let c1 = (if map_of (snapshot_queued_msgs c) (mdp_sequence_number m) \<noteq> None
                       then c\<lparr>snapshot_queued_msgs := []\<rparr> else c)
          in c1\<lparr>snapshot_queued_msgs := map_put (mdp_sequence_number m) (me_market_update m) (snapshot_queued_msgs c1)\<rparr>
        else c\<lparr>incremental_queued_msgs := map_put (mdp_sequence_number m) (me_market_update m) (incremental_queued_msgs c)\<rparr>)"

text \<open>The body of the receive loop.\<close>

definition consume :: "join_result \<Rightarrow> bool \<Rightarrow> MDPMarketUpdate \<Rightarrow> consumer \<Rightarrow> consumer res" where
  "consume env is_snapshot m c =
     (let already_in_recovery = in_recovery_mode c;
          c1 = c\<lparr>in_recovery_mode := already_in_recovery \<or> mdp_sequence_number m \<noteq> mc_next_expected_sequence_number c\<rparr>
      in if in_recovery_mode c1
         then bindE (if \<not> already_in_recovery then startSnapshotSync env c1 else Inr c1) (\<lambda>c2.
              Inr (queueMessage is_snapshot m c2))
         else if \<not> is_snapshot
         then Inr (c1\<lparr>mc_next_expected_sequence_number := mc_next_expected_sequence_number c1 + 1,
                     incoming_md_queue := lf_push (incoming_md_queue c1) (me_market_update m)\<rparr>)
         else Inr c1)"

text \<open>The socket the callback is called with is one of the two members.\<close>

datatype stream = Incremental | Snapshot

fun get_socket :: "stream \<Rightarrow> consumer \<Rightarrow> socket" where
  "get_socket Incremental c = incremental_mcast_socket c"
| "get_socket Snapshot c = snapshot_mcast_socket c"

fun put_mcast_socket :: "stream \<Rightarrow> socket \<Rightarrow> consumer \<Rightarrow> consumer" where
  "put_mcast_socket Incremental sock c = c\<lparr>incremental_mcast_socket := sock\<rparr>"
| "put_mcast_socket Snapshot sock c = c\<lparr>snapshot_mcast_socket := sock\<rparr>"

definition consumer_recvCallback :: "join_result \<Rightarrow> stream \<Rightarrow> consumer \<Rightarrow> consumer res" where
  "consumer_recvCallback env socket c =
     (let is_snapshot = (socket_fd (get_socket socket c) = socket_fd (snapshot_mcast_socket c)) in
      if is_snapshot \<and> \<not> in_recovery_mode c
      then Inr (put_mcast_socket socket ((get_socket socket c)\<lparr>recv_buffer := []\<rparr>) c)
      else if length (recv_buffer (get_socket socket c)) \<ge> SIZEOF_MDP
      then bindE (recv_loop SIZEOF_MDP decode_mdp (consume env is_snapshot) (recv_buffer (get_socket socket c)) c)
             (\<lambda>(rest, c1). Inr (put_mcast_socket socket ((get_socket socket c1)\<lparr>recv_buffer := rest\<rparr>) c1))
      else Inr c)"

text \<open>One pass of the loop of \<^verbatim>\<open>run\<close>; the byte lists are what \<^verbatim>\<open>recv\<close> delivers on the two sockets.\<close>

definition consumer_run_once :: "join_result \<Rightarrow> byte list \<Rightarrow> byte list \<Rightarrow> consumer \<Rightarrow> consumer res" where
  "consumer_run_once env incremental_bytes snapshot_bytes c =
     bindE (mcast_sendAndRecv (get_socket Incremental) (put_mcast_socket Incremental)
              (consumer_recvCallback env Incremental) incremental_bytes c) (\<lambda>(_, c1).
     bindE (mcast_sendAndRecv (get_socket Snapshot) (put_mcast_socket Snapshot)
              (consumer_recvCallback env Snapshot) snapshot_bytes c1) (\<lambda>(_, c2).
     Inr c2))"

subsection \<open>The ordered map\<close>

lemma map_of_map_put: "map_of (map_put k v m) = (map_of m)(k \<mapsto> v)" if "sorted_wrt (<) (map fst m)"
  using that
proof (induction k v m rule: map_put.induct)
  case (2 k v k' v' m)
  then show ?case by (auto simp: fun_eq_iff)
qed simp

lemma set_map_put: "set (map_put k v m) \<subseteq> insert (k, v) (set m)"
  by (induction k v m rule: map_put.induct) auto

lemma map_put_keys: "fst ` set (map_put k v m) = insert k (fst ` set m)"
  by (induction k v m rule: map_put.induct) (auto simp: insert_commute)

lemma map_put_sorted:
  assumes "sorted_wrt (<) (map fst m)"
  shows "sorted_wrt (<) (map fst (map_put k v m))"
  using assms
proof (induction k v m rule: map_put.induct)
  case (2 k v k' v' m)
  have "k' < j" if "j \<in> fst ` set (map_put k v m)" "k' < k" for j
    using that "2.prems" unfolding map_put_keys by auto
  then show ?case using 2 by auto
qed simp

subsection \<open>Following the stream without a gap\<close>

lemma consume_in_order:
  assumes "\<not> in_recovery_mode c" and "mdp_sequence_number m = mc_next_expected_sequence_number c"
  shows "consume env False m c =
    Inr (c\<lparr>mc_next_expected_sequence_number := mc_next_expected_sequence_number c + 1,
           incoming_md_queue := lf_push (incoming_md_queue c) (me_market_update m)\<rparr>)"
proof -
  have "c\<lparr>in_recovery_mode := False\<rparr> = c" using assms(1) by simp
  then show ?thesis using assms by (simp add: consume_def Let_def)
qed

lemma consume_stream:
  assumes "\<not> in_recovery_mode c"
  shows "fold_res (consume env False) (number_from (mc_next_expected_sequence_number c) us) c =
    Inr (c\<lparr>mc_next_expected_sequence_number := mc_next_expected_sequence_number c + of_nat (length us),
           incoming_md_queue := lf_push_all (incoming_md_queue c) us\<rparr>)"
  using assms
proof (induction us arbitrary: c)
  case (Cons u us)
  let ?c = "c\<lparr>mc_next_expected_sequence_number := mc_next_expected_sequence_number c + 1,
    incoming_md_queue := lf_push (incoming_md_queue c) u\<rparr>"
  have "fold_res (consume env False) (number_from (mc_next_expected_sequence_number ?c) us) ?c =
      Inr (?c\<lparr>mc_next_expected_sequence_number := mc_next_expected_sequence_number ?c + of_nat (length us),
             incoming_md_queue := lf_push_all (incoming_md_queue ?c) us\<rparr>)"
    by (rule Cons.IH) (use Cons.prems in simp)
  then show ?case using Cons.prems by (simp add: consume_in_order add.assoc)
qed simp

end
