(* ===== verification/ConsumerSync.thy ===== *)
theory ConsumerSync
  imports MarketDataConsumer SnapshotRefine
begin

section \<open>A client in sync knows the books\<close>

text \<open>
  The safety of the client's market data path. The network may lose, repeat and reorder packets of
  both streams as it likes; the only thing it may not do is mix two snapshots in one recovery. Then at
  any time at which the client is not recovering, the updates it has handed to its strategy describe
  exactly the state of the exchange after the last update it counts as seen.
\<close>

text \<open>What a reader of the queue makes of an update: \<open>CLEAR\<close> drops the orders of its ticker.\<close>

definition follow :: "MatchingEngineMarketUpdate \<Rightarrow> snapshot \<Rightarrow> snapshot option" where
  "follow u m = (if mu_type u = MU_CLEAR then Some (m(unat (mu_ticker_id u) := (\<lambda>_. None))) else apply_update u m)"

fun follow_all :: "MatchingEngineMarketUpdate list \<Rightarrow> snapshot \<Rightarrow> snapshot option" where
  "follow_all [] m = Some m"
| "follow_all (u # us) m = (case follow u m of None \<Rightarrow> None | Some m' \<Rightarrow> follow_all us m')"

lemma follow_all_append:
  "follow_all (us @ ws) m = (case follow_all us m of None \<Rightarrow> None | Some m' \<Rightarrow> follow_all ws m')"
  by (induction us arbitrary: m) (auto split: option.splits)

lemma follow_all_apply: "\<forall>u \<in> set us. mu_type u \<noteq> MU_CLEAR \<Longrightarrow> follow_all us m = apply_updates us m"
  by (induction us arbitrary: m) (auto simp: follow_def split: option.splits)

subsection \<open>A snapshot replaces whatever was there\<close>

abbreviation no_orders :: snapshot where
  "no_orders \<equiv> (\<lambda>_ _. None)"

definition small :: "snapshot \<Rightarrow> bool" where
  "small m \<longleftrightarrow> (\<forall>t \<ge> MATCHING_ENGINE_MAX_TICKERS. m t = (\<lambda>_. None))"

definition snapshot_body :: "synthesizer \<Rightarrow> MatchingEngineMarketUpdate list" where
  "snapshot_body s = concat (map (ticker_snapshot s) [0..<MATCHING_ENGINE_MAX_TICKERS])"

lemma ticker_of_nat: "t < MATCHING_ENGINE_MAX_TICKERS \<Longrightarrow> unat (of_nat t :: TickerID) = t"
  by (simp add: limit_defs unat_of_nat take_bit_nat_eq_self)

lemma stored_orders: "map (obj (snap_order_pool s)) (List.map_filter (ticker_orders s t) ks) = List.map_filter (snap s t) ks"
  by (induction ks) (auto simp: map_filter_simps snap_def split: option.splits)

lemma map_filter_orders:
  "restartable m \<Longrightarrow> u \<in> set (List.map_filter (m t) ks) \<Longrightarrow> mu_type u = MU_ADD"
  by (auto simp: map_filter_def restartable_def)

lemma follow_ticker:
  assumes r: "restartable (snap s)" and t: "t < MATCHING_ENGINE_MAX_TICKERS"
  shows "follow_all (ticker_snapshot s t) m = Some (m(t := snap s t))"
proof -
  let ?ks = "[0..<MATCHING_ENGINE_MAX_ORDER_IDS]" and ?m = "m(t := (\<lambda>_. None))"
  have adds: "mu_type u \<noteq> MU_CLEAR" if "u \<in> set (List.map_filter (snap s t) ?ks)" for u
    using map_filter_orders [OF r that] by simp
  have "follow_all (ticker_snapshot s t) m = follow_all (List.map_filter (snap s t) ?ks) ?m"
    using t by (simp add: ticker_snapshot_def live_orders_def clear_update_def stored_orders follow_def ticker_of_nat)
  also have "\<dots> = apply_updates (List.map_filter (snap s t) ?ks) ?m" using adds by (simp add: follow_all_apply)
  also have "\<dots> = Some (?m(t := (\<lambda>k. if k \<in> set ?ks \<and> snap s t k \<noteq> None then snap s t k else ?m t k)))"
    by (rule apply_ticker_orders [OF r]) simp_all
  also have "?m(t := (\<lambda>k. if k \<in> set ?ks \<and> snap s t k \<noteq> None then snap s t k else ?m t k)) = m(t := snap s t)"
  proof -
    have "snap s t k = None" if "\<not> k < MATCHING_ENGINE_MAX_ORDER_IDS" for k
      using that r unfolding restartable_def in_tables_def by (metis option.exhaust)
    then show ?thesis by (auto simp: fun_eq_iff)
  qed
  finally show ?thesis .
qed

lemma follow_tickers:
  assumes "restartable (snap s)" and "\<forall>t \<in> set ts. t < MATCHING_ENGINE_MAX_TICKERS"
  shows "follow_all (concat (map (ticker_snapshot s) ts)) m = Some (\<lambda>t. if t \<in> set ts then snap s t else m t)"
  using assms(2)
proof (induction ts arbitrary: m)
  case (Cons t ts)
  then have "follow_all (concat (map (ticker_snapshot s) (t # ts))) m =
      Some (\<lambda>t'. if t' \<in> set ts then snap s t' else (m(t := snap s t)) t')"
    by (simp add: follow_all_append follow_ticker [OF assms(1)])
  also have "(\<lambda>t'. if t' \<in> set ts then snap s t' else (m(t := snap s t)) t') =
      (\<lambda>t'. if t' \<in> set (t # ts) then snap s t' else m t')" by (auto simp: fun_eq_iff)
  finally show ?case .
qed simp

lemma follow_snapshot:
  assumes "restartable (snap s)" and "small m"
  shows "follow_all (snapshot_body s) m = Some (snap s)"
proof -
  have out: "snap s t = (\<lambda>_. None)" if "MATCHING_ENGINE_MAX_TICKERS \<le> t" for t
  proof
    fix k
    show "snap s t k = None" using that assms(1) unfolding restartable_def in_tables_def by (metis option.exhaust leD)
  qed
  have "(\<lambda>t. if t \<in> set [0..<MATCHING_ENGINE_MAX_TICKERS] then snap s t else m t) = snap s"
  proof
    fix t
    show "(if t \<in> set [0..<MATCHING_ENGINE_MAX_TICKERS] then snap s t else m t) = snap s t"
      using out [of t] assms(2) unfolding small_def by (cases "t < MATCHING_ENGINE_MAX_TICKERS") simp_all
  qed
  then show ?thesis
    using follow_tickers [OF assms(1), of "[0..<MATCHING_ENGINE_MAX_TICKERS]" m] by (simp add: snapshot_body_def)
qed

lemma snapshot_messages_shape:
  "\<exists>a z. snapshot_messages s = a # snapshot_body s @ [z] \<and> mu_type a = MU_SNAPSHOT_START \<and> mu_type z = MU_SNAPSHOT_END \<and>
     mu_order_id z = last_increment_sequence_number s"
  by (simp add: snapshot_messages_def snapshot_body_def Let_def)

lemma snapshot_body_plain:
  assumes "restartable (snap s)" and "u \<in> set (snapshot_body s)"
  shows "\<not> is_marker u"
  using assms(2) map_filter_orders [OF assms(1), of u]
  by (auto simp: snapshot_body_def ticker_snapshot_def live_orders_def clear_update_def stored_orders is_marker_def default_update_def)

subsection \<open>The exchange's stream\<close>

definition plain_update :: "MatchingEngineMarketUpdate \<Rightarrow> bool" where
  "plain_update u \<longleftrightarrow> mu_type u = MU_ADD \<or> mu_type u = MU_MODIFY \<or> mu_type u = MU_CANCEL"

text \<open>A stream of updates the exchange can have sent, and the state after the first \<open>n\<close> of them.\<close>

definition valid_stream :: "MatchingEngineMarketUpdate list \<Rightarrow> bool" where
  "valid_stream us \<longleftrightarrow>
     (\<forall>u \<in> set us. plain_update u \<and> in_tables u) \<and> length us + 1 < 2 ^ 64 \<and> apply_updates us no_orders \<noteq> None"

abbreviation state_after :: "MatchingEngineMarketUpdate list \<Rightarrow> nat \<Rightarrow> snapshot option" where
  "state_after us n \<equiv> apply_updates (take n us) no_orders"

text \<open>The messages of a snapshot the exchange can have published after \<open>n\<close> updates.\<close>

definition published :: "MatchingEngineMarketUpdate list \<Rightarrow> nat \<Rightarrow> MatchingEngineMarketUpdate list \<Rightarrow> bool" where
  "published us n msgs \<longleftrightarrow> n \<le> length us \<and>
     (\<exists>s. msgs = snapshot_messages s \<and> last_increment_sequence_number s = of_nat n \<and> restartable (snap s) \<and>
          state_after us n = Some (snap s))"

lemma apply_update_small:
  assumes "apply_update u m = Some m'" and "small m" and "in_tables u"
  shows "small m'"
  using assms by (auto simp: apply_update.simps Let_def small_def in_tables_def split: MarketUpdateType.splits option.splits if_splits)

lemma apply_updates_small:
  "apply_updates us m = Some m' \<Longrightarrow> small m \<Longrightarrow> \<forall>u \<in> set us. in_tables u \<Longrightarrow> small m'"
proof (induction us arbitrary: m)
  case (Cons u us)
  then obtain m1 where m1: "apply_update u m = Some m1" "apply_updates us m1 = Some m'" by (auto split: option.splits)
  then have "small m1" using apply_update_small Cons.prems by auto
  then show ?case using Cons.IH [OF m1(2)] Cons.prems(3) by simp
qed simp

lemma state_after_some:
  assumes "valid_stream us"
  shows "\<exists>m. state_after us n = Some m \<and> small m"
proof -
  have "apply_updates (take n us @ drop n us) no_orders \<noteq> None" using assms by (simp add: valid_stream_def)
  then obtain m where "state_after us n = Some m" unfolding apply_updates_append by (auto split: option.splits)
  moreover have "\<forall>u \<in> set (take n us). in_tables u" using assms by (auto simp: valid_stream_def dest: in_set_takeD)
  ultimately show ?thesis using apply_updates_small by (fastforce simp: small_def)
qed

lemma follow_segment:
  assumes "valid_stream us" and "n \<le> n'" and "n' \<le> length us" and "state_after us n = Some m"
  shows "follow_all (take (n' - n) (drop n us)) m = state_after us n'"
proof -
  have "\<forall>u \<in> set (take (n' - n) (drop n us)). mu_type u \<noteq> MU_CLEAR"
    using assms(1) by (auto simp: valid_stream_def plain_update_def dest!: in_set_takeD in_set_dropD)
  moreover have "take n' us = take n us @ take (n' - n) (drop n us)"
    using assms(2) by (simp add: take_add [symmetric])
  ultimately show ?thesis using assms(4) by (simp add: follow_all_apply apply_updates_append)
qed

subsection \<open>What the two scans accept\<close>

text \<open>A queued snapshot message stands at its place in the snapshot.\<close>

definition from_snapshot :: "MatchingEngineMarketUpdate list \<Rightarrow> QueuedMarketUpdates \<Rightarrow> bool" where
  "from_snapshot msgs q \<longleftrightarrow> (\<forall>(k, u) \<in> set q. unat k < length msgs \<and> u = msgs ! unat k)"

definition from_stream :: "MatchingEngineMarketUpdate list \<Rightarrow> QueuedMarketUpdates \<Rightarrow> bool" where
  "from_stream us q \<longleftrightarrow> (\<forall>(k, u) \<in> set q. 1 \<le> unat k \<and> unat k \<le> length us \<and> u = us ! (unat k - 1))"

lemma scan_snapshot_complete:
  assumes "from_snapshot msgs q" and "scan_snapshot (of_nat n) q ev = (True, ev')" and "n + length q < 2 ^ 64"
  shows "map snd q = take (length q) (drop n msgs) \<and> ev' = ev @ filter (\<lambda>u. \<not> is_marker u) (map snd q) \<and>
    (q \<noteq> [] \<longrightarrow> n + length q \<le> length msgs)"
  using assms
proof (induction q arbitrary: n ev)
  case (Cons e q)
  obtain k u where e: "e = (k, u)" by (cases e)
  have k: "k = of_nat n" using Cons.prems(2) by (auto simp: e split: if_splits)
  then have n: "unat k = n" using Cons.prems(3) by (simp add: unat_of_nat take_bit_nat_eq_self)
  have u: "n < length msgs" "u = msgs ! n" using Cons.prems(1) n by (auto simp: e from_snapshot_def)
  have scan: "scan_snapshot (of_nat (Suc n)) q (if is_marker u then ev else ev @ [u]) = (True, ev')"
    using Cons.prems(2) k by (simp add: e add.commute)
  have q: "from_snapshot msgs q" "Suc n + length q < 2 ^ 64" using Cons.prems(1,3) by (simp_all add: from_snapshot_def)
  have IH: "map snd q = take (length q) (drop (Suc n) msgs)"
      "ev' = (if is_marker u then ev else ev @ [u]) @ filter (\<lambda>u. \<not> is_marker u) (map snd q)"
      "q \<noteq> [] \<longrightarrow> Suc n + length q \<le> length msgs"
    using Cons.IH [OF q(1) scan q(2)] by blast+
  have "drop n msgs = u # drop (Suc n) msgs" using u by (simp add: Cons_nth_drop_Suc)
  then show ?case using IH u(1) by (cases q) (auto simp: e)
qed simp

lemma scan_incrementals_complete:
  assumes "from_stream us q" and "\<forall>u \<in> set us. plain_update u" and "length us + 1 < 2 ^ 64" and "n \<le> length us"
    and "scan_incrementals (of_nat n + 1) q ev = (True, e, ev')"
  shows "\<exists>n'. n \<le> n' \<and> n' \<le> length us \<and> e = of_nat n' + 1 \<and> ev' = ev @ take (n' - n) (drop n us)"
  using assms(1,4,5)
proof (induction q arbitrary: n ev)
  case Nil
  then show ?case by (intro exI [of _ n]) simp
next
  case (Cons x q)
  obtain k u where x: "x = (k, u)" by (cases x)
  have q: "from_stream us q" using Cons.prems(1) by (simp add: from_stream_def)
  show ?case
  proof (cases "k < of_nat n + 1")
    case True
    then show ?thesis using Cons.IH [OF q Cons.prems(2)] Cons.prems(3) by (simp add: x)
  next
    case False
    then have k: "k = of_nat n + 1" using Cons.prems(3) by (auto simp: x split: if_splits)
    have "unat k = n + 1"
    proof -
      have "k = of_nat (n + 1)" using k by simp
      then show ?thesis using Cons.prems(2) assms(3) by (simp only: unat_of_nat) (simp add: take_bit_nat_eq_self)
    qed
    then have n: "n < length us" "u = us ! n" using Cons.prems(1) by (auto simp: x from_stream_def)
    then have "\<not> is_marker u" using assms(2) by (auto simp: plain_update_def is_marker_def dest!: nth_mem)
    then have scan: "scan_incrementals (of_nat (Suc n) + 1) q (ev @ [u]) = (True, e, ev')"
      using Cons.prems(3) k by (simp add: x add.commute)
    have "Suc n \<le> length us" using n(1) by simp
    from Cons.IH [OF q this scan] obtain n' where n': "Suc n \<le> n'" "n' \<le> length us" "e = of_nat n' + 1"
        "ev' = (ev @ [u]) @ take (n' - Suc n) (drop (Suc n) us)"
      by blast
    have "drop n us = u # drop (Suc n) us" using n by (simp add: Cons_nth_drop_Suc)
    moreover have "n' - n = Suc (n' - Suc n)" using n'(1) by simp
    ultimately show ?thesis using n' by (intro exI [of _ n']) simp
  qed
qed


lemma scan_lengths:
  "scan_snapshot n q ev = (b, ev') \<Longrightarrow> length ev' \<le> length ev + length q"
  "scan_incrementals n q ev = (b, e, ev') \<Longrightarrow> length ev' \<le> length ev + length q"
proof -
  show "scan_snapshot n q ev = (b, ev') \<Longrightarrow> length ev' \<le> length ev + length q"
    by (induction n q ev rule: scan_snapshot.induct) (fastforce split: if_splits)+
  show "scan_incrementals n q ev = (b, e, ev') \<Longrightarrow> length ev' \<le> length ev + length q"
    by (induction n q ev rule: scan_incrementals.induct) (fastforce split: if_splits)+
qed

text \<open>A queue that has been accepted is a whole snapshot.\<close>

lemma accepted_snapshot:
  assumes q: "from_snapshot (snapshot_messages s) q" and r: "restartable (snap s)" and len: "length q < 2 ^ 64"
    and scan: "scan_snapshot 0 q [] = (True, ev)" and "q \<noteq> []" and last: "mu_type (snd (last q)) = MU_SNAPSHOT_END"
  shows "ev = snapshot_body s" "mu_order_id (snd (last q)) = last_increment_sequence_number s"
proof -
  obtain a z where shape: "snapshot_messages s = a # snapshot_body s @ [z]" "mu_type a = MU_SNAPSHOT_START"
      "mu_type z = MU_SNAPSHOT_END" "mu_order_id z = last_increment_sequence_number s"
    using snapshot_messages_shape by blast
  have plain: "\<not> is_marker u" if "u \<in> set (snapshot_body s)" for u using snapshot_body_plain [OF r that] .
  have c: "map snd q = take (length q) (snapshot_messages s)" "ev = filter (\<lambda>u. \<not> is_marker u) (map snd q)"
      "length q \<le> length (snapshot_messages s)"
    using scan_snapshot_complete [OF q, of 0 "[]" ev] scan len \<open>q \<noteq> []\<close> by auto
  have snd_last: "snd (last q) = last (take (length q) (snapshot_messages s))"
    using c(1) \<open>q \<noteq> []\<close> by (metis last_map)
  have full: "length q = length (snapshot_messages s)"
  proof (rule ccontr)
    assume "length q \<noteq> length (snapshot_messages s)"
    then have l: "length q - 1 \<le> length (snapshot_body s)" using c(3) shape(1) by simp
    have "take (length q) (snapshot_messages s) = a # take (length q - 1) (snapshot_body s)"
      using l shape(1) \<open>q \<noteq> []\<close> by (cases "length q") simp_all
    moreover have "is_marker (snd (last q))" "mu_type (snd (last q)) \<noteq> MU_SNAPSHOT_START"
      using last by (simp_all add: is_marker_def)
    moreover have "last (take (length q - 1) (snapshot_body s)) \<in> set (snapshot_body s)"
      if "take (length q - 1) (snapshot_body s) \<noteq> []" using that by (meson last_in_set in_set_takeD)
    ultimately show False
      using snd_last shape(2) plain by (cases "take (length q - 1) (snapshot_body s) = []") simp_all
  qed
  then have whole: "map snd q = a # snapshot_body s @ [z]" using c(1) shape(1) by simp
  have "filter (\<lambda>u. \<not> is_marker u) (snapshot_body s) = snapshot_body s" using plain by (simp add: filter_id_conv)
  then show "ev = snapshot_body s" using c(2) shape(2,3) unfolding whole by (simp add: is_marker_def)
  show "mu_order_id (snd (last q)) = last_increment_sequence_number s"
    using snd_last full shape(1,4) by simp
qed

subsection \<open>The invariant\<close>

definition sync_inv :: "MatchingEngineMarketUpdate list \<Rightarrow> MatchingEngineMarketUpdate list \<Rightarrow> consumer \<Rightarrow> bool" where
  "sync_inv us log c \<longleftrightarrow>
     lf_inv (incoming_md_queue c) \<and> lf_capacity (incoming_md_queue c) < 2 ^ 64 \<and>
     from_stream us (incremental_queued_msgs c) \<and>
     (snapshot_queued_msgs c = [] \<or> (\<exists>n msgs. published us n msgs \<and> from_snapshot msgs (snapshot_queued_msgs c))) \<and>
     (\<exists>n \<le> length us. follow_all (log @ lf_contents (incoming_md_queue c)) no_orders = state_after us n \<and>
        (\<not> in_recovery_mode c \<longrightarrow> mc_next_expected_sequence_number c = of_nat n + 1))"

definition queue_room :: "consumer \<Rightarrow> bool" where
  "queue_room c \<longleftrightarrow> lf_count (incoming_md_queue c) + length (snapshot_queued_msgs c) + length (incremental_queued_msgs c) + 1
     < lf_capacity (incoming_md_queue c)"

text \<open>Completing a recovery.\<close>

lemma recovered:
  assumes us: "valid_stream us" and pub: "published us n msgs" and q: "from_snapshot msgs Q" "length Q < 2 ^ 64" "Q \<noteq> []"
    and i: "from_stream us I" and scan: "scan_snapshot 0 Q [] = (True, ev)" "mu_type (snd (last Q)) = MU_SNAPSHOT_END"
      "scan_incrementals (mu_order_id (snd (last Q)) + 1) I ev = (True, e, final)"
    and old: "n0 \<le> length us" "follow_all past no_orders = state_after us n0"
  shows "\<exists>n' \<le> length us. follow_all (past @ final) no_orders = state_after us n' \<and> e = of_nat n' + 1"
proof -
  obtain s where s: "msgs = snapshot_messages s" "last_increment_sequence_number s = of_nat n" "restartable (snap s)"
      "state_after us n = Some (snap s)" "n \<le> length us"
    using pub by (auto simp: published_def)
  have acc: "ev = snapshot_body s" "mu_order_id (snd (last Q)) = of_nat n"
    using accepted_snapshot [OF q(1) [unfolded s(1)] s(3) q(2) scan(1) q(3) scan(2)] s(2) by simp_all
  have plain: "\<forall>u \<in> set us. plain_update u" "length us + 1 < 2 ^ 64" using us by (simp_all add: valid_stream_def)
  obtain n' where n': "n \<le> n'" "n' \<le> length us" "e = of_nat n' + 1" "final = snapshot_body s @ take (n' - n) (drop n us)"
    using scan_incrementals_complete [OF i plain s(5)] scan(3) unfolding acc by blast
  obtain m0 where m0: "state_after us n0 = Some m0" "small m0" using state_after_some [OF us] by blast
  have "follow_all (past @ final) no_orders = follow_all (take (n' - n) (drop n us)) (snap s)"
    using old(2) m0 follow_snapshot [OF s(3) m0(2)] by (simp add: n'(4) follow_all_append)
  also have "\<dots> = state_after us n'" by (rule follow_segment [OF us n'(1,2) s(4)])
  finally show ?thesis using n'(2,3) by blast
qed

lemma sync_check:
  assumes us: "valid_stream us" and inv: "sync_inv us log c" and rec: "in_recovery_mode c"
    and room: "lf_count (incoming_md_queue c) + length (snapshot_queued_msgs c) + length (incremental_queued_msgs c)
      < lf_capacity (incoming_md_queue c)"
  shows "sync_inv us log (checkSnapshotSync c)"
proof -
  let ?q = "incoming_md_queue c" and ?Q = "snapshot_queued_msgs c" and ?I = "incremental_queued_msgs c"
  obtain ok ev where scan: "scan_snapshot 0 ?Q [] = (ok, ev)" by (metis surj_pair)
  obtain ok' e final where scan': "scan_incrementals (mu_order_id (snd (last ?Q)) + 1) ?I ev = (ok', e, final)"
    by (metis prod_cases3)
  obtain n0 where n0: "n0 \<le> length us" "follow_all (log @ lf_contents ?q) no_orders = state_after us n0"
    using inv by (auto simp: sync_inv_def)
  have eq: "checkSnapshotSync c =
      (if ?Q = [] then c
       else if mu_type (snd (hd ?Q)) \<noteq> MU_SNAPSHOT_START \<or> \<not> ok then c\<lparr>snapshot_queued_msgs := []\<rparr>
       else if mu_type (snd (last ?Q)) \<noteq> MU_SNAPSHOT_END then c
       else if \<not> ok' then c\<lparr>mc_next_expected_sequence_number := e, snapshot_queued_msgs := []\<rparr>
       else c\<lparr>mc_next_expected_sequence_number := e, incoming_md_queue := lf_push_all ?q final,
         snapshot_queued_msgs := [], incremental_queued_msgs := [], in_recovery_mode := False,
         snapshot_mcast_socket := (snapshot_mcast_socket c)\<lparr>socket_fd := - 1\<rparr>\<rparr>)"
    using scan scan' by (simp add: checkSnapshotSync_def Let_def)
  consider "checkSnapshotSync c = c" | "checkSnapshotSync c = c\<lparr>snapshot_queued_msgs := []\<rparr>"
    | "checkSnapshotSync c = c\<lparr>mc_next_expected_sequence_number := e, snapshot_queued_msgs := []\<rparr>"
    | (completed) "?Q \<noteq> []" "ok" "ok'" "mu_type (snd (last ?Q)) = MU_SNAPSHOT_END"
      "checkSnapshotSync c = c\<lparr>mc_next_expected_sequence_number := e, incoming_md_queue := lf_push_all ?q final,
         snapshot_queued_msgs := [], incremental_queued_msgs := [], in_recovery_mode := False,
         snapshot_mcast_socket := (snapshot_mcast_socket c)\<lparr>socket_fd := - 1\<rparr>\<rparr>"
    using eq by metis
  then show ?thesis
  proof cases
    case completed
    obtain n msgs where pub: "published us n msgs" "from_snapshot msgs ?Q" using inv completed(1) by (auto simp: sync_inv_def)
    have small: "length ?Q < 2 ^ 64" using room inv by (simp add: sync_inv_def)
    have i: "from_stream us ?I" and q: "lf_inv ?q" using inv by (simp_all add: sync_inv_def)
    have "length final \<le> length ?Q + length ?I"
      using scan_lengths(1) [OF scan] scan_lengths(2) [OF scan'] by simp
    then have push: "lf_inv (lf_push_all ?q final)" "lf_contents (lf_push_all ?q final) = lf_contents ?q @ final"
      using lf_push_all_contents [OF q, of final] room by simp_all
    have "scan_snapshot 0 ?Q [] = (True, ev)" "scan_incrementals (mu_order_id (snd (last ?Q)) + 1) ?I ev = (True, e, final)"
      using scan scan' completed(2,3) by simp_all
    then obtain n' where "n' \<le> length us" "follow_all ((log @ lf_contents ?q) @ final) no_orders = state_after us n'"
        "e = of_nat n' + 1"
      using recovered [OF us pub(1,2) small completed(1) i _ completed(4) _ n0] by blast
    then show ?thesis using push inv completed(5) by (auto simp: sync_inv_def from_stream_def)
  qed (use inv rec in \<open>simp_all add: sync_inv_def\<close>)
qed


subsection \<open>Every message keeps it\<close>

lemma length_map_put: "length (map_put k v m) \<le> length m + 1"
  by (induction k v m rule: map_put.induct) auto

lemma recovering_consume:
  assumes "consume env b m c = Inr c'" and "in_recovery_mode c \<or> mdp_sequence_number m \<noteq> mc_next_expected_sequence_number c"
  shows "\<exists>c2. c' = queueMessage b m c2 \<and> in_recovery_mode c2 \<and> incoming_md_queue c2 = incoming_md_queue c \<and>
    (snapshot_queued_msgs c2 = [] \<and> incremental_queued_msgs c2 = [] \<or>
     snapshot_queued_msgs c2 = snapshot_queued_msgs c \<and> incremental_queued_msgs c2 = incremental_queued_msgs c)"
  using assms by (auto simp: consume_def Let_def startSnapshotSync_def res_simps split: if_splits)

lemma sync_inv_recovering:
  assumes "sync_inv us log c" and "in_recovery_mode c2" and "incoming_md_queue c2 = incoming_md_queue c"
    and "from_stream us (incremental_queued_msgs c2)"
    and "snapshot_queued_msgs c2 = [] \<or> (\<exists>n msgs. published us n msgs \<and> from_snapshot msgs (snapshot_queued_msgs c2))"
  shows "sync_inv us log c2"
  using assms by (auto simp: sync_inv_def)

lemma length_map_filter: "length (List.map_filter f ks) \<le> length ks"
  by (simp add: map_filter_def)

lemma published_length: "published us n msgs \<Longrightarrow> length msgs < 2 ^ 64"
proof -
  have "length (ticker_snapshot s t) \<le> Suc (length [0..<MATCHING_ENGINE_MAX_ORDER_IDS])" for s t
    unfolding ticker_snapshot_def live_orders_def using length_map_filter [of _ "[0..<MATCHING_ENGINE_MAX_ORDER_IDS]"] by simp
  then have "length (snapshot_messages s) \<le> 2 + 8 * Suc MATCHING_ENGINE_MAX_ORDER_IDS" for s
    using sum_list_mono [of "[0..<8]" "\<lambda>t. length (ticker_snapshot s t)" "\<lambda>_. Suc MATCHING_ENGINE_MAX_ORDER_IDS"]
    by (simp add: snapshot_messages_def Let_def length_concat comp_def sum_list_triv MATCHING_ENGINE_MAX_TICKERS_def)
  then have "length (snapshot_messages s) < 2 ^ 64" for s
    by (rule le_less_trans) (simp add: MATCHING_ENGINE_MAX_ORDER_IDS_def)
  then show "published us n msgs \<Longrightarrow> length msgs < 2 ^ 64" by (auto simp: published_def)
qed

lemma sync_increment:
  assumes us: "valid_stream us" and inv: "sync_inv us log c" and room: "queue_room c" and k: "1 \<le> k" "k \<le> length us"
    and run: "consume env False \<lparr>mdp_sequence_number = of_nat k, me_market_update = us ! (k - 1)\<rparr> c = Inr c'"
  shows "sync_inv us log c'"
proof -
  have len: "length us + 1 < 2 ^ 64" using us by (simp add: valid_stream_def)
  have ku: "unat (of_nat k :: 64 word) = k" using k len by (simp add: unat_of_nat take_bit_nat_eq_self)
  show ?thesis
  proof (cases "in_recovery_mode c \<or> (of_nat k :: 64 word) \<noteq> mc_next_expected_sequence_number c")
    case True
    then obtain c2 where c2: "c' = queueMessage False \<lparr>mdp_sequence_number = of_nat k, me_market_update = us ! (k - 1)\<rparr> c2"
        "in_recovery_mode c2" "incoming_md_queue c2 = incoming_md_queue c"
        "snapshot_queued_msgs c2 = [] \<and> incremental_queued_msgs c2 = [] \<or>
         snapshot_queued_msgs c2 = snapshot_queued_msgs c \<and> incremental_queued_msgs c2 = incremental_queued_msgs c"
      using recovering_consume [OF run] by auto
    let ?c3 = "c2\<lparr>incremental_queued_msgs := map_put (of_nat k) (us ! (k - 1)) (incremental_queued_msgs c2)\<rparr>"
    have "from_stream us (incremental_queued_msgs ?c3)"
      using inv c2(4) k ku set_map_put [of "of_nat k" "us ! (k - 1)" "incremental_queued_msgs c2"]
      by (fastforce simp: sync_inv_def from_stream_def)
    then have "sync_inv us log ?c3" using inv c2(2-4) by (intro sync_inv_recovering [OF inv]) (auto simp: sync_inv_def)
    moreover have "lf_count (incoming_md_queue ?c3) + length (snapshot_queued_msgs ?c3) + length (incremental_queued_msgs ?c3)
        < lf_capacity (incoming_md_queue ?c3)"
      using room c2(3,4) length_map_put [of "of_nat k" "us ! (k - 1)" "incremental_queued_msgs c2"]
      by (auto simp: queue_room_def)
    ultimately show ?thesis using sync_check [OF us, of log ?c3] c2(1,2) by (simp add: queueMessage_def)
  next
    case False
    let ?q = "incoming_md_queue c"
    obtain n where n: "n \<le> length us" "follow_all (log @ lf_contents ?q) no_orders = state_after us n"
        "mc_next_expected_sequence_number c = of_nat n + 1"
      using inv False by (auto simp: sync_inv_def)
    have "unat (of_nat (n + 1) :: 64 word) = n + 1" using n(1) len by (simp only: unat_of_nat) (simp add: take_bit_nat_eq_self)
    moreover have "(of_nat k :: 64 word) = of_nat (n + 1)" using False n(3) by simp
    ultimately have kn: "k = n + 1" using ku by metis
    have c': "c' = c\<lparr>mc_next_expected_sequence_number := of_nat n + 1 + 1, incoming_md_queue := lf_push ?q (us ! n)\<rparr>"
      using consume_in_order [of c "\<lparr>mdp_sequence_number = of_nat k, me_market_update = us ! (k - 1)\<rparr>" env] run False n(3) kn by simp
    have "lf_inv (lf_push_all ?q [us ! n]) \<and> lf_contents (lf_push_all ?q [us ! n]) = lf_contents ?q @ [us ! n]"
      using inv room by (intro lf_push_all_contents) (simp_all add: sync_inv_def queue_room_def)
    then have q: "lf_inv (lf_push ?q (us ! n))" "lf_contents (lf_push ?q (us ! n)) = lf_contents ?q @ [us ! n]" by simp_all
    obtain m where m: "state_after us n = Some m" using state_after_some [OF us] by blast
    have "take (Suc n - n) (drop n us) = [us ! n]" using k kn by (simp add: take_Suc_conv_app_nth)
    then have "follow_all [us ! n] m = state_after us (Suc n)"
      using follow_segment [OF us _ _ m, of "Suc n"] k kn by simp
    then have "follow_all ((log @ lf_contents ?q) @ [us ! n]) no_orders = state_after us (Suc n)"
      using m n(2) follow_all_append [of "log @ lf_contents ?q" "[us ! n]" no_orders] by simp
    then show ?thesis using inv q kn k by (auto simp: sync_inv_def c' intro!: exI [of _ "Suc n"])
  qed
qed

lemma sync_snapshot:
  assumes us: "valid_stream us" and inv: "sync_inv us log c" and room: "queue_room c" and pub: "published us n msgs"
    and j: "j < length msgs" and fs: "from_snapshot msgs (snapshot_queued_msgs c)"
    and run: "consume env True \<lparr>mdp_sequence_number = of_nat j, me_market_update = msgs ! j\<rparr> c = Inr c'"
  shows "sync_inv us log c'"
proof (cases "in_recovery_mode c \<or> (of_nat j :: 64 word) \<noteq> mc_next_expected_sequence_number c")
  case True
  let ?m = "\<lparr>mdp_sequence_number = of_nat j, me_market_update = msgs ! j\<rparr>"
  have ju: "unat (of_nat j :: 64 word) = j" using j published_length [OF pub] by (simp add: unat_of_nat take_bit_nat_eq_self)
  obtain c2 where c2: "c' = queueMessage True ?m c2" "in_recovery_mode c2" "incoming_md_queue c2 = incoming_md_queue c"
      "snapshot_queued_msgs c2 = [] \<and> incremental_queued_msgs c2 = [] \<or>
       snapshot_queued_msgs c2 = snapshot_queued_msgs c \<and> incremental_queued_msgs c2 = incremental_queued_msgs c"
    using recovering_consume [OF run] True by auto
  define c3 where "c3 = (if map_of (snapshot_queued_msgs c2) (of_nat j) \<noteq> None then c2\<lparr>snapshot_queued_msgs := []\<rparr> else c2)"
  define c4 where "c4 = c3\<lparr>snapshot_queued_msgs := map_put (of_nat j) (msgs ! j) (snapshot_queued_msgs c3)\<rparr>"
  have c3: "in_recovery_mode c3" "incoming_md_queue c3 = incoming_md_queue c"
      "from_snapshot msgs (snapshot_queued_msgs c3)" "length (snapshot_queued_msgs c3) \<le> length (snapshot_queued_msgs c)"
      "from_stream us (incremental_queued_msgs c3)" "length (incremental_queued_msgs c3) \<le> length (incremental_queued_msgs c)"
    using c2 fs inv by (auto simp: c3_def from_snapshot_def from_stream_def sync_inv_def)
  have "from_snapshot msgs (snapshot_queued_msgs c4)"
    using c3(3) j ju set_map_put [of "of_nat j" "msgs ! j" "snapshot_queued_msgs c3"]
    by (fastforce simp: c4_def from_snapshot_def)
  then have "sync_inv us log c4" using pub c3 by (intro sync_inv_recovering [OF inv]) (auto simp: c4_def)
  moreover have "lf_count (incoming_md_queue c4) + length (snapshot_queued_msgs c4) + length (incremental_queued_msgs c4)
      < lf_capacity (incoming_md_queue c4)"
    using room c3 length_map_put [of "of_nat j" "msgs ! j" "snapshot_queued_msgs c3"] by (simp add: c4_def queue_room_def)
  moreover have "c' = checkSnapshotSync c4" by (simp add: c2(1) queueMessage_def c3_def c4_def Let_def)
  ultimately show ?thesis using sync_check [OF us, of log c4] c3(1) by (simp add: c4_def)
next
  case False
  then have "c' = c" using run by (auto simp: consume_def Let_def)
  then show ?thesis using inv by simp
qed

subsection \<open>The client and the network\<close>

text \<open>
  One thing that can happen to a client: an increment of the stream arrives, any of them at any time;
  a message of a published snapshot arrives, of the same snapshot as those already queued; the strategy
  reads an update. Room in the queue is what the code takes for granted. The second component of a
  state is what the strategy has read so far.
\<close>

inductive client_step :: "MatchingEngineMarketUpdate list \<Rightarrow>
    consumer \<times> MatchingEngineMarketUpdate list \<Rightarrow> consumer \<times> MatchingEngineMarketUpdate list \<Rightarrow> bool" for us where
  Increment: "1 \<le> k \<Longrightarrow> k \<le> length us \<Longrightarrow> queue_room c \<Longrightarrow>
    consume env False \<lparr>mdp_sequence_number = of_nat k, me_market_update = us ! (k - 1)\<rparr> c = Inr c' \<Longrightarrow>
    client_step us (c, log) (c', log)"
| Snapshot_Message: "published us n msgs \<Longrightarrow> j < length msgs \<Longrightarrow> from_snapshot msgs (snapshot_queued_msgs c) \<Longrightarrow> queue_room c \<Longrightarrow>
    consume env True \<lparr>mdp_sequence_number = of_nat j, me_market_update = msgs ! j\<rparr> c = Inr c' \<Longrightarrow>
    client_step us (c, log) (c', log)"
| Read: "getNextToRead (incoming_md_queue c) = Some u \<Longrightarrow> updateReadIndex (incoming_md_queue c) = Inr q \<Longrightarrow>
    client_step us (c, log) (c\<lparr>incoming_md_queue := q\<rparr>, log @ [u])"

inductive_cases client_stepE: "client_step us s s'"

lemma sync_read:
  assumes inv: "sync_inv us log c" and rd: "getNextToRead (incoming_md_queue c) = Some u" "updateReadIndex (incoming_md_queue c) = Inr q"
  shows "sync_inv us (log @ [u]) (c\<lparr>incoming_md_queue := q\<rparr>)"
proof -
  let ?q = "incoming_md_queue c"
  have i: "lf_inv ?q" using inv by (simp add: sync_inv_def)
  have ne: "lf_contents ?q \<noteq> []" and hd: "u = hd (lf_contents ?q)"
    using rd(1) getNextToRead_hd [OF i] by (auto split: if_splits list.splits)
  note pop = updateReadIndex_tl [OF i ne]
  have q: "q = lf_popped ?q" using rd(2) pop(1) by simp
  have "log @ lf_contents ?q = (log @ [u]) @ lf_contents q" using pop ne hd q by simp
  moreover have "lf_inv q" "lf_capacity q = lf_capacity ?q" using pop q by (simp_all add: lf_popped_def)
  ultimately show ?thesis using inv by (auto simp: sync_inv_def)
qed

lemma client_step_sync:
  assumes "client_step us (c, log) (c', log')" and "valid_stream us" and "sync_inv us log c"
  shows "sync_inv us log' c'"
  using assms(1)
proof (cases rule: client_step.cases)
  case (Increment k env)
  then show ?thesis using sync_increment [OF assms(2,3)] by blast
next
  case (Snapshot_Message n msgs j env)
  then show ?thesis using sync_snapshot [OF assms(2,3)] by blast
next
  case (Read u q)
  then show ?thesis using sync_read [OF assms(3)] by blast
qed

lemma reachable_sync:
  assumes "(client_step us)\<^sup>*\<^sup>* s s'" and "valid_stream us" and "sync_inv us (snd s) (fst s)"
  shows "sync_inv us (snd s') (fst s')"
  using assms(1,3)
proof (induction rule: rtranclp_induct)
  case (step y z)
  then show ?case using client_step_sync [of us "fst y" "snd y" "fst z" "snd z"] assms(2) by simp
qed

lemma initial_sync:
  assumes "MarketDataConsumer q env = Inr c" and "lf_inv q" and "lf_contents q = []" and "lf_capacity q < 2 ^ 64"
  shows "sync_inv us [] c"
  using assms by (auto simp: MarketDataConsumer_def res_simps sync_inv_def from_stream_def intro!: exI [of _ 0])


subsection \<open>A snapshot without losses ends a recovery\<close>

definition queued_prefix :: "MatchingEngineMarketUpdate list \<Rightarrow> nat \<Rightarrow> QueuedMarketUpdates" where
  "queued_prefix msgs j = map (\<lambda>i. (of_nat i, msgs ! i)) [0..<j]"

lemma map_put_last: "\<forall>k' \<in> fst ` set m. k' < k \<Longrightarrow> map_put k v m = m @ [(k, v)]"
  by (induction k v m rule: map_put.induct) (auto simp: not_less_iff_gr_or_eq)

lemma queued_prefix_keys:
  assumes "j < 2 ^ 64" and "k \<in> fst ` set (queued_prefix msgs j)"
  shows "k < of_nat j"
proof -
  obtain i where i: "i < j" "k = of_nat i" using assms(2) by (auto simp: queued_prefix_def)
  then have "unat k < unat (of_nat j :: 64 word)" using assms(1) by (simp add: unat_of_nat take_bit_nat_eq_self)
  then show ?thesis by (simp add: word_less_nat_alt)
qed

lemma scan_prefix:
  "scan_snapshot (of_nat n) (map (\<lambda>i. (of_nat i, f i)) [n..<n + d]) ev =
   (True, ev @ filter (\<lambda>u. \<not> is_marker u) (map f [n..<n + d]))"
proof (induction d arbitrary: n ev)
  case (Suc d)
  have "[n..<n + Suc d] = n # [Suc n..<Suc n + d]" by (simp add: upt_conv_Cons)
  then show ?case using Suc [of "Suc n"] by (simp add: add.commute)
qed simp

lemma scan_queued_prefix:
  assumes "j \<le> length msgs"
  shows "scan_snapshot 0 (queued_prefix msgs j) [] = (True, filter (\<lambda>u. \<not> is_marker u) (take j msgs))"
proof -
  have "map ((!) msgs) [0..<j] = take j msgs" by (rule map_upt_eqI) (use assms in simp_all)
  then show ?thesis using scan_prefix [of 0 "(!) msgs" j "[]"] by (simp add: queued_prefix_def)
qed

lemma queued_prefix_simps [simp]:
  "queued_prefix msgs 0 = []" "queued_prefix msgs (Suc j) = queued_prefix msgs j @ [(of_nat j, msgs ! j)]"
  by (simp_all add: queued_prefix_def)

lemma hd_queued_prefix: "snd (hd (queued_prefix msgs (Suc j))) = msgs ! 0"
  by (simp add: queued_prefix_def upt_conv_Cons del: upt_Suc)

lemma map_put_prefix: "j < 2 ^ 64 \<Longrightarrow> map_put (of_nat j) (msgs ! j) (queued_prefix msgs j) = queued_prefix msgs (Suc j)"
  using queued_prefix_keys [of j] by (simp add: map_put_last)

lemma prefix_unseen: "j < 2 ^ 64 \<Longrightarrow> map_of (queued_prefix msgs j) (of_nat j) = None"
  using queued_prefix_keys [of j "of_nat j" msgs] by (auto simp: map_of_eq_None_iff)

definition recovered_client :: "synthesizer \<Rightarrow> consumer \<Rightarrow> consumer" where
  "recovered_client s c =
     c\<lparr>mc_next_expected_sequence_number := last_increment_sequence_number s + 1,
       incoming_md_queue := lf_push_all (incoming_md_queue c) (snapshot_body s),
       snapshot_queued_msgs := [], incremental_queued_msgs := [], in_recovery_mode := False,
       snapshot_mcast_socket := (snapshot_mcast_socket c)\<lparr>socket_fd := - 1\<rparr>\<rparr>"

lemma consume_snapshot_message:
  assumes r: "restartable (snap s)" and j: "j < length (snapshot_messages s)" "j < 2 ^ 64"
    and c: "in_recovery_mode c" "incremental_queued_msgs c = []"
  shows "consume env True \<lparr>mdp_sequence_number = of_nat j, me_market_update = snapshot_messages s ! j\<rparr>
      (c\<lparr>snapshot_queued_msgs := queued_prefix (snapshot_messages s) j\<rparr>) =
    Inr (if Suc j = length (snapshot_messages s) then recovered_client s c
         else c\<lparr>snapshot_queued_msgs := queued_prefix (snapshot_messages s) (Suc j)\<rparr>)"
proof -
  let ?msgs = "snapshot_messages s"
  let ?Q = "queued_prefix ?msgs (Suc j)"
  obtain a z where shape: "?msgs = a # snapshot_body s @ [z]" "mu_type a = MU_SNAPSHOT_START"
      "mu_type z = MU_SNAPSHOT_END" "mu_order_id z = last_increment_sequence_number s"
    using snapshot_messages_shape by blast
  have plain: "\<not> is_marker u" if "u \<in> set (snapshot_body s)" for u using snapshot_body_plain [OF r that] .
  have same: "c\<lparr>in_recovery_mode := True, snapshot_queued_msgs := Q\<rparr> = c\<lparr>snapshot_queued_msgs := Q\<rparr>" for Q
    using c(1) by (cases c) simp
  have q: "consume env True \<lparr>mdp_sequence_number = of_nat j, me_market_update = ?msgs ! j\<rparr>
        (c\<lparr>snapshot_queued_msgs := queued_prefix ?msgs j\<rparr>) = Inr (checkSnapshotSync (c\<lparr>snapshot_queued_msgs := ?Q\<rparr>))"
    using prefix_unseen [OF j(2), of ?msgs] map_put_prefix [OF j(2), of ?msgs] c(1)
    by (simp add: same consume_def queueMessage_def Let_def del: queued_prefix_simps)
  have Q: "?Q \<noteq> []" "mu_type (snd (hd ?Q)) = MU_SNAPSHOT_START" "snd (last ?Q) = ?msgs ! j"
    using shape(1,2) hd_queued_prefix [of ?msgs j] by simp_all
  have scan: "scan_snapshot 0 ?Q [] = (True, filter (\<lambda>u. \<not> is_marker u) (take (Suc j) ?msgs))"
    by (rule scan_queued_prefix) (use j(1) in simp)
  show ?thesis
  proof (cases "Suc j = length ?msgs")
    case True
    have "?msgs ! j = z" using True shape(1) by (simp add: nth_append)
    moreover have "filter (\<lambda>u. \<not> is_marker u) (snapshot_body s) = snapshot_body s" using plain by (simp add: filter_id_conv)
    then have "filter (\<lambda>u. \<not> is_marker u) (take (Suc j) ?msgs) = snapshot_body s"
      using True shape by (simp add: is_marker_def)
    ultimately show ?thesis
      unfolding q using True Q scan shape(3,4) c(2) by (simp add: checkSnapshotSync_def Let_def recovered_client_def del: queued_prefix_simps)
  next
    case False
    then have "j \<le> length (snapshot_body s)" using j(1) shape(1) by simp
    then have "?msgs ! j \<in> insert a (set (snapshot_body s))"
      using shape(1) by (cases j) (auto simp: nth_append)
    then have "mu_type (?msgs ! j) \<noteq> MU_SNAPSHOT_END" using shape(2) plain by (auto simp: is_marker_def)
    then show ?thesis
      unfolding q using False Q scan by (simp add: checkSnapshotSync_def Let_def del: queued_prefix_simps)
  qed
qed

lemma consume_snapshot:
  assumes r: "restartable (snap s)" and len: "length (snapshot_messages s) < 2 ^ 64" and j: "j < length (snapshot_messages s)"
    and c: "in_recovery_mode c" "incremental_queued_msgs c = []"
  shows "fold_res (consume env True) (number_from (of_nat j) (drop j (snapshot_messages s)))
      (c\<lparr>snapshot_queued_msgs := queued_prefix (snapshot_messages s) j\<rparr>) = Inr (recovered_client s c)"
  using j
proof (induction "length (snapshot_messages s) - j" arbitrary: j rule: less_induct)
  case less
  let ?msgs = "snapshot_messages s"
  have d: "drop j ?msgs = ?msgs ! j # drop (Suc j) ?msgs" using less.prems by (simp add: Cons_nth_drop_Suc)
  note step = consume_snapshot_message [OF r less.prems _ c, of env]
  show ?case
  proof (cases "Suc j = length ?msgs")
    case True
    then show ?thesis using step less.prems len by (simp add: d del: queued_prefix_simps)
  next
    case False
    then have "fold_res (consume env True) (number_from (of_nat (Suc j)) (drop (Suc j) ?msgs))
        (c\<lparr>snapshot_queued_msgs := queued_prefix ?msgs (Suc j)\<rparr>) = Inr (recovered_client s c)"
      using less.prems by (intro less.hyps) simp_all
    then show ?thesis using step False less.prems len by (simp add: d add.commute del: queued_prefix_simps)
  qed
qed

end
