(* ===== verification/ConsumerProps.thy ===== *)
theory ConsumerProps
  imports ConsumerSync
begin

section \<open>Properties of the client's market data path\<close>

text \<open>Safety under loss, the two ways into and out of a recovery, and what the recovery does not check.\<close>


definition ex_add :: MatchingEngineMarketUpdate where
  "ex_add = \<lparr>mu_type = MU_ADD, mu_order_id = 1, mu_ticker_id = 0, mu_side = Side_SELL, mu_price = 100,
     mu_quantity = 10, mu_priority = 1\<rparr>"

definition ex_consumer :: consumer where
  "ex_consumer = \<lparr>mc_next_expected_sequence_number = 1, incoming_md_queue = LockFreeQueue default_update 8,
     in_recovery_mode = False, snapshot_queued_msgs = [], incremental_queued_msgs = [],
     incremental_mcast_socket = new_socket 3, snapshot_mcast_socket = new_socket (- 1)\<rparr>"

definition ex_env :: join_result where
  "ex_env = \<lparr>init_fd = 3, joined = True\<rparr>"

lemma ex_consumer_init:
  "MarketDataConsumer (LockFreeQueue default_update 8) ex_env = Inr ex_consumer"
  "lf_inv (LockFreeQueue default_update 8)" "valid_stream [ex_add]"
  by (simp_all add: MarketDataConsumer_def ex_env_def ex_consumer_def lf_inv_LockFreeQueue valid_stream_def plain_update_def
      ex_add_def in_tables_def limit_defs apply_update.simps)


lemma deliver_stream:
  assumes "\<not> in_recovery_mode c" and "\<forall>u \<in> set us. price_ok (mu_price u)"
    and "socket_fd (incremental_mcast_socket c) \<noteq> socket_fd (snapshot_mcast_socket c)"
    and "recv_buffer (incremental_mcast_socket c) =
      concat (map encode_mdp (number_from (mc_next_expected_sequence_number c) us))"
    and "lf_inv (incoming_md_queue c)" and "lf_count (incoming_md_queue c) + length us < lf_capacity (incoming_md_queue c)"
  shows "\<exists>c'. consumer_recvCallback env Incremental c = Inr c' \<and> \<not> in_recovery_mode c' \<and>
    lf_contents (incoming_md_queue c') = lf_contents (incoming_md_queue c) @ us \<and>
    mc_next_expected_sequence_number c' = mc_next_expected_sequence_number c + of_nat (length us) \<and>
    recv_buffer (incremental_mcast_socket c') = [] \<and> lf_inv (incoming_md_queue c')"
proof -
  let ?n = "mc_next_expected_sequence_number c"
  let ?c = "c\<lparr>mc_next_expected_sequence_number := ?n + of_nat (length us), incoming_md_queue := lf_push_all (incoming_md_queue c) us\<rparr>"
  have "m \<in> set (number_from n ws) \<Longrightarrow> me_market_update m \<in> set ws" for m n ws by (induction ws arbitrary: n) auto
  then have ok: "\<forall>m \<in> set (number_from ?n us). price_ok (mu_price (me_market_update m))" using assms(2) by blast
  have loop: "recv_loop SIZEOF_MDP decode_mdp (consume env False) (recv_buffer (incremental_mcast_socket c)) c = Inr ([], ?c)"
    using mdp.recv_messages [OF ok, of "[]" "consume env False" c] mdp.size_pos consume_stream [OF assms(1), of env us] assms(4)
    by simp
  have len: "length (concat (map encode_mdp (number_from n ws))) = SIZEOF_MDP * length ws" for n ws
    by (induction ws arbitrary: n) simp_all
  have push: "lf_contents (lf_push_all (incoming_md_queue c) us) = lf_contents (incoming_md_queue c) @ us"
      "lf_inv (lf_push_all (incoming_md_queue c) us)"
    using lf_push_all_contents [OF assms(5,6)] by simp_all
  show ?thesis
  proof (cases "us = []")
    case True
    then show ?thesis using assms by (simp add: consumer_recvCallback_def SIZEOF_MDP_def)
  next
    case False
    then have "SIZEOF_MDP \<le> length (recv_buffer (incremental_mcast_socket c))"
      using assms(4) len [of ?n us] by (cases us) simp_all
    then show ?thesis using loop assms(1,3) push by (simp add: consumer_recvCallback_def)
  qed
qed

text \<open>C28: without losses nothing is delayed or dropped. If the bytes of the next numbered updates are in
  the buffer of the incremental socket of a client that is not recovering, the receive callback hands
  every one of them on, in order, and keeps no byte.\<close>

theorem incremental_stream_is_delivered:
  assumes "\<not> in_recovery_mode c" and "\<forall>u \<in> set us. price_ok (mu_price u)"
    and "socket_fd (incremental_mcast_socket c) \<noteq> socket_fd (snapshot_mcast_socket c)"
    and "recv_buffer (incremental_mcast_socket c) =
      concat (map encode_mdp (number_from (mc_next_expected_sequence_number c) us))"
    and "lf_inv (incoming_md_queue c)" and "lf_count (incoming_md_queue c) + length us < lf_capacity (incoming_md_queue c)"
  shows "\<exists>c'. consumer_recvCallback env Incremental c = Inr c' \<and> \<not> in_recovery_mode c' \<and>
    lf_contents (incoming_md_queue c') = lf_contents (incoming_md_queue c) @ us \<and>
    mc_next_expected_sequence_number c' = mc_next_expected_sequence_number c + of_nat (length us) \<and>
    recv_buffer (incremental_mcast_socket c') = []"
  using deliver_stream [OF assms] by blast

theorem incremental_stream_is_delivered_witness:
  "\<exists>c'. consumer_recvCallback ex_env Incremental
      (ex_consumer\<lparr>incremental_mcast_socket := (new_socket 3)\<lparr>recv_buffer := encode_mdp \<lparr>mdp_sequence_number = 1, me_market_update = ex_add\<rparr>\<rparr>\<rparr>) = Inr c' \<and>
    lf_contents (incoming_md_queue c') = [ex_add]"
  using incremental_stream_is_delivered [of "ex_consumer\<lparr>incremental_mcast_socket :=
      (new_socket 3)\<lparr>recv_buffer := encode_mdp \<lparr>mdp_sequence_number = 1, me_market_update = ex_add\<rparr>\<rparr>\<rparr>" "[ex_add]" ex_env]
  by (auto simp: ex_consumer_def ex_add_def price_ok_def lf_inv_LockFreeQueue new_socket_def)

text \<open>A gap is noticed at once. An update with any other number than the expected one puts the
  client into recovery, drops what was queued before, joins the snapshot stream and queues the update;
  nothing is handed to the strategy.\<close>

theorem gap_starts_recovery:
  assumes "\<not> in_recovery_mode c" and "mdp_sequence_number m \<noteq> mc_next_expected_sequence_number c"
    and "init_fd env \<ge> 0" and "joined env"
  shows "consume env False m c =
    Inr (c\<lparr>in_recovery_mode := True, snapshot_queued_msgs := [],
           incremental_queued_msgs := [(mdp_sequence_number m, me_market_update m)],
           snapshot_mcast_socket := (snapshot_mcast_socket c)\<lparr>socket_fd := init_fd env\<rparr>\<rparr>)"
  using assms by (simp add: consume_def Let_def startSnapshotSync_def queueMessage_def checkSnapshotSync_def)

theorem gap_starts_recovery_witness:
  "consume ex_env False \<lparr>mdp_sequence_number = 2, me_market_update = ex_add\<rparr> ex_consumer =
    Inr (ex_consumer\<lparr>in_recovery_mode := True, snapshot_queued_msgs := [], incremental_queued_msgs := [(2, ex_add)],
           snapshot_mcast_socket := (snapshot_mcast_socket ex_consumer)\<lparr>socket_fd := 3\<rparr>\<rparr>)"
  using gap_starts_recovery [of ex_consumer "\<lparr>mdp_sequence_number = 2, me_market_update = ex_add\<rparr>" ex_env]
  by (simp add: ex_consumer_def ex_env_def)




text \<open>A marker message, as \<open>publishSnapshot\<close> builds it.\<close>

definition marker :: "MarketUpdateType \<Rightarrow> OrderID \<Rightarrow> MatchingEngineMarketUpdate" where
  "marker ty n = default_update\<lparr>mu_type := ty, mu_order_id := n\<rparr>"

text \<open>The consumer does not check that the messages it puts together belong to one snapshot. With the
  start marker of one snapshot and the end marker of another, whatever their sequence numbers, it leaves
  the recovery, hands over the order in between and takes the number of the end marker for what it has
  seen. The start marker's number is never read.\<close>

theorem mixed_snapshots_are_accepted:
  assumes "in_recovery_mode c" and "snapshot_queued_msgs c = []" and "incremental_queued_msgs c = []" and "mu_type u = MU_ADD"
  shows "\<exists>c'. fold_res (consume env True) (number_from 0 [marker MU_SNAPSHOT_START a, u, marker MU_SNAPSHOT_END b]) c = Inr c' \<and>
    \<not> in_recovery_mode c' \<and> incoming_md_queue c' = lf_push (incoming_md_queue c) u \<and>
    mc_next_expected_sequence_number c' = b + 1"
  using assms
  by (simp add: consume_def Let_def queueMessage_def checkSnapshotSync_def marker_def is_marker_def)

theorem mixed_snapshots_are_accepted_witness:
  "\<exists>c'. fold_res (consume ex_env True) (number_from 0 [marker MU_SNAPSHOT_START 5, ex_add, marker MU_SNAPSHOT_END 9])
      (ex_consumer\<lparr>in_recovery_mode := True\<rparr>) = Inr c' \<and> \<not> in_recovery_mode c' \<and> mc_next_expected_sequence_number c' = 10"
  using mixed_snapshots_are_accepted [of "ex_consumer\<lparr>in_recovery_mode := True\<rparr>" ex_add ex_env 5 9]
  by (auto simp: ex_consumer_def ex_add_def)

end
