(* ===== verification/MarketOrderBook.thy ===== *)
theory MarketOrderBook
  imports LadderView Messages
begin

section \<open>The order book of a trading client\<close>

text \<open>
  \<^verbatim>\<open>trading/strategy/MarketOrderBook.hpp\<close> and \<^verbatim>\<open>MarketOrderBook.cc\<close>, with the structs of \<^verbatim>\<open>MarketOrder.hpp\<close>.
  The book is the same price ladder as the exchange's, with a table that finds an order by its market
  order identifier and the best bid and offer. \<open>onMarketUpdate\<close> ends with a call into the trade engine; the
  call is the operation's result here, and the trade engine handles it.
\<close>

record MarketOrder = order_node +
  mo_order_id :: OrderID

record BBO =
  best_bid_price :: Price
  best_ask_price :: Price
  best_bid_quantity :: Quantity
  best_ask_quantity :: Quantity

record market_order_book = "MarketOrder price_ladder" +
  mb_ticker_id :: TickerID
  oid_to_order :: "nat \<Rightarrow> ptr"
  bbo :: BBO

definition default_market_order :: MarketOrder where
  "default_market_order =
     \<lparr>o_side = Side_INVALID, o_price = PRICE_INVALID, o_quantity = QUANTITY_INVALID,
      o_priority = PRIORITY_INVALID, prev_order = None, next_order = None, mo_order_id = ORDER_ID_INVALID\<rparr>"

definition default_BBO :: BBO where
  "default_BBO = \<lparr>best_bid_price = PRICE_INVALID, best_ask_price = PRICE_INVALID,
     best_bid_quantity = QUANTITY_INVALID, best_ask_quantity = QUANTITY_INVALID\<rparr>"

text \<open>
  The constructor initialises neither of the two tables of pointers, as that of the exchange's book;
  they are taken as null.
\<close>

definition MarketOrderBook :: "TickerID \<Rightarrow> market_order_book" where
  "MarketOrderBook ticker_id =
     \<lparr>bids_by_price = None, asks_by_price = None, price_orders_at_price = (\<lambda>_. None),
      orders_at_price_pool = MemPool default_level MATCHING_ENGINE_MAX_PRICE_LEVELS,
      order_pool = MemPool default_market_order MATCHING_ENGINE_MAX_ORDER_IDS,
      mb_ticker_id = ticker_id, oid_to_order = (\<lambda>_. None), bbo = default_BBO\<rparr>"

text \<open>The calls into the trade engine.\<close>

datatype book_event =
    TradeUpdate MatchingEngineMarketUpdate
  | OrderBookUpdate TickerID Price Side

subsection \<open>Entering and removing an order\<close>

definition set_oid :: "ptr \<Rightarrow> MarketOrder \<Rightarrow> market_order_book \<Rightarrow> market_order_book res" where
  "set_oid p v b =
     bindE (arr_set MATCHING_ENGINE_MAX_ORDER_IDS (oid_to_order b) (unat (mo_order_id v)) p) (\<lambda>t.
     Inr (b\<lparr>oid_to_order := t\<rparr>))"

definition mb_removeOrder :: "ptr \<Rightarrow> market_order_book \<Rightarrow> market_order_book res" where
  "mb_removeOrder = removeOrder_with (set_oid None)"

definition mb_addOrder :: "ptr \<Rightarrow> market_order_book \<Rightarrow> market_order_book res" where
  "mb_addOrder order b = bindE (link_order order b) (\<lambda>b1. bindE (ord_at b1 order) (\<lambda>v. set_oid order v b1))"

text \<open>
  The other private functions of the class are those of the exchange's book at the client's types; with them the
  two operations read as in the source.
\<close>

definition mb_getOrdersAtPrice :: "market_order_book \<Rightarrow> Price \<Rightarrow> ptr" where
  "mb_getOrdersAtPrice b price = price_orders_at_price b (priceToIndex price)"

definition mb_removeOrderAtPrice :: "Side \<Rightarrow> Price \<Rightarrow> market_order_book \<Rightarrow> market_order_book res" where
  "mb_removeOrderAtPrice = removeOrderAtPrice"

definition mb_addOrderAtPrice :: "ptr \<Rightarrow> market_order_book \<Rightarrow> market_order_book res" where
  "mb_addOrderAtPrice = addOrderAtPrice"

lemma mb_removeOrder_alone:
  assumes "ord_at b order = Inr v" and "prev_order v = order"
  shows "mb_removeOrder order b =
    bindE (mb_removeOrderAtPrice (o_side v) (o_price v) b) (\<lambda>b1.
    bindE (ord_at b1 order) (\<lambda>v1.
    bindE (set_oid None v1 b1) (\<lambda>b2.
    bindE (deallocate order (order_pool b2)) (\<lambda>pl. Inr (b2\<lparr>order_pool := pl\<rparr>)))))"
  using assms by (simp add: mb_removeOrder_def removeOrder_with_def unlink_order_def mb_removeOrderAtPrice_def Let_def)

lemma mb_addOrder_new_level:
  assumes "ord_at b order = Inr v" and "mb_getOrdersAtPrice b (o_price v) = None"
  shows "mb_addOrder order b =
    bindE (upd_ord order (\<lambda>n. n\<lparr>next_order := order, prev_order := order\<rparr>) b) (\<lambda>b1.
    bindE (allocate \<lparr>l_side = o_side v, l_price = o_price v, first_order = order, prev_entry = None, next_entry = None\<rparr>
      (orders_at_price_pool b1)) (\<lambda>(i, pl).
    bindE (mb_addOrderAtPrice (Some i) (b1\<lparr>orders_at_price_pool := pl\<rparr>)) (\<lambda>b2.
    bindE (ord_at b2 order) (\<lambda>v. set_oid order v b2))))"
  using assms
  by (simp add: mb_addOrder_def link_order_def mb_addOrderAtPrice_def mb_getOrdersAtPrice_def getOrdersAtPrice_def bindE_assoc split_def)

subsection \<open>Clearing the book\<close>

text \<open>\<^verbatim>\<open>for (auto &order : oid_to_order) if (order) order_pool.deallocate(order)\<close>.\<close>

definition deallocate_orders :: "market_order_book \<Rightarrow> market_order_book res" where
  "deallocate_orders b =
     bindE (fold_res (\<lambda>a. deallocate (Some a))
              (List.map_filter (oid_to_order b) [0..<MATCHING_ENGINE_MAX_ORDER_IDS]) (order_pool b)) (\<lambda>pl.
     Inr (b\<lparr>order_pool := pl\<rparr>))"

text \<open>
  The loop over the levels of a side, from the second one round to the best, and the release of the
  best. It follows pointers of levels it has just released; \<open>fuel\<close> bounds the iterations.
\<close>

fun deallocate_levels :: "nat \<Rightarrow> nat \<Rightarrow> ptr \<Rightarrow> market_order_book \<Rightarrow> market_order_book res" where
  "deallocate_levels fuel best itr b =
     (if itr = Some best
      then bindE (deallocate itr (orders_at_price_pool b)) (\<lambda>pl. Inr (b\<lparr>orders_at_price_pool := pl\<rparr>))
      else case fuel of
        0 \<Rightarrow> Inl Diverges
      | Suc fuel' \<Rightarrow>
          bindE (deallocate itr (orders_at_price_pool b)) (\<lambda>pl.
          bindE (lvl_at (b\<lparr>orders_at_price_pool := pl\<rparr>) itr) (\<lambda>l.
          deallocate_levels fuel' best (next_entry l) (b\<lparr>orders_at_price_pool := pl\<rparr>))))"

declare deallocate_levels.simps [simp del]

definition deallocate_side :: "ptr \<Rightarrow> market_order_book \<Rightarrow> market_order_book res" where
  "deallocate_side best b =
     (case best of
        None \<Rightarrow> Inr b
      | Some l \<Rightarrow>
          bindE (lvl_at b best) (\<lambda>lvl.
          deallocate_levels (pool_size (orders_at_price_pool b)) l (next_entry lvl) b))"

definition clear :: "market_order_book \<Rightarrow> market_order_book res" where
  "clear b =
     bindE (deallocate_orders b) (\<lambda>b1.
     let b2 = b1\<lparr>oid_to_order := (\<lambda>_. None)\<rparr> in
     bindE (deallocate_side (bids_by_price b2) b2) (\<lambda>b3.
     bindE (deallocate_side (asks_by_price b3) b3) (\<lambda>b4.
     Inr (b4\<lparr>bids_by_price := None, asks_by_price := None\<rparr>))))"

subsection \<open>The best bid and offer\<close>

text \<open>The quantity of a level: a walk round the ring of its orders, in 32-bit arithmetic.\<close>

fun sum_ring :: "nat \<Rightarrow> ptr \<Rightarrow> ptr \<Rightarrow> Quantity \<Rightarrow> market_order_book \<Rightarrow> Quantity res" where
  "sum_ring fuel first order acc b =
     (if order = first then Inr acc
      else case fuel of
        0 \<Rightarrow> Inl Diverges
      | Suc fuel' \<Rightarrow> bindE (ord_at b order) (\<lambda>v. sum_ring fuel' first (next_order v) (acc + o_quantity v) b))"

declare sum_ring.simps [simp del]

definition level_quantity :: "orders_at_price \<Rightarrow> market_order_book \<Rightarrow> Quantity res" where
  "level_quantity l b =
     bindE (ord_at b (first_order l)) (\<lambda>f.
     sum_ring (pool_size (order_pool b)) (first_order l) (next_order f) (o_quantity f) b)"

text \<open>The price and quantity \<open>updateBBO\<close> stores for a side.\<close>

definition best_of_side :: "ptr \<Rightarrow> market_order_book \<Rightarrow> (Price \<times> Quantity) res" where
  "best_of_side best b =
     (if best = None then Inr (PRICE_INVALID, QUANTITY_INVALID)
      else bindE (lvl_at b best) (\<lambda>l. bindE (level_quantity l b) (\<lambda>q. Inr (l_price l, q))))"

definition updateBBO :: "bool \<Rightarrow> bool \<Rightarrow> market_order_book \<Rightarrow> market_order_book res" where
  "updateBBO bid_updated ask_updated b =
     bindE (if bid_updated
            then bindE (best_of_side (bids_by_price b) b) (\<lambda>(p, q).
                 Inr (b\<lparr>bbo := (bbo b)\<lparr>best_bid_price := p, best_bid_quantity := q\<rparr>\<rparr>))
            else Inr b) (\<lambda>b1.
     if ask_updated
     then bindE (best_of_side (asks_by_price b1) b1) (\<lambda>(p, q).
          Inr (b1\<lparr>bbo := (bbo b1)\<lparr>best_ask_price := p, best_ask_quantity := q\<rparr>\<rparr>))
     else Inr b1)"

subsection \<open>Market updates\<close>

text \<open>The flags, read before the update: whether it is at or above the best price of its side.\<close>

definition bid_updated :: "MatchingEngineMarketUpdate \<Rightarrow> market_order_book \<Rightarrow> bool res" where
  "bid_updated u b =
     (if bids_by_price b \<noteq> None \<and> mu_side u = Side_BUY
      then bindE (lvl_at b (bids_by_price b)) (\<lambda>l. Inr (mu_price u \<ge> l_price l)) else Inr False)"

definition ask_updated :: "MatchingEngineMarketUpdate \<Rightarrow> market_order_book \<Rightarrow> bool res" where
  "ask_updated u b =
     (if asks_by_price b \<noteq> None \<and> mu_side u = Side_SELL
      then bindE (lvl_at b (asks_by_price b)) (\<lambda>l. Inr (mu_price u \<le> l_price l)) else Inr False)"

definition order_of_id :: "MatchingEngineMarketUpdate \<Rightarrow> market_order_book \<Rightarrow> ptr res" where
  "order_of_id u b = arr_at MATCHING_ENGINE_MAX_ORDER_IDS (oid_to_order b) (unat (mu_order_id u))"

definition market_add :: "MatchingEngineMarketUpdate \<Rightarrow> market_order_book \<Rightarrow> market_order_book res" where
  "market_add u b =
     bindE (order_of_id u b) (\<lambda>p.
     bindE (ASSERT (p = None)
              (''Add Market Order received for existing order id : '' @ to_string_nat (unat (mu_order_id u)))) (\<lambda>_.
     bindE (allocate \<lparr>o_side = mu_side u, o_price = mu_price u, o_quantity = mu_quantity u,
                      o_priority = mu_priority u, prev_order = None, next_order = None,
                      mo_order_id = mu_order_id u\<rparr> (order_pool b)) (\<lambda>(order, pl).
     mb_addOrder (Some order) (b\<lparr>order_pool := pl\<rparr>))))"

definition market_modify :: "MatchingEngineMarketUpdate \<Rightarrow> market_order_book \<Rightarrow> market_order_book res" where
  "market_modify u b =
     bindE (order_of_id u b) (\<lambda>order.
     bindE (ASSERT (order \<noteq> None)
              (''Modify Market Order received for non-existing order id : '' @ to_string_nat (unat (mu_order_id u)))) (\<lambda>_.
     upd_ord order (\<lambda>v. v\<lparr>o_quantity := mu_quantity u\<rparr>) b))"

definition market_cancel :: "MatchingEngineMarketUpdate \<Rightarrow> market_order_book \<Rightarrow> market_order_book res" where
  "market_cancel u b =
     bindE (order_of_id u b) (\<lambda>order.
     bindE (ASSERT (order \<noteq> None)
              (''Cancel Market Order received for non-existing order id : '' @ to_string_nat (unat (mu_order_id u)))) (\<lambda>_.
     mb_removeOrder order b))"

definition market_switch :: "MatchingEngineMarketUpdate \<Rightarrow> market_order_book \<Rightarrow> market_order_book res" where
  "market_switch u b =
     (case mu_type u of
        MU_ADD \<Rightarrow> market_add u b
      | MU_MODIFY \<Rightarrow> market_modify u b
      | MU_CANCEL \<Rightarrow> market_cancel u b
      | MU_CLEAR \<Rightarrow> clear b
      | _ \<Rightarrow> Inr b)"

definition onMarketUpdate :: "MatchingEngineMarketUpdate \<Rightarrow> market_order_book \<Rightarrow> (market_order_book \<times> book_event) res" where
  "onMarketUpdate u b =
     bindE (bid_updated u b) (\<lambda>bid.
     bindE (ask_updated u b) (\<lambda>ask.
     if mu_type u = MU_TRADE then Inr (b, TradeUpdate u)
     else
       bindE (market_switch u b) (\<lambda>b1.
       bindE (updateBBO bid ask b1) (\<lambda>b2.
       Inr (b2, OrderBookUpdate (mu_ticker_id u) (mu_price u) (mu_side u))))))"

subsection \<open>Printing\<close>

definition BBO_toString :: "BBO \<Rightarrow> string" where
  "BBO_toString x =
     ''BBO{'' @ quantityToString (best_bid_quantity x) @ ''@'' @ priceToString (best_bid_price x) @ ''X'' @
     priceToString (best_ask_price x) @ ''@'' @ quantityToString (best_ask_quantity x) @ ''}''"

end
