(* ===== verification/MarketBookRefine.thy ===== *)
theory MarketBookRefine
  imports MarketOrderBook
begin

section \<open>The client's book holds lists of orders\<close>

text \<open>
  What a market update means for a book seen as two lists of price levels, and the proof that the
  pointer structure of \<open>MarketOrderBook\<close> follows it. The ladder lemmas do the work; this theory adds the
  index by order identifier.
\<close>

type_synonym market_book = "Side \<Rightarrow> MarketOrder book_side"

definition market_order :: "MatchingEngineMarketUpdate \<Rightarrow> MarketOrder" where
  "market_order u =
     \<lparr>o_side = mu_side u, o_price = mu_price u, o_quantity = mu_quantity u, o_priority = mu_priority u,
      prev_order = None, next_order = None, mo_order_id = mu_order_id u\<rparr>"

definition map_orders :: "('o \<Rightarrow> 'p) \<Rightarrow> 'o book_side \<Rightarrow> 'p book_side" where
  "map_orders g ls = map (\<lambda>e. (fst e, map g (snd e))) ls"

definition with_quantity :: "OrderID \<Rightarrow> Quantity \<Rightarrow> MarketOrder \<Rightarrow> MarketOrder" where
  "with_quantity k q x = (if mo_order_id x = k then x\<lparr>o_quantity := q\<rparr> else x)"

fun spec_update :: "MatchingEngineMarketUpdate \<Rightarrow> market_book \<Rightarrow> market_book" where
  "spec_update u v =
     (case mu_type u of
        MU_ADD \<Rightarrow> v(mu_side u := enqueue (mu_side u) (mu_price u) (market_order u) (v (mu_side u)))
      | MU_MODIFY \<Rightarrow> (\<lambda>sd. map_orders (with_quantity (mu_order_id u) (mu_quantity u)) (v sd))
      | MU_CANCEL \<Rightarrow> (\<lambda>sd. remove_where (\<lambda>x. mo_order_id x = mu_order_id u) (v sd))
      | _ \<Rightarrow> v)"

declare spec_update.simps [simp del]

definition market_orders :: "market_book \<Rightarrow> MarketOrder list" where
  "market_orders v = all_orders (v Side_BUY) @ all_orders (v Side_SELL)"

definition known_id :: "market_book \<Rightarrow> OrderID \<Rightarrow> bool" where
  "known_id v k \<longleftrightarrow> k \<in> mo_order_id ` set (market_orders v)"

text \<open>The updates a book can follow.\<close>

definition fits :: "MatchingEngineMarketUpdate \<Rightarrow> market_book \<Rightarrow> bool" where
  "fits u v \<longleftrightarrow>
     (case mu_type u of
        MU_ADD \<Rightarrow> trading_side (mu_side u) \<and> unat (mu_order_id u) < MATCHING_ENGINE_MAX_ORDER_IDS \<and>
          \<not> known_id v (mu_order_id u) \<and> slot_free (mu_price u) (v Side_BUY) \<and> slot_free (mu_price u) (v Side_SELL) \<and>
          mu_price u \<notin> prices (v (opposite (mu_side u))) \<and> has_room v
      | MU_MODIFY \<Rightarrow> known_id v (mu_order_id u)
      | MU_CANCEL \<Rightarrow> known_id v (mu_order_id u)
      | MU_CLEAR \<Rightarrow> False
      | _ \<Rightarrow> True)"

subsection \<open>Representation\<close>

abbreviation mkey :: "MarketOrder \<Rightarrow> nat" where
  "mkey v \<equiv> unat (mo_order_id v)"

definition oid_ok :: "market_order_book \<Rightarrow> nat set \<Rightarrow> bool" where
  "oid_ok b A \<longleftrightarrow>
     (\<forall>a \<in> A. mkey (Ord b a) < MATCHING_ENGINE_MAX_ORDER_IDS \<and> oid_to_order b (mkey (Ord b a)) = Some a) \<and>
     (\<forall>k a. oid_to_order b k = Some a \<longrightarrow> a \<in> A \<and> mkey (Ord b a) = k)"

definition mcore :: "market_order_book \<Rightarrow> (Side \<Rightarrow> side_list) \<Rightarrow> bool" where
  "mcore b f \<longleftrightarrow>
     ladder_inv b f {} \<and> oid_ok b (orders_of f) \<and>
     pool_size (orders_at_price_pool b) = MATCHING_ENGINE_MAX_PRICE_LEVELS \<and>
     pool_size (order_pool b) = MATCHING_ENGINE_MAX_ORDER_IDS"

definition mrep :: "market_order_book \<Rightarrow> market_book \<Rightarrow> bool" where
  "mrep b v \<longleftrightarrow> (\<exists>f. mcore b f \<and> (\<forall>sd. trading_side sd \<longrightarrow> v sd = side_view b (f sd)))"

text \<open>The fields of the book beside the ladder do not matter to the ladder.\<close>

lemma ladder_inv_market_fields [simp]:
  fixes b :: market_order_book
  shows "ladder_inv (b\<lparr>oid_to_order := i\<rparr>) f ex = ladder_inv b f ex"
    "ladder_inv (b\<lparr>bbo := x\<rparr>) f ex = ladder_inv b f ex"
    "side_view (b\<lparr>oid_to_order := i\<rparr>) ls = side_view b ls"
    "side_view (b\<lparr>bbo := x\<rparr>) ls = side_view b ls"
  by (simp_all add: ladder_inv_def side_ok_def level_ok_def slots_ok_def best_of_def side_view_def)

lemma market_book_more:
  assumes "price_ladder.more b' = price_ladder.more b"
  shows "oid_to_order b' = oid_to_order b" "bbo b' = bbo b" "mb_ticker_id b' = mb_ticker_id b"
  using assms by (cases b'; cases b; simp)+

lemma mcore_bbo [simp]: "mcore (b\<lparr>bbo := x\<rparr>) f = mcore b f"
  by (simp add: mcore_def oid_ok_def)

lemma mrep_bbo [simp]: "mrep (b\<lparr>bbo := x\<rparr>) v = mrep b v"
  by (simp add: mrep_def)

lemma payload_market [simp]: "mo_order_id (payload v) = mo_order_id v"
  by (simp add: payload_def)

lemma payload_market_eq: "payload v = payload w \<Longrightarrow> mo_order_id v = mo_order_id w"
  by (metis payload_market)

lemma initial_market_book: "mrep (MarketOrderBook t) (\<lambda>_. [])"
proof -
  have "mcore (MarketOrderBook t) (\<lambda>_. [])"
    by (simp add: mcore_def ladder_inv_def side_ok_def slots_ok_def levels_of_def orders_of_def oid_ok_def
        MarketOrderBook_def best_of_def pool_inv_MemPool limit_defs)
  then show ?thesis by (auto simp: mrep_def)
qed

lemma oid_ok_unique:
  assumes "oid_ok b A" "a \<in> A" "c \<in> A"
  shows "mo_order_id (Ord b a) = mo_order_id (Ord b c) \<longleftrightarrow> a = c"
  using assms unfolding oid_ok_def by (metis option.inject)

lemma market_orders_view:
  assumes "\<forall>sd. trading_side sd \<longrightarrow> v sd = side_view b (f sd)"
  shows "set (market_orders v) = (\<lambda>a. payload (Ord b a)) ` orders_of f"
  using assms by (auto simp: market_orders_def side_view_orders orders_of_def)

lemma oid_lookup:
  assumes core: "mcore b f" and v: "\<forall>sd. trading_side sd \<longrightarrow> v sd = side_view b (f sd)"
  shows "known_id v k \<longleftrightarrow> (\<exists>a \<in> orders_of f. oid_to_order b (unat k) = Some a \<and> mo_order_id (Ord b a) = k)"
    "\<not> known_id v k \<Longrightarrow> oid_to_order b (unat k) = None"
    "known_id v k \<Longrightarrow> unat k < MATCHING_ENGINE_MAX_ORDER_IDS"
proof -
  have idx: "oid_ok b (orders_of f)" using core by (simp add: mcore_def)
  have known: "known_id v k \<longleftrightarrow> (\<exists>a \<in> orders_of f. mo_order_id (Ord b a) = k)"
    using market_orders_view [OF v] by (auto simp: known_id_def image_iff)
  show "known_id v k \<longleftrightarrow> (\<exists>a \<in> orders_of f. oid_to_order b (unat k) = Some a \<and> mo_order_id (Ord b a) = k)"
    unfolding known using idx by (auto simp: oid_ok_def)
  show "known_id v k \<Longrightarrow> unat k < MATCHING_ENGINE_MAX_ORDER_IDS"
    unfolding known using idx by (auto simp: oid_ok_def)
  show "oid_to_order b (unat k) = None" if "\<not> known_id v k"
  proof (rule ccontr)
    assume "oid_to_order b (unat k) \<noteq> None"
    then obtain a where "oid_to_order b (unat k) = Some a" by blast
    then have "a \<in> orders_of f" "mo_order_id (Ord b a) = k"
      using idx by (auto simp: oid_ok_def word_unat_eq_iff)
    then show False using that known by blast
  qed
qed

lemma oid_ok_insert:
  assumes idx: "oid_ok b A" and a: "mkey (Ord b a) < MATCHING_ENGINE_MAX_ORDER_IDS" "oid_to_order b (mkey (Ord b a)) = None"
    and tab: "oid_to_order b' = (oid_to_order b)(mkey (Ord b a) \<mapsto> a)"
    and same: "\<And>c. mo_order_id (Ord b' c) = mo_order_id (Ord b c)"
  shows "oid_ok b' (insert a A)"
proof -
  have "mkey (Ord b c) \<noteq> mkey (Ord b a)" if "c \<in> A" for c
    using that idx a(2) unfolding oid_ok_def by (metis option.distinct(1))
  then show ?thesis
    using idx a(1) unfolding oid_ok_def tab same by simp
qed

subsection \<open>Removing and entering an order\<close>

lemma mb_removeOrder_core:
  assumes core: "mcore b f" and sd: "trading_side sd" and a: "a \<in> orders_in (f sd)"
    and P: "P = (\<lambda>x. mo_order_id x = mo_order_id (Ord b a))"
  shows "\<exists>b' f'. mb_removeOrder (Some a) b = Inr b' \<and> mcore b' f' \<and>
    side_view b' (f' sd) = remove_where P (side_view b (f sd)) \<and>
    side_view b' (f' (opposite sd)) = side_view b (f (opposite sd)) \<and> bbo b' = bbo b"
proof -
  have inv: "ladder_inv b f {}" and idx: "oid_ok b (orders_of f)" using core by (simp_all add: mcore_def)
  have aof: "a \<in> orders_of f" using a orders_of_side [OF sd] by auto
  obtain b1 f1 where run1: "unlink_order (Some a) b = Inr b1" and u: "unlinked b f {} sd a b1 f1"
    using unlink_order_refines [OF inv sd a] by blast
  have fr: "ladder_frame b b1" and inv1: "ladder_inv b1 f1 {a}" and of1: "orders_of f1 = orders_of f - {a}"
    and v1: "side_view b1 (f1 sd) = remove_where P (side_view b (f sd))"
      "side_view b1 (f1 (opposite sd)) = side_view b (f (opposite sd))"
    using u oid_ok_unique [OF idx _ aof] by (auto simp: unlinked_def P)
  have more: "oid_to_order b1 = oid_to_order b" "bbo b1 = bbo b"
    using fr by (auto simp: ladder_frame_def dest: market_book_more)
  have same: "mo_order_id (Ord b1 c) = mo_order_id (Ord b c)" for c
    using fr by (intro payload_market_eq) (simp add: ladder_frame_def)
  let ?k = "mkey (Ord b a)" and ?b2 = "b1\<lparr>oid_to_order := (oid_to_order b)(mkey (Ord b a) := None)\<rparr>"
  have run2: "set_oid None (Ord b1 a) b1 = Inr ?b2"
    using idx aof more same by (simp add: set_oid_def oid_ok_def)
  have "ladder_inv ?b2 f1 {a}" using inv1 by simp
  then obtain pl where run3: "deallocate (Some a) (order_pool ?b2) = Inr pl" and
      pl: "ladder_inv (?b2\<lparr>order_pool := pl\<rparr>) f1 {}" "\<forall>c. obj pl c = Ord b1 c" "pool_size pl = pool_size (order_pool b1)"
    using ladder_inv_release [of ?b2 f1 a "{}"] by auto
  let ?b = "?b2\<lparr>order_pool := pl\<rparr>"
  have "mb_removeOrder (Some a) b = Inr ?b"
    using run1 run2 run3 by (simp add: mb_removeOrder_def removeOrder_with_def)
  moreover have "oid_ok ?b (orders_of f1)"
    using idx oid_ok_unique [OF idx _ aof] by (auto simp: oid_ok_def of1 pl(2) same word_unat_eq_iff)
  moreover have "side_view ?b ls = side_view b1 ls" for ls
    by (rule side_view_cong) (simp_all add: pl(2))
  ultimately show ?thesis
    using core fr pl v1 more by (intro exI [of _ ?b] exI [of _ f1]) (simp add: mcore_def ladder_frame_def)
qed

lemma mb_addOrder_core:
  assumes inv: "ladder_inv b f {a}" and idx: "oid_ok b (orders_of f)" and sd: "trading_side sd"
    and x: "Ord b a = x" "o_side x = sd" "o_price x = p" "payload x = x"
    and slot: "\<And>l. getOrdersAtPrice b p = Some l \<Longrightarrow> l_price (L b l) = p \<and> l_side (L b l) = sd"
    and key: "mkey x < MATCHING_ENGINE_MAX_ORDER_IDS" "oid_to_order b (mkey x) = None"
    and sizes: "pool_size (orders_at_price_pool b) = MATCHING_ENGINE_MAX_PRICE_LEVELS"
      "pool_size (order_pool b) = MATCHING_ENGINE_MAX_ORDER_IDS"
    and room: "card (live (orders_at_price_pool b)) + 2 \<le> pool_size (orders_at_price_pool b)"
  shows "\<exists>b' f'. mb_addOrder (Some a) b = Inr b' \<and> mcore b' f' \<and>
    side_view b' (f' sd) = enqueue sd p x (side_view b (f sd)) \<and>
    side_view b' (f' (opposite sd)) = side_view b (f (opposite sd)) \<and> bbo b' = bbo b"
proof -
  obtain b1 f1 where run1: "link_order (Some a) b = Inr b1" and lk: "linked b f {a} sd p a b1 f1"
    using link_order_refines [OF inv _ sd _ _ slot room] x by auto
  have fr: "ladder_frame b b1" and inv1: "ladder_inv b1 f1 {}" and of1: "orders_of f1 = insert a (orders_of f)"
    using lk by (auto simp: linked_def)
  have more: "oid_to_order b1 = oid_to_order b" "bbo b1 = bbo b"
    using fr by (auto simp: ladder_frame_def dest: market_book_more)
  have same: "mo_order_id (Ord b1 c) = mo_order_id (Ord b c)" for c
    using fr by (intro payload_market_eq) (simp add: ladder_frame_def)
  let ?b2 = "b1\<lparr>oid_to_order := (oid_to_order b)(mkey x \<mapsto> a)\<rparr>"
  have run2: "set_oid (Some a) (Ord b1 a) b1 = Inr ?b2"
    using more same x(1) key(1) by (simp add: set_oid_def)
  have "oid_ok ?b2 (orders_of f1)"
    unfolding of1 by (rule oid_ok_insert [OF idx]) (use key x(1) same in simp_all)
  then have "mcore ?b2 f1"
    using inv1 fr sizes by (simp add: mcore_def ladder_frame_def)
  moreover have "mb_addOrder (Some a) b = Inr ?b2" using run1 run2 by (simp add: mb_addOrder_def)
  moreover have "side_view ?b2 (f1 sd) = enqueue sd p x (side_view b (f sd))"
    "side_view ?b2 (f1 (opposite sd)) = side_view b (f (opposite sd))"
    using lk x by (simp_all add: linked_def)
  ultimately show ?thesis using more(2) by (intro exI [of _ ?b2] exI [of _ f1]) simp
qed

subsection \<open>The four changes\<close>

definition changed :: "market_order_book \<Rightarrow> market_order_book \<Rightarrow> market_book \<Rightarrow> bool" where
  "changed b b' v \<longleftrightarrow> mrep b' v \<and> bbo b' = bbo b"

lemma market_add_refines:
  assumes rep: "mrep b v" and ty: "mu_type u = MU_ADD" and fit: "fits u v"
  shows "\<exists>b'. market_add u b = Inr b' \<and> changed b b' (spec_update u v)"
proof -
  define sd where "sd = mu_side u"
  define p where "p = mu_price u"
  define x where "x = market_order u"
  obtain f where core: "mcore b f" and vf: "\<forall>s. trading_side s \<longrightarrow> v s = side_view b (f s)"
    using rep unfolding mrep_def by blast
  have v: "v s = side_view b (f s)" if "trading_side s" for s using vf that by blast
  have fit': "trading_side sd" "unat (mu_order_id u) < MATCHING_ENGINE_MAX_ORDER_IDS" "\<not> known_id v (mu_order_id u)"
      "slot_free p (v Side_BUY)" "slot_free p (v Side_SELL)" "p \<notin> prices (v (opposite sd))" "has_room v"
    using fit ty by (simp_all add: fits_def sd_def p_def)
  note sd = fit'(1)
  have free: "slot_free p (side_view b (f sd))" "slot_free p (side_view b (f (opposite sd)))"
    and opp: "p \<notin> prices (side_view b (f (opposite sd)))"
    using fit'(4-6) sd v [of Side_BUY] v [of Side_SELL] by (auto simp: trading_side_def)
  have inv: "ladder_inv b f {}" and idx: "oid_ok b (orders_of f)"
    and sizes: "pool_size (orders_at_price_pool b) = MATCHING_ENGINE_MAX_PRICE_LEVELS"
      "pool_size (order_pool b) = MATCHING_ENGINE_MAX_ORDER_IDS"
    using core by (simp_all add: mcore_def)
  have live: "levels_of f = live (orders_at_price_pool b)" "orders_of f = live (order_pool b)"
    using inv by (auto simp: ladder_inv_def)
  have room: "has_room (\<lambda>s. side_view b (f s))"
    using fit'(7) v [of Side_BUY] v [of Side_SELL] by (simp add: has_room_def)
  note room' = room [unfolded has_room_side [OF sd]]
  have room_o: "card (live (order_pool b)) + 2 \<le> pool_size (order_pool b)"
    using card_orders [OF sd, of f b] room' sizes live by simp
  have room_l: "card (live (orders_at_price_pool b)) + 2 \<le> pool_size (orders_at_price_pool b)"
    using card_levels [OF sd, of f b] room' sizes live by simp
  have none: "oid_to_order b (unat (mu_order_id u)) = None" by (rule oid_lookup(2) [OF core vf fit'(3)])
  obtain a pl where al: "allocate x (order_pool b) = Inr (a, pl)" and a: "a \<notin> orders_of f" "obj pl a = x"
    and inv0: "ladder_inv (b\<lparr>order_pool := pl\<rparr>) f {a}" and pl: "\<forall>c. c \<noteq> a \<longrightarrow> obj pl c = Ord b c"
      "pool_size pl = pool_size (order_pool b)"
    using ladder_inv_alloc [OF inv room_o, of x] by auto
  let ?b0 = "b\<lparr>order_pool := pl\<rparr>"
  have view0: "side_view ?b0 (f s) = side_view b (f s)" if "trading_side s" for s
    using a(1) pl(1) orders_of_side [OF that, of f] by (intro side_view_cong) auto
  have same: "obj pl c = Ord b c" if "c \<in> orders_of f" for c using that a(1) pl(1) by metis
  have slot: "l_price (L ?b0 l) = p \<and> l_side (L ?b0 l) = sd" if "getOrdersAtPrice ?b0 p = Some l" for l
    using that slot_level [OF inv sd _ free opp, of l] by (auto simp: getOrdersAtPrice_def)
  have tab: "\<And>k a. oid_to_order b k = Some a \<Longrightarrow> a \<in> orders_of f" using idx by (auto simp: oid_ok_def)
  have idx0: "oid_ok ?b0 (orders_of f)"
    using idx same tab unfolding oid_ok_def by simp
  have x: "o_side x = sd" "o_price x = p" "payload x = x" "mo_order_id x = mu_order_id u"
    by (simp_all add: x_def market_order_def sd_def p_def payload_def)
  obtain b' f' where r: "mb_addOrder (Some a) ?b0 = Inr b'" "mcore b' f'"
      "side_view b' (f' sd) = enqueue sd p x (side_view ?b0 (f sd))"
      "side_view b' (f' (opposite sd)) = side_view ?b0 (f (opposite sd))" "bbo b' = bbo b"
    using mb_addOrder_core [OF inv0 idx0 sd _ x(1,2,3) slot] a x sizes pl(2) room_l none fit'(2) by auto
  have "market_add u b = Inr b'"
    using none fit'(2) al r(1) by (simp add: market_add_def order_of_id_def x_def market_order_def)
  moreover have "side_view b' (f' s) = spec_update u v s" if s: "trading_side s" for s
  proof -
    have "s = sd \<or> s = opposite sd" using sd s by (auto simp: trading_side_def)
    moreover have "opposite sd \<noteq> sd" using sd by (auto simp: trading_side_def)
    ultimately show ?thesis
      using r(3,4) view0 sd s v ty by (auto simp: spec_update.simps x_def sd_def p_def)
  qed
  ultimately show ?thesis using r(2,5) by (auto simp: changed_def mrep_def)
qed

lemma map_orders_view:
  assumes "\<And>a. a \<in> orders_in ls \<Longrightarrow> payload (Ord b' a) = g (payload (Ord b a))"
    and "\<And>e. e \<in> set ls \<Longrightarrow> l_price (L b' (fst e)) = l_price (L b (fst e))"
  shows "side_view b' ls = map_orders g (side_view b ls)"
  using assms by (auto simp: side_view_def map_orders_def orders_in_def)

lemma market_modify_refines:
  assumes rep: "mrep b v" and ty: "mu_type u = MU_MODIFY" and fit: "fits u v"
  shows "\<exists>b'. market_modify u b = Inr b' \<and> changed b b' (spec_update u v)"
proof -
  let ?k = "mu_order_id u" and ?q = "mu_quantity u"
  obtain f where core: "mcore b f" and vf: "\<forall>s. trading_side s \<longrightarrow> v s = side_view b (f s)"
    using rep unfolding mrep_def by blast
  have v: "v s = side_view b (f s)" if "trading_side s" for s using vf that by blast
  have known: "known_id v ?k" using fit ty by (simp add: fits_def)
  obtain a where a: "a \<in> orders_of f" "oid_to_order b (unat ?k) = Some a" "mo_order_id (Ord b a) = ?k"
    using known unfolding oid_lookup(1) [OF core vf] by blast
  have k: "unat ?k < MATCHING_ENGINE_MAX_ORDER_IDS" by (rule oid_lookup(3) [OF core vf known])
  have inv: "ladder_inv b f {}" and idx: "oid_ok b (orders_of f)" using core by (simp_all add: mcore_def)
  let ?b = "b\<lparr>order_pool := set_obj a (\<lambda>w. w\<lparr>o_quantity := ?q\<rparr>) (order_pool b)\<rparr>"
  have inv': "ladder_inv ?b f {}"
    by (rule ladder_inv_same_orders [OF inv]) (use inv in \<open>auto simp: ladder_inv_def same_place_def\<close>)
  have ids: "mo_order_id (Ord ?b c) = mo_order_id (Ord b c)" for c by simp
  have "oid_ok ?b (orders_of f)" using idx unfolding oid_ok_def ids by simp
  with inv' core have "mcore ?b f" by (simp add: mcore_def)
  moreover have "payload (Ord ?b c) = with_quantity ?k ?q (payload (Ord b c))" if "c \<in> orders_of f" for c
    using oid_ok_unique [OF idx that a(1)] a(3) by (simp add: with_quantity_def payload_def)
  then have "side_view ?b (f s) = spec_update u v s" if "trading_side s" for s
    using orders_of_side [OF that, of f] v [OF that] ty
    by (subst map_orders_view [where b = b and g = "with_quantity ?k ?q"]) (auto simp: spec_update.simps)
  ultimately have "changed b ?b (spec_update u v)" by (auto simp: changed_def mrep_def)
  then show ?thesis using a(2) k by (simp add: market_modify_def order_of_id_def)
qed

lemma remove_where_no_match:
  assumes inv: "ladder_inv b f {}" and s: "trading_side s" and none: "\<forall>x \<in> set (all_orders (side_view b (f s))). \<not> P x"
  shows "remove_where P (side_view b (f s)) = side_view b (f s)"
  using none side_view_nonempty [of b s "f s"] inv s by (intro remove_where_none) (auto simp: ladder_inv_side)

lemma market_cancel_refines:
  assumes rep: "mrep b v" and ty: "mu_type u = MU_CANCEL" and fit: "fits u v"
  shows "\<exists>b'. market_cancel u b = Inr b' \<and> changed b b' (spec_update u v)"
proof -
  let ?k = "mu_order_id u"
  let ?P = "\<lambda>x :: MarketOrder. mo_order_id x = ?k"
  obtain f where core: "mcore b f" and vf: "\<forall>s. trading_side s \<longrightarrow> v s = side_view b (f s)"
    using rep unfolding mrep_def by blast
  have v: "v s = side_view b (f s)" if "trading_side s" for s using vf that by blast
  have known: "known_id v ?k" using fit ty by (simp add: fits_def)
  obtain a where a: "a \<in> orders_of f" "oid_to_order b (unat ?k) = Some a" "mo_order_id (Ord b a) = ?k"
    using known unfolding oid_lookup(1) [OF core vf] by blast
  have k: "unat ?k < MATCHING_ENGINE_MAX_ORDER_IDS" by (rule oid_lookup(3) [OF core vf known])
  have inv: "ladder_inv b f {}" and idx: "oid_ok b (orders_of f)" using core by (simp_all add: mcore_def)
  define sd where "sd = o_side (Ord b a)"
  have ain: "a \<in> orders_in (f sd)" unfolding sd_def by (rule order_in_side [OF inv a(1)])
  have sd: "trading_side sd" using order_side [OF inv a(1)] by (simp add: sd_def)
  obtain b' f' where r: "mb_removeOrder (Some a) b = Inr b'" "mcore b' f'"
      "side_view b' (f' sd) = remove_where ?P (side_view b (f sd))"
      "side_view b' (f' (opposite sd)) = side_view b (f (opposite sd))" "bbo b' = bbo b"
    using mb_removeOrder_core [OF core sd ain refl] unfolding a(3) by blast
  have opp: "trading_side (opposite sd)" using sd by simp
  have "c \<noteq> a" if "c \<in> orders_in (f (opposite sd))" for c
    using that ain orders_apart_sides [OF inv sd] by blast
  then have "\<forall>x \<in> set (all_orders (side_view b (f (opposite sd)))). \<not> ?P x"
    using oid_ok_unique [OF idx _ a(1)] a(3) orders_of_side [OF sd, of f] by (auto simp: side_view_orders)
  then have "remove_where ?P (side_view b (f (opposite sd))) = side_view b (f (opposite sd))"
    by (rule remove_where_no_match [OF inv opp])
  then have "side_view b' (f' s) = spec_update u v s" if s: "trading_side s" for s
  proof -
    have "s = sd \<or> s = opposite sd" using sd s by (auto simp: trading_side_def)
    then show ?thesis using r(3,4) \<open>remove_where ?P _ = _\<close> v [OF s] ty by (auto simp: spec_update.simps)
  qed
  then have "changed b b' (spec_update u v)" using r(2,5) by (auto simp: changed_def mrep_def)
  then show ?thesis using a(2) k r(1) by (simp add: market_cancel_def order_of_id_def)
qed

end
