(* ===== verification/MarketBBO.thy ===== *)
theory MarketBBO
  imports MarketBookRefine
begin

section \<open>The client's best bid and offer\<close>

text \<open>
  What \<open>updateBBO\<close> computes, on lists; \<open>onMarketUpdate\<close> as a whole; and when the best bid and offer it
  keeps is the one of the book.
\<close>

subsection \<open>The quantity of a level\<close>

abbreviation total_quantity :: "MarketOrder list \<Rightarrow> Quantity" where
  "total_quantity xs \<equiv> sum_list (map o_quantity xs)"

lemma sum_ring_chain:
  assumes "chain (onx b) pv (x # xs @ [h])" and "h \<notin> set (x # xs)" and "length (x # xs) \<le> fuel"
  shows "sum_ring fuel (Some h) (Some x) acc b = Inr (acc + total_quantity (map (Ord b) (x # xs)))"
  using assms
proof (induction xs arbitrary: x fuel acc)
  case Nil
  then obtain n where n: "fuel = Suc n" by (cases fuel) auto
  show ?case using Nil n by (simp add: sum_ring.simps [of "Suc n"] sum_ring.simps [of n "Some h" "Some h"])
next
  case (Cons y ys)
  then obtain n where n: "fuel = Suc n" by (cases fuel) auto
  have "sum_ring n (Some h) (Some y) (acc + o_quantity (Ord b x)) b =
      Inr (acc + o_quantity (Ord b x) + total_quantity (map (Ord b) (y # ys)))"
    by (rule Cons.IH) (use Cons.prems n in auto)
  then show ?case using Cons.prems n by (simp add: sum_ring.simps [of "Suc n"] add.assoc)
qed

lemma level_quantity_ok:
  assumes side: "side_ok b sd ls" and l: "(l, qs) \<in> set ls" and sub: "set qs \<subseteq> live (order_pool b)"
  shows "level_quantity (L b l) b = Inr (total_quantity (map (\<lambda>a. payload (Ord b a)) qs))"
proof -
  have ring: "ring (onx b) (opv b) qs" and first: "first_order (L b l) = Some (hd qs)"
    using side_okD [OF side l] by simp_all
  then obtain a as where qs: "qs = a # as" by (cases qs) (auto simp: ring_def)
  have "length qs \<le> pool_size (order_pool b)"
    using card_mono [OF finite_lessThan [of "pool_size (order_pool b)"], of "set qs"] sub ring
    by (simp add: distinct_card ring_def live_def subset_iff)
  moreover have "onx b a = Some (case as of [] \<Rightarrow> a | c # _ \<Rightarrow> c)"
    using ring_nx [of "onx b" "opv b" "[]" a as] ring qs by (cases as) simp_all
  moreover have "total_quantity (map (\<lambda>a. payload (Ord b a)) cs) = total_quantity (map (Ord b) cs)" for cs
    by (simp add: comp_def)
  moreover have "chain (onx b) (opv b) (a # as @ [a])" "a \<notin> set as" using ring qs by (simp_all add: ring_def)
  ultimately show ?thesis
  proof (cases as)
    case Nil
    then show ?thesis using first qs \<open>onx b a = _\<close> by (simp add: level_quantity_def sum_ring.simps)
  next
    case (Cons c cs)
    have "sum_ring (pool_size (order_pool b)) (Some a) (Some c) (o_quantity (Ord b a)) b =
        Inr (o_quantity (Ord b a) + total_quantity (map (Ord b) (c # cs)))"
      by (rule sum_ring_chain) (use \<open>chain _ _ _\<close> \<open>a \<notin> set as\<close> \<open>length qs \<le> _\<close> qs Cons in auto)
    then show ?thesis
      using first qs Cons \<open>onx b a = _\<close> by (simp add: level_quantity_def comp_def)
  qed
qed

fun side_best :: "MarketOrder book_side \<Rightarrow> Price \<times> Quantity" where
  "side_best [] = (PRICE_INVALID, QUANTITY_INVALID)"
| "side_best ((p, xs) # ls) = (p, total_quantity xs)"

lemma best_of_side_ok:
  assumes core: "mcore b f" and sd: "trading_side sd"
  shows "best_of_side (best_of sd b) b = Inr (side_best (side_view b (f sd)))"
proof -
  have inv: "ladder_inv b f {}" using core by (simp add: mcore_def)
  have side: "side_ok b sd (f sd)" using inv by (simp add: ladder_inv_side [OF sd])
  have live: "orders_of f = live (order_pool b)" using inv by (auto simp: ladder_inv_def)
  show ?thesis
  proof (cases "f sd")
    case Nil
    then show ?thesis using side by (simp add: best_of_side_def side_ok_def)
  next
    case (Cons e vs)
    obtain l qs where e: "e = (l, qs)" by (cases e)
    have "level_quantity (L b l) b = Inr (total_quantity (map (\<lambda>a. payload (Ord b a)) qs))"
      using Cons e live orders_of_side [OF sd, of f] by (intro level_quantity_ok [OF side]) auto
    moreover have "best_of sd b = Some l" using side Cons e by (simp add: side_ok_def)
    ultimately show ?thesis using Cons e by (simp add: best_of_side_def)
  qed
qed

subsection \<open>A market update\<close>

fun bbo_side :: "Side \<Rightarrow> BBO \<Rightarrow> Price \<times> Quantity" where
  "bbo_side Side_BUY x = (best_bid_price x, best_bid_quantity x)"
| "bbo_side sd x = (best_ask_price x, best_ask_quantity x)"

definition touches :: "MatchingEngineMarketUpdate \<Rightarrow> market_book \<Rightarrow> Side \<Rightarrow> bool" where
  "touches u v sd \<longleftrightarrow> mu_side u = sd \<and> v sd \<noteq> [] \<and> \<not> better sd (fst (hd (v sd))) (mu_price u)"

lemma best_ptr: "best_of Side_BUY b = bids_by_price b" "best_of Side_SELL b = asks_by_price b"
  by (simp_all add: best_of_def)

lemma updated_flags:
  assumes core: "mcore b f" and v: "\<forall>sd. trading_side sd \<longrightarrow> v sd = side_view b (f sd)"
  shows "bid_updated u b = Inr (touches u v Side_BUY)" "ask_updated u b = Inr (touches u v Side_SELL)"
proof -
  have best: "best_of sd b = (if f sd = [] then None else Some (fst (hd (f sd))))"
      "v sd \<noteq> [] \<longleftrightarrow> f sd \<noteq> []" "f sd \<noteq> [] \<Longrightarrow> fst (hd (v sd)) = l_price (L b (fst (hd (f sd))))"
    if sd: "trading_side sd" for sd
    using core v sd by (auto simp: mcore_def ladder_inv_side [OF sd] side_ok_def side_view_def hd_map)
  from best [of Side_BUY, unfolded best_ptr] best [of Side_SELL, unfolded best_ptr]
  show "bid_updated u b = Inr (touches u v Side_BUY)" "ask_updated u b = Inr (touches u v Side_SELL)"
    by (auto simp: bid_updated_def ask_updated_def touches_def better_def)
qed

lemma sum_ring_bbo: "sum_ring fuel first order acc (b\<lparr>bbo := x\<rparr>) = sum_ring fuel first order acc b"
proof (induction fuel arbitrary: order acc)
  case 0
  show ?case by (simp add: sum_ring.simps [of 0])
next
  case (Suc fuel)
  have "ord_at (b\<lparr>bbo := x\<rparr>) order = ord_at b order" by (simp add: ord_at_def)
  then show ?case unfolding sum_ring.simps [of "Suc fuel"] by (simp only: nat.case Suc.IH)
qed

lemma updateBBO_ok:
  assumes core: "mcore b f" and v: "\<forall>sd. trading_side sd \<longrightarrow> v sd = side_view b (f sd)"
  shows "\<exists>x. updateBBO bid ask b = Inr (b\<lparr>bbo := x\<rparr>) \<and>
    bbo_side Side_BUY x = (if bid then side_best (v Side_BUY) else bbo_side Side_BUY (bbo b)) \<and>
    bbo_side Side_SELL x = (if ask then side_best (v Side_SELL) else bbo_side Side_SELL (bbo b))"
proof -
  have best: "best_of_side (bids_by_price b) b = Inr (side_best (v Side_BUY))"
      "best_of_side (asks_by_price b) b = Inr (side_best (v Side_SELL))"
    using best_of_side_ok [OF core, of Side_BUY] best_of_side_ok [OF core, of Side_SELL] v
    by (simp_all add: best_ptr)
  have frame: "best_of_side p (b\<lparr>bbo := x\<rparr>) = best_of_side p b" for p x
    by (simp add: best_of_side_def level_quantity_def lvl_at_def ord_at_def sum_ring_bbo)
  obtain bp bq where bid: "side_best (v Side_BUY) = (bp, bq)" by (cases "side_best (v Side_BUY)")
  obtain ap aq where ask: "side_best (v Side_SELL) = (ap, aq)" by (cases "side_best (v Side_SELL)")
  define x where "x = (let y = (if bid then (bbo b)\<lparr>best_bid_price := bp, best_bid_quantity := bq\<rparr> else bbo b)
    in if ask then y\<lparr>best_ask_price := ap, best_ask_quantity := aq\<rparr> else y)"
  have "updateBBO bid ask b = Inr (b\<lparr>bbo := x\<rparr>)"
    using best bid ask frame by (cases bid; cases ask) (simp_all add: updateBBO_def x_def)
  moreover have "bbo_side Side_BUY x = (if bid then (bp, bq) else bbo_side Side_BUY (bbo b))"
    "bbo_side Side_SELL x = (if ask then (ap, aq) else bbo_side Side_SELL (bbo b))"
    by (simp_all add: x_def Let_def)
  ultimately show ?thesis unfolding bid ask by blast
qed

text \<open>A market update on a book that can follow it: the lists change as prescribed, the touched side's best is read anew.\<close>

definition bbo_after :: "MatchingEngineMarketUpdate \<Rightarrow> market_book \<Rightarrow> Side \<Rightarrow> BBO \<Rightarrow> Price \<times> Quantity" where
  "bbo_after u v sd x =
     (if touches u v sd \<and> mu_type u \<noteq> MU_TRADE then side_best (spec_update u v sd) else bbo_side sd x)"

definition event_of :: "MatchingEngineMarketUpdate \<Rightarrow> book_event" where
  "event_of u = (if mu_type u = MU_TRADE then TradeUpdate u else OrderBookUpdate (mu_ticker_id u) (mu_price u) (mu_side u))"

lemma market_switch_refines:
  assumes "mrep b v" and "fits u v"
  shows "\<exists>b'. market_switch u b = Inr b' \<and> changed b b' (spec_update u v)"
  using market_add_refines [OF assms(1) _ assms(2)] market_modify_refines [OF assms(1) _ assms(2)]
    market_cancel_refines [OF assms(1) _ assms(2)] assms
  by (cases "mu_type u") (simp_all add: market_switch_def changed_def spec_update.simps fits_def)

lemma market_update_core:
  assumes rep: "mrep b v" and fit: "fits u v"
  shows "\<exists>b'. onMarketUpdate u b = Inr (b', event_of u) \<and> mrep b' (spec_update u v) \<and>
    (\<forall>sd. trading_side sd \<longrightarrow> bbo_side sd (bbo b') = bbo_after u v sd (bbo b))"
proof -
  obtain f where core: "mcore b f" and v: "\<forall>s. trading_side s \<longrightarrow> v s = side_view b (f s)"
    using rep unfolding mrep_def by blast
  note flags = updated_flags [OF core v]
  show ?thesis
  proof (cases "mu_type u = MU_TRADE")
    case True
    then show ?thesis
      using rep flags by (auto simp: onMarketUpdate_def event_of_def spec_update.simps bbo_after_def)
  next
    case False
    obtain b1 where b1: "market_switch u b = Inr b1" "mrep b1 (spec_update u v)" "bbo b1 = bbo b"
      using market_switch_refines [OF rep fit] by (auto simp: changed_def)
    then obtain f1 where core1: "mcore b1 f1" and v1: "\<forall>s. trading_side s \<longrightarrow> spec_update u v s = side_view b1 (f1 s)"
      unfolding mrep_def by blast
    obtain x where x: "updateBBO (touches u v Side_BUY) (touches u v Side_SELL) b1 = Inr (b1\<lparr>bbo := x\<rparr>)"
        "bbo_side Side_BUY x = bbo_after u v Side_BUY (bbo b)" "bbo_side Side_SELL x = bbo_after u v Side_SELL (bbo b)"
      using updateBBO_ok [OF core1 v1, of "touches u v Side_BUY" "touches u v Side_SELL"] b1(3) False
      by (auto simp: bbo_after_def)
    then show ?thesis
      using b1 False flags by (auto simp: onMarketUpdate_def event_of_def trading_side_def)
  qed
qed

subsection \<open>When the best bid and offer is right\<close>

lemma mrep_facts:
  assumes rep: "mrep b v" and sd: "trading_side sd"
  shows "sorted_wrt (better sd) (map fst (v sd))"
    "(p, xs) \<in> set (v sd) \<Longrightarrow> xs \<noteq> []"
    "(p, xs) \<in> set (v sd) \<Longrightarrow> x \<in> set xs \<Longrightarrow> o_side x = sd \<and> o_price x = p \<and> x \<in> set (market_orders v)"
proof -
  obtain f where core: "mcore b f" and v: "\<forall>s. trading_side s \<longrightarrow> v s = side_view b (f s)"
    using rep unfolding mrep_def by blast
  have side: "side_ok b sd (f sd)" using core sd by (simp add: mcore_def ladder_inv_side [OF sd])
  show "sorted_wrt (better sd) (map fst (v sd))" using side_view_sorted [OF side] v sd by simp
  show "xs \<noteq> []" if "(p, xs) \<in> set (v sd)" using that side_view_nonempty [OF side, of "(p, xs)"] v sd by auto
  show "o_side x = sd \<and> o_price x = p \<and> x \<in> set (market_orders v)" if e: "(p, xs) \<in> set (v sd)" and x: "x \<in> set xs"
  proof -
    have "x \<in> set (all_orders (v sd))" using e x by (force simp: all_orders_def)
    then have "x \<in> set (market_orders v)" using sd by (auto simp: market_orders_def trading_side_def)
    then show ?thesis using e x v sd side_okD(5) [OF side] by (auto simp: side_view_def)
  qed
qed

lemma mrep_unique:
  assumes "mrep b v" and "x \<in> set (market_orders v)" and "y \<in> set (market_orders v)" and "mo_order_id x = mo_order_id y"
  shows "x = y"
proof -
  obtain f where core: "mcore b f" and v: "\<forall>s. trading_side s \<longrightarrow> v s = side_view b (f s)"
    using assms(1) unfolding mrep_def by blast
  then have "oid_ok b (orders_of f)" by (simp add: mcore_def)
  from oid_ok_unique [OF this] show ?thesis using assms(2-4) by (auto simp: market_orders_view [OF v])
qed

text \<open>A change or a removal names an order by its identifier, and agrees with it on side and price.\<close>

definition names_its_order :: "MatchingEngineMarketUpdate \<Rightarrow> market_book \<Rightarrow> bool" where
  "names_its_order u v \<longleftrightarrow> (mu_type u = MU_MODIFY \<or> mu_type u = MU_CANCEL \<longrightarrow>
     (\<exists>x \<in> set (market_orders v). mo_order_id x = mu_order_id u \<and> o_side x = mu_side u \<and> o_price x = mu_price u))"

lemma map_orders_Cons [simp]: "map_orders g [] = []" "map_orders g ((p, xs) # ls) = (p, map g xs) # map_orders g ls"
  by (simp_all add: map_orders_def)

text \<open>An update that touches neither the side nor its best level leaves the best as it is.\<close>

lemma untouched_level:
  assumes "\<forall>x \<in> set xs. mo_order_id x \<noteq> k" and "xs \<noteq> []"
  shows "side_best (map_orders (with_quantity k q) ((p, xs) # ls)) = side_best ((p, xs) # ls)"
    "side_best (remove_where (\<lambda>x. mo_order_id x = k) ((p, xs) # ls)) = side_best ((p, xs) # ls)"
proof -
  have "map (with_quantity k q) xs = xs" using assms(1) by (auto simp: with_quantity_def intro: map_idI)
  then show "side_best (map_orders (with_quantity k q) ((p, xs) # ls)) = side_best ((p, xs) # ls)" by simp
  have "filter (\<lambda>x. mo_order_id x \<noteq> k) xs = xs" using assms(1) by (simp add: filter_id_conv)
  then show "side_best (remove_where (\<lambda>x. mo_order_id x = k) ((p, xs) # ls)) = side_best ((p, xs) # ls)"
    using assms(2) by simp
qed

lemma side_best_untouched:
  assumes rep: "mrep b v" and sd: "trading_side sd" and fit: "fits u v" and names: "names_its_order u v"
    and un: "\<not> touches u v sd" and first: "mu_type u = MU_ADD \<Longrightarrow> mu_side u = sd \<Longrightarrow> v sd \<noteq> []"
  shows "side_best (spec_update u v sd) = side_best (v sd)"
proof (cases "v sd")
  case Nil
  then show ?thesis using first by (cases "mu_type u") (auto simp: spec_update.simps)
next
  case (Cons e ls)
  obtain p xs where e: "e = (p, xs)" by (cases e)
  have worse: "mu_side u = sd \<Longrightarrow> better sd p (mu_price u)" using un Cons e by (simp add: touches_def)
  show ?thesis
  proof (cases "mu_type u = MU_MODIFY \<or> mu_type u = MU_CANCEL")
    case True
    with names obtain x where x: "x \<in> set (market_orders v)" "mo_order_id x = mu_order_id u"
        "o_side x = mu_side u" "o_price x = mu_price u" by (auto simp: names_its_order_def)
    have "mo_order_id y \<noteq> mu_order_id u" if y: "y \<in> set xs" for y
    proof
      assume id: "mo_order_id y = mu_order_id u"
      have "o_side y = sd \<and> o_price y = p \<and> y \<in> set (market_orders v)"
        using mrep_facts(3) [OF rep sd _ y, of p] Cons e by simp
      moreover from this have "y = x" using mrep_unique [OF rep] x(1,2) id by metis
      ultimately show False using x(3,4) worse by (auto simp: better_def split: if_splits)
    qed
    moreover have "xs \<noteq> []" using mrep_facts(2) [OF rep sd, of p xs] Cons e by simp
    ultimately have "side_best (map_orders (with_quantity (mu_order_id u) (mu_quantity u)) (v sd)) = side_best (v sd)"
      "side_best (remove_where (\<lambda>x. mo_order_id x = mu_order_id u) (v sd)) = side_best (v sd)"
      unfolding Cons e by (blast intro: untouched_level)+
    then show ?thesis using True by (auto simp: spec_update.simps)
  next
    case False
    then show ?thesis
      using Cons e worse by (cases "mu_type u") (auto simp: spec_update.simps better_def split: if_splits)
  qed
qed

end
