(* ===== verification/MarketClear.thy ===== *)
theory MarketClear
  imports MarketBBO
begin

section \<open>Clearing the client's book\<close>

text \<open>
  \<open>CLEAR\<close> releases all orders and levels and empties the two sides and the index, but leaves the table of
  price levels as it was. This theory computes the cleared book, and what the next \<open>ADD\<close> does to it.
\<close>

subsection \<open>Releasing a list of objects\<close>

lemma deallocate_list:
  assumes "pool_inv p" and "distinct as" and "set as \<subseteq> live p"
  shows "\<exists>p'. fold_res (\<lambda>a. deallocate (Some a)) as p = Inr p' \<and> pool_inv p' \<and> pool_size p' = pool_size p \<and>
    live p' = live p - set as \<and> (\<forall>j. obj p' j = obj p j) \<and> next_free_index p' = next_free_index p"
  using assms
proof (induction as arbitrary: p)
  case (Cons a as)
  obtain p1 where p1: "deallocate (Some a) p = Inr p1" "pool_inv p1" "pool_size p1 = pool_size p"
      "live p1 = live p - {a}" "\<forall>j. obj p1 j = obj p j" "next_free_index p1 = next_free_index p"
    using deallocate_ok [of p a] Cons.prems by auto
  obtain p' where p': "fold_res (\<lambda>a. deallocate (Some a)) as p1 = Inr p'" "pool_inv p'" "pool_size p' = pool_size p1"
      "live p' = live p1 - set as" "\<forall>j. obj p' j = obj p1 j" "next_free_index p' = next_free_index p1"
    using Cons.IH [of p1] Cons.prems p1 by auto
  then show ?case using p1 by (intro exI [of _ p']) auto
qed simp

lemma indexed_orders:
  assumes idx: "oid_ok b A"
  defines "as \<equiv> List.map_filter (oid_to_order b) [0..<MATCHING_ENGINE_MAX_ORDER_IDS]"
  shows "distinct as" "set as = A"
proof -
  have inj: "k = k'" if "oid_to_order b k = Some a" "oid_to_order b k' = Some a" for k k' a
    using that idx unfolding oid_ok_def by metis
  have "distinct (List.map_filter (oid_to_order b) ks)" if "distinct ks" for ks
    using that
  proof (induction ks)
    case (Cons k ks)
    then show ?case using inj
      by (cases "oid_to_order b k") (auto simp: List.map_filter_def, metis option.sel)
  qed (simp add: List.map_filter_def)
  then show "distinct as" by (simp add: as_def)
  have "a \<in> set as \<longleftrightarrow> (\<exists>k < MATCHING_ENGINE_MAX_ORDER_IDS. oid_to_order b k = Some a)" for a
    by (force simp: as_def List.map_filter_def)
  then show "set as = A" using idx unfolding oid_ok_def by blast
qed

subsection \<open>Releasing the levels of a side\<close>

lemma deallocate_levels_ring:
  assumes "chain (lnx b) pv (xs @ [l])" and "l \<notin> set xs" and "distinct xs" and "insert l (set xs) \<subseteq> live (orders_at_price_pool b)"
    and "pool_inv (orders_at_price_pool b)" and "length xs \<le> fuel"
  shows "\<exists>pl. deallocate_levels fuel l (Some (hd (xs @ [l]))) b = Inr (b\<lparr>orders_at_price_pool := pl\<rparr>) \<and>
    pool_inv pl \<and> pool_size pl = pool_size (orders_at_price_pool b) \<and>
    live pl = live (orders_at_price_pool b) - insert l (set xs) \<and> (\<forall>j. obj pl j = L b j)"
  using assms
proof (induction xs arbitrary: b fuel)
  case Nil
  then show ?case
    using deallocate_ok [of "orders_at_price_pool b" l] by (auto simp: deallocate_levels.simps)
next
  case (Cons x xs)
  then obtain n where n: "fuel = Suc n" by (cases fuel) auto
  obtain pl where pl: "deallocate (Some x) (orders_at_price_pool b) = Inr pl" "pool_inv pl"
      "pool_size pl = pool_size (orders_at_price_pool b)" "live pl = live (orders_at_price_pool b) - {x}" "\<forall>j. obj pl j = L b j"
    using deallocate_ok [of "orders_at_price_pool b" x] Cons.prems by auto
  let ?b = "b\<lparr>orders_at_price_pool := pl\<rparr>"
  have nx: "lnx b x = Some (hd (xs @ [l]))" using Cons.prems(1) by (cases xs) auto
  have "\<exists>pl'. deallocate_levels n l (Some (hd (xs @ [l]))) ?b = Inr (?b\<lparr>orders_at_price_pool := pl'\<rparr>) \<and>
      pool_inv pl' \<and> pool_size pl' = pool_size pl \<and> live pl' = live pl - insert l (set xs) \<and> (\<forall>j. obj pl' j = obj pl j)"
    using Cons.IH [of ?b n] Cons.prems pl n by (cases xs) auto
  then show ?case
    using Cons.prems n pl nx by (auto simp: deallocate_levels.simps [of "Suc n"])
qed

lemma deallocate_side_ok:
  assumes side: "side_ok b sd ls" and live: "fst ` set ls \<subseteq> live (orders_at_price_pool b)" and inv: "pool_inv (orders_at_price_pool b)"
  shows "\<exists>pl. deallocate_side (best_of sd b) b = Inr (b\<lparr>orders_at_price_pool := pl\<rparr>) \<and>
    pool_inv pl \<and> pool_size pl = pool_size (orders_at_price_pool b) \<and>
    live pl = live (orders_at_price_pool b) - fst ` set ls \<and> (\<forall>j. obj pl j = L b j)"
proof (cases ls)
  case Nil
  then show ?thesis
    using side inv by (auto simp: deallocate_side_def side_ok_def intro!: exI [of _ "orders_at_price_pool b"])
next
  case (Cons e es)
  obtain l qs where e: "e = (l, qs)" by (cases e)
  have ring: "ring (lnx b) (lpv b) (l # map fst es)" using side Cons e by (simp add: side_ok_def)
  have chain: "chain (lnx b) (lpv b) (map fst es @ [l])" "lnx b l = Some (hd (map fst es @ [l]))"
    using ring by (cases es; simp add: ring_def)+
  have "length (map fst ls) \<le> pool_size (orders_at_price_pool b)"
    using card_mono [OF finite_lessThan [of "pool_size (orders_at_price_pool b)"], of "set (map fst ls)"] live
      distinct_card [OF side_ok_distinct [OF side]] by (auto simp: live_def subset_iff)
  then obtain pl where "deallocate_levels (pool_size (orders_at_price_pool b)) l (Some (hd (map fst es @ [l]))) b =
      Inr (b\<lparr>orders_at_price_pool := pl\<rparr>)" "pool_inv pl" "pool_size pl = pool_size (orders_at_price_pool b)"
      "live pl = live (orders_at_price_pool b) - insert l (set (map fst es))" "\<forall>j. obj pl j = L b j"
    using deallocate_levels_ring [OF chain(1), of "pool_size (orders_at_price_pool b)"] ring live inv Cons e
    by (auto simp: ring_def)
  then show ?thesis
    using side Cons e chain(2) by (auto simp: deallocate_side_def side_ok_def)
qed

subsection \<open>The cleared book\<close>

definition cleared :: "market_order_book \<Rightarrow> market_order_book \<Rightarrow> bool" where
  "cleared b b' \<longleftrightarrow>
     bids_by_price b' = None \<and> asks_by_price b' = None \<and> oid_to_order b' = (\<lambda>_. None) \<and>
     live (order_pool b') = {} \<and> live (orders_at_price_pool b') = {} \<and>
     pool_inv (order_pool b') \<and> pool_inv (orders_at_price_pool b') \<and>
     pool_size (order_pool b') = MATCHING_ENGINE_MAX_ORDER_IDS \<and>
     pool_size (orders_at_price_pool b') = MATCHING_ENGINE_MAX_PRICE_LEVELS \<and>
     price_orders_at_price b' = price_orders_at_price b \<and> bbo b' = bbo b \<and> mb_ticker_id b' = mb_ticker_id b \<and>
     (\<forall>j. L b' j = L b j) \<and> (\<forall>j. Ord b' j = Ord b j) \<and>
     next_free_index (order_pool b') = next_free_index (order_pool b)"

lemma side_ok_same:
  assumes "\<And>j. L b' j = L b j" and "\<And>j. Ord b' j = Ord b j" and "best_of sd b' = best_of sd b"
    and "price_orders_at_price b' = price_orders_at_price b"
  shows "side_ok b' sd ls = side_ok b sd ls"
  unfolding side_ok_def level_ok_def using assms by simp

lemma clear_ok:
  assumes core: "mcore b f"
  shows "\<exists>b'. clear b = Inr b' \<and> cleared b b'"
proof -
  have inv: "ladder_inv b f {}" and idx: "oid_ok b (orders_of f)"
    and sizes: "pool_size (orders_at_price_pool b) = MATCHING_ENGINE_MAX_PRICE_LEVELS"
      "pool_size (order_pool b) = MATCHING_ENGINE_MAX_ORDER_IDS"
    using core by (simp_all add: mcore_def)
  have pools: "live (order_pool b) = orders_of f" "live (orders_at_price_pool b) = levels_of f"
      "pool_inv (order_pool b)" "pool_inv (orders_at_price_pool b)"
    using inv by (auto simp: ladder_inv_def)
  obtain pl where pl: "deallocate_orders b = Inr (b\<lparr>order_pool := pl\<rparr>)" "pool_inv pl"
      "pool_size pl = pool_size (order_pool b)" "live pl = {}" "\<forall>j. obj pl j = Ord b j"
      "next_free_index pl = next_free_index (order_pool b)"
    using deallocate_list [OF pools(3) indexed_orders(1) [OF idx]] indexed_orders(2) [OF idx] pools(1)
    by (auto simp: deallocate_orders_def)
  let ?b2 = "b\<lparr>order_pool := pl, oid_to_order := (\<lambda>_. None)\<rparr>"
  have ok2: "side_ok ?b2 sd (f sd)" if "trading_side sd" for sd
  proof -
    have "side_ok b sd (f sd)" using inv that by (simp add: ladder_inv_side)
    then show ?thesis by (subst side_ok_same [where b = b]) (simp_all add: pl(5) best_of_def)
  qed
  have lev: "levels_of f = fst ` set (f Side_BUY) \<union> fst ` set (f Side_SELL)" by (simp add: levels_of_def)
  obtain pl3 where pl3: "deallocate_side (bids_by_price ?b2) ?b2 = Inr (?b2\<lparr>orders_at_price_pool := pl3\<rparr>)"
      "pool_inv pl3" "pool_size pl3 = pool_size (orders_at_price_pool b)"
      "live pl3 = levels_of f - fst ` set (f Side_BUY)" "\<forall>j. obj pl3 j = L b j"
    using deallocate_side_ok [OF ok2 [of Side_BUY]] pools lev by (auto simp: best_of_def)
  let ?b3 = "?b2\<lparr>orders_at_price_pool := pl3\<rparr>"
  have "side_ok ?b3 Side_SELL (f Side_SELL)"
    using ok2 [of Side_SELL] pl3(5) by (subst side_ok_same [where b = "?b2"]) (simp_all add: best_of_def)
  moreover have "live pl3 = fst ` set (f Side_SELL)"
    using levels_apart [OF inv, of Side_BUY] pl3(4) lev by auto
  ultimately obtain pl4 where pl4: "deallocate_side (asks_by_price ?b3) ?b3 = Inr (?b3\<lparr>orders_at_price_pool := pl4\<rparr>)"
      "pool_inv pl4" "pool_size pl4 = pool_size (orders_at_price_pool b)" "live pl4 = {}" "\<forall>j. obj pl4 j = L b j"
    using deallocate_side_ok [of ?b3 Side_SELL "f Side_SELL"] pl3(2,3,5) by (auto simp: best_of_def)
  have "clear b = Inr (?b3\<lparr>orders_at_price_pool := pl4, bids_by_price := None, asks_by_price := None\<rparr>)"
    unfolding clear_def using pl(1) pl3(1) pl4(1) by (simp add: Let_def)
  then show ?thesis using pl pl4 sizes by (auto simp: cleared_def)
qed

lemma clear_update_cleared:
  assumes rep: "mrep b v" and ty: "mu_type u = MU_CLEAR" and sd: "mu_side u = Side_INVALID"
  shows "\<exists>b'. onMarketUpdate u b = Inr (b', event_of u) \<and> cleared b b'"
proof -
  obtain f where core: "mcore b f" and v: "\<forall>s. trading_side s \<longrightarrow> v s = side_view b (f s)"
    using rep unfolding mrep_def by blast
  obtain b' where "clear b = Inr b'" "cleared b b'" using clear_ok [OF core] by blast
  then show ?thesis
    using updated_flags [OF core v, of u] ty sd
    by (auto simp: onMarketUpdate_def market_switch_def event_of_def touches_def updateBBO_def)
qed

text \<open>A book that has never held an order is as good as new after a \<open>CLEAR\<close>.\<close>

lemma cleared_empty:
  assumes "cleared b b'" and "price_orders_at_price b = (\<lambda>_. None)"
  shows "mrep b' (\<lambda>_. [])"
proof -
  have "mcore b' (\<lambda>_. [])"
    using assms by (simp add: cleared_def mcore_def ladder_inv_def side_ok_def slots_ok_def levels_of_def
        orders_of_def oid_ok_def best_of_def)
  then show ?thesis by (auto simp: mrep_def)
qed

subsection \<open>An order at a price the cleared book had\<close>

lemma stale_level:
  assumes core: "mcore b f" and l: "getOrdersAtPrice b p = Some l"
  obtains h t where "first_order (L b l) = Some h" and "prev_order (Ord b h) = Some t"
    and "h \<in> live (order_pool b)" and "t \<in> live (order_pool b)"
proof -
  have inv: "ladder_inv b f {}" using core by (simp add: mcore_def)
  have "l \<in> levels_of f" using l inv by (auto simp: ladder_inv_def slots_ok_def getOrdersAtPrice_def)
  from level_in_side [OF inv this] obtain sd qs where sd: "trading_side sd" "(l, qs) \<in> set (f sd)" by blast
  have side: "side_ok b sd (f sd)" using inv sd(1) by (simp add: ladder_inv_side)
  have ring: "ring (onx b) (opv b) qs" "first_order (L b l) = Some (hd qs)" using side_okD [OF side sd(2)] by simp_all
  have "set qs \<subseteq> orders_of f" using orders_of_side [OF sd(1), of f] sd(2) by (auto simp: orders_in_def)
  moreover have "orders_of f = live (order_pool b)" using inv by (auto simp: ladder_inv_def)
  moreover have "hd qs \<in> set qs" "last qs \<in> set qs" using ring(1) by (simp_all add: ring_def)
  ultimately show ?thesis
    using that [of "hd qs" "last qs"] ring(2) ring_pv_hd [OF ring(1)] by blast
qed

lemma stale_add:
  assumes core: "mcore b f" and cl: "cleared b b1" and l: "getOrdersAtPrice b (mu_price u) = Some l"
    and ty: "mu_type u = MU_ADD" and k: "unat (mu_order_id u) < MATCHING_ENGINE_MAX_ORDER_IDS"
  shows "\<exists>b2 a. onMarketUpdate u b1 = Inr (b2, event_of u) \<and> bids_by_price b2 = None \<and> asks_by_price b2 = None \<and>
    oid_to_order b2 (unat (mu_order_id u)) = Some a \<and> bbo b2 = bbo b"
proof -
  obtain h t where h: "first_order (L b l) = Some h" "prev_order (Ord b h) = Some t"
      "h \<in> live (order_pool b)" "t \<in> live (order_pool b)" by (rule stale_level [OF core l])
  have c: "bids_by_price b1 = None" "asks_by_price b1 = None" "oid_to_order b1 = (\<lambda>_. None)" "bbo b1 = bbo b"
      "price_orders_at_price b1 = price_orders_at_price b" "\<And>j. L b1 j = L b j" "\<And>j. Ord b1 j = Ord b j"
      "pool_inv (order_pool b1)" "card (live (order_pool b1)) + 2 \<le> pool_size (order_pool b1)"
    using cl by (auto simp: cleared_def limit_defs)
  define a where "a = next_free_index (order_pool b1)"
  have "a = next_free_index (order_pool b)" using cl by (simp add: cleared_def a_def)
  moreover have "next_free_index (order_pool b) \<notin> live (order_pool b)"
    using core by (auto simp: mcore_def ladder_inv_def pool_inv_def live_def)
  ultimately have apart: "a \<noteq> h" "a \<noteq> t" using h by auto
  obtain pl where al: "allocate (market_order u) (order_pool b1) = Inr (a, pl)" "obj pl a = market_order u"
      "\<forall>j. j \<noteq> a \<longrightarrow> obj pl j = Ord b1 j"
    using allocate_ok [OF c(8,9), of "market_order u"] unfolding a_def by blast
  let ?b = "b1\<lparr>order_pool := pl\<rparr>"
  have slot: "getOrdersAtPrice ?b (mu_price u) = Some l" using l c(5) by (simp add: getOrdersAtPrice_def)
  obtain pl' where link: "link_order (Some a) ?b = Inr (?b\<lparr>order_pool := pl'\<rparr>)"
      "mo_order_id (obj pl' a) = mu_order_id u"
    using slot al h apart c by (auto simp: link_order_def market_order_def Let_def)
  let ?b2 = "?b\<lparr>order_pool := pl', oid_to_order := (\<lambda>_. None)(unat (mu_order_id u) \<mapsto> a)\<rparr>"
  have "mb_addOrder (Some a) ?b = Inr ?b2" using link k c(3) by (simp add: mb_addOrder_def set_oid_def)
  then have "market_add u b1 = Inr ?b2"
    using al k c(3) by (simp add: market_add_def order_of_id_def market_order_def)
  then have "onMarketUpdate u b1 = Inr (?b2, event_of u)"
    using c ty by (simp add: onMarketUpdate_def bid_updated_def ask_updated_def market_switch_def updateBBO_def event_of_def)
  then show ?thesis using c by auto
qed

end
