(* ===== verification/MirrorBook.thy ===== *)
theory MirrorBook
  imports MarketClear Replay
begin

section \<open>The client's book mirrors the exchange's\<close>

text \<open>
  A client that applies the market updates of a ticker holds, level for level and in the same time order,
  the orders of the exchange's book of that ticker. The proof follows one request at a time: its updates
  change the mirrored lists as the request changes the book.
\<close>

definition mirror :: "MatchingEngineOrder \<Rightarrow> MarketOrder" where
  "mirror x =
     \<lparr>o_side = o_side x, o_price = o_price x, o_quantity = o_quantity x, o_priority = o_priority x,
      prev_order = None, next_order = None, mo_order_id = o_market_order_id x\<rparr>"

definition mirror_book :: "book \<Rightarrow> market_book" where
  "mirror_book v = (\<lambda>sd. if trading_side sd then map_orders mirror (v sd) else [])"

text \<open>The updates one after the other, the calls into the trade engine aside.\<close>

definition follow_update :: "MatchingEngineMarketUpdate \<Rightarrow> market_order_book \<Rightarrow> market_order_book res" where
  "follow_update u b = bindE (onMarketUpdate u b) (\<lambda>(b', _). Inr b')"

fun fits_all :: "MatchingEngineMarketUpdate list \<Rightarrow> market_book \<Rightarrow> bool" where
  "fits_all [] w = True"
| "fits_all (u # us) w = (fits u w \<and> fits_all us (spec_update u w))"

lemma fits_all_append: "fits_all (us @ us') w \<longleftrightarrow> fits_all us w \<and> fits_all us' (fold spec_update us w)"
  by (induction us arbitrary: w) auto

lemma follow_updates:
  assumes "mrep b w" and "fits_all us w"
  shows "\<exists>b'. fold_res follow_update us b = Inr b' \<and> mrep b' (fold spec_update us w)"
  using assms
proof (induction us arbitrary: b w)
  case (Cons u us)
  obtain b1 where b1: "onMarketUpdate u b = Inr (b1, event_of u)" "mrep b1 (spec_update u w)"
    using market_update_core [OF Cons.prems(1)] Cons.prems(2) by auto
  then show ?case using Cons.IH [OF b1(2)] Cons.prems(2) by (simp add: follow_update_def)
qed simp

subsection \<open>Mirrored lists\<close>

lemma mirror_sel [simp]:
  "o_side (mirror x) = o_side x" "o_price (mirror x) = o_price x" "o_quantity (mirror x) = o_quantity x"
  "mo_order_id (mirror x) = o_market_order_id x"
  by (simp_all add: mirror_def)

lemma map_orders_simps:
  "prices (map_orders g ls) = prices ls" "all_orders (map_orders g ls) = map g (all_orders ls)"
  "length (map_orders g ls) = length ls" "map_orders g (drop_head q xs ls) = drop_head q (map g xs) (map_orders g ls)"
  by (induction ls) (auto simp: map_orders_def prices_def)

lemma map_orders_enqueue: "map_orders g (enqueue sd p x ls) = enqueue sd p (g x) (map_orders g ls)"
  by (induction sd p x ls rule: enqueue.induct) auto

lemma map_orders_remove:
  assumes "\<forall>x \<in> set (all_orders ls). P x \<longleftrightarrow> P' (g x)"
  shows "map_orders g (remove_where P ls) = remove_where P' (map_orders g ls)"
  using assms
proof (induction ls)
  case (Cons e ls)
  obtain p xs where e: "e = (p, xs)" by (cases e)
  have "map g (filter (\<lambda>x. \<not> P x) xs) = filter (\<lambda>x. \<not> P' x) (map g xs)"
    using Cons.prems e by (auto simp: filter_map comp_def intro!: arg_cong [where f = "map g"] filter_cong)
  then show ?case using Cons e by (auto simp: filter_empty_conv)
qed simp

lemma mirror_book_simps [simp]:
  "trading_side sd \<Longrightarrow> mirror_book v sd = map_orders mirror (v sd)" "\<not> trading_side sd \<Longrightarrow> mirror_book v sd = []"
  by (simp_all add: mirror_book_def)

text \<open>A client's book with no order on a side that does not trade, told apart by identifiers, without empty levels.\<close>

definition client_wf :: "market_book \<Rightarrow> bool" where
  "client_wf w \<longleftrightarrow>
     (\<forall>sd. \<not> trading_side sd \<longrightarrow> w sd = []) \<and> distinct (map mo_order_id (market_orders w)) \<and>
     (\<forall>sd. \<forall>e \<in> set (w sd). snd e \<noteq> [])"

lemma client_wf_side:
  assumes "trading_side sd"
  shows "client_wf w \<longleftrightarrow>
    (\<forall>s. \<not> trading_side s \<longrightarrow> w s = []) \<and> distinct (map mo_order_id (all_orders (w sd) @ all_orders (w (opposite sd)))) \<and>
    (\<forall>e \<in> set (w sd). snd e \<noteq> []) \<and> (\<forall>e \<in> set (w (opposite sd)). snd e \<noteq> [])"
proof -
  have "s = sd \<or> s = opposite sd" if "trading_side s" for s using assms that by (auto simp: trading_side_def)
  then have "(\<forall>s. \<forall>e \<in> set (w s). snd e \<noteq> []) \<longleftrightarrow>
      (\<forall>e \<in> set (w sd). snd e \<noteq> []) \<and> (\<forall>e \<in> set (w (opposite sd)). snd e \<noteq> [])"
    if "\<forall>s. \<not> trading_side s \<longrightarrow> w s = []"
    using that by (metis empty_iff empty_set)
  moreover have "distinct (map mo_order_id (market_orders w)) \<longleftrightarrow>
      distinct (map mo_order_id (all_orders (w sd) @ all_orders (w (opposite sd))))"
    using assms unfolding market_orders_def trading_side_def distinct_append map_append
    by (elim disjE) (simp_all add: Int_commute conj_ac)
  ultimately show ?thesis unfolding client_wf_def by blast
qed

lemma fun_side_eq:
  assumes "trading_side sd" and "w' sd = a" and "w' (opposite sd) = w (opposite sd)"
    and "\<And>s. \<not> trading_side s \<Longrightarrow> w' s = w s"
  shows "w' = w(sd := a)"
proof
  fix s show "w' s = (w(sd := a)) s"
    using assms by (cases "trading_side s") (auto simp: trading_side_def)
qed

subsection \<open>Fills\<close>

lemma cancel_head:
  assumes sd: "trading_side sd" and wf: "client_wf w" and w: "w sd = (q, x # xs) # ls"
    and u: "mu_type u = MU_CANCEL" "mu_order_id u = mo_order_id x"
  shows "spec_update u w = w(sd := drop_head q xs ls)" "fits u w" "client_wf (w(sd := drop_head q xs ls))"
proof -
  note wf' = wf [unfolded client_wf_side [OF sd] w]
  let ?P = "\<lambda>y. mo_order_id y = mo_order_id x"
  have none: "\<forall>y \<in> set xs \<union> set (all_orders ls) \<union> set (all_orders (w (opposite sd))). \<not> ?P y"
    using wf' by (auto simp: image_iff)
  have "filter (\<lambda>y. \<not> ?P y) xs = xs" using none by (simp add: filter_id_conv)
  moreover have "remove_where ?P ls = ls" "remove_where ?P (w (opposite sd)) = w (opposite sd)"
    using none wf' by (auto intro!: remove_where_none)
  ultimately show "spec_update u w = w(sd := drop_head q xs ls)"
    using wf' by (intro fun_side_eq [OF sd]) (simp_all add: spec_update.simps u w)
  show "fits u w" using u w sd by (auto simp: fits_def known_id_def market_orders_def trading_side_def)
  show "client_wf (w(sd := drop_head q xs ls))"
    using wf' sd unfolding client_wf_side [OF sd] by auto
qed

lemma modify_head:
  assumes sd: "trading_side sd" and wf: "client_wf w" and w: "w sd = (q, x # xs) # ls"
    and u: "mu_type u = MU_MODIFY" "mu_order_id u = mo_order_id x"
  shows "spec_update u w = w(sd := (q, x\<lparr>o_quantity := mu_quantity u\<rparr> # xs) # ls)" "fits u w"
proof -
  note wf' = wf [unfolded client_wf_side [OF sd] w]
  let ?g = "with_quantity (mo_order_id x) (mu_quantity u)"
  have same: "map_orders ?g ms = ms" if "\<forall>y \<in> set (all_orders ms). mo_order_id y \<noteq> mo_order_id x" for ms
    using that
  proof (induction ms)
    case (Cons e ms)
    have "map ?g ys = ys" if "\<forall>y \<in> set ys. mo_order_id y \<noteq> mo_order_id x" for ys
      using that by (auto simp: with_quantity_def intro: map_idI)
    with Cons show ?case by (cases e) auto
  qed simp
  have none: "\<forall>y \<in> set xs \<union> set (all_orders ls) \<union> set (all_orders (w (opposite sd))). mo_order_id y \<noteq> mo_order_id x"
    using wf' by (auto simp: image_iff)
  have "map ?g xs = xs" using none by (auto simp: with_quantity_def intro: map_idI)
  moreover have "map_orders ?g ls = ls" "map_orders ?g (w (opposite sd)) = w (opposite sd)"
    using none by (auto intro!: same)
  ultimately show "spec_update u w = w(sd := (q, x\<lparr>o_quantity := mu_quantity u\<rparr> # xs) # ls)"
    using wf' by (intro fun_side_eq [OF sd]) (simp_all add: spec_update.simps u w with_quantity_def)
  show "fits u w" using u w sd by (auto simp: fits_def known_id_def market_orders_def trading_side_def)
qed

lemma mirror_fills:
  assumes "trading_side opp"
  shows "case spec_match sd p leaves ls of (fs, ls', leaves') \<Rightarrow>
    \<forall>w. client_wf w \<and> w opp = map_orders mirror ls \<longrightarrow>
      fold spec_update (map (fill_update tid) fs) w = w(opp := map_orders mirror ls') \<and>
      fits_all (map (fill_update tid) fs) w"
proof (induction rule: spec_match_induct)
  case (Empty leaves q ls r)
  then show ?case using assms by (auto simp: client_wf_side split: prod.splits)
next
  case (Full leaves q x xs ls fs ls' leaves')
  show ?case
  proof (unfold case_prod_conv, intro allI impI)
    fix w assume w: "client_wf w \<and> w opp = map_orders mirror ((q, x # xs) # ls)"
    let ?u = "fill_update tid (x, o_quantity x, leaves - o_quantity x)"
    let ?w = "w(opp := map_orders mirror (drop_head q xs ls))"
    have "spec_update ?u w = ?w" "fits ?u w" "client_wf ?w"
      using cancel_head [OF assms, of w q "mirror x" "map mirror xs" "map_orders mirror ls" ?u] w
      by (auto simp: fill_update_def map_orders_simps)
    then show "fold spec_update (map (fill_update tid) ((x, o_quantity x, leaves - o_quantity x) # fs)) w =
        w(opp := map_orders mirror ls') \<and>
      fits_all (map (fill_update tid) ((x, o_quantity x, leaves - o_quantity x) # fs)) w"
      using Full(5) by (simp add: fun_upd_def cong: if_cong)
  qed
next
  case (Partial leaves q x xs ls)
  show ?case
  proof (unfold case_prod_conv, intro allI impI)
    fix w assume w: "client_wf w \<and> w opp = map_orders mirror ((q, x # xs) # ls)"
    let ?u = "fill_update tid (x, leaves, 0)"
    have "o_quantity x - leaves \<noteq> 0" using Partial(3) by auto
    then have u: "mu_type ?u = MU_MODIFY" "mu_order_id ?u = o_market_order_id x" "mu_quantity ?u = o_quantity x - leaves"
      by (simp_all add: fill_update_def)
    have "mirror (x\<lparr>o_quantity := o_quantity x - leaves\<rparr>) = (mirror x)\<lparr>o_quantity := o_quantity x - leaves\<rparr>"
      by (simp add: mirror_def)
    then show "fold spec_update (map (fill_update tid) [(x, leaves, 0)]) w =
        w(opp := map_orders mirror ((q, x\<lparr>o_quantity := o_quantity x - leaves\<rparr> # xs) # ls)) \<and>
      fits_all (map (fill_update tid) [(x, leaves, 0)]) w"
      using modify_head [OF assms, of w q "mirror x" "map mirror xs" "map_orders mirror ls" ?u] w u by simp
  qed
qed (simp_all add: fun_eq_iff)

subsection \<open>One request\<close>

lemma mirror_client_wf:
  assumes wf: "book_wf v" and ids: "ids_wf (v, n)"
  shows "client_wf (mirror_book v)"
proof -
  have "map mo_order_id (market_orders (mirror_book v)) = map o_market_order_id (book_orders v)"
    by (simp add: market_orders_def book_orders_def map_orders_simps)
  moreover have "distinct (map o_market_order_id (book_orders v))"
    using ids by (auto simp: distinct_map inj_on_def)
  moreover have "snd e \<noteq> []" if "e \<in> set (mirror_book v sd)" for sd e
    using that wf by (cases "trading_side sd") (auto simp: map_orders_def book_wf_def side_wf_def trading_side_def)
  ultimately show ?thesis by (simp add: client_wf_def)
qed

lemma mirror_add_update:
  assumes "x = new_order cid coid tid sd p leaves n prio"
  shows "market_order \<lparr>mu_type = MU_ADD, mu_order_id = n, mu_ticker_id = tid, mu_side = sd, mu_price = p,
    mu_quantity = leaves, mu_priority = prio\<rparr> = mirror x"
  by (simp add: assms market_order_def mirror_def new_order_def)

lemma mirror_new:
  assumes wf: "book_wf v" and ids: "ids_wf (v, n)" and sd: "trading_side sd"
    and free: "slot_free p (v Side_BUY)" "slot_free p (v Side_SELL)" and room: "has_room v"
    and n: "unat n < MATCHING_ENGINE_MAX_ORDER_IDS"
  shows "fold spec_update (add_updates tid sd p qty n v) (mirror_book v) =
      mirror_book (spec_add cid coid tid sd p qty n v)"
    "fits_all (add_updates tid sd p qty n v) (mirror_book v)"
proof -
  obtain fs rest leaves where m: "spec_match sd p qty (v (opposite sd)) = (fs, rest, leaves)" by (metis prod_cases3)
  have opp: "trading_side (opposite sd)" using sd by simp
  let ?w = "(mirror_book v)(opposite sd := map_orders mirror rest)"
  have fills: "fold spec_update (map (fill_update tid) fs) (mirror_book v) = ?w"
      "fits_all (map (fill_update tid) fs) (mirror_book v)"
    using mirror_fills [OF opp, where sd = sd and p = p and leaves = qty and ls = "v (opposite sd)" and tid = tid] m opp mirror_client_wf [OF wf ids] by auto
  define x where "x = new_order cid coid tid sd p leaves n (next_priority p (v sd))"
  define u where "u = \<lparr>mu_type = MU_ADD, mu_order_id = n, mu_ticker_id = tid, mu_side = sd, mu_price = p,
    mu_quantity = leaves, mu_priority = next_priority p (v sd)\<rparr>"
  have ne: "opposite sd \<noteq> sd" "sd \<noteq> opposite sd" using sd by (auto simp: trading_side_def)
  have upds: "add_updates tid sd p qty n v = map (fill_update tid) fs @ (if leaves = 0 then [] else [u])"
    using m by (simp add: add_updates_def u_def)
  have wf_opp: "side_wf (opposite sd) (v (opposite sd))" using wf by (simp add: book_wf_side [OF sd])
  note facts = spec_match_facts [OF m]
  have fit: "fits u ?w" if left: "leaves \<noteq> 0"
  proof -
    have "\<not> no_match sd p p" by (simp add: no_match_def)
    then have "p \<notin> prices rest" using facts(8) [OF wf_opp sd left] by blast
    moreover have "slot_free p (?w Side_BUY)" "slot_free p (?w Side_SELL)"
      using free facts(3) sd by (auto simp: slot_free_def trading_side_def map_orders_simps)
    moreover have "has_room ?w"
      using room facts(4,5) ne opp sd unfolding has_room_side [OF sd] by (simp add: map_orders_simps)
    moreover have "\<not> known_id ?w n"
    proof -
      obtain k where k: "map moid (all_orders rest) = drop k (map moid (all_orders (v (opposite sd))))"
        using spec_match_suffix [where f = moid and sd = sd and p = p and leaves = qty and ls = "v (opposite sd)"] m by auto
      have "set (map moid (all_orders rest)) \<subseteq> set (map moid (all_orders (v (opposite sd))))"
        unfolding k by (rule set_drop_subset)
      then have "moid y < unat n" if "y \<in> set (all_orders rest) \<union> set (all_orders (v sd))" for y
        using that ids sd by (fastforce simp: book_orders_def trading_side_def)
      then have "o_market_order_id y \<noteq> n" if "y \<in> set (all_orders rest) \<union> set (all_orders (v sd))" for y
        using that by fastforce
      moreover have "set (market_orders ?w) = mirror ` (set (all_orders rest) \<union> set (all_orders (v sd)))"
        using sd by (auto simp: market_orders_def trading_side_def map_orders_simps)
      ultimately show ?thesis unfolding known_id_def by fastforce
    qed
    ultimately show ?thesis using sd n ne by (simp add: fits_def u_def map_orders_simps)
  qed
  then show "fits_all (add_updates tid sd p qty n v) (mirror_book v)"
    using fills by (simp add: upds fits_all_append)
  have mo: "market_order u = mirror x" using mirror_add_update [OF x_def] by (simp add: u_def)
  have "mirror_book (spec_add cid coid tid sd p qty n v) =
      (if leaves = 0 then ?w else ?w(sd := enqueue sd p (mirror x) (?w sd)))"
    using m sd ne by (auto simp: spec_add_def mirror_book_def fun_eq_iff map_orders_enqueue x_def)
  then show "fold spec_update (add_updates tid sd p qty n v) (mirror_book v) =
      mirror_book (spec_add cid coid tid sd p qty n v)"
    using fills(1) mo by (simp add: upds spec_update.simps) (simp add: u_def)
qed

lemma side_wf_side: "side_wf sd ls \<Longrightarrow> y \<in> set (all_orders ls) \<Longrightarrow> o_side y = sd"
  by (auto simp: side_wf_def all_orders_def)

lemma mirror_cancel:
  assumes wf: "book_wf v" and ids: "ids_wf (v, n)"
  shows "fold spec_update (cancel_updates cid coid tid v) (mirror_book v) = mirror_book (spec_cancel cid coid v)"
    "fits_all (cancel_updates cid coid tid v) (mirror_book v)"
proof -
  have "fold spec_update (cancel_updates cid coid tid v) (mirror_book v) = mirror_book (spec_cancel cid coid v) \<and>
      fits_all (cancel_updates cid coid tid v) (mirror_book v)"
  proof (cases "spec_find cid coid v")
    case None
    then show ?thesis by (simp add: cancel_updates_def spec_cancel_def)
  next
    case (Some x)
    note c = spec_cancel_orders [OF wf ids Some]
    note side = spec_find_side [OF wf Some]
    let ?u = "\<lparr>mu_type = MU_CANCEL, mu_order_id = o_market_order_id x, mu_ticker_id = tid, mu_side = o_side x,
      mu_price = o_price x, mu_quantity = 0, mu_priority = o_priority x\<rparr>"
    let ?P = "\<lambda>y :: MarketOrder. mo_order_id y = o_market_order_id x"
    have in_book: "y \<in> set (book_orders v)" if "trading_side s" "y \<in> set (all_orders (v s))" for s y
      using that by (auto simp: book_orders_def trading_side_def)
    have same: "has_key cid coid y \<longleftrightarrow> ?P (mirror y)" if "y \<in> set (book_orders v)" for y
    proof -
      have "moid y = moid x \<longleftrightarrow> y = x"
        using ids that c(2) by (auto simp: distinct_map dest: inj_onD)
      then show ?thesis using c(3) [OF that] by (simp add: word_unat_eq_iff)
    qed
    have rem: "map_orders mirror (remove_where (has_key cid coid) (v s)) = remove_where ?P (map_orders mirror (v s))"
      if "trading_side s" for s
      by (rule map_orders_remove) (use same in_book that in blast)
    have other: "remove_where (has_key cid coid) (v (opposite (o_side x))) = v (opposite (o_side x))"
    proof (rule remove_where_none)
      have "side_wf (opposite (o_side x)) (v (opposite (o_side x)))" using wf by (simp add: book_wf_side [OF side(1)])
      moreover have "opposite (o_side x) \<noteq> o_side x" using side(1) by (auto simp: trading_side_def)
      ultimately have "y \<noteq> x" if "y \<in> set (all_orders (v (opposite (o_side x))))" for y
        using side_wf_side that by metis
      then show "\<forall>y \<in> set (all_orders (v (opposite (o_side x)))). \<not> has_key cid coid y"
        using c(3) in_book [of "opposite (o_side x)"] side(1) by auto
      show "\<forall>e \<in> set (v (opposite (o_side x))). snd e \<noteq> []"
        using \<open>side_wf _ _\<close> by (auto simp: side_wf_def)
    qed
    have "spec_update ?u (mirror_book v) s = mirror_book (spec_cancel cid coid v) s" for s
    proof (cases "trading_side s")
      case True
      then consider "s = o_side x" | "s = opposite (o_side x)" "s \<noteq> o_side x"
        using side(1) by (auto simp: trading_side_def)
      then show ?thesis
        using rem [OF True] True other by cases (simp_all add: spec_update.simps spec_cancel_def Some)
    qed (simp add: spec_update.simps)
    moreover have "known_id (mirror_book v) (o_market_order_id x)"
      using c(2) by (auto simp: known_id_def market_orders_def map_orders_simps book_orders_def image_Un image_image)
    ultimately show ?thesis by (auto simp: cancel_updates_def Some fits_def)
  qed
  then show "fold spec_update (cancel_updates cid coid tid v) (mirror_book v) = mirror_book (spec_cancel cid coid v)"
    "fits_all (cancel_updates cid coid tid v) (mirror_book v)" by simp_all
qed

lemma mirror_request:
  assumes wf: "book_wf (fst s)" and ids: "ids_wf s" and adm: "admissible r s"
    and n: "unat (snd s) < MATCHING_ENGINE_MAX_ORDER_IDS"
  shows "fold spec_update (request_updates r s) (mirror_book (fst s)) = mirror_book (fst (spec_request r s))"
    "fits_all (request_updates r s) (mirror_book (fst s))"
proof -
  obtain v k where s: "s = (v, k)" by (cases s)
  have "fold spec_update (request_updates r s) (mirror_book (fst s)) = mirror_book (fst (spec_request r s)) \<and>
      fits_all (request_updates r s) (mirror_book (fst s))"
    using mirror_new [where v = v and n = k and sd = "rq_side r" and p = "rq_price r"] mirror_cancel [where v = v and n = k] assms
    by (cases "rq_type r") (simp_all add: s del: ids_wf.simps)
  then show "fold spec_update (request_updates r s) (mirror_book (fst s)) = mirror_book (fst (spec_request r s))"
    "fits_all (request_updates r s) (mirror_book (fst s))" by simp_all
qed

subsection \<open>Any sequence of requests\<close>

lemma mirror_requests:
  assumes "book_wf (fst s)" and "ids_wf s" and "admissible_all rs s"
    and "unat (snd s) + length rs \<le> MATCHING_ENGINE_MAX_ORDER_IDS"
  shows "fold spec_update (all_updates rs s) (mirror_book (fst s)) = mirror_book (fst (fold spec_request rs s)) \<and>
    fits_all (all_updates rs s) (mirror_book (fst s))"
  using assms
proof (induction rs arbitrary: s)
  case (Cons r rs)
  have n: "unat (snd s) < MATCHING_ENGINE_MAX_ORDER_IDS" "unat (snd s) + 1 < 2 ^ 64"
    using Cons.prems(4) by (simp_all add: limit_defs)
  have adm: "admissible r s" using Cons.prems(3) by simp
  note step = mirror_request [OF Cons.prems(1,2) adm n(1)]
  note next_state = replay_request(2-4) [where m = "\<lambda>t. book_image (rq_ticker_id r) s", OF Cons.prems(1,2) adm n(2) refl]
  have "fold spec_update (all_updates rs (spec_request r s)) (mirror_book (fst (spec_request r s))) =
        mirror_book (fst (fold spec_request rs (spec_request r s))) \<and>
      fits_all (all_updates rs (spec_request r s)) (mirror_book (fst (spec_request r s)))"
    using next_state Cons.prems by (intro Cons.IH) simp_all
  then show ?case using step by (simp add: fits_all_append)
qed simp

end
