(* ===== verification/MarketBookProps.thy ===== *)
theory MarketBookProps
  imports MirrorBook BookProps
begin

section \<open>Properties of the client's book\<close>

text \<open>What the client's order book guarantees, and where it falls short.\<close>

subsection \<open>The book follows the market\<close>

text \<open>C5: the client's book mirrors the exchange's. Let the exchange's book of a ticker and a client's book of
  it start empty, and let any admissible requests come in (fewer than the order table has entries). The exchange
  handles them all; the client, applying the market updates the exchange sends, fails no assertion and
  ends up with the same price levels in the same order, each with the same orders in the same order of
  time, with the same quantities and priorities.\<close>

theorem client_book_mirrors_exchange:
  assumes "admissible_all rs (\<lambda>_. [], 1)" and "length rs < MATCHING_ENGINE_MAX_ORDER_IDS"
  shows "\<exists>b mb us. fold_res book_request rs (MatchingEngineOrderBook t, out) =
      Inr (b, emit (all_responses rs (\<lambda>_. [], 1)) us out) \<and>
    fold_res follow_update us (MarketOrderBook t) = Inr mb \<and>
    represents b (fst (fold spec_request rs (\<lambda>_. [], 1))) \<and>
    mrep mb (mirror_book (fst (fold spec_request rs (\<lambda>_. [], 1))))"
proof -
  let ?s = "(\<lambda>_. [], 1) :: book_state"
  have "holds_book (MatchingEngineOrderBook t) ?s"
    using initial_book by (simp add: holds_book_def MatchingEngineOrderBook_def)
  from ob.handle_all [OF this assms(1), of out] obtain b where
    b: "fold_res book_request rs (MatchingEngineOrderBook t, out) = Inr (b, emit (all_responses rs ?s) (all_updates rs ?s) out)"
      "represents b (fst (fold spec_request rs ?s))" by (auto simp: holds_book_def)
  have "book_wf (fst ?s)" "ids_wf ?s" by (simp_all add: book_wf_def uncrossed_def book_orders_def)
  then have m: "fold spec_update (all_updates rs ?s) (mirror_book (fst ?s)) = mirror_book (fst (fold spec_request rs ?s))"
      "fits_all (all_updates rs ?s) (mirror_book (fst ?s))"
    using mirror_requests [of ?s rs] assms by auto
  have "mirror_book (fst ?s) = (\<lambda>_. [])" by (auto simp: mirror_book_def map_orders_def)
  then have "mrep (MarketOrderBook t) (mirror_book (fst ?s))" using initial_market_book by simp
  from follow_updates [OF this m(2)] m(1) b show ?thesis by auto
qed

definition ex_sell :: MatchingEngineClientRequest where
  "ex_sell = \<lparr>rq_type = CRQ_NEW, rq_client_id = 1, rq_ticker_id = 3, rq_order_id = 5, rq_side = Side_SELL,
     rq_price = 100, rq_quantity = 10\<rparr>"

definition ex_buy :: MatchingEngineClientRequest where
  "ex_buy = \<lparr>rq_type = CRQ_NEW, rq_client_id = 2, rq_ticker_id = 3, rq_order_id = 7, rq_side = Side_BUY,
     rq_price = 100, rq_quantity = 4\<rparr>"

lemma ex_admissible: "admissible_all [ex_sell, ex_buy] (\<lambda>_. [], 1)"
  by (simp add: ex_sell_def ex_buy_def limit_defs spec_find_def has_room_def slot_free_def spec_add_def
      new_order_def has_key_def next_priority_def no_match_def)

theorem client_book_mirrors_exchange_witness:
  "\<exists>b mb us. fold_res book_request [ex_sell, ex_buy] (MatchingEngineOrderBook 3, ex_out) =
      Inr (b, emit (all_responses [ex_sell, ex_buy] (\<lambda>_. [], 1)) us ex_out) \<and>
    fold_res follow_update us (MarketOrderBook 3) = Inr mb \<and>
    mrep mb (mirror_book (fst (fold spec_request [ex_sell, ex_buy] (\<lambda>_. [], 1))))"
proof -
  have "length [ex_sell, ex_buy] < MATCHING_ENGINE_MAX_ORDER_IDS" by (simp add: limit_defs)
  from client_book_mirrors_exchange [OF ex_admissible this, of 3 ex_out] show ?thesis by blast
qed


definition ex_ask :: "OrderID \<Rightarrow> Price \<Rightarrow> MatchingEngineMarketUpdate" where
  "ex_ask k p = \<lparr>mu_type = MU_ADD, mu_order_id = k, mu_ticker_id = 0, mu_side = Side_SELL, mu_price = p,
     mu_quantity = 10, mu_priority = 1\<rparr>"

lemma ex_ask_fits: "fits (ex_ask 1 100) (\<lambda>_. [])"
  by (simp add: fits_def ex_ask_def known_id_def market_orders_def slot_free_def has_room_def limit_defs)

lemma ex_ask_book: "\<exists>b. mrep b ((\<lambda>_. [])(Side_SELL := [(100, [market_order (ex_ask 1 100)])])) \<and> bbo b = default_BBO"
proof -
  have "changed (MarketOrderBook 0) b' (spec_update (ex_ask 1 100) (\<lambda>_. [])) \<Longrightarrow>
      mrep b' ((\<lambda>_. [])(Side_SELL := [(100, [market_order (ex_ask 1 100)])])) \<and> bbo b' = default_BBO" for b'
    by (simp add: changed_def spec_update.simps ex_ask_def MarketOrderBook_def fun_upd_def)
  moreover have "mu_type (ex_ask 1 100) = MU_ADD" by (simp add: ex_ask_def)
  then obtain b' where "changed (MarketOrderBook 0) b' (spec_update (ex_ask 1 100) (\<lambda>_. []))"
    using market_add_refines [OF initial_market_book _ ex_ask_fits] by blast
  ultimately show ?thesis by blast
qed


subsection \<open>The best bid and offer\<close>



text \<open>The first order on an empty side is not shown. The flags of \<open>onMarketUpdate\<close> are computed before
  the order is entered, so an \<open>ADD\<close> to an empty side leaves the best bid and offer as it was: a fresh book
  with one order shows no price at all.\<close>

theorem first_order_is_not_shown:
  assumes "mrep b v" and "fits u v" and "mu_type u = MU_ADD" and "v (mu_side u) = []"
  shows "\<exists>b'. onMarketUpdate u b = Inr (b', event_of u) \<and>
    (\<forall>sd. trading_side sd \<longrightarrow> bbo_side sd (bbo b') = bbo_side sd (bbo b)) \<and>
    mrep b' (spec_update u v) \<and> side_best (spec_update u v (mu_side u)) = (mu_price u, mu_quantity u)"
proof -
  obtain b' where b': "onMarketUpdate u b = Inr (b', event_of u)" "mrep b' (spec_update u v)"
      "\<forall>sd. trading_side sd \<longrightarrow> bbo_side sd (bbo b') = bbo_after u v sd (bbo b)"
    using market_update_core [OF assms(1,2)] by blast
  have "\<not> touches u v sd" for sd using assms(4) by (auto simp: touches_def)
  then have "bbo_after u v sd (bbo b) = bbo_side sd (bbo b)" for sd by (simp add: bbo_after_def)
  moreover have "side_best (spec_update u v (mu_side u)) = (mu_price u, mu_quantity u)"
    using assms(3,4) by (simp add: spec_update.simps market_order_def)
  ultimately show ?thesis using b' by auto
qed

theorem first_order_is_not_shown_witness:
  "\<exists>b'. onMarketUpdate (ex_ask 1 100) (MarketOrderBook 0) = Inr (b', event_of (ex_ask 1 100)) \<and>
    bbo_side Side_SELL (bbo b') = (PRICE_INVALID, QUANTITY_INVALID) \<and>
    side_best (spec_update (ex_ask 1 100) (\<lambda>_. []) (mu_side (ex_ask 1 100))) = (100, 10)"
proof -
  have u: "mu_type (ex_ask 1 100) = MU_ADD" "mu_price (ex_ask 1 100) = 100" "mu_quantity (ex_ask 1 100) = 10"
    by (simp_all add: ex_ask_def)
  have "bbo_side Side_SELL (bbo (MarketOrderBook 0)) = (PRICE_INVALID, QUANTITY_INVALID)"
    by (simp add: MarketOrderBook_def default_BBO_def)
  moreover from first_order_is_not_shown [OF initial_market_book ex_ask_fits u(1) refl, of 0] obtain b' where
    "onMarketUpdate (ex_ask 1 100) (MarketOrderBook 0) = Inr (b', event_of (ex_ask 1 100))"
    "\<forall>sd. trading_side sd \<longrightarrow> bbo_side sd (bbo b') = bbo_side sd (bbo (MarketOrderBook 0))"
    "side_best (spec_update (ex_ask 1 100) (\<lambda>_. []) (mu_side (ex_ask 1 100))) = (100, 10)"
    unfolding u(2,3) by blast
  ultimately show ?thesis by (intro exI [of _ b']) (simp del: bbo_side.simps)
qed

subsection \<open>After a recovery\<close>

text \<open>A recovery can hide orders. \<open>CLEAR\<close>, which starts every ticker's part of a snapshot, empties the
  book but leaves the table of price levels; the next \<open>ADD\<close> at a price whose slot was in use attaches its
  order to the released level, so the order is indexed but no side of the book shows it, and the best bid and
  offer keeps its value from before the recovery.\<close>

theorem order_after_clear_is_hidden:
  assumes "mrep b v" and "mu_type c = MU_CLEAR" and "mu_side c = Side_INVALID"
    and "mu_type u = MU_ADD" and "unat (mu_order_id u) < MATCHING_ENGINE_MAX_ORDER_IDS"
    and "trading_side sd" and "mu_price u \<in> prices (v sd)"
  shows "\<exists>b1 b2. onMarketUpdate c b = Inr (b1, event_of c) \<and> onMarketUpdate u b1 = Inr (b2, event_of u) \<and>
    bids_by_price b2 = None \<and> asks_by_price b2 = None \<and> oid_to_order b2 (unat (mu_order_id u)) \<noteq> None \<and> bbo b2 = bbo b"
proof -
  obtain f where core: "mcore b f" and v: "\<forall>s. trading_side s \<longrightarrow> v s = side_view b (f s)"
    using assms(1) unfolding mrep_def by blast
  have side: "side_ok b sd (f sd)" using core assms(6) by (simp add: mcore_def ladder_inv_side)
  obtain l qs where "(l, qs) \<in> set (f sd)" "l_price (L b l) = mu_price u"
    using assms(6,7) v by (auto simp: side_view_def prices_def)
  then have slot: "getOrdersAtPrice b (mu_price u) = Some l"
    using side_okD(2) [OF side] by (metis getOrdersAtPrice_def)
  obtain b1 where b1: "onMarketUpdate c b = Inr (b1, event_of c)" "cleared b b1"
    using clear_update_cleared [OF assms(1-3)] by blast
  from stale_add [OF core b1(2) slot assms(4,5)] b1(1) show ?thesis by force
qed

theorem order_after_clear_is_hidden_witness:
  "\<exists>b b1 b2. mrep b ((\<lambda>_. [])(Side_SELL := [(100, [market_order (ex_ask 1 100)])])) \<and>
    onMarketUpdate (default_update\<lparr>mu_type := MU_CLEAR, mu_ticker_id := 0\<rparr>) b = Inr (b1, OrderBookUpdate 0 PRICE_INVALID Side_INVALID) \<and>
    onMarketUpdate (ex_ask 1 100) b1 = Inr (b2, OrderBookUpdate 0 100 Side_SELL) \<and> asks_by_price b2 = None"
proof -
  let ?v = "(\<lambda>_. [])(Side_SELL := [(100, [market_order (ex_ask 1 100)])]) :: market_book"
  let ?c = "default_update\<lparr>mu_type := MU_CLEAR, mu_ticker_id := 0\<rparr>"
  obtain b where b: "mrep b ?v" using ex_ask_book by blast
  have c: "mu_type ?c = MU_CLEAR" "mu_side ?c = Side_INVALID" "event_of ?c = OrderBookUpdate 0 PRICE_INVALID Side_INVALID"
    by (simp_all add: default_update_def event_of_def)
  have u: "mu_type (ex_ask 1 100) = MU_ADD" "unat (mu_order_id (ex_ask 1 100)) < MATCHING_ENGINE_MAX_ORDER_IDS"
      "mu_price (ex_ask 1 100) \<in> prices (?v Side_SELL)" "event_of (ex_ask 1 100) = OrderBookUpdate 0 100 Side_SELL"
    by (simp_all add: ex_ask_def limit_defs event_of_def)
  from order_after_clear_is_hidden [OF b c(1,2) u(1,2) _ u(3)] b c(3) u(4) show ?thesis by auto
qed

end
