(* ===== verification/Doubles.thy ===== *)
theory Doubles
  imports Complex_Main "HOL-Library.Log_Nat" CommonTypes
begin

section \<open>Double precision and signed arithmetic of the strategies\<close>

text \<open>
  The strategies compute prices and profits in \<^verbatim>\<open>double\<close>. This theory has the IEEE 754 binary64 values
  and the operations the code uses, rounding to nearest with ties to even, in executable form over the
  rationals. The two zeros are one value: the code divides only by integers converted to \<^verbatim>\<open>double\<close>,
  which give the positive zero, so the sign of a zero cannot be told.
\<close>

datatype double = NaN | PosInf | NegInf | Finite rat

subsection \<open>Rounding\<close>

text \<open>The exponent of a positive rational: \<open>2 powi exponent_of x \<le> x < 2 powi (exponent_of x + 1)\<close>.\<close>

definition exponent_of :: "rat \<Rightarrow> int" where
  "exponent_of x =
     (let (n, d) = quotient_of x; e = bitlen n - bitlen d in if 2 powi e \<le> x then e else e - 1)"

definition round_even :: "rat \<Rightarrow> int" where
  "round_even x =
     (let f = \<lfloor>x\<rfloor>; r = x - of_int f in
      if r < 1 / 2 then f else if 1 / 2 < r then f + 1 else if even f then f else f + 1)"

text \<open>The unit in the last place: 53 significant bits, and no exponent below that of the subnormals.\<close>

definition unit_of :: "rat \<Rightarrow> rat" where
  "unit_of x = 2 powi max (exponent_of \<bar>x\<bar> - 52) (- 1074)"

definition round_double :: "rat \<Rightarrow> double" where
  "round_double x =
     (if x = 0 then Finite 0
      else let v = of_int (round_even (x / unit_of x)) * unit_of x in
        if 2 powi 1024 \<le> v then PosInf else if v \<le> - (2 powi 1024) then NegInf else Finite v)"

subsection \<open>Operations\<close>

text \<open>\<^verbatim>\<open>static_cast<double>\<close> of an integer, and the usual conversions of mixed expressions.\<close>

definition d_of_int :: "int \<Rightarrow> double" where
  "d_of_int i = round_double (of_int i)"

fun d_neg :: "double \<Rightarrow> double" where
  "d_neg NaN = NaN"
| "d_neg PosInf = NegInf"
| "d_neg NegInf = PosInf"
| "d_neg (Finite x) = Finite (- x)"

fun d_add :: "double \<Rightarrow> double \<Rightarrow> double" where
  "d_add (Finite x) (Finite y) = round_double (x + y)"
| "d_add NaN _ = NaN"
| "d_add _ NaN = NaN"
| "d_add PosInf NegInf = NaN"
| "d_add NegInf PosInf = NaN"
| "d_add PosInf _ = PosInf"
| "d_add NegInf _ = NegInf"
| "d_add _ PosInf = PosInf"
| "d_add _ NegInf = NegInf"

definition d_sub :: "double \<Rightarrow> double \<Rightarrow> double" where
  "d_sub x y = d_add x (d_neg y)"

definition signed_inf :: "rat \<Rightarrow> double" where
  "signed_inf x = (if x = 0 then NaN else if 0 < x then PosInf else NegInf)"

fun sign_of :: "double \<Rightarrow> rat" where
  "sign_of NaN = 0"
| "sign_of PosInf = 1"
| "sign_of NegInf = - 1"
| "sign_of (Finite x) = x"

fun d_mul :: "double \<Rightarrow> double \<Rightarrow> double" where
  "d_mul (Finite x) (Finite y) = round_double (x * y)"
| "d_mul NaN _ = NaN"
| "d_mul _ NaN = NaN"
| "d_mul x y = signed_inf (sign_of x * sign_of y)"

fun d_div :: "double \<Rightarrow> double \<Rightarrow> double" where
  "d_div (Finite x) (Finite y) = (if y = 0 then signed_inf x else round_double (x / y))"
| "d_div (Finite _) NaN = NaN"
| "d_div (Finite _) _ = Finite 0"
| "d_div NaN _ = NaN"
| "d_div x (Finite y) = (if y < 0 then d_neg x else x)"
| "d_div _ _ = NaN"

text \<open>The comparisons; each is false on a \<^verbatim>\<open>NaN\<close>.\<close>

fun d_less :: "double \<Rightarrow> double \<Rightarrow> bool" where
  "d_less (Finite x) (Finite y) \<longleftrightarrow> x < y"
| "d_less NegInf (Finite _) \<longleftrightarrow> True"
| "d_less NegInf PosInf \<longleftrightarrow> True"
| "d_less (Finite _) PosInf \<longleftrightarrow> True"
| "d_less _ _ \<longleftrightarrow> False"

definition d_eq :: "double \<Rightarrow> double \<Rightarrow> bool" where
  "d_eq x y \<longleftrightarrow> x \<noteq> NaN \<and> x = y"

definition d_le :: "double \<Rightarrow> double \<Rightarrow> bool" where
  "d_le x y \<longleftrightarrow> d_less x y \<or> d_eq x y"

subsection \<open>Signed integers\<close>

text \<open>
  Overflow of a signed operation is undefined behaviour. \<open>int32\<close> and \<open>int64\<close> check the exact result of one;
  \<open>to_int32\<close> is the conversion of an unsigned to a signed 32-bit integer, which wraps.
\<close>

definition int32 :: "int \<Rightarrow> int res" where
  "int32 i = (if - (2 ^ 31) \<le> i \<and> i < 2 ^ 31 then Inr i else Inl SignedOverflow)"

definition int64 :: "int \<Rightarrow> int res" where
  "int64 i = (if - (2 ^ 63) \<le> i \<and> i < 2 ^ 63 then Inr i else Inl SignedOverflow)"

definition to_int32 :: "32 word \<Rightarrow> int" where
  "to_int32 w = sint w"

subsection \<open>Exactness\<close>

lemma powi_2_bitlen:
  assumes "0 < n"
  shows "(2::rat) powi (bitlen n - 1) \<le> of_int n" and "of_int n < (2::rat) powi bitlen n"
proof -
  have 1: "1 \<le> bitlen n" using assms by (simp add: bitlen_ge_iff_power)
  have "(of_int (2 ^ nat (bitlen n - 1)) :: rat) \<le> of_int n" "of_int n < (of_int (2 ^ nat (bitlen n)) :: rat)"
    using bitlen_bounds [OF assms] by (simp_all only: of_int_le_iff of_int_less_iff)
  then show "(2::rat) powi (bitlen n - 1) \<le> of_int n" "of_int n < (2::rat) powi bitlen n"
    using 1 by (simp_all add: power_int_def)
qed

lemma exponent_of_bounds:
  assumes "0 < x"
  shows "2 powi exponent_of x \<le> x" and "x < 2 powi (exponent_of x + 1)"
proof -
  obtain n d where q: "quotient_of x = (n, d)" by (cases "quotient_of x")
  have x: "x = of_int n / of_int d" and d: "0 < d" using q by (auto simp: quotient_of_div quotient_of_denom_pos)
  have n: "0 < n" using assms d by (simp add: x zero_less_divide_iff)
  note bn = powi_2_bitlen [OF n] and bd = powi_2_bitlen [OF d]
  define e where "e = bitlen n - bitlen d"
  have low: "2 powi (e - 1) \<le> x"
  proof -
    have "(2::rat) powi (e - 1) * of_int d \<le> 2 powi (e - 1) * 2 powi bitlen d"
      using bd(2) by (intro mult_left_mono) auto
    also have "\<dots> = 2 powi (bitlen n - 1)" by (simp flip: power_int_add add: e_def)
    also have "\<dots> \<le> of_int n" by (rule bn(1))
    finally show ?thesis using d by (simp add: x pos_le_divide_eq)
  qed
  have high: "x < 2 powi (e + 1)"
  proof -
    have "of_int n < (2::rat) powi bitlen n" by (rule bn(2))
    also have "\<dots> = 2 powi (e + 1) * 2 powi (bitlen d - 1)" by (simp flip: power_int_add add: e_def)
    also have "\<dots> \<le> 2 powi (e + 1) * of_int d" using bd(1) by (intro mult_left_mono) auto
    finally show ?thesis using d by (simp add: x pos_divide_less_eq)
  qed
  have ex: "exponent_of x = (if 2 powi e \<le> x then e else e - 1)" by (simp add: exponent_of_def q e_def)
  show "2 powi exponent_of x \<le> x" "x < 2 powi (exponent_of x + 1)"
    unfolding ex using low high by (auto simp: not_le)
qed

lemma round_even_of_int [simp]: "round_even (of_int i) = i"
  by (simp add: round_even_def Let_def)

text \<open>A number of at most 53 significant bits within the range of the exponents is not changed.\<close>

lemma round_double_exact:
  assumes "x = of_int m * 2 powi k" and "\<bar>m\<bar> \<le> 2 ^ 53" and "- 1074 \<le> k" and "k \<le> 970"
  shows "round_double x = Finite x"
proof (cases "m = 0")
  case True
  then show ?thesis using assms(1) by (simp add: round_double_def)
next
  case False
  define u where "u = max (exponent_of \<bar>x\<bar> - 52) (- 1074)"
  have "0 < \<bar>x\<bar>" using False assms(1) by simp
  note bounds = exponent_of_bounds [OF this]
  have ax: "\<bar>x\<bar> = of_int \<bar>m\<bar> * 2 powi k" using assms(1) by (simp add: abs_mult)
  have "of_int \<bar>m\<bar> \<le> (2::rat) ^ 53" using assms(2) by (metis of_int_le_iff of_int_numeral of_int_power)
  then have le: "\<bar>x\<bar> \<le> 2 powi (k + 53)"
    unfolding ax by (simp add: power_int_add mult.commute mult_left_mono)
  have "\<exists>i. x = of_int i * 2 powi u"
  proof (cases "exponent_of \<bar>x\<bar> - 52 \<le> k")
    case True
    then have "u \<le> k" using assms(3) by (simp add: u_def)
    then have "(2::rat) powi k = 2 powi (k - u) * 2 powi u" "(2::rat) powi (k - u) = 2 ^ nat (k - u)"
      by (simp flip: power_int_add, simp add: power_int_def)
    then have "x = of_int (m * 2 ^ nat (k - u)) * 2 powi u" by (simp add: assms(1))
    then show ?thesis ..
  next
    case False
    have "(2::rat) powi exponent_of \<bar>x\<bar> \<le> 2 powi (k + 53)" using bounds(1) le by (rule order_trans)
    then have "exponent_of \<bar>x\<bar> \<le> k + 53"
      using power_int_strict_increasing [of "k + 53" "exponent_of \<bar>x\<bar>" "2::rat"] by linarith
    then have e: "exponent_of \<bar>x\<bar> = k + 53" using False by simp
    then have "\<bar>x\<bar> = 2 powi (k + 53)" using bounds(1) le by simp
    moreover have "u = k + 1" using e assms(3) by (simp add: u_def)
    then have "(2::rat) powi (k + 53) = of_int (2 ^ 52) * 2 powi u" by (simp add: power_int_add)
    ultimately have "x = of_int (2 ^ 52) * 2 powi u \<or> x = of_int (- (2 ^ 52)) * 2 powi u"
      by (cases "0 \<le> x") auto
    then show ?thesis by blast
  qed
  then obtain i where i: "x = of_int i * 2 powi u" ..
  have "(2::rat) powi (k + 53) < 2 powi 1024"
    by (rule power_int_strict_increasing) (use assms(4) in simp_all)
  with le have "\<bar>x\<bar> < 2 powi 1024" by (rule le_less_trans)
  moreover have "unit_of x = 2 powi u" by (simp add: unit_of_def u_def)
  moreover from this have "of_int (round_even (x / unit_of x)) * unit_of x = x" by (simp add: i)
  ultimately show ?thesis using i False assms(1) by (auto simp: round_double_def Let_def abs_if split: if_splits)
qed

lemma round_double_of_int:
  assumes "\<bar>i\<bar> \<le> 2 ^ 53"
  shows "round_double (of_int i) = Finite (of_int i)"
  using round_double_exact [of "of_int i" i 0] assms by simp

subsection \<open>Whole numbers\<close>

text \<open>Arithmetic on whole numbers that stays within 53 bits is exact.\<close>

definition whole :: "int \<Rightarrow> double" where
  "whole i = Finite (of_int i)"

lemma whole_eq [simp]: "whole i = whole j \<longleftrightarrow> i = j"
  by (simp add: whole_def)

lemma whole_0: "Finite 0 = whole 0"
  by (simp add: whole_def)

lemma d_of_int_whole: "\<bar>i\<bar> \<le> 2 ^ 53 \<Longrightarrow> d_of_int i = whole i"
  by (simp only: d_of_int_def whole_def round_double_of_int)

lemma d_add_whole: "\<bar>i + j\<bar> \<le> 2 ^ 53 \<Longrightarrow> d_add (whole i) (whole j) = whole (i + j)"
  using round_double_of_int [of "i + j"] by (simp add: whole_def)

lemma d_sub_whole: "\<bar>i - j\<bar> \<le> 2 ^ 53 \<Longrightarrow> d_sub (whole i) (whole j) = whole (i - j)"
  using round_double_of_int [of "i - j"] by (simp add: whole_def d_sub_def)

lemma d_mul_whole: "\<bar>i * j\<bar> \<le> 2 ^ 53 \<Longrightarrow> d_mul (whole i) (whole j) = whole (i * j)"
  using round_double_of_int [of "i * j"] by (simp add: whole_def)

lemma d_div_whole: "j \<noteq> 0 \<Longrightarrow> i = k * j \<Longrightarrow> \<bar>k\<bar> \<le> 2 ^ 53 \<Longrightarrow> d_div (whole i) (whole j) = whole k"
  using round_double_of_int [of k] by (simp add: whole_def)

lemmas whole_simps = d_of_int_whole d_add_whole d_sub_whole d_mul_whole

lemma d_less_whole [simp]: "d_less (whole i) (whole j) \<longleftrightarrow> i < j"
  by (simp add: whole_def)

subsection \<open>Accuracy\<close>

text \<open>Rounding is to within half a unit, whatever the number.\<close>

lemma round_even_near: "\<bar>of_int (round_even x) - x\<bar> \<le> 1 / 2"
  by (simp add: round_even_def Let_def abs_if) linarith

lemma round_double_near:
  assumes "round_double x = Finite v"
  shows "\<bar>v - x\<bar> \<le> unit_of x / 2"
proof -
  have u: "0 < unit_of x" by (simp add: unit_of_def)
  have "of_int (round_even (x / unit_of x)) * unit_of x - x = (of_int (round_even (x / unit_of x)) - x / unit_of x) * unit_of x"
    using u by (simp add: field_simps)
  then have "\<bar>of_int (round_even (x / unit_of x)) * unit_of x - x\<bar> =
      \<bar>of_int (round_even (x / unit_of x)) - x / unit_of x\<bar> * unit_of x"
    using u by (simp add: abs_mult)
  also have "\<dots> \<le> 1 / 2 * unit_of x"
    using u by (intro mult_right_mono round_even_near) auto
  finally show ?thesis using assms u by (auto simp: round_double_def Let_def split: if_splits)
qed

text \<open>Rounding does not cross a whole number of at most 53 bits.\<close>

lemma round_even_between:
  shows "of_int i \<le> x \<Longrightarrow> i \<le> round_even x" and "x \<le> of_int i \<Longrightarrow> round_even x \<le> i"
proof -
  have f: "of_int \<lfloor>x\<rfloor> \<le> x" by simp
  show "i \<le> round_even x" if "of_int i \<le> x"
  proof -
    have "i \<le> \<lfloor>x\<rfloor>" using that by (simp add: le_floor_iff)
    then show ?thesis by (simp add: round_even_def Let_def)
  qed
  show "round_even x \<le> i" if le: "x \<le> of_int i"
  proof (cases "x = of_int i")
    case True
    then show ?thesis by simp
  next
    case False
    then have "\<lfloor>x\<rfloor> < i" using le by (simp add: floor_less_iff)
    then show ?thesis by (simp add: round_even_def Let_def)
  qed
qed

lemma round_double_between:
  assumes "of_int i \<le> x" and "x \<le> of_int j" and "\<bar>i\<bar> < 2 ^ 53" and "\<bar>j\<bar> < 2 ^ 53"
  shows "\<exists>v. round_double x = Finite v \<and> of_int i \<le> v \<and> v \<le> of_int j"
proof (cases "x = 0")
  case True
  then show ?thesis using assms by (simp add: round_double_def)
next
  case False
  have int53: "\<bar>of_int k :: rat\<bar> < 2 ^ 53" if "\<bar>k\<bar> < 2 ^ 53" for k :: int
    using that by (metis of_int_abs of_int_less_iff of_int_numeral of_int_power)
  have "\<bar>x\<bar> < 2 ^ 53" using assms(1,2) int53 [OF assms(3)] int53 [OF assms(4)] by (auto simp: abs_less_iff)
  then have "(2::rat) powi exponent_of \<bar>x\<bar> < 2 powi 53"
    using exponent_of_bounds(1) [of "\<bar>x\<bar>"] False by simp
  then have "exponent_of \<bar>x\<bar> < 53"
    using power_int_increasing [of 53 "exponent_of \<bar>x\<bar>" "2::rat"] by (cases "53 \<le> exponent_of \<bar>x\<bar>") auto
  then have "max (exponent_of \<bar>x\<bar> - 52) (- 1074) = - int (nat (- max (exponent_of \<bar>x\<bar> - 52) (- 1074)))" by simp
  then obtain k where k: "unit_of x = 2 powi (- int k)" unfolding unit_of_def by metis
  define u where "u = unit_of x"
  have u: "0 < u" by (simp add: u_def unit_of_def)
  have scale: "of_int l / u = of_int (l * 2 ^ k)" for l
    by (simp add: u_def k power_int_minus divide_inverse)
  define w where "w = round_even (x / u)"
  have "of_int (i * 2 ^ k) \<le> x / u" "x / u \<le> of_int (j * 2 ^ k)"
    unfolding scale [symmetric] using assms(1,2) u by (simp_all add: divide_right_mono)
  then have "i * 2 ^ k \<le> w" "w \<le> j * 2 ^ k" unfolding w_def by (blast intro: round_even_between)+
  then have "of_int i / u \<le> of_int w" "of_int w \<le> of_int j / u"
    unfolding scale by (simp_all only: of_int_le_iff)
  then have v: "of_int i \<le> of_int w * u" "of_int w * u \<le> of_int j"
    using u by (simp_all add: pos_divide_le_eq pos_le_divide_eq)
  have "\<bar>of_int w * u\<bar> < 2 ^ 53" using v int53 [OF assms(3)] int53 [OF assms(4)] by (auto simp: abs_less_iff)
  also have "(2 :: rat) ^ 53 < 2 powi 1024" by simp
  finally have "\<not> 2 powi 1024 \<le> of_int w * u" "\<not> of_int w * u \<le> - (2 powi 1024)" by (auto simp: abs_less_iff)
  then have "round_double x = Finite (of_int w * u)"
    using False by (simp add: round_double_def Let_def w_def u_def)
  with v show ?thesis by blast
qed

end
