(* ===== verification/PositionKeeper.thy ===== *)
theory PositionKeeper
  imports Doubles MarketOrderBook
begin

section \<open>Positions and profits\<close>

text \<open>
  \<^verbatim>\<open>trading/strategy/PositionKeeper.hpp\<close>: per ticker the position, the volume, the open notional of each
  side and the profits, updated by fills and by the best bid and offer. \<open>position\<close> is an \<^verbatim>\<open>int32_t\<close>: adding
  a fill to it goes through unsigned arithmetic and wraps, while the products with it are signed and may
  overflow. The pointer to the book's best bid and offer, used for printing only, is the number of the book.
\<close>

record PositionInfo =
  position :: int
  real_pnl :: double
  unreal_pnl :: double
  total_pnl :: double
  open_vwap :: "nat \<Rightarrow> double"
  volume :: Quantity
  pi_bbo :: ptr

text \<open>
  The members without an initialiser, \<open>position\<close> and \<open>open_vwap\<close>, start with whatever the memory holds,
  which is a parameter.
\<close>

definition new_position :: "int \<Rightarrow> (nat \<Rightarrow> double) \<Rightarrow> PositionInfo" where
  "new_position position0 open_vwap0 =
     \<lparr>position = position0, real_pnl = Finite 0, unreal_pnl = Finite 0, total_pnl = Finite 0,
      open_vwap = open_vwap0, volume = 0, pi_bbo = None\<rparr>"

subsection \<open>Fills\<close>

text \<open>The unrealised profit of an open position at a price.\<close>

definition mark_position :: "double \<Rightarrow> PositionInfo \<Rightarrow> PositionInfo res" where
  "mark_position price p =
     bindE (int32 \<bar>position p\<bar>) (\<lambda>a.
     Inr (p\<lparr>unreal_pnl :=
       (if position p > 0
        then d_mul (d_sub price (d_div (open_vwap p (sideToIndex Side_BUY)) (d_of_int a))) (d_of_int a)
        else d_mul (d_sub (d_div (open_vwap p (sideToIndex Side_SELL)) (d_of_int a)) price) (d_of_int a))\<rparr>))"

text \<open>A fill that adds to the position.\<close>

definition add_open :: "MatchingEngineClientResponse \<Rightarrow> PositionInfo \<Rightarrow> PositionInfo res" where
  "add_open r p =
     (let side_index = sideToIndex (rs_side r) in
      bindE (int64 (rs_price r * int (unat (rs_exec_quantity r)))) (\<lambda>notional.
      Inr (p\<lparr>open_vwap := (open_vwap p)(side_index := d_add (open_vwap p side_index) (d_of_int notional))\<rparr>)))"

text \<open>A fill against the position, which it may flip.\<close>

definition close_open :: "int \<Rightarrow> MatchingEngineClientResponse \<Rightarrow> PositionInfo \<Rightarrow> PositionInfo res" where
  "close_open old_position r p =
     (let side_index = sideToIndex (rs_side r);
          opp_side_index = sideToIndex (if rs_side r = Side_BUY then Side_SELL else Side_BUY)
      in
      bindE (int32 \<bar>old_position\<bar>) (\<lambda>abs_old.
      let opp_side_vwap = d_div (open_vwap p opp_side_index) (d_of_int abs_old);
          gain = d_mul (d_mul (d_of_int (min (to_int32 (rs_exec_quantity r)) abs_old))
                   (d_sub opp_side_vwap (d_of_int (rs_price r)))) (d_of_int (sideToValue (rs_side r)));
          p1 = p\<lparr>real_pnl := d_add (real_pnl p) gain\<rparr>
      in
      bindE (int32 (position p1 * old_position)) (\<lambda>product.
      if product < 0
      then bindE (int32 \<bar>position p1\<bar>) (\<lambda>a.
           bindE (int64 (rs_price r * a)) (\<lambda>notional.
           Inr (p1\<lparr>open_vwap := (open_vwap p1)(side_index := d_of_int notional, opp_side_index := Finite 0)\<rparr>)))
      else Inr p1)))"

definition addFill :: "MatchingEngineClientResponse \<Rightarrow> PositionInfo \<Rightarrow> PositionInfo res" where
  "addFill r p =
     (let old_position = position p;
          side_value = sideToValue (rs_side r);
          p1 = p\<lparr>position := to_int32 (word_of_int old_position + rs_exec_quantity r * word_of_int side_value),
                 volume := volume p + rs_exec_quantity r\<rparr>
      in
      bindE (int32 (old_position * side_value)) (\<lambda>signed_position.
      bindE (if signed_position \<ge> 0 then add_open r p1 else close_open old_position r p1) (\<lambda>p2.
      bindE (if position p2 = 0
             then Inr (p2\<lparr>open_vwap := (open_vwap p2)(sideToIndex Side_SELL := Finite 0, sideToIndex Side_BUY := Finite 0),
                          unreal_pnl := Finite 0\<rparr>)
             else mark_position (d_of_int (rs_price r)) p2) (\<lambda>p3.
      Inr (p3\<lparr>total_pnl := d_add (unreal_pnl p3) (real_pnl p3)\<rparr>)))))"

subsection \<open>The best bid and offer\<close>

definition position_updateBBO :: "nat \<Rightarrow> BBO \<Rightarrow> PositionInfo \<Rightarrow> PositionInfo res" where
  "position_updateBBO ticker new_bbo p =
     (let p1 = p\<lparr>pi_bbo := Some ticker\<rparr> in
      bindE (if position p1 \<noteq> 0 \<and> best_bid_price new_bbo \<noteq> PRICE_INVALID \<and> best_ask_price new_bbo \<noteq> PRICE_INVALID
             then bindE (int64 (best_bid_price new_bbo + best_ask_price new_bbo)) (\<lambda>sum.
                  mark_position (d_mul (d_of_int sum) (Finite (1 / 2))) p1)
             else Inr p1) (\<lambda>p2.
      Inr (p2\<lparr>total_pnl := d_add (unreal_pnl p2) (real_pnl p2)\<rparr>)))"

subsection \<open>All tickers\<close>

record position_keeper =
  ticker_position :: "nat \<Rightarrow> PositionInfo"

definition PositionKeeper :: "(nat \<Rightarrow> int) \<Rightarrow> (nat \<Rightarrow> nat \<Rightarrow> double) \<Rightarrow> position_keeper" where
  "PositionKeeper positions0 open_vwaps0 =
     \<lparr>ticker_position = (\<lambda>t. new_position (positions0 t) (open_vwaps0 t))\<rparr>"

definition update_position :: "TickerID \<Rightarrow> (PositionInfo \<Rightarrow> PositionInfo res) \<Rightarrow> position_keeper \<Rightarrow> position_keeper res" where
  "update_position ticker_id f k =
     bindE (arr_at MATCHING_ENGINE_MAX_TICKERS (ticker_position k) (unat ticker_id)) (\<lambda>p.
     bindE (f p) (\<lambda>p'.
     Inr (k\<lparr>ticker_position := (ticker_position k)(unat ticker_id := p')\<rparr>)))"

definition keeper_addFill :: "MatchingEngineClientResponse \<Rightarrow> position_keeper \<Rightarrow> position_keeper res" where
  "keeper_addFill r = update_position (rs_ticker_id r) (addFill r)"

definition keeper_updateBBO :: "TickerID \<Rightarrow> BBO \<Rightarrow> position_keeper \<Rightarrow> position_keeper res" where
  "keeper_updateBBO ticker_id new_bbo = update_position ticker_id (position_updateBBO (unat ticker_id) new_bbo)"

definition getPositionInfo :: "TickerID \<Rightarrow> position_keeper \<Rightarrow> nat res" where
  "getPositionInfo ticker_id k =
     bindE (arr_at MATCHING_ENGINE_MAX_TICKERS (ticker_position k) (unat ticker_id)) (\<lambda>_. Inr (unat ticker_id))"

end
