(* ===== verification/RiskManager.thy ===== *)
theory RiskManager
  imports PositionKeeper
begin

section \<open>Pre-trade risk checks\<close>

text \<open>
  \<^verbatim>\<open>trading/strategy/RiskManager.hpp\<close> and \<^verbatim>\<open>RiskManager.cc\<close>, with the configuration structs of
  \<^verbatim>\<open>common/Types.hpp\<close>. A \<open>RiskInfo\<close> points into the position keeper; the pointer is the ticker's number, and
  reading through it takes the keeper.
\<close>

datatype RiskCheckResult =
    RISK_INVALID | ORDER_LIMIT_EXCEEDED | POSITION_LIMIT_EXCEEDED | LOSS_LIMIT_EXCEEDED | ALLOWED

fun riskCheckResultToString :: "RiskCheckResult \<Rightarrow> string" where
  "riskCheckResultToString RISK_INVALID = ''INVALID''"
| "riskCheckResultToString ORDER_LIMIT_EXCEEDED = ''ORDER_LIMIT_EXCEEDED''"
| "riskCheckResultToString POSITION_LIMIT_EXCEEDED = ''POSITION_LIMIT_EXCEEDED''"
| "riskCheckResultToString LOSS_LIMIT_EXCEEDED = ''LOSS_LIMIT_EXCEEDED''"
| "riskCheckResultToString ALLOWED = ''ALLOWED''"

record RiskConfig =
  max_order_size :: Quantity
  max_position :: Quantity
  max_loss :: double

definition default_risk_config :: RiskConfig where
  "default_risk_config = \<lparr>max_order_size = 0, max_position = 0, max_loss = Finite 0\<rparr>"

record TradeEngineConfig =
  clip :: Quantity
  threshold :: double
  te_risk_config :: RiskConfig

definition default_config :: TradeEngineConfig where
  "default_config = \<lparr>clip = 0, threshold = Finite 0, te_risk_config = default_risk_config\<rparr>"

record RiskInfo =
  position_info :: nat
  risk_config :: RiskConfig

definition info_checkPreTradeRisk :: "Side \<Rightarrow> Quantity \<Rightarrow> RiskInfo \<Rightarrow> position_keeper \<Rightarrow> RiskCheckResult res" where
  "info_checkPreTradeRisk side quantity r k =
     (let p = ticker_position k (position_info r); cfg = risk_config r in
      if quantity > max_order_size cfg then Inr ORDER_LIMIT_EXCEEDED
      else
        bindE (int32 (sideToValue side * to_int32 quantity)) (\<lambda>change.
        bindE (int32 (position p + change)) (\<lambda>new_position.
        bindE (int32 \<bar>new_position\<bar>) (\<lambda>exposure.
        if exposure > to_int32 (max_position cfg) then Inr POSITION_LIMIT_EXCEEDED
        else if d_less (total_pnl p) (max_loss cfg) then Inr LOSS_LIMIT_EXCEEDED
        else Inr ALLOWED))))"

record risk_manager =
  ticker_risk :: "nat \<Rightarrow> RiskInfo"

definition RiskManager :: "(nat \<Rightarrow> TradeEngineConfig) \<Rightarrow> risk_manager" where
  "RiskManager ticker_cfg =
     \<lparr>ticker_risk = (\<lambda>i. \<lparr>position_info = i, risk_config = te_risk_config (ticker_cfg i)\<rparr>)\<rparr>"

definition checkPreTradeRisk :: "TickerID \<Rightarrow> Side \<Rightarrow> Quantity \<Rightarrow> risk_manager \<Rightarrow> position_keeper \<Rightarrow> RiskCheckResult res" where
  "checkPreTradeRisk ticker_id side quantity m k =
     bindE (arr_at MATCHING_ENGINE_MAX_TICKERS (ticker_risk m) (unat ticker_id)) (\<lambda>r.
     info_checkPreTradeRisk side quantity r k)"

end
