(* ===== verification/OrderManager.thy ===== *)
theory OrderManager
  imports RiskManager
begin

section \<open>The order manager\<close>

text \<open>
  \<^verbatim>\<open>trading/strategy/OMOrder.hpp\<close>, \<^verbatim>\<open>OrderManager.hpp\<close> and \<^verbatim>\<open>OrderManager.cc\<close>. The manager keeps one order per
  ticker and side and moves it where the strategy wants it. A pointer to such an order is the pair of
  its indices. The state of the operations is the manager together with the queue to the gateway, which
  \<open>sendClientRequest\<close> of the trade engine writes.
\<close>

datatype OMOrderState = OM_INVALID | OM_PENDING_NEW | OM_LIVE | OM_PENDING_CANCEL | OM_DEAD

fun OMOrderStateToString :: "OMOrderState \<Rightarrow> string" where
  "OMOrderStateToString OM_INVALID = ''INVALID''"
| "OMOrderStateToString OM_PENDING_NEW = ''PENDING_NEW''"
| "OMOrderStateToString OM_LIVE = ''LIVE''"
| "OMOrderStateToString OM_PENDING_CANCEL = ''PENDING_CANCEL''"
| "OMOrderStateToString OM_DEAD = ''DEAD''"

record OMOrder =
  om_ticker_id :: TickerID
  om_order_id :: OrderID
  om_side :: Side
  om_price :: Price
  om_quantity :: Quantity
  om_order_state :: OMOrderState

definition default_om_order :: OMOrder where
  "default_om_order =
     \<lparr>om_ticker_id = TICKER_ID_INVALID, om_order_id = ORDER_ID_INVALID, om_side = Side_INVALID,
      om_price = PRICE_INVALID, om_quantity = QUANTITY_INVALID, om_order_state = OM_INVALID\<rparr>"

definition OMOrder_toString :: "OMOrder \<Rightarrow> string" where
  "OMOrder_toString o1 =
     ''OMOrder'' @ ''['' @ ''tid:'' @ tickerIdToString (om_ticker_id o1) @ '' '' @
     ''oid:'' @ orderIdToString (om_order_id o1) @ '' '' @
     ''side:'' @ sideToString (om_side o1) @ '' '' @
     ''price:'' @ priceToString (om_price o1) @ '' '' @
     ''qty:'' @ quantityToString (om_quantity o1) @ '' '' @
     ''state:'' @ OMOrderStateToString (om_order_state o1) @ '']''"

text \<open>The inner array has \<open>sideToIndex Side_MAX\<close> entries.\<close>

record order_manager =
  ticker_side_orders :: "nat \<Rightarrow> nat \<Rightarrow> OMOrder"
  next_order_id :: OrderID

definition OrderManager :: order_manager where
  "OrderManager = \<lparr>ticker_side_orders = (\<lambda>_ _. default_om_order), next_order_id = 1\<rparr>"

type_synonym om_state = "order_manager \<times> ClientRequestLFQueue"

definition om_order :: "nat \<times> nat \<Rightarrow> order_manager \<Rightarrow> OMOrder" where
  "om_order a m = ticker_side_orders m (fst a) (snd a)"

definition set_om_order :: "nat \<times> nat \<Rightarrow> OMOrder \<Rightarrow> order_manager \<Rightarrow> order_manager" where
  "set_om_order a v m =
     m\<lparr>ticker_side_orders := (ticker_side_orders m)(fst a := (ticker_side_orders m (fst a))(snd a := v))\<rparr>"

text \<open>\<^verbatim>\<open>&(ticker_side_orders.at(ticker_id).at(sideToIndex(side)))\<close>.\<close>

definition order_address :: "TickerID \<Rightarrow> Side \<Rightarrow> order_manager \<Rightarrow> (nat \<times> nat) res" where
  "order_address ticker_id side m =
     bindE (arr_at MATCHING_ENGINE_MAX_TICKERS (ticker_side_orders m) (unat ticker_id)) (\<lambda>orders.
     bindE (arr_at (sideToIndex Side_MAX) orders (sideToIndex side)) (\<lambda>_.
     Inr (unat ticker_id, sideToIndex side)))"

subsection \<open>Sending\<close>

definition sendClientRequest :: "MatchingEngineClientRequest \<Rightarrow> ClientRequestLFQueue \<Rightarrow> ClientRequestLFQueue" where
  "sendClientRequest client_request q = lf_push q client_request"

definition newOrder :: "ClientID \<Rightarrow> nat \<times> nat \<Rightarrow> TickerID \<Rightarrow> Price \<Rightarrow> Side \<Rightarrow> Quantity \<Rightarrow> om_state \<Rightarrow> om_state" where
  "newOrder client_id order ticker_id price side quantity = (\<lambda>(m, q).
     let new_request = \<lparr>rq_type = CRQ_NEW, rq_client_id = client_id, rq_ticker_id = ticker_id,
           rq_order_id = next_order_id m, rq_side = side, rq_price = price, rq_quantity = quantity\<rparr>;
         m1 = set_om_order order
           \<lparr>om_ticker_id = ticker_id, om_order_id = next_order_id m, om_side = side, om_price = price,
            om_quantity = quantity, om_order_state = OM_PENDING_NEW\<rparr> m
     in (m1\<lparr>next_order_id := next_order_id m1 + 1\<rparr>, sendClientRequest new_request q))"

definition cancelOrder :: "ClientID \<Rightarrow> nat \<times> nat \<Rightarrow> om_state \<Rightarrow> om_state" where
  "cancelOrder client_id order = (\<lambda>(m, q).
     let v = om_order order m;
         cancel_request = \<lparr>rq_type = CRQ_CANCEL, rq_client_id = client_id, rq_ticker_id = om_ticker_id v,
           rq_order_id = om_order_id v, rq_side = om_side v, rq_price = om_price v, rq_quantity = om_quantity v\<rparr>
     in (set_om_order order (v\<lparr>om_order_state := OM_PENDING_CANCEL\<rparr>) m, sendClientRequest cancel_request q))"

subsection \<open>Moving orders\<close>

definition moveOrder :: "ClientID \<Rightarrow> risk_manager \<Rightarrow> position_keeper \<Rightarrow> nat \<times> nat \<Rightarrow> TickerID \<Rightarrow> Price \<Rightarrow> Side \<Rightarrow>
    Quantity \<Rightarrow> om_state \<Rightarrow> om_state res" where
  "moveOrder client_id risk k order ticker_id price side quantity = (\<lambda>(m, q).
     let v = om_order order m in
     case om_order_state v of
       OM_LIVE \<Rightarrow>
         if om_price v \<noteq> price \<or> om_quantity v \<noteq> quantity then Inr (cancelOrder client_id order (m, q)) else Inr (m, q)
     | OM_PENDING_NEW \<Rightarrow> Inr (m, q)
     | OM_PENDING_CANCEL \<Rightarrow> Inr (m, q)
     | _ \<Rightarrow>
         if price \<noteq> PRICE_INVALID
         then bindE (checkPreTradeRisk ticker_id side quantity risk k) (\<lambda>risk_result.
              if risk_result = ALLOWED
              then Inr (newOrder client_id order ticker_id price side quantity (m, q))
              else Inr (m, q))
         else Inr (m, q))"

definition moveOrders :: "ClientID \<Rightarrow> risk_manager \<Rightarrow> position_keeper \<Rightarrow> TickerID \<Rightarrow> Price \<Rightarrow> Price \<Rightarrow> Quantity \<Rightarrow>
    om_state \<Rightarrow> om_state res" where
  "moveOrders client_id risk k ticker_id bid_price ask_price quantity st =
     bindE (order_address ticker_id Side_BUY (fst st)) (\<lambda>bid_order.
     bindE (moveOrder client_id risk k bid_order ticker_id bid_price Side_BUY quantity st) (\<lambda>st1.
     bindE (order_address ticker_id Side_SELL (fst st1)) (\<lambda>ask_order.
     moveOrder client_id risk k ask_order ticker_id ask_price Side_SELL quantity st1)))"

subsection \<open>Responses\<close>

fun update_order :: "MatchingEngineClientResponse \<Rightarrow> OMOrder \<Rightarrow> OMOrder" where
  "update_order r v =
     (case rs_type r of
        CRS_ACCEPTED \<Rightarrow> v\<lparr>om_order_state := OM_LIVE\<rparr>
      | CRS_CANCELLED \<Rightarrow> v\<lparr>om_order_state := OM_DEAD\<rparr>
      | CRS_FILLED \<Rightarrow>
          let v1 = v\<lparr>om_quantity := rs_leaves_quantity r\<rparr>
          in if om_quantity v1 = 0 then v1\<lparr>om_order_state := OM_DEAD\<rparr> else v1
      | _ \<Rightarrow> v)"

definition om_onOrderUpdate :: "MatchingEngineClientResponse \<Rightarrow> order_manager \<Rightarrow> order_manager res" where
  "om_onOrderUpdate r m =
     bindE (order_address (rs_ticker_id r) (rs_side r) m) (\<lambda>order.
     Inr (set_om_order order (update_order r (om_order order m)) m))"

end
