(* ===== verification/SlotProtocol.thy ===== *)
theory SlotProtocol
  imports OrderManager
begin

section \<open>The life of the order in one slot\<close>

text \<open>
  The order manager has one slot per ticker and side. This theory describes what is under way for one of
  them: the slot \<open>v\<close>, the requests \<open>R\<close> on their way to the exchange, the responses \<open>A\<close> on their way
  back, and the open orders \<open>X\<close> at the exchange (order identifier to open quantity). \<open>slot_ok\<close> is the
  invariant; there is a lemma for each thing that can happen.
\<close>

type_synonym slot_requests = "MatchingEngineClientRequest list"
type_synonym slot_responses = "MatchingEngineClientResponse list"
type_synonym slot_open = "OrderID \<Rightarrow> Quantity option"

definition idle :: "OMOrder \<Rightarrow> bool" where
  "idle v \<longleftrightarrow> om_order_state v = OM_INVALID \<or> om_order_state v = OM_DEAD"

text \<open>Fills that take the quantity \<open>q\<close> down to \<open>l\<close>.\<close>

fun fills_to :: "Quantity \<Rightarrow> slot_responses \<Rightarrow> Quantity \<Rightarrow> bool" where
  "fills_to q [] l \<longleftrightarrow> l = q"
| "fills_to q (r # rs) l \<longleftrightarrow> rs_type r = CRS_FILLED \<and> rs_exec_quantity r \<noteq> 0 \<and> rs_exec_quantity r \<le> q \<and>
     rs_leaves_quantity r = q - rs_exec_quantity r \<and> fills_to (q - rs_exec_quantity r) rs l"

definition only :: "OrderID \<Rightarrow> Quantity \<Rightarrow> slot_open" where
  "only i l = (if l = 0 then Map.empty else [i \<mapsto> l])"

definition is_cancel_other :: "OrderID \<Rightarrow> MatchingEngineClientRequest \<Rightarrow> bool" where
  "is_cancel_other i c \<longleftrightarrow> rq_type c = CRQ_CANCEL \<and> rq_order_id c \<noteq> i"

definition announces :: "OMOrder \<Rightarrow> MatchingEngineClientRequest \<Rightarrow> bool" where
  "announces v n \<longleftrightarrow> rq_type n = CRQ_NEW \<and> rq_order_id n = om_order_id v \<and> rq_quantity n = om_quantity v"

definition withdraws :: "OMOrder \<Rightarrow> MatchingEngineClientRequest \<Rightarrow> bool" where
  "withdraws v c \<longleftrightarrow> rq_type c = CRQ_CANCEL \<and> rq_order_id c = om_order_id v"

text \<open>The stages of an order's life.\<close>

definition stage_idle :: "slot_requests \<Rightarrow> slot_responses \<Rightarrow> slot_open \<Rightarrow> bool" where
  "stage_idle R A X \<longleftrightarrow> A = [] \<and> X = Map.empty \<and> (R = [] \<or> (\<exists>c. R = [c] \<and> rq_type c = CRQ_CANCEL))"

definition stage_sent :: "OMOrder \<Rightarrow> slot_requests \<Rightarrow> slot_responses \<Rightarrow> slot_open \<Rightarrow> bool" where
  "stage_sent v R A X \<longleftrightarrow> A = [] \<and> X = Map.empty \<and>
     (\<exists>n. announces v n \<and> (R = [n] \<or> (\<exists>c. R = [c, n] \<and> is_cancel_other (om_order_id v) c)))"

definition stage_acknowledged :: "OMOrder \<Rightarrow> slot_requests \<Rightarrow> slot_responses \<Rightarrow> slot_open \<Rightarrow> bool" where
  "stage_acknowledged v R A X \<longleftrightarrow> R = [] \<and>
     (\<exists>a fs l. A = a # fs \<and> rs_type a = CRS_ACCEPTED \<and> fills_to (om_quantity v) fs l \<and> X = only (om_order_id v) l)"

definition stage_live :: "OMOrder \<Rightarrow> slot_requests \<Rightarrow> slot_responses \<Rightarrow> slot_open \<Rightarrow> bool" where
  "stage_live v R A X \<longleftrightarrow> R = [] \<and> (\<exists>l. fills_to (om_quantity v) A l \<and> X = only (om_order_id v) l)"

definition stage_cancelling :: "OMOrder \<Rightarrow> slot_requests \<Rightarrow> slot_responses \<Rightarrow> slot_open \<Rightarrow> bool" where
  "stage_cancelling v R A X \<longleftrightarrow>
     (\<exists>c l. R = [c] \<and> withdraws v c \<and> fills_to (om_quantity v) A l \<and> X = only (om_order_id v) l)"

definition stage_cancelled :: "OMOrder \<Rightarrow> slot_requests \<Rightarrow> slot_responses \<Rightarrow> slot_open \<Rightarrow> bool" where
  "stage_cancelled v R A X \<longleftrightarrow> R = [] \<and> X = Map.empty \<and>
     (fills_to (om_quantity v) A 0 \<or>
      (\<exists>fs c l. A = fs @ [c] \<and> rs_type c = CRS_CANCELLED \<and> fills_to (om_quantity v) fs l \<and> l \<noteq> 0))"

definition slot_ok :: "OMOrder \<Rightarrow> slot_requests \<Rightarrow> slot_responses \<Rightarrow> slot_open \<Rightarrow> bool" where
  "slot_ok v R A X \<longleftrightarrow>
     (case om_order_state v of
        OM_INVALID \<Rightarrow> stage_idle R A X
      | OM_DEAD \<Rightarrow> stage_idle R A X
      | OM_PENDING_NEW \<Rightarrow> stage_sent v R A X \<or> stage_acknowledged v R A X
      | OM_LIVE \<Rightarrow> stage_live v R A X
      | OM_PENDING_CANCEL \<Rightarrow> stage_cancelling v R A X \<or> stage_cancelled v R A X)"

lemmas stage_defs = stage_idle_def stage_sent_def stage_acknowledged_def stage_live_def stage_cancelling_def
  stage_cancelled_def

lemma slot_ok_states:
  "idle v \<Longrightarrow> slot_ok v R A X \<longleftrightarrow> stage_idle R A X"
  "om_order_state v = OM_PENDING_NEW \<Longrightarrow> slot_ok v R A X \<longleftrightarrow> stage_sent v R A X \<or> stage_acknowledged v R A X"
  "om_order_state v = OM_LIVE \<Longrightarrow> slot_ok v R A X \<longleftrightarrow> stage_live v R A X"
  "om_order_state v = OM_PENDING_CANCEL \<Longrightarrow> slot_ok v R A X \<longleftrightarrow> stage_cancelling v R A X \<or> stage_cancelled v R A X"
  by (auto simp: slot_ok_def idle_def)

lemma slot_cases:
  assumes "slot_ok v R A X"
  obtains (idle) "idle v" "stage_idle R A X"
  | (sent) "om_order_state v = OM_PENDING_NEW" "stage_sent v R A X"
  | (acknowledged) "om_order_state v = OM_PENDING_NEW" "stage_acknowledged v R A X"
  | (live) "om_order_state v = OM_LIVE" "stage_live v R A X"
  | (cancelling) "om_order_state v = OM_PENDING_CANCEL" "stage_cancelling v R A X"
  | (cancelled) "om_order_state v = OM_PENDING_CANCEL" "stage_cancelled v R A X"
  using assms by (cases "om_order_state v") (auto simp: slot_ok_def idle_def)

subsection \<open>Chains of fills\<close>

lemma fills_to_zero: "fills_to 0 A l \<longleftrightarrow> A = [] \<and> l = 0"
  by (cases A) auto

lemma fills_to_snoc:
  "fills_to q A l \<Longrightarrow> f \<noteq> 0 \<Longrightarrow> f \<le> l \<Longrightarrow> rs_type r = CRS_FILLED \<Longrightarrow> rs_exec_quantity r = f \<Longrightarrow>
   rs_leaves_quantity r = l - f \<Longrightarrow> fills_to q (A @ [r]) (l - f)"
  by (induction A arbitrary: q) auto

lemma only_simps [simp]: "only i 0 = Map.empty" "l \<noteq> 0 \<Longrightarrow> only i l = [i \<mapsto> l]"
  by (simp_all add: only_def)

lemma only_eq_Some: "only i l j = Some k \<longleftrightarrow> j = i \<and> k = l \<and> l \<noteq> 0"
  by (auto simp: only_def)

subsection \<open>What the strategy does\<close>

lemma slot_new:
  assumes "slot_ok v R A X" and "idle v"
    and "om_order_state v' = OM_PENDING_NEW" and "announces v' n"
    and "\<forall>c\<in>set R. rq_order_id c \<noteq> om_order_id v'"
  shows "slot_ok v' (R @ [n]) A X"
proof -
  have "stage_idle R A X" using assms(1,2) by (simp add: slot_ok_states)
  then have "stage_sent v' (R @ [n]) A X"
    using assms(4,5) by (auto simp: stage_defs is_cancel_other_def)
  then show ?thesis using assms(3) by (simp add: slot_ok_states)
qed

lemma slot_cancel:
  assumes "slot_ok v R A X" and "om_order_state v = OM_LIVE" and "withdraws v c"
  shows "slot_ok (v\<lparr>om_order_state := OM_PENDING_CANCEL\<rparr>) (R @ [c]) A X"
proof -
  have "stage_live v R A X" using assms(1,2) by (simp add: slot_ok_states)
  then have "stage_cancelling (v\<lparr>om_order_state := OM_PENDING_CANCEL\<rparr>) (R @ [c]) A X"
    using assms(3) by (auto simp: stage_defs withdraws_def)
  then show ?thesis by (simp add: slot_ok_states)
qed

subsection \<open>What the exchange does\<close>

lemma slot_handle_new:
  assumes "slot_ok v (n # R) A X" and "rq_type n = CRQ_NEW" and "rs_type a = CRS_ACCEPTED"
  shows "slot_ok v R (A @ [a]) (if rq_quantity n = 0 then X else X(rq_order_id n \<mapsto> rq_quantity n))"
    and "om_order_id v = rq_order_id n"
proof -
  have "om_order_state v = OM_PENDING_NEW \<and> stage_sent v (n # R) A X"
    using assms(1)
    by (rule slot_cases) (use assms(2) in \<open>auto simp: stage_defs withdraws_def\<close>)
  then have s: "om_order_state v = OM_PENDING_NEW" "announces v n" "R = []" "A = []" "X = Map.empty"
    using assms(2) by (auto simp: stage_sent_def is_cancel_other_def)
  then have "stage_acknowledged v R (A @ [a]) (if rq_quantity n = 0 then X else X(rq_order_id n \<mapsto> rq_quantity n))"
    using assms(3) by (auto simp: stage_acknowledged_def announces_def)
  then show "slot_ok v R (A @ [a]) (if rq_quantity n = 0 then X else X(rq_order_id n \<mapsto> rq_quantity n))"
    using s(1) by (simp add: slot_ok_states)
  show "om_order_id v = rq_order_id n" using s(2) by (simp add: announces_def)
qed

lemma slot_handle_cancel:
  assumes "slot_ok v (c # R) A X" and "rq_type c = CRQ_CANCEL"
    and "X (rq_order_id c) = Some l" and "rs_type a = CRS_CANCELLED"
  shows "slot_ok v R (A @ [a]) (X(rq_order_id c := None))"
proof -
  have "om_order_state v = OM_PENDING_CANCEL \<and> stage_cancelling v (c # R) A X"
    using assms(1)
    by (rule slot_cases) (use assms(3) in \<open>auto simp: stage_defs withdraws_def\<close>)
  then obtain k where s: "om_order_state v = OM_PENDING_CANCEL" "withdraws v c" "R = []"
      "fills_to (om_quantity v) A k" "X = only (om_order_id v) k"
    by (auto simp: stage_cancelling_def)
  then have "k \<noteq> 0" using assms(3) by (auto simp: only_eq_Some)
  then have "stage_cancelled v R (A @ [a]) (X(rq_order_id c := None))"
    using s assms(4) by (auto simp: stage_cancelled_def withdraws_def)
  then show ?thesis using s(1) by (simp add: slot_ok_states)
qed

lemma slot_handle_late_cancel:
  assumes "slot_ok v (c # R) A X" and "rq_type c = CRQ_CANCEL" and "X (rq_order_id c) = None"
  shows "slot_ok v R A X"
  using assms(1)
proof (cases rule: slot_cases)
  case idle
  then show ?thesis by (auto simp: slot_ok_states stage_idle_def)
next
  case sent
  then have "stage_sent v R A X" using assms(2) by (auto simp: stage_sent_def announces_def)
  with sent(1) show ?thesis by (simp add: slot_ok_states)
next
  case cancelling
  then obtain l where l: "R = []" "withdraws v c" "fills_to (om_quantity v) A l" "X = only (om_order_id v) l"
    by (auto simp: stage_cancelling_def)
  then have "l = 0" using assms(3) by (auto simp: only_def withdraws_def split: if_splits)
  with l have "stage_cancelled v R A X" by (simp add: stage_cancelled_def)
  with cancelling(1) show ?thesis by (simp add: slot_ok_states)
qed (simp_all add: stage_defs)

lemma slot_fill:
  assumes "slot_ok v R A X" and "X i = Some l" and "f \<noteq> 0" and "f \<le> l"
    and r: "rs_type r = CRS_FILLED" "rs_exec_quantity r = f" "rs_leaves_quantity r = l - f"
  shows "slot_ok v R (A @ [r]) (if f = l then X(i := None) else X(i \<mapsto> l - f))"
proof -
  have upd: "(if f = l then (only j l)(j := None) else (only j l)(j \<mapsto> l - f)) = only j (l - f)" for j
    using assms(3,4) by (auto simp: only_def)
  note step = fills_to_snoc [OF _ assms(3,4) r]
  show ?thesis
    using assms(1)
  proof (cases rule: slot_cases)
    case acknowledged
    then obtain a fs where s: "R = []" "A = a # fs" "rs_type a = CRS_ACCEPTED" "fills_to (om_quantity v) fs l"
        "X = only (om_order_id v) l" "i = om_order_id v"
      using assms(2) by (auto simp: stage_acknowledged_def only_eq_Some)
    then have "stage_acknowledged v R (A @ [r]) (if f = l then X(i := None) else X(i \<mapsto> l - f))"
      using step [OF s(4)] upd [of i] by (auto simp: stage_acknowledged_def)
    with acknowledged(1) show ?thesis by (simp add: slot_ok_states)
  next
    case live
    then have s: "R = []" "fills_to (om_quantity v) A l" "X = only (om_order_id v) l" "i = om_order_id v"
      using assms(2) by (auto simp: stage_live_def only_eq_Some)
    then have "stage_live v R (A @ [r]) (if f = l then X(i := None) else X(i \<mapsto> l - f))"
      using step [OF s(2)] upd [of i] by (auto simp: stage_live_def)
    with live(1) show ?thesis by (simp add: slot_ok_states)
  next
    case cancelling
    then obtain c where s: "R = [c]" "withdraws v c" "fills_to (om_quantity v) A l" "X = only (om_order_id v) l"
        "i = om_order_id v"
      using assms(2) by (auto simp: stage_cancelling_def only_eq_Some)
    then have "stage_cancelling v R (A @ [r]) (if f = l then X(i := None) else X(i \<mapsto> l - f))"
      using step [OF s(3)] upd [of i] by (auto simp: stage_cancelling_def)
    with cancelling(1) show ?thesis by (simp add: slot_ok_states)
  qed (use assms(2) in \<open>simp_all add: stage_defs\<close>)
qed

subsection \<open>What the client reads\<close>

lemma slot_fill_live:
  assumes "rs_type r = CRS_FILLED"
  shows "update_order r v = v\<lparr>om_quantity := rs_leaves_quantity r,
     om_order_state := (if rs_leaves_quantity r = 0 then OM_DEAD else om_order_state v)\<rparr>"
  using assms by simp

text \<open>A response moves the slot to its next stage; a fill is for no more than the slot's quantity.\<close>

lemma slot_receive:
  assumes "slot_ok v R (r # A) X"
  shows "slot_ok (update_order r v) R A X"
  using assms
proof (cases rule: slot_cases)
  case acknowledged
  then have "stage_live (update_order r v) R A X" by (auto simp: stage_defs)
  moreover have "om_order_state (update_order r v) = OM_LIVE" using acknowledged by (auto simp: stage_defs)
  ultimately show ?thesis by (simp add: slot_ok_states)
next
  case live
  then obtain l where l: "R = []" "fills_to (om_quantity v) (r # A) l" "X = only (om_order_id v) l"
    by (auto simp: stage_live_def)
  then have r: "rs_type r = CRS_FILLED" "fills_to (rs_leaves_quantity r) A l" by auto
  show ?thesis
  proof (cases "rs_leaves_quantity r = 0")
    case True
    with r l have "stage_idle R A X" by (simp add: fills_to_zero stage_idle_def)
    with True r(1) show ?thesis by (simp add: slot_ok_states idle_def)
  next
    case False
    with r l have "stage_live (update_order r v) R A X" by (auto simp: stage_live_def)
    with False r(1) live(1) show ?thesis by (simp add: slot_ok_states)
  qed
next
  case cancelling
  then obtain c l where l: "R = [c]" "withdraws v c" "fills_to (om_quantity v) (r # A) l" "X = only (om_order_id v) l"
    by (auto simp: stage_cancelling_def)
  then have r: "rs_type r = CRS_FILLED" "fills_to (rs_leaves_quantity r) A l" by auto
  show ?thesis
  proof (cases "rs_leaves_quantity r = 0")
    case True
    with r l have "stage_idle R A X" by (simp add: fills_to_zero stage_idle_def withdraws_def)
    with True r(1) show ?thesis by (simp add: slot_ok_states idle_def)
  next
    case False
    with r l have "stage_cancelling (update_order r v) R A X" by (auto simp: stage_cancelling_def withdraws_def)
    with False r(1) cancelling(1) show ?thesis by (simp add: slot_ok_states)
  qed
next
  case cancelled
  then have s: "R = []" "X = Map.empty" by (simp_all add: stage_cancelled_def)
  from cancelled consider (filled) "fills_to (om_quantity v) (r # A) 0"
    | (last) "A = []" "rs_type r = CRS_CANCELLED"
    | (more) fs c l where "A = fs @ [c]" "rs_type c = CRS_CANCELLED" "fills_to (om_quantity v) (r # fs) l" "l \<noteq> 0"
    by (auto simp: stage_cancelled_def Cons_eq_append_conv)
  then show ?thesis
  proof cases
    case filled
    show ?thesis
    proof (cases "rs_leaves_quantity r = 0")
      case True
      with filled s have "stage_idle R A X" by (auto simp: fills_to_zero stage_idle_def)
      with True filled show ?thesis by (simp add: slot_ok_states idle_def)
    next
      case False
      with filled s have "stage_cancelled (update_order r v) R A X" by (auto simp: stage_cancelled_def)
      with False filled cancelled(1) show ?thesis by (simp add: slot_ok_states)
    qed
  next
    case last
    then show ?thesis using s by (simp add: slot_ok_states idle_def stage_idle_def)
  next
    case more
    then have "rs_leaves_quantity r \<noteq> 0" by (auto simp: fills_to_zero)
    with more s have "stage_cancelled (update_order r v) R A X" by (auto simp: stage_cancelled_def)
    with more \<open>rs_leaves_quantity r \<noteq> 0\<close> cancelled(1) show ?thesis by (simp add: slot_ok_states)
  qed
qed (simp_all add: stage_defs)

lemma slot_receive_fill:
  assumes "slot_ok v R (r # A) X" and "rs_type r = CRS_FILLED"
  shows "\<not> idle v" and "rs_exec_quantity r \<le> om_quantity v" and "rs_leaves_quantity r = om_quantity v - rs_exec_quantity r"
  using assms(1)
  by (cases rule: slot_cases; use assms(2) in \<open>auto simp: stage_defs idle_def Cons_eq_append_conv\<close>)+

text \<open>At most two requests of a slot are under way, and only its own order can be open.\<close>

lemma slot_requests_bound: "slot_ok v R A X \<Longrightarrow> length R \<le> 2"
  by (erule slot_cases) (auto simp: stage_defs)

lemma slot_open_own: "slot_ok v R A X \<Longrightarrow> X i = Some l \<Longrightarrow> i = om_order_id v \<and> \<not> idle v \<and> l \<noteq> 0"
  by (erule slot_cases) (auto simp: stage_defs only_eq_Some idle_def)

lemma fills_to_le: "fills_to q A l \<Longrightarrow> l \<le> q"
proof (induction A arbitrary: q)
  case (Cons r A)
  then have "l \<le> q - rs_exec_quantity r" "q - rs_exec_quantity r \<le> q" by (auto intro: word_sub_le)
  then show ?case by (rule order_trans)
qed simp

lemma slot_open_quantity: "slot_ok v R A X \<Longrightarrow> X i = Some l \<Longrightarrow> l \<le> om_quantity v"
  by (erule slot_cases) (auto simp: stage_defs only_eq_Some dest: fills_to_le)

text \<open>With nothing under way, the slot and the exchange agree.\<close>

lemma slot_quiet:
  assumes "slot_ok v [] [] X" and "om_quantity v \<noteq> 0"
  shows "idle v \<and> X = Map.empty \<or> om_order_state v = OM_LIVE \<and> X = [om_order_id v \<mapsto> om_quantity v]"
  using assms(1) by (cases rule: slot_cases) (use assms(2) in \<open>auto simp: stage_defs\<close>)

end
