(* ===== verification/TradeEngine.thy ===== *)
theory TradeEngine
  imports OrderManager
begin

section \<open>Features, strategies and the trade engine\<close>

text \<open>
  \<^verbatim>\<open>trading/strategy/FeatureEngine.hpp\<close>, \<^verbatim>\<open>MarketMaker.cc\<close>, \<^verbatim>\<open>LiquidityTaker.cc\<close> and \<^verbatim>\<open>TradeEngine.cc\<close>: the
  engine reads responses and market updates from its two queues, keeps the books, positions and features
  up to date and lets its one strategy move orders, which end up in the queue to the gateway. The three
  callbacks the strategies register are those of the strategy the engine was built with.
\<close>

subsection \<open>Features\<close>

record feature_engine =
  market_price :: double
  agg_trade_qty_ratio :: double

definition FEATURE_INVALID :: double where
  "FEATURE_INVALID = NaN"

definition FeatureEngine :: feature_engine where
  "FeatureEngine = \<lparr>market_price = FEATURE_INVALID, agg_trade_qty_ratio = FEATURE_INVALID\<rparr>"

definition two_sided :: "BBO \<Rightarrow> bool" where
  "two_sided x \<longleftrightarrow> best_bid_price x \<noteq> PRICE_INVALID \<and> best_ask_price x \<noteq> PRICE_INVALID"

text \<open>The weighted price: the products are in 64-bit signed, the sum of the weights in 32-bit unsigned arithmetic.\<close>

definition fe_onOrderBookUpdate :: "BBO \<Rightarrow> feature_engine \<Rightarrow> feature_engine res" where
  "fe_onOrderBookUpdate x f =
     (if two_sided x
      then bindE (int64 (best_bid_price x * int (unat (best_ask_quantity x)))) (\<lambda>bid.
           bindE (int64 (best_ask_price x * int (unat (best_bid_quantity x)))) (\<lambda>ask.
           Inr (f\<lparr>market_price := d_div (d_add (d_of_int bid) (d_of_int ask))
                    (d_of_int (int (unat (best_ask_quantity x + best_bid_quantity x))))\<rparr>)))
      else Inr f)"

definition fe_onTradeUpdate :: "MatchingEngineMarketUpdate \<Rightarrow> BBO \<Rightarrow> feature_engine \<Rightarrow> feature_engine" where
  "fe_onTradeUpdate u x f =
     (if two_sided x
      then f\<lparr>agg_trade_qty_ratio := d_div (d_of_int (int (unat (mu_quantity u))))
               (d_of_int (int (unat (if mu_side u = Side_BUY then best_bid_quantity x else best_ask_quantity x))))\<rparr>
      else f)"

subsection \<open>The trade engine's state\<close>

datatype strategy =
    MarketMaker "nat \<Rightarrow> TradeEngineConfig"
  | LiquidityTaker "nat \<Rightarrow> TradeEngineConfig"

record trade_engine =
  te_client_id :: ClientID
  ticker_order_book :: "nat \<Rightarrow> market_order_book"
  outgoing_gateway_request :: ClientRequestLFQueue
  incoming_gateway_response :: ClientResponseLFQueue
  incoming_md_updates :: MarketUpdateLFQueue
  last_event_time :: Nanos
  te_feature_engine :: feature_engine
  te_position_keeper :: position_keeper
  te_risk_manager :: risk_manager
  te_order_manager :: order_manager
  te_algo :: strategy

definition TradeEngine :: "ClientID \<Rightarrow> AlgoType \<Rightarrow> (nat \<Rightarrow> TradeEngineConfig) \<Rightarrow> position_keeper \<Rightarrow>
    ClientRequestLFQueue \<Rightarrow> ClientResponseLFQueue \<Rightarrow> MarketUpdateLFQueue \<Rightarrow> trade_engine" where
  "TradeEngine client_id algo_type ticker_config keeper requests responses updates =
     \<lparr>te_client_id = client_id, ticker_order_book = (\<lambda>i. MarketOrderBook (word_of_nat i)),
      outgoing_gateway_request = requests, incoming_gateway_response = responses, incoming_md_updates = updates,
      last_event_time = 0, te_feature_engine = FeatureEngine, te_position_keeper = keeper,
      te_risk_manager = RiskManager ticker_config, te_order_manager = OrderManager,
      te_algo = (if algo_type = Algo_MAKER then MarketMaker ticker_config else LiquidityTaker ticker_config)\<rparr>"

text \<open>\<^verbatim>\<open>order_manager->moveOrders(...)\<close> on the engine's members.\<close>

definition te_moveOrders :: "TickerID \<Rightarrow> Price \<Rightarrow> Price \<Rightarrow> Quantity \<Rightarrow> trade_engine \<Rightarrow> trade_engine res" where
  "te_moveOrders ticker_id bid_price ask_price quantity e =
     bindE (moveOrders (te_client_id e) (te_risk_manager e) (te_position_keeper e) ticker_id bid_price ask_price quantity
              (te_order_manager e, outgoing_gateway_request e)) (\<lambda>(m, q).
     Inr (e\<lparr>te_order_manager := m, outgoing_gateway_request := q\<rparr>))"

subsection \<open>The market maker\<close>

definition mm_onOrderBookUpdate :: "(nat \<Rightarrow> TradeEngineConfig) \<Rightarrow> TickerID \<Rightarrow> BBO \<Rightarrow> trade_engine \<Rightarrow> trade_engine res" where
  "mm_onOrderBookUpdate ticker_config ticker_id x e =
     (let fair_price = market_price (te_feature_engine e) in
      if two_sided x \<and> \<not> d_eq fair_price FEATURE_INVALID
      then
        bindE (arr_at MATCHING_ENGINE_MAX_TICKERS ticker_config (unat ticker_id)) (\<lambda>cfg.
        bindE (int64 (best_bid_price x -
          (if d_le (threshold cfg) (d_sub fair_price (d_of_int (best_bid_price x))) then 0 else 1))) (\<lambda>bid_price.
        bindE (int64 (best_ask_price x +
          (if d_le (threshold cfg) (d_sub (d_of_int (best_ask_price x)) fair_price) then 0 else 1))) (\<lambda>ask_price.
        te_moveOrders ticker_id bid_price ask_price (clip cfg) e)))
      else Inr e)"

subsection \<open>The liquidity taker\<close>

definition lt_onTradeUpdate :: "(nat \<Rightarrow> TradeEngineConfig) \<Rightarrow> MatchingEngineMarketUpdate \<Rightarrow> BBO \<Rightarrow> trade_engine \<Rightarrow> trade_engine res" where
  "lt_onTradeUpdate ticker_config u x e =
     (let agg_qty_ratio = agg_trade_qty_ratio (te_feature_engine e) in
      if two_sided x \<and> \<not> d_eq agg_qty_ratio FEATURE_INVALID
      then
        bindE (arr_at MATCHING_ENGINE_MAX_TICKERS ticker_config (unat (mu_ticker_id u))) (\<lambda>cfg.
        if d_le (threshold cfg) agg_qty_ratio
        then if mu_side u = Side_BUY
             then te_moveOrders (mu_ticker_id u) (best_ask_price x) PRICE_INVALID (clip cfg) e
             else te_moveOrders (mu_ticker_id u) PRICE_INVALID (best_bid_price x) (clip cfg) e
        else Inr e)
      else Inr e)"

subsection \<open>Dispatch\<close>

definition algoOnOrderBookUpdate :: "TickerID \<Rightarrow> BBO \<Rightarrow> trade_engine \<Rightarrow> trade_engine res" where
  "algoOnOrderBookUpdate ticker_id x e =
     (case te_algo e of
        MarketMaker cfg \<Rightarrow> mm_onOrderBookUpdate cfg ticker_id x e
      | LiquidityTaker _ \<Rightarrow> Inr e)"

definition algoOnTradeUpdate :: "MatchingEngineMarketUpdate \<Rightarrow> BBO \<Rightarrow> trade_engine \<Rightarrow> trade_engine res" where
  "algoOnTradeUpdate u x e =
     (case te_algo e of
        MarketMaker _ \<Rightarrow> Inr e
      | LiquidityTaker cfg \<Rightarrow> lt_onTradeUpdate cfg u x e)"

text \<open>Both strategies hand a response on to the order manager.\<close>

definition algoOnOrderUpdate :: "MatchingEngineClientResponse \<Rightarrow> trade_engine \<Rightarrow> trade_engine res" where
  "algoOnOrderUpdate r e =
     bindE (om_onOrderUpdate r (te_order_manager e)) (\<lambda>m. Inr (e\<lparr>te_order_manager := m\<rparr>))"

definition te_onOrderBookUpdate :: "TickerID \<Rightarrow> BBO \<Rightarrow> trade_engine \<Rightarrow> trade_engine res" where
  "te_onOrderBookUpdate ticker_id x e =
     bindE (keeper_updateBBO ticker_id x (te_position_keeper e)) (\<lambda>k.
     bindE (fe_onOrderBookUpdate x (te_feature_engine e)) (\<lambda>f.
     algoOnOrderBookUpdate ticker_id x (e\<lparr>te_position_keeper := k, te_feature_engine := f\<rparr>)))"

definition te_onTradeUpdate :: "MatchingEngineMarketUpdate \<Rightarrow> BBO \<Rightarrow> trade_engine \<Rightarrow> trade_engine res" where
  "te_onTradeUpdate u x e =
     algoOnTradeUpdate u x (e\<lparr>te_feature_engine := fe_onTradeUpdate u x (te_feature_engine e)\<rparr>)"

definition te_onOrderUpdate :: "MatchingEngineClientResponse \<Rightarrow> trade_engine \<Rightarrow> trade_engine res" where
  "te_onOrderUpdate r e =
     bindE (if rs_type r = CRS_FILLED
            then bindE (keeper_addFill r (te_position_keeper e)) (\<lambda>k. Inr (e\<lparr>te_position_keeper := k\<rparr>))
            else Inr e) (\<lambda>e1.
     algoOnOrderUpdate r e1)"

subsection \<open>The loop\<close>

text \<open>The call at the end of \<open>onMarketUpdate\<close>, with the book it comes from.\<close>

definition book_callback :: "nat \<Rightarrow> book_event \<Rightarrow> trade_engine \<Rightarrow> trade_engine res" where
  "book_callback t ev e =
     (case ev of
        TradeUpdate u \<Rightarrow> te_onTradeUpdate u (bbo (ticker_order_book e t)) e
      | OrderBookUpdate ticker_id _ _ \<Rightarrow> te_onOrderBookUpdate ticker_id (bbo (ticker_order_book e t)) e)"

definition process_response :: "Nanos \<Rightarrow> MatchingEngineClientResponse \<Rightarrow> trade_engine \<Rightarrow> trade_engine res" where
  "process_response now r e = bindE (te_onOrderUpdate r e) (\<lambda>e1. Inr (e1\<lparr>last_event_time := now\<rparr>))"

definition process_update :: "Nanos \<Rightarrow> MatchingEngineMarketUpdate \<Rightarrow> trade_engine \<Rightarrow> trade_engine res" where
  "process_update now u e =
     (let t = unat (mu_ticker_id u) in
      bindE (ASSERT (t < MATCHING_ENGINE_MAX_TICKERS) (''Unknown ticker-id on update:'' @ update_toString u)) (\<lambda>_.
      bindE (onMarketUpdate u (ticker_order_book e t)) (\<lambda>(b, ev).
      bindE (book_callback t ev (e\<lparr>ticker_order_book := (ticker_order_book e)(t := b)\<rparr>)) (\<lambda>e1.
      Inr (e1\<lparr>last_event_time := now\<rparr>)))))"

text \<open>The body of the loop of \<open>run\<close>; \<open>now\<close> is the clock.\<close>

definition trade_engine_run_once :: "Nanos \<Rightarrow> trade_engine \<Rightarrow> trade_engine res" where
  "trade_engine_run_once now e =
     bindE (lf_drain (process_response now) (incoming_gateway_response e) e) (\<lambda>(q, e1).
     let e2 = e1\<lparr>incoming_gateway_response := q\<rparr> in
     bindE (lf_drain (process_update now) (incoming_md_updates e2) e2) (\<lambda>(q', e3).
     Inr (e3\<lparr>incoming_md_updates := q'\<rparr>)))"

end
