(* ===== verification/TradingDesk.thy ===== *)
theory TradingDesk
  imports SlotProtocol TradeEngine
begin

section \<open>A trading client and an exchange\<close>

text \<open>
  The trade engine, with its queue of requests, in front of an exchange that answers as the response types
  mean: a new order is acknowledged and open until it is filled or cancelled, a cancel of an open order
  removes it, any other is rejected. Requests and responses keep their order; fills come at any time. The
  client reads any market updates, so its strategy may do anything its code can do. A state is the engine,
  the client's open orders at the exchange and the responses on their way.
\<close>

record open_order =
  oo_ticker :: TickerID
  oo_side :: Side
  oo_price :: Price
  oo_quantity :: Quantity

type_synonym exchange_orders = "OrderID \<Rightarrow> open_order option"
type_synonym desk = "trade_engine \<times> exchange_orders \<times> slot_responses"

inductive exchange_answers :: "MatchingEngineClientRequest \<Rightarrow> exchange_orders \<Rightarrow> exchange_orders \<Rightarrow>
    MatchingEngineClientResponse \<Rightarrow> bool" where
  accept: "rq_type r = CRQ_NEW \<Longrightarrow> rs_type a = CRS_ACCEPTED \<Longrightarrow> rs_ticker_id a = rq_ticker_id r \<Longrightarrow>
    rs_side a = rq_side r \<Longrightarrow>
    exchange_answers r x
      (if rq_quantity r = 0 then x
       else x(rq_order_id r \<mapsto> \<lparr>oo_ticker = rq_ticker_id r, oo_side = rq_side r, oo_price = rq_price r,
                              oo_quantity = rq_quantity r\<rparr>)) a"
| cancel: "rq_type r = CRQ_CANCEL \<Longrightarrow> x (rq_order_id r) = Some v \<Longrightarrow> rs_type a = CRS_CANCELLED \<Longrightarrow>
    rs_ticker_id a = oo_ticker v \<Longrightarrow> rs_side a = oo_side v \<Longrightarrow>
    exchange_answers r x (x(rq_order_id r := None)) a"
| reject: "rq_type r = CRQ_CANCEL \<Longrightarrow> x (rq_order_id r) = None \<Longrightarrow> rs_type a = CRS_CANCEL_REJECTED \<Longrightarrow>
    rs_ticker_id a = rq_ticker_id r \<Longrightarrow> rs_side a = Side_INVALID \<Longrightarrow>
    exchange_answers r x x a"

text \<open>Order identifiers are 64-bit counters; a step of the strategy needs two of them to be left.\<close>

definition ids_left :: "trade_engine \<Rightarrow> bool" where
  "ids_left e \<longleftrightarrow> unat (next_order_id (te_order_manager e)) + 2 < 2 ^ 64"

inductive desk_step :: "desk \<Rightarrow> desk \<Rightarrow> bool" where
  market: "process_update now u e = Inr e' \<Longrightarrow> ids_left e \<Longrightarrow> desk_step (e, x, rs) (e', x, rs)"
| response: "process_response now r e = Inr e' \<Longrightarrow> desk_step (e, x, r # rs) (e', x, rs)"
| request: "getNextToRead (outgoing_gateway_request e) = Some r \<Longrightarrow>
    updateReadIndex (outgoing_gateway_request e) = Inr q \<Longrightarrow> exchange_answers r x x' a \<Longrightarrow>
    desk_step (e, x, rs) (e\<lparr>outgoing_gateway_request := q\<rparr>, x', rs @ [a])"
| fill: "x i = Some v \<Longrightarrow> f \<noteq> 0 \<Longrightarrow> f \<le> oo_quantity v \<Longrightarrow> rs_type a = CRS_FILLED \<Longrightarrow>
    rs_ticker_id a = oo_ticker v \<Longrightarrow> rs_side a = oo_side v \<Longrightarrow> rs_exec_quantity a = f \<Longrightarrow>
    rs_leaves_quantity a = oo_quantity v - f \<Longrightarrow>
    desk_step (e, x, rs) (e, (if f = oo_quantity v then x(i := None) else x(i \<mapsto> v\<lparr>oo_quantity := oo_quantity v - f\<rparr>)),
      rs @ [a])"

inductive desk_reachable :: "desk \<Rightarrow> desk \<Rightarrow> bool" for s where
  start: "desk_reachable s s"
| step: "desk_reachable s s' \<Longrightarrow> desk_step s' s'' \<Longrightarrow> desk_reachable s s''"

inductive_cases exchange_answersE: "exchange_answers r x x' a"
inductive_cases desk_stepE: "desk_step (e, x, rs) s'"

subsection \<open>Slots\<close>

type_synonym slot = "nat \<times> Side"

definition valid_slot :: "slot \<Rightarrow> bool" where
  "valid_slot c \<longleftrightarrow> fst c < MATCHING_ENGINE_MAX_TICKERS \<and> trading_side (snd c)"

definition slot_address :: "slot \<Rightarrow> nat \<times> nat" where
  "slot_address c = (fst c, sideToIndex (snd c))"

definition slot_order :: "order_manager \<Rightarrow> slot \<Rightarrow> OMOrder" where
  "slot_order m c = om_order (slot_address c) m"

definition request_slot :: "MatchingEngineClientRequest \<Rightarrow> slot" where
  "request_slot r = (unat (rq_ticker_id r), rq_side r)"

definition response_slot :: "MatchingEngineClientResponse \<Rightarrow> slot" where
  "response_slot r = (unat (rs_ticker_id r), rs_side r)"

definition open_slot :: "open_order \<Rightarrow> slot" where
  "open_slot v = (unat (oo_ticker v), oo_side v)"

definition requests_at :: "slot \<Rightarrow> slot_requests \<Rightarrow> slot_requests" where
  "requests_at c R = filter (\<lambda>r. request_slot r = c) R"

definition responses_at :: "slot \<Rightarrow> slot_responses \<Rightarrow> slot_responses" where
  "responses_at c A = filter (\<lambda>r. response_slot r = c) A"

definition open_at :: "slot \<Rightarrow> exchange_orders \<Rightarrow> slot_open" where
  "open_at c x = (\<lambda>i. case x i of None \<Rightarrow> None | Some v \<Rightarrow> if open_slot v = c then Some (oo_quantity v) else None)"

lemma at_simps [simp]:
  "requests_at c [] = []" "requests_at c (r # R) = (if request_slot r = c then r # requests_at c R else requests_at c R)"
  "requests_at c (R @ R') = requests_at c R @ requests_at c R'"
  "responses_at c [] = []" "responses_at c (a # A) = (if response_slot a = c then a # responses_at c A else responses_at c A)"
  "responses_at c (A @ A') = responses_at c A @ responses_at c A'"
  by (simp_all add: requests_at_def responses_at_def)

lemma set_requests_at: "set (requests_at c R) = {r \<in> set R. request_slot r = c}"
  by (simp add: requests_at_def)

lemma open_at_Some: "open_at c x i = Some l \<longleftrightarrow> (\<exists>v. x i = Some v \<and> open_slot v = c \<and> l = oo_quantity v)"
  by (auto simp: open_at_def split: option.splits)

lemma open_at_upd:
  "open_at c (x(i \<mapsto> v)) = (open_at c x)(i := (if open_slot v = c then Some (oo_quantity v) else None))"
  "open_at c (x(i := None)) = (open_at c x)(i := None)"
  by (auto simp: open_at_def)

lemma slot_address_eq: "valid_slot c \<Longrightarrow> valid_slot d \<Longrightarrow> slot_address c = slot_address d \<longleftrightarrow> c = d"
  by (cases c; cases d) (auto simp: valid_slot_def slot_address_def trading_side_def)

lemma om_order_set: "om_order a (set_om_order b v m) = (if a = b then v else om_order a m)"
  by (cases a; cases b) (auto simp: om_order_def set_om_order_def)

lemma next_order_id_set [simp]: "next_order_id (set_om_order a v m) = next_order_id m"
  by (simp add: set_om_order_def)

lemma slot_order_set:
  "valid_slot c \<Longrightarrow> valid_slot d \<Longrightarrow> slot_order (set_om_order (slot_address d) v m) c = (if c = d then v else slot_order m c)"
  by (simp add: slot_order_def om_order_set slot_address_eq)

lemma slot_order_next [simp]: "slot_order (m\<lparr>next_order_id := i\<rparr>) c = slot_order m c"
  by (simp add: slot_order_def om_order_def)

text \<open>The identifiers a slot uses: its order's and those of its requests under way.\<close>

definition slot_ids :: "order_manager \<Rightarrow> slot_requests \<Rightarrow> slot \<Rightarrow> OrderID set" where
  "slot_ids m R c = (if idle (slot_order m c) then {} else {om_order_id (slot_order m c)}) \<union> rq_order_id ` set (requests_at c R)"

definition own_fields :: "order_manager \<Rightarrow> slot \<Rightarrow> bool" where
  "own_fields m c \<longleftrightarrow> idle (slot_order m c) \<or>
     (unat (om_ticker_id (slot_order m c)), om_side (slot_order m c)) = c"

definition orders_inv :: "order_manager \<Rightarrow> slot_requests \<Rightarrow> exchange_orders \<Rightarrow> slot_responses \<Rightarrow> bool" where
  "orders_inv m R x A \<longleftrightarrow>
     (\<forall>r\<in>set R. valid_slot (request_slot r)) \<and> (\<forall>i v. x i = Some v \<longrightarrow> valid_slot (open_slot v)) \<and>
     (\<forall>c. valid_slot c \<longrightarrow> slot_ok (slot_order m c) (requests_at c R) (responses_at c A) (open_at c x) \<and> own_fields m c \<and>
        (\<forall>i\<in>slot_ids m R c. i < next_order_id m)) \<and>
     (\<forall>c d i. valid_slot c \<longrightarrow> valid_slot d \<longrightarrow> i \<in> slot_ids m R c \<longrightarrow> i \<in> slot_ids m R d \<longrightarrow> c = d)"

lemma orders_invD:
  assumes "orders_inv m R x A"
  shows "r \<in> set R \<Longrightarrow> valid_slot (request_slot r)" and "x i = Some v \<Longrightarrow> valid_slot (open_slot v)"
    and "valid_slot c \<Longrightarrow> slot_ok (slot_order m c) (requests_at c R) (responses_at c A) (open_at c x)"
    and "valid_slot c \<Longrightarrow> own_fields m c" and "valid_slot c \<Longrightarrow> i \<in> slot_ids m R c \<Longrightarrow> i < next_order_id m"
    and "valid_slot c \<Longrightarrow> valid_slot d \<Longrightarrow> i \<in> slot_ids m R c \<Longrightarrow> i \<in> slot_ids m R d \<Longrightarrow> c = d"
  using assms unfolding orders_inv_def by blast+

text \<open>An open order belongs to the slot that uses its identifier.\<close>

lemma open_owner:
  assumes "orders_inv m R x A" and "x i = Some v"
  shows "i \<in> slot_ids m R (open_slot v)" and "i = om_order_id (slot_order m (open_slot v))"
    and "\<not> idle (slot_order m (open_slot v))"
proof -
  have "valid_slot (open_slot v)" by (rule orders_invD(2) [OF assms])
  from orders_invD(3) [OF assms(1) this]
  have "i = om_order_id (slot_order m (open_slot v)) \<and> \<not> idle (slot_order m (open_slot v))"
    using slot_open_own [of _ _ _ _ i "oo_quantity v"] assms(2) by (auto simp: open_at_Some)
  then show "i = om_order_id (slot_order m (open_slot v))" "\<not> idle (slot_order m (open_slot v))"
    "i \<in> slot_ids m R (open_slot v)" by (auto simp: slot_ids_def)
qed

end
