(* ===== verification/DeskInvariant.thy ===== *)
theory DeskInvariant
  imports TradingDesk
begin

section \<open>The invariant of the trading desk\<close>

text \<open>Every step changes one slot, along one of the lemmas of \<open>SlotProtocol\<close>, and leaves the others alone.\<close>

subsection \<open>Changing one slot\<close>

definition same_elsewhere :: "slot \<Rightarrow> order_manager \<Rightarrow> slot_requests \<Rightarrow> exchange_orders \<Rightarrow> slot_responses \<Rightarrow>
    order_manager \<Rightarrow> slot_requests \<Rightarrow> exchange_orders \<Rightarrow> slot_responses \<Rightarrow> bool" where
  "same_elsewhere c m R x A m' R' x' A' \<longleftrightarrow>
     (\<forall>d. valid_slot d \<longrightarrow> d \<noteq> c \<longrightarrow> slot_order m' d = slot_order m d \<and> requests_at d R' = requests_at d R \<and>
        responses_at d A' = responses_at d A \<and> open_at d x' = open_at d x)"

lemma same_elsewhereI:
  assumes "\<And>d. valid_slot d \<Longrightarrow> d \<noteq> c \<Longrightarrow> slot_order m' d = slot_order m d \<and> requests_at d R' = requests_at d R \<and>
    responses_at d A' = responses_at d A \<and> open_at d x' = open_at d x"
  shows "same_elsewhere c m R x A m' R' x' A'"
  using assms unfolding same_elsewhere_def by blast

lemma same_elsewhereD:
  assumes "same_elsewhere c m R x A m' R' x' A'" and "valid_slot d" and "d \<noteq> c"
  shows "slot_order m' d = slot_order m d" and "requests_at d R' = requests_at d R"
    and "responses_at d A' = responses_at d A" and "open_at d x' = open_at d x"
  using assms unfolding same_elsewhere_def by blast+

lemma orders_inv_change:
  assumes inv: "orders_inv m R x A" and c: "valid_slot c"
    and same: "same_elsewhere c m R x A m' R' x' A'"
    and ok: "slot_ok (slot_order m' c) (requests_at c R') (responses_at c A') (open_at c x')"
    and own: "own_fields m' c"
    and ids: "\<forall>i\<in>slot_ids m' R' c. i \<in> slot_ids m R c \<or> next_order_id m \<le> i \<and> i < next_order_id m'"
    and mono: "next_order_id m \<le> next_order_id m'"
    and valid: "\<forall>r\<in>set R'. valid_slot (request_slot r)" "\<forall>i v. x' i = Some v \<longrightarrow> valid_slot (open_slot v)"
  shows "orders_inv m' R' x' A'"
proof -
  have other: "slot_order m' d = slot_order m d" "slot_ids m' R' d = slot_ids m R d" "own_fields m' d = own_fields m d"
      "slot_ok (slot_order m' d) (requests_at d R') (responses_at d A') (open_at d x')"
    if "valid_slot d" "d \<noteq> c" for d
    using same_elsewhereD [OF same that] orders_invD(3) [OF inv that(1)] by (simp_all add: slot_ids_def own_fields_def)
  have below: "i < next_order_id m'" if "valid_slot d" "i \<in> slot_ids m' R' d" for i d
    using that other(2) [of d] ids orders_invD(5) [OF inv that(1), of i] mono
    by (cases "d = c") (auto intro: less_le_trans)
  have old: "i \<in> slot_ids m R d" if "valid_slot d" "i \<in> slot_ids m' R' d" "d \<noteq> c" for i d
    using that other(2) by simp
  have apart: False if "valid_slot d" "d \<noteq> c" "i \<in> slot_ids m' R' c" "i \<in> slot_ids m' R' d" for i d
  proof -
    note i = old [OF that(1,4,2)]
    from ids that(3) consider "i \<in> slot_ids m R c" | "next_order_id m \<le> i" by auto
    then show False
    proof cases
      case 1
      from orders_invD(6) [OF inv that(1) c i this] that(2) show ?thesis by simp
    next
      case 2
      then show ?thesis using orders_invD(5) [OF inv that(1) i] by simp
    qed
  qed
  have disj: "d = d'" if "valid_slot d" "valid_slot d'" "i \<in> slot_ids m' R' d" "i \<in> slot_ids m' R' d'" for d d' i
  proof (cases "d = c \<or> d' = c")
    case True
    then show ?thesis using that apart by blast
  next
    case False
    with that show ?thesis using orders_invD(6) [OF inv] old by blast
  qed
  show ?thesis
    unfolding orders_inv_def
  proof (intro conjI allI impI)
    show "\<forall>r\<in>set R'. valid_slot (request_slot r)" by (rule valid)
    show "valid_slot (open_slot v)" if "x' i = Some v" for i v using valid(2) that by blast
    show "slot_ok (slot_order m' d) (requests_at d R') (responses_at d A') (open_at d x')" if "valid_slot d" for d
      using ok other(4) that by (cases "d = c") auto
    show "own_fields m' d" if "valid_slot d" for d
      using own other(3) orders_invD(4) [OF inv that] that by (cases "d = c") auto
    show "\<forall>i\<in>slot_ids m' R' d. i < next_order_id m'" if "valid_slot d" for d using below that by blast
    show "d = d'" if "valid_slot d" "valid_slot d'" "i \<in> slot_ids m' R' d" "i \<in> slot_ids m' R' d'" for d d' i
      by (rule disj [OF that])
  qed
qed

subsection \<open>The strategy sends a request\<close>

lemma orders_cancel:
  assumes inv: "orders_inv m R x A" and c: "valid_slot c" and live: "om_order_state (slot_order m c) = OM_LIVE"
    and r: "withdraws (slot_order m c) r" "request_slot r = c"
  shows "orders_inv (set_om_order (slot_address c) ((slot_order m c)\<lparr>om_order_state := OM_PENDING_CANCEL\<rparr>) m) (R @ [r]) x A"
proof (rule orders_inv_change [OF inv c])
  let ?m = "set_om_order (slot_address c) ((slot_order m c)\<lparr>om_order_state := OM_PENDING_CANCEL\<rparr>) m"
  have s: "slot_order ?m d = (if d = c then (slot_order m c)\<lparr>om_order_state := OM_PENDING_CANCEL\<rparr> else slot_order m d)"
    if "valid_slot d" for d by (rule slot_order_set [OF that c])
  show "same_elsewhere c m R x A ?m (R @ [r]) x A" using r(2) by (intro same_elsewhereI) (simp add: s)
  show "slot_ok (slot_order ?m c) (requests_at c (R @ [r])) (responses_at c A) (open_at c x)"
    using slot_cancel [OF orders_invD(3) [OF inv c] live r(1)] r(2) by (simp add: s c)
  show "own_fields ?m c" using orders_invD(4) [OF inv c] live by (simp add: own_fields_def s c idle_def)
  show "\<forall>i\<in>slot_ids ?m (R @ [r]) c. i \<in> slot_ids m R c \<or> next_order_id m \<le> i \<and> i < next_order_id ?m"
    using live r by (auto simp: slot_ids_def s c idle_def withdraws_def)
  show "\<forall>r\<in>set (R @ [r]). valid_slot (request_slot r)" using orders_invD(1) [OF inv] r(2) c by auto
  show "\<forall>i v. x i = Some v \<longrightarrow> valid_slot (open_slot v)" using orders_invD(2) [OF inv] by blast
qed simp

lemma orders_new:
  assumes inv: "orders_inv m R x A" and c: "valid_slot c" and idle: "idle (slot_order m c)"
    and v: "om_order_state v = OM_PENDING_NEW" "om_order_id v = next_order_id m" "(unat (om_ticker_id v), om_side v) = c"
    and r: "announces v r" "request_slot r = c" and left: "unat (next_order_id m) + 1 < 2 ^ 64"
  shows "orders_inv ((set_om_order (slot_address c) v m)\<lparr>next_order_id := next_order_id m + 1\<rparr>) (R @ [r]) x A"
proof (rule orders_inv_change [OF inv c])
  let ?m = "(set_om_order (slot_address c) v m)\<lparr>next_order_id := next_order_id m + 1\<rparr>"
  note s = slot_order_set [OF _ c, of _ v m]
  have up: "next_order_id m < next_order_id m + 1" using left by (simp add: word_less_nat_alt unat_word_ariths)
  show "same_elsewhere c m R x A ?m (R @ [r]) x A" using r(2) by (intro same_elsewhereI) (simp add: s)
  have "\<forall>d\<in>set (requests_at c R). rq_order_id d \<noteq> om_order_id v"
  proof
    fix d assume "d \<in> set (requests_at c R)"
    then have "rq_order_id d \<in> slot_ids m R c" by (simp add: slot_ids_def)
    from orders_invD(5) [OF inv c this] show "rq_order_id d \<noteq> om_order_id v" using v(2) by auto
  qed
  from slot_new [OF orders_invD(3) [OF inv c] idle v(1) r(1) this]
  show "slot_ok (slot_order ?m c) (requests_at c (R @ [r])) (responses_at c A) (open_at c x)"
    using r(2) by (simp add: s c)
  show "own_fields ?m c" using v(3) by (simp add: own_fields_def s c)
  have "rq_order_id r = next_order_id m" using r(1) v(2) by (simp add: announces_def)
  then show "\<forall>i\<in>slot_ids ?m (R @ [r]) c. i \<in> slot_ids m R c \<or> next_order_id m \<le> i \<and> i < next_order_id ?m"
    using v(1,2) r(2) up by (auto simp: slot_ids_def s c idle_def)
  show "next_order_id m \<le> next_order_id ?m" using up by simp
  show "\<forall>r\<in>set (R @ [r]). valid_slot (request_slot r)" using orders_invD(1) [OF inv] r(2) c by auto
  show "\<forall>i v. x i = Some v \<longrightarrow> valid_slot (open_slot v)" using orders_invD(2) [OF inv] by blast
qed

subsection \<open>The exchange handles a request or fills an order\<close>

lemma head_ids:
  "request_slot r = c \<Longrightarrow> rq_order_id r \<in> slot_ids m (r # R) c"
  "slot_ids m R d \<subseteq> slot_ids m (r # R) d"
  by (auto simp: slot_ids_def set_requests_at)

lemma orders_request:
  assumes inv: "orders_inv m (r # R) x A" and step: "exchange_answers r x x' a"
  shows "orders_inv m R x' (A @ [a])"
proof -
  define c where "c = request_slot r"
  have c: "valid_slot c" using orders_invD(1) [OF inv, of r] by (simp add: c_def)
  have ok: "slot_ok (slot_order m c) (r # requests_at c R) (responses_at c A) (open_at c x)"
    using orders_invD(3) [OF inv c] by (simp add: c_def)
  have mine: "open_slot v = c" if "x (rq_order_id r) = Some v" for v
    using orders_invD(6) [OF inv orders_invD(2) [OF inv that] c open_owner(1) [OF inv that] head_ids(1)]
    by (simp add: c_def)
  have elsewhere: "open_at d x (rq_order_id r) = None" if "d \<noteq> c" for d
    using mine that by (cases "x (rq_order_id r)") (auto simp: open_at_def)
  have other: "request_slot r \<noteq> d" if "d \<noteq> c" for d using that by (auto simp: c_def)
  have open_valid: "\<forall>i v. x' i = Some v \<longrightarrow> valid_slot (open_slot v)"
    if "\<forall>i v. x' i = Some v \<longrightarrow> x i = Some v \<or> open_slot v = c"
    using that orders_invD(2) [OF inv] c by metis
  have main: ?thesis
    if "slot_ok (slot_order m c) (requests_at c R) (responses_at c (A @ [a])) (open_at c x')"
      and "same_elsewhere c m (r # R) x A m R x' (A @ [a])"
      and "\<forall>i v. x' i = Some v \<longrightarrow> x i = Some v \<or> open_slot v = c"
    by (rule orders_inv_change [OF inv c that(2,1) orders_invD(4) [OF inv c]])
       (use head_ids(2) [of m R c r] orders_invD(1) [OF inv] open_valid [OF that(3)] in auto)
  from step show ?thesis
  proof cases
    case accept
    note ok' = slot_handle_new(1) [OF ok accept(2,3)]
    let ?v = "\<lparr>oo_ticker = rq_ticker_id r, oo_side = rq_side r, oo_price = rq_price r, oo_quantity = rq_quantity r\<rparr>"
    have v: "open_slot ?v = c" "response_slot a = c"
      using accept by (simp_all add: open_slot_def c_def request_slot_def response_slot_def)
    show ?thesis
    proof (rule main)
      show "slot_ok (slot_order m c) (requests_at c R) (responses_at c (A @ [a])) (open_at c x')"
        using ok' v by (simp add: accept(1) open_at_upd split: if_splits)
      show "same_elsewhere c m (r # R) x A m R x' (A @ [a])"
        using v elsewhere other by (intro same_elsewhereI) (auto simp: accept(1) open_at_upd fun_upd_idem)
      show "\<forall>i v. x' i = Some v \<longrightarrow> x i = Some v \<or> open_slot v = c"
        using v by (auto simp: accept(1) split: if_splits)
    qed
  next
    case (cancel v)
    note v = mine [OF cancel(3)]
    then have a: "response_slot a = c" using cancel by (simp add: response_slot_def open_slot_def)
    have "open_at c x (rq_order_id r) = Some (oo_quantity v)" using cancel(3) v by (auto simp: open_at_Some)
    note ok' = slot_handle_cancel [OF ok cancel(2) this cancel(4)]
    show ?thesis
    proof (rule main)
      show "slot_ok (slot_order m c) (requests_at c R) (responses_at c (A @ [a])) (open_at c x')"
        using ok' a by (simp add: cancel(1) open_at_upd)
      show "same_elsewhere c m (r # R) x A m R x' (A @ [a])"
        using a elsewhere other by (intro same_elsewhereI) (auto simp: cancel(1) open_at_upd fun_upd_idem)
      show "\<forall>i v. x' i = Some v \<longrightarrow> x i = Some v \<or> open_slot v = c" by (simp add: cancel(1))
    qed
  next
    case reject
    have a: "response_slot a \<noteq> d" if "valid_slot d" for d
      using that reject(6) by (auto simp: response_slot_def valid_slot_def trading_side_def)
    have "open_at c x (rq_order_id r) = None" using reject(3) by (simp add: open_at_def)
    note ok' = slot_handle_late_cancel [OF ok reject(2) this]
    show ?thesis
    proof (rule main)
      show "slot_ok (slot_order m c) (requests_at c R) (responses_at c (A @ [a])) (open_at c x')"
        using ok' a [OF c] by (simp add: reject(1))
      show "same_elsewhere c m (r # R) x A m R x' (A @ [a])"
        using a other by (intro same_elsewhereI) (auto simp: reject(1))
      show "\<forall>i v. x' i = Some v \<longrightarrow> x i = Some v \<or> open_slot v = c" by (simp add: reject(1))
    qed
  qed
qed

lemma orders_fill:
  assumes inv: "orders_inv m R x A" and v: "x i = Some v" and f: "f \<noteq> 0" "f \<le> oo_quantity v"
    and a: "rs_type a = CRS_FILLED" "rs_ticker_id a = oo_ticker v" "rs_side a = oo_side v" "rs_exec_quantity a = f"
      "rs_leaves_quantity a = oo_quantity v - f"
  shows "orders_inv m R (if f = oo_quantity v then x(i := None) else x(i \<mapsto> v\<lparr>oo_quantity := oo_quantity v - f\<rparr>)) (A @ [a])"
    (is "orders_inv m R ?x _")
proof -
  define c where "c = open_slot v"
  have c: "valid_slot c" using orders_invD(2) [OF inv v] by (simp add: c_def)
  have s: "response_slot a = c" "open_slot (v\<lparr>oo_quantity := l\<rparr>) = c" for l
    using a by (simp_all add: c_def response_slot_def open_slot_def)
  have "open_at c x i = Some (oo_quantity v)" using v by (auto simp: open_at_Some c_def)
  note ok = slot_fill [OF orders_invD(3) [OF inv c] this f a(1,4,5)]
  have elsewhere: "open_at d x i = None" if "d \<noteq> c" for d using v that by (simp add: open_at_def c_def)
  show ?thesis
  proof (rule orders_inv_change [OF inv c])
    show "same_elsewhere c m R x A m R ?x (A @ [a])"
      using s elsewhere by (intro same_elsewhereI) (auto simp: open_at_upd fun_upd_idem)
    show "slot_ok (slot_order m c) (requests_at c R) (responses_at c (A @ [a])) (open_at c ?x)"
      using ok s by (simp add: open_at_upd split: if_splits)
    show "own_fields m c" by (rule orders_invD(4) [OF inv c])
    show "\<forall>i w. ?x i = Some w \<longrightarrow> valid_slot (open_slot w)"
      using orders_invD(2) [OF inv] s(2) c by auto
  qed (use orders_invD(1) [OF inv] in auto)
qed

subsection \<open>The client reads a response\<close>

lemma orders_receive:
  assumes inv: "orders_inv m R x (r # A)" and step: "om_onOrderUpdate r m = Inr m'"
  shows "orders_inv m' R x A" and "next_order_id m' = next_order_id m"
    and "\<forall>d. valid_slot d \<longrightarrow> slot_order m' d =
      (if d = response_slot r then update_order r (slot_order m d) else slot_order m d)"
proof -
  define c where "c = response_slot r"
  have m': "m' = set_om_order (slot_address c) (update_order r (om_order (slot_address c) m)) m"
    "fst c < MATCHING_ENGINE_MAX_TICKERS"
    using step by (auto simp: om_onOrderUpdate_def order_address_def res_simps c_def response_slot_def slot_address_def
        arr_at_Inr_iff)
  show n: "next_order_id m' = next_order_id m" by (simp add: m')
  show s: "\<forall>d. valid_slot d \<longrightarrow> slot_order m' d =
      (if d = response_slot r then update_order r (slot_order m d) else slot_order m d)"
  proof (intro allI impI)
    fix d assume d: "valid_slot d"
    have "slot_address d = slot_address c \<longleftrightarrow> d = c"
    proof
      assume "slot_address d = slot_address c"
      then show "d = c" using d
        by (cases d; cases c; cases "snd c") (auto simp: slot_address_def valid_slot_def trading_side_def)
    qed simp
    then show "slot_order m' d = (if d = response_slot r then update_order r (slot_order m d) else slot_order m d)"
      by (auto simp: m' slot_order_def om_order_set c_def)
  qed
  note s = s [rule_format]
  have idle_upd: "om_order_id (update_order r v) = om_order_id v" "om_ticker_id (update_order r v) = om_ticker_id v"
      "om_side (update_order r v) = om_side v" for v
    by (simp_all add: Let_def split: ClientResponseType.splits)
  show "orders_inv m' R x A"
  proof (cases "valid_slot c")
    case c: True
    have ok: "slot_ok (slot_order m c) (requests_at c R) (r # responses_at c A) (open_at c x)"
      using orders_invD(3) [OF inv c] by (simp add: c_def)
    have busy: "\<not> idle (slot_order m c)"
      using ok by (auto simp: slot_ok_states stage_idle_def)
    show ?thesis
    proof (rule orders_inv_change [OF inv c])
      show "same_elsewhere c m R x (r # A) m' R x A" using s by (intro same_elsewhereI) (simp add: c_def)
      show "slot_ok (slot_order m' c) (requests_at c R) (responses_at c A) (open_at c x)"
        using slot_receive [OF ok] s c by (simp add: c_def del: update_order.simps)
      show "own_fields m' c"
        using orders_invD(4) [OF inv c] s c busy by (auto simp: own_fields_def c_def idle_upd simp del: update_order.simps)
      show "\<forall>i\<in>slot_ids m' R c. i \<in> slot_ids m R c \<or> next_order_id m \<le> i \<and> i < next_order_id m'"
        using s c busy by (auto simp: slot_ids_def c_def idle_upd simp del: update_order.simps split: if_splits)
    qed (use n orders_invD(1,2) [OF inv] in auto)
  next
    case False
    then have same: "slot_order m' d = slot_order m d" "responses_at d (r # A) = responses_at d A" if "valid_slot d" for d
      using s that by (auto simp: c_def)
    show ?thesis
      using inv same n unfolding orders_inv_def slot_ids_def own_fields_def by auto
  qed
qed

end
