(* ===== verification/PositionProps.thy ===== *)
theory PositionProps
  imports RiskManager
begin

section \<open>Properties of positions and risk checks\<close>

subsection \<open>32-bit signed values\<close>

lemma to_int32_of_int: "- (2 ^ 31) \<le> i \<Longrightarrow> i < 2 ^ 31 \<Longrightarrow> to_int32 (word_of_int i) = i"
  by (simp add: to_int32_def sint_sbintrunc' signed_take_bit_int_eq_self)

lemma to_int32_small: "unat w < 2 ^ 31 \<Longrightarrow> to_int32 w = int (unat w)"
proof -
  assume w: "unat w < 2 ^ 31"
  then have "int (unat w) < 2 ^ 31" by (metis of_nat_less_iff of_nat_numeral of_nat_power)
  moreover have "- (2 ^ 31) \<le> int (unat w)" by (rule order_trans [of _ 0]) simp_all
  ultimately have "to_int32 (word_of_int (int (unat w))) = int (unat w)" by (intro to_int32_of_int)
  moreover have "word_of_int (int (unat w)) = w" by simp
  ultimately show "to_int32 w = int (unat w)" by metis
qed

lemma int32_Inr_iff [res_simps]: "int32 i = Inr j \<longleftrightarrow> j = i \<and> - (2 ^ 31) \<le> i \<and> i < 2 ^ 31"
  by (auto simp: int32_def)

lemma int64_Inr_iff [res_simps]: "int64 i = Inr j \<longleftrightarrow> j = i \<and> - (2 ^ 63) \<le> i \<and> i < 2 ^ 63"
  by (auto simp: int64_def)

lemma int32_in: "- (2 ^ 31) \<le> i \<Longrightarrow> i < 2 ^ 31 \<Longrightarrow> int32 i = Inr i"
  by (simp add: int32_def)

lemma int64_in: "- (2 ^ 63) \<le> i \<Longrightarrow> i < 2 ^ 63 \<Longrightarrow> int64 i = Inr i"
  by (simp add: int64_def)

subsection \<open>What a fill does to the position\<close>

lemma mark_position_frame: "mark_position x p = Inr p' \<Longrightarrow> position p' = position p \<and> volume p' = volume p"
  by (auto simp: mark_position_def res_simps)

lemma add_open_frame: "add_open r p = Inr p' \<Longrightarrow> position p' = position p \<and> volume p' = volume p"
  by (auto simp: add_open_def Let_def res_simps)

lemma close_open_frame: "close_open old r p = Inr p' \<Longrightarrow> position p' = position p \<and> volume p' = volume p"
  by (auto simp: close_open_def Let_def res_simps split: if_splits)

lemma addFill_frame:
  assumes "addFill r p = Inr p'"
  shows "position p' = to_int32 (word_of_int (position p) + rs_exec_quantity r * word_of_int (sideToValue (rs_side r)))"
    and "volume p' = volume p + rs_exec_quantity r"
  using assms
  by (auto simp: addFill_def Let_def res_simps dest!: mark_position_frame add_open_frame close_open_frame split: if_splits)

lemma wrapped_position:
  assumes "- (2 ^ 31) \<le> i + s * int (unat w)" and "i + s * int (unat w) < 2 ^ 31"
  shows "to_int32 (word_of_int i + w * word_of_int s) = i + s * int (unat w)"
proof -
  have "word_of_int i + w * word_of_int s = word_of_int (i + s * int (unat w))" by simp
  then show ?thesis using to_int32_of_int [OF assms] by metis
qed

lemma position_updateBBO_frame: "position_updateBBO t x p = Inr p' \<Longrightarrow> position p' = position p"
  by (auto simp: position_updateBBO_def Let_def res_simps dest!: mark_position_frame split: if_splits)

subsection \<open>No overflow for positions of moderate size\<close>

definition fill_ok :: "MatchingEngineClientResponse \<Rightarrow> bool" where
  "fill_ok r \<longleftrightarrow> (rs_side r = Side_BUY \<or> rs_side r = Side_SELL) \<and> \<bar>rs_price r\<bar> \<le> 2 ^ 40"

text \<open>What a fill adds to the position.\<close>

definition signed_quantity :: "MatchingEngineClientResponse \<Rightarrow> int" where
  "signed_quantity r = sideToValue (rs_side r) * int (unat (rs_exec_quantity r))"

lemma mark_position_returns: "\<bar>position p\<bar> < 2 ^ 31 \<Longrightarrow> \<exists>p'. mark_position x p = Inr p'"
  by (simp add: mark_position_def int32_in)

lemma small_product:
  fixes x y :: int
  assumes "\<bar>x\<bar> \<le> 46340" and "\<bar>y\<bar> \<le> 46340"
  shows "- (2 ^ 31) \<le> x * y" and "x * y < 2 ^ 31"
proof -
  have "\<bar>x * y\<bar> \<le> 46340 * 46340" unfolding abs_mult using assms by (intro mult_mono) auto
  then show "- (2 ^ 31) \<le> x * y" "x * y < 2 ^ 31" by (simp_all add: abs_le_iff)
qed

lemma notional_fits:
  fixes x q :: int
  assumes "\<bar>x\<bar> \<le> 2 ^ 40" and "\<bar>q\<bar> \<le> 92680"
  shows "int64 (x * q) = Inr (x * q)"
proof -
  have "\<bar>x * q\<bar> \<le> 2 ^ 40 * 92680" unfolding abs_mult using assms by (intro mult_mono) auto
  then show ?thesis by (intro int64_in) (simp_all add: abs_le_iff)
qed

text \<open>\<open>addFill\<close> in two steps: the counters, then the money.\<close>

definition counted :: "MatchingEngineClientResponse \<Rightarrow> PositionInfo \<Rightarrow> PositionInfo" where
  "counted r p = p\<lparr>position := to_int32 (word_of_int (position p) + rs_exec_quantity r * word_of_int (sideToValue (rs_side r))),
     volume := volume p + rs_exec_quantity r\<rparr>"

definition revalued :: "MatchingEngineClientResponse \<Rightarrow> PositionInfo \<Rightarrow> PositionInfo res" where
  "revalued r p =
     (if position p = 0
      then Inr (p\<lparr>open_vwap := (open_vwap p)(sideToIndex Side_SELL := Finite 0, sideToIndex Side_BUY := Finite 0),
                  unreal_pnl := Finite 0\<rparr>)
      else mark_position (d_of_int (rs_price r)) p)"

lemma addFill_unfold:
  assumes "int32 (position p * sideToValue (rs_side r)) = Inr s"
  shows "addFill r p =
    bindE (if s \<ge> 0 then add_open r (counted r p) else close_open (position p) r (counted r p)) (\<lambda>p2.
    bindE (revalued r p2) (\<lambda>p3. Inr (p3\<lparr>total_pnl := d_add (unreal_pnl p3) (real_pnl p3)\<rparr>)))"
  unfolding addFill_def counted_def revalued_def Let_def assms bindE_Inr ..

lemma counted_position:
  assumes "- (2 ^ 31) \<le> position p + signed_quantity r" and "position p + signed_quantity r < 2 ^ 31"
  shows "position (counted r p) = position p + signed_quantity r"
  using wrapped_position [of "position p" "sideToValue (rs_side r)" "rs_exec_quantity r"] assms
  by (simp add: counted_def signed_quantity_def)

lemma counted_frame [simp]:
  "open_vwap (counted r p) = open_vwap p" "real_pnl (counted r p) = real_pnl p" "unreal_pnl (counted r p) = unreal_pnl p"
  "volume (counted r p) = volume p + rs_exec_quantity r"
  by (simp_all add: counted_def)

lemma addFill_returns:
  assumes "fill_ok r" and "\<bar>position p\<bar> \<le> 46340" and "\<bar>position p + signed_quantity r\<bar> \<le> 46340"
  shows "\<exists>p'. addFill r p = Inr p' \<and> position p' = position p + signed_quantity r \<and>
    volume p' = volume p + rs_exec_quantity r"
proof -
  let ?s = "sideToValue (rs_side r)" and ?x = "int (unat (rs_exec_quantity r))"
  define p1 where "p1 = counted r p"
  have s: "?s = 1 \<or> ?s = - 1" and price: "\<bar>rs_price r\<bar> \<le> 2 ^ 40" using assms(1) by (auto simp: fill_ok_def)
  have pos1: "position p1 = position p + signed_quantity r"
    unfolding p1_def using assms(3) by (intro counted_position) (auto simp: abs_le_iff)
  have sq: "signed_quantity r = ?x \<or> signed_quantity r = - ?x" using s by (auto simp: signed_quantity_def)
  have x: "\<bar>?x\<bar> \<le> 92680"
    using sq assms(2,3) by (elim disjE) linarith+
  have signed: "int32 (position p * ?s) = Inr (position p * ?s)"
    using s assms(2) by (intro int32_in) (auto simp: abs_le_iff)
  have "\<exists>p2. (if position p * ?s \<ge> 0 then add_open r p1 else close_open (position p) r p1) = Inr p2 \<and>
      position p2 = position p1 \<and> volume p2 = volume p1"
  proof (cases "position p * ?s \<ge> 0")
    case True
    then show ?thesis using notional_fits [OF price x] by (simp add: add_open_def Let_def)
  next
    case False
    have 1: "int32 \<bar>position p\<bar> = Inr \<bar>position p\<bar>" using assms(2) by (intro int32_in) (auto simp: abs_le_iff)
    have 2: "int32 (position p1 * position p) = Inr (position p1 * position p)"
      using small_product assms(2,3) pos1 by (intro int32_in) auto
    have 3: "int32 \<bar>position p1\<bar> = Inr \<bar>position p1\<bar>" using assms(3) pos1 by (intro int32_in) (auto simp: abs_le_iff)
    have 4: "int64 (rs_price r * \<bar>position p1\<bar>) = Inr (rs_price r * \<bar>position p1\<bar>)"
      using assms(3) pos1 by (intro notional_fits [OF price]) linarith
    show ?thesis using False by (simp add: close_open_def Let_def 1 2 3 4)
  qed
  then obtain p2 where p2: "(if position p * ?s \<ge> 0 then add_open r p1 else close_open (position p) r p1) = Inr p2"
      "position p2 = position p1" by blast
  have "\<bar>position p2\<bar> < 2 ^ 31" using p2(2) pos1 assms(3) by simp
  then obtain p3 where "revalued r p2 = Inr p3"
    using mark_position_returns [of p2] unfolding revalued_def by (cases "position p2 = 0") (simp, metis)
  then have "\<exists>p'. addFill r p = Inr p'"
    unfolding addFill_unfold [OF signed] p2(1) [unfolded p1_def] by simp
  then obtain p' where p': "addFill r p = Inr p'" ..
  have "position p' = position p1" using addFill_frame(1) [OF p'] by (simp add: p1_def counted_def)
  then show ?thesis using p' addFill_frame(2) [OF p'] pos1 by simp
qed

subsection \<open>Positions after many fills\<close>

text \<open>C23: positions count fills. As long as a starting position and the quantities filled stay together
  within 46340, the square root of what a signed 32-bit integer holds, and prices within 40 bits, no operation on
  fills overflows: the position is the start plus what was bought minus what was sold, and the volume the sum of
  all quantities modulo 2 to the power of 32.\<close>

theorem position_is_sum_of_fills:
  assumes "\<forall>r\<in>set fills. fill_ok r" and "\<bar>position p\<bar> + sum_list (map (\<lambda>r. \<bar>signed_quantity r\<bar>) fills) \<le> 46340"
  shows "\<exists>p'. fold_res addFill fills p = Inr p' \<and> position p' = position p + sum_list (map signed_quantity fills) \<and>
    volume p' = volume p + sum_list (map rs_exec_quantity fills)"
  using assms
proof (induction fills arbitrary: p)
  case (Cons r fills)
  have "0 \<le> sum_list (map (\<lambda>r. \<bar>signed_quantity r\<bar>) fills)" by (intro sum_list_nonneg) auto
  with Cons.prems(2) have small: "\<bar>position p\<bar> \<le> 46340" "\<bar>position p + signed_quantity r\<bar> \<le> 46340"
    and rest: "\<bar>position p + signed_quantity r\<bar> + sum_list (map (\<lambda>r. \<bar>signed_quantity r\<bar>) fills) \<le> 46340"
    by auto
  obtain p1 where p1: "addFill r p = Inr p1" "position p1 = position p + signed_quantity r"
      "volume p1 = volume p + rs_exec_quantity r"
    using addFill_returns [OF _ small] Cons.prems(1) by auto
  from Cons.IH [of p1] Cons.prems(1) rest p1 show ?case by (auto simp: add.assoc)
qed simp

definition ex_fill :: "Side \<Rightarrow> Price \<Rightarrow> Quantity \<Rightarrow> MatchingEngineClientResponse" where
  "ex_fill sd price q = \<lparr>rs_type = CRS_FILLED, rs_client_id = 1, rs_ticker_id = 0, rs_client_order_id = 1,
     rs_market_order_id = 1, rs_side = sd, rs_price = price, rs_exec_quantity = q, rs_leaves_quantity = 0\<rparr>"

theorem position_is_sum_of_fills_witness:
  "\<exists>p'. fold_res addFill [ex_fill Side_BUY 100 10, ex_fill Side_SELL 90 25] (new_position 3 (\<lambda>_. Finite 0)) = Inr p' \<and>
    position p' = - 12 \<and> volume p' = 35"
proof -
  have ok: "\<forall>r\<in>set [ex_fill Side_BUY 100 10, ex_fill Side_SELL 90 25]. fill_ok r" by (simp add: fill_ok_def ex_fill_def)
  have "\<bar>position (new_position 3 (\<lambda>_. Finite 0))\<bar> +
      sum_list (map (\<lambda>r. \<bar>signed_quantity r\<bar>) [ex_fill Side_BUY 100 10, ex_fill Side_SELL 90 25]) \<le> 46340"
    by (simp add: new_position_def signed_quantity_def ex_fill_def)
  from position_is_sum_of_fills [OF ok this] show ?thesis
    by (simp add: new_position_def signed_quantity_def ex_fill_def)
qed

subsection \<open>Profits\<close>

text \<open>One fill on a flat position.\<close>

definition flat :: "PositionInfo \<Rightarrow> bool" where
  "flat p \<longleftrightarrow> position p = 0 \<and> open_vwap p (sideToIndex Side_BUY) = whole 0 \<and> open_vwap p (sideToIndex Side_SELL) = whole 0"

lemma opening_fill:
  assumes "flat p" and "trading_side (rs_side r)" and q: "unat (rs_exec_quantity r) = n" "0 < n" "n < 2 ^ 31"
    and "\<bar>rs_price r\<bar> \<le> 2 ^ 53" and "\<bar>rs_price r * int n\<bar> \<le> 2 ^ 53"
  shows "\<exists>p'. addFill r p = Inr p' \<and> position p' = sideToValue (rs_side r) * int n \<and> real_pnl p' = real_pnl p \<and>
    unreal_pnl p' = whole 0 \<and> total_pnl p' = d_add (whole 0) (real_pnl p) \<and>
    open_vwap p' (sideToIndex (rs_side r)) = whole (rs_price r * int n)"
proof -
  let ?s = "sideToValue (rs_side r)" and ?i = "sideToIndex (rs_side r)"
  have sq: "signed_quantity r = ?s * int n" by (simp only: signed_quantity_def q(1))
  have s: "?s = 1 \<and> ?i = 2 \<or> ?s = - 1 \<and> ?i = 0" using assms(2) by (auto simp: trading_side_def)
  have big: "int n \<le> 2 ^ 53" "int n < 2 ^ 31" "- (2 ^ 31) \<le> int n" using q(3) by simp_all
  define p1 where "p1 = counted r p"
  have pos: "position p1 = ?s * int n"
  proof -
    have p0: "position p = 0" using assms(1) by (simp add: flat_def)
    have "- (2 ^ 31) \<le> ?s * int n" "?s * int n < 2 ^ 31" using s big by auto
    then show ?thesis using counted_position [of p r] unfolding p0 sq p1_def by simp
  qed
  define p2 where "p2 = p1\<lparr>open_vwap := (open_vwap p)(?i := whole (rs_price r * int n))\<rparr>"
  have notional: "int64 (rs_price r * int (unat (rs_exec_quantity r))) = Inr (rs_price r * int n)"
    unfolding q(1) using assms(7) by (intro int64_in) (auto simp: abs_le_iff)
  have "open_vwap p ?i = whole 0" using assms(1) s by (auto simp: flat_def)
  then have 1: "add_open r p1 = Inr p2"
    using assms(7) by (simp only: add_open_def Let_def notional bindE_Inr p2_def) (simp add: p1_def whole_simps)
  have 2: "int32 (int n) = Inr (int n)" using big by (intro int32_in)
  have price: "d_div (whole (rs_price r * int n)) (whole (int n)) = whole (rs_price r)"
    using q(2) assms(6) by (intro d_div_whole) auto
  have v: "open_vwap p2 ?i = whole (rs_price r * int n)" by (simp add: p2_def)
  have "unreal_pnl (p2\<lparr>unreal_pnl :=
       (if position p2 > 0
        then d_mul (d_sub (d_of_int (rs_price r)) (d_div (open_vwap p2 (sideToIndex Side_BUY)) (d_of_int (int n)))) (d_of_int (int n))
        else d_mul (d_sub (d_div (open_vwap p2 (sideToIndex Side_SELL)) (d_of_int (int n))) (d_of_int (rs_price r))) (d_of_int (int n)))\<rparr>) = whole 0"
    using s v q(2) pos assms(6) big by (auto simp: p2_def whole_simps price)
  then have 3: "\<exists>p3. revalued r p2 = Inr p3 \<and> unreal_pnl p3 = whole 0 \<and> real_pnl p3 = real_pnl p \<and> position p3 = position p1 \<and>
      open_vwap p3 = open_vwap p2"
    using s q(2) pos by (auto simp: revalued_def mark_position_def 2 p2_def p1_def)
  have 4: "int32 (position p * ?s) = Inr 0" using assms(1) by (simp add: flat_def int32_def)
  show ?thesis
    using 1 3 v pos unfolding addFill_unfold [OF 4] p1_def [symmetric] by auto
qed

text \<open>A fill against a position whose average price is the whole number \<open>c\<close>.\<close>

lemma closing_money:
  fixes N n :: nat and c :: int
  assumes sd: "trading_side (rs_side r)" and s: "s = - sideToValue (rs_side r)"
    and n: "unat (rs_exec_quantity r) = n" "0 < n" "n \<le> N" "N < 2 ^ 31" "(N - n) * N < 2 ^ 31"
    and old: "old = s * int N" and p: "position p = s * int (N - n)"
    and v: "open_vwap p (sideToIndex (opposite (rs_side r))) = whole (c * int N)"
    and b: "\<bar>c\<bar> \<le> 2 ^ 53" "\<bar>rs_price r\<bar> \<le> 2 ^ 53" "\<bar>c - rs_price r\<bar> \<le> 2 ^ 53" "\<bar>int n * (c - rs_price r)\<bar> \<le> 2 ^ 53"
  shows "close_open old r p = Inr (p\<lparr>real_pnl := d_add (real_pnl p) (whole (s * int n * (rs_price r - c)))\<rparr>)"
proof -
  let ?i = "sideToIndex (if rs_side r = Side_BUY then Side_SELL else Side_BUY)"
  have cases: "rs_side r = Side_BUY \<and> s = - 1 \<or> rs_side r = Side_SELL \<and> s = 1" using sd s by (auto simp: trading_side_def)
  have opp: "opposite (rs_side r) = (if rs_side r = Side_BUY then Side_SELL else Side_BUY)"
    using sd by (auto simp: trading_side_def)
  have N: "0 < N" "int N < 2 ^ 31" "int N \<le> 2 ^ 53" "int n \<le> 2 ^ 53" using n by simp_all
  have abs: "int32 \<bar>old\<bar> = Inr (int N)"
    using cases N by (intro trans [OF int32_in]) (auto simp: old)
  have exec: "to_int32 (rs_exec_quantity r) = int n" using n by (simp add: to_int32_small)
  have avg: "d_div (open_vwap p ?i) (d_of_int (int N)) = whole c"
    using v N b(1) unfolding opp by (simp add: whole_simps d_div_whole)
  have "d_mul (d_mul (d_of_int (min (int n) (int N))) (d_sub (whole c) (d_of_int (rs_price r)))) (d_of_int (sideToValue (rs_side r))) =
      whole (int n * (c - rs_price r) * sideToValue (rs_side r))"
    using cases n b N by (auto simp: whole_simps min_def)
  also have "int n * (c - rs_price r) * sideToValue (rs_side r) = s * int n * (rs_price r - c)"
    using cases by (auto simp: algebra_simps)
  finally have gain: "d_mul (d_mul (d_of_int (min (int n) (int N))) (d_sub (whole c) (d_of_int (rs_price r)))) (d_of_int (sideToValue (rs_side r))) =
      whole (s * int n * (rs_price r - c))" .
  have prod: "position p * old = int ((N - n) * N)" using cases by (auto simp: p old)
  have "int ((N - n) * N) < 2 ^ 31" using n(5) by (metis of_nat_less_iff of_nat_numeral of_nat_power)
  moreover have "- (2 ^ 31) \<le> int ((N - n) * N)" by (rule order_trans [of _ 0]) simp_all
  ultimately have prod32: "int32 (position p * old) = Inr (int ((N - n) * N))" unfolding prod by (intro int32_in)
  have nonneg: "\<not> int ((N - n) * N) < 0" by (metis of_nat_less_0_iff)
  show ?thesis
    unfolding close_open_def Let_def abs bindE_Inr avg exec gain
    using nonneg by (simp add: prod32 del: of_nat_mult)
qed

text \<open>C31: a round trip realises its profit. Whoever is flat, opens a position of \<open>n\<close> at one price and closes it
  at another is flat again, has no unrealised profit, and the realised profit has grown by exactly \<open>n\<close> times the
  difference of the prices, with the sign of the side, as long as all amounts stay within the 53 bits of a
  \<^verbatim>\<open>double\<close>.\<close>

theorem round_trip_realises_profit:
  assumes "flat p" and "real_pnl p = whole R"
    and r1: "trading_side (rs_side r1)" "unat (rs_exec_quantity r1) = n" "0 < n" "n < 2 ^ 31" "\<bar>rs_price r1\<bar> \<le> 2 ^ 53"
      "\<bar>rs_price r1 * int n\<bar> \<le> 2 ^ 53"
    and r2: "rs_side r2 = opposite (rs_side r1)" "unat (rs_exec_quantity r2) = n" "\<bar>rs_price r2\<bar> \<le> 2 ^ 53"
    and b: "\<bar>rs_price r1 - rs_price r2\<bar> \<le> 2 ^ 53" "\<bar>int n * (rs_price r1 - rs_price r2)\<bar> \<le> 2 ^ 53"
      "\<bar>R + sideToValue (rs_side r1) * int n * (rs_price r2 - rs_price r1)\<bar> \<le> 2 ^ 53"
  shows "\<exists>p'. fold_res addFill [r1, r2] p = Inr p' \<and> flat p' \<and> unreal_pnl p' = whole 0 \<and>
    real_pnl p' = whole (R + sideToValue (rs_side r1) * int n * (rs_price r2 - rs_price r1)) \<and> total_pnl p' = real_pnl p'"
proof -
  let ?s = "sideToValue (rs_side r1)"
  obtain p1 where p1: "addFill r1 p = Inr p1" "position p1 = ?s * int n" "real_pnl p1 = whole R"
      "open_vwap p1 (sideToIndex (rs_side r1)) = whole (rs_price r1 * int n)"
    using opening_fill [OF assms(1) r1] assms(2) by auto
  have s: "?s = 1 \<and> sideToValue (rs_side r2) = - 1 \<or> ?s = - 1 \<and> sideToValue (rs_side r2) = 1" "trading_side (rs_side r2)"
      "opposite (rs_side r2) = rs_side r1"
    using r1(1) r2(1) by (auto simp: trading_side_def)
  have sq: "signed_quantity r2 = - ?s * int n" unfolding signed_quantity_def r2(2) using s(1) by auto
  have pos: "position (counted r2 p1) = 0" using counted_position [of p1 r2] by (simp add: p1(2) sq)
  have int: "int32 (position p1 * sideToValue (rs_side r2)) = Inr (- int n)"
    using s(1) r1(4) by (intro trans [OF int32_in]) (auto simp: p1(2))
  have "close_open (position p1) r2 (counted r2 p1) =
      Inr ((counted r2 p1)\<lparr>real_pnl := d_add (whole R) (whole (?s * int n * (rs_price r2 - rs_price r1)))\<rparr>)"
    using closing_money [OF s(2), of ?s n n "position p1" "counted r2 p1" "rs_price r1"]
      s r1 r2 b pos p1 by auto
  moreover have "\<not> 0 \<le> - int n" using r1(3) by simp
  ultimately have "addFill r2 p1 = Inr (((counted r2 p1)\<lparr>real_pnl := whole (R + ?s * int n * (rs_price r2 - rs_price r1)),
      open_vwap := (open_vwap p1)(0 := whole 0, 2 := whole 0), unreal_pnl := whole 0,
      total_pnl := whole (R + ?s * int n * (rs_price r2 - rs_price r1))\<rparr>))"
    using b(3) pos by (simp add: addFill_unfold [OF int] whole_simps revalued_def whole_0 split del: if_split)
  with p1(1) pos show ?thesis by (simp add: flat_def)
qed

theorem round_trip_realises_profit_witness:
  "\<exists>p'. fold_res addFill [ex_fill Side_SELL 105 10, ex_fill Side_BUY 98 10] (new_position 0 (\<lambda>_. whole 0)) = Inr p' \<and>
    position p' = 0 \<and> total_pnl p' = whole 70"
proof -
  have f: "flat (new_position 0 (\<lambda>_. whole 0))" "real_pnl (new_position 0 (\<lambda>_. whole 0)) = whole 0"
    by (simp_all add: flat_def new_position_def whole_0)
  have "\<exists>p'. fold_res addFill [ex_fill Side_SELL 105 10, ex_fill Side_BUY 98 10] (new_position 0 (\<lambda>_. whole 0)) = Inr p' \<and> flat p' \<and>
      unreal_pnl p' = whole 0 \<and> real_pnl p' = whole (0 + sideToValue (rs_side (ex_fill Side_SELL 105 10)) * int 10 *
        (rs_price (ex_fill Side_BUY 98 10) - rs_price (ex_fill Side_SELL 105 10))) \<and> total_pnl p' = real_pnl p'"
    by (rule round_trip_realises_profit [OF f]) (simp_all add: ex_fill_def)
  then show ?thesis by (auto simp: flat_def ex_fill_def)
qed

text \<open>Closing part of a position shows a loss that is none. The open notional is not reduced when a position
  is partly closed, so the average price it is divided into is too high: whoever buys \<open>N\<close>, sells \<open>n\<close> of them
  back at the same price and has gained or lost nothing is shown a loss of \<open>n\<close> times the price, and after a sale
  and a partial purchase a profit of that size.\<close>

theorem partial_close_shows_false_loss:
  assumes "flat p" and "real_pnl p = whole 0"
    and r1: "trading_side (rs_side r1)" "unat (rs_exec_quantity r1) = N" "N < 2 ^ 31" "rs_price r1 = x" "\<bar>x\<bar> \<le> 2 ^ 53"
      "\<bar>x * int N\<bar> \<le> 2 ^ 53"
    and r2: "rs_side r2 = opposite (rs_side r1)" "unat (rs_exec_quantity r2) = n" "rs_price r2 = x" "0 < n" "n < N"
    and b: "(N - n) * N < 2 ^ 31" "x * int N = c * int (N - n)" "\<bar>c\<bar> \<le> 2 ^ 53" "\<bar>x - c\<bar> \<le> 2 ^ 53" "\<bar>x * int n\<bar> \<le> 2 ^ 53"
  shows "\<exists>p'. fold_res addFill [r1, r2] p = Inr p' \<and> position p' = sideToValue (rs_side r1) * int (N - n) \<and>
    real_pnl p' = whole 0 \<and> total_pnl p' = whole (- (sideToValue (rs_side r1) * x * int n))"
proof -
  let ?s = "sideToValue (rs_side r1)"
  have N: "0 < N" "int (N - n) < 2 ^ 31" "int (N - n) \<le> 2 ^ 53" "0 < int (N - n)" "int (N - n) = int N - int n"
    using r2(4,5) r1(3) by simp_all
  obtain p1 where p1: "addFill r1 p = Inr p1" "position p1 = ?s * int N" "real_pnl p1 = whole 0"
      "open_vwap p1 (sideToIndex (rs_side r1)) = whole (x * int N)"
    using opening_fill [OF assms(1) r1(1,2) N(1) r1(3), unfolded r1(4), OF r1(5,6)] assms(2) by auto
  have s: "?s = 1 \<and> sideToValue (rs_side r2) = - 1 \<and> sideToIndex (rs_side r1) = 2 \<or>
      ?s = - 1 \<and> sideToValue (rs_side r2) = 1 \<and> sideToIndex (rs_side r1) = 0"
      "trading_side (rs_side r2)" "opposite (rs_side r2) = rs_side r1"
    using r1(1) r2(1) by (auto simp: trading_side_def)
  have sq: "position p1 + signed_quantity r2 = ?s * int (N - n)"
    unfolding signed_quantity_def r2(2) p1(2) N(5) using s(1) by auto
  have pos: "position (counted r2 p1) = ?s * int (N - n)"
    using counted_position [of p1 r2] s(1) N(2,4) unfolding sq by auto
  have int: "int32 (position p1 * sideToValue (rs_side r2)) = Inr (- int N)"
    using s(1) r1(3) by (intro trans [OF int32_in]) (auto simp: p1(2))
  have same: "?s * int n * (x - x) = 0" by simp
  have "close_open (position p1) r2 (counted r2 p1) = Inr ((counted r2 p1)\<lparr>real_pnl := d_add (whole 0) (whole 0)\<rparr>)"
    using closing_money [OF s(2), of ?s n N "position p1" "counted r2 p1" x] s r1 r2 b pos p1 by auto
  then have 1: "close_open (position p1) r2 (counted r2 p1) = Inr ((counted r2 p1)\<lparr>real_pnl := whole 0\<rparr>)"
    by (simp add: whole_simps)
  define p2 where "p2 = (counted r2 p1)\<lparr>real_pnl := whole 0\<rparr>"
  have abs: "int32 \<bar>position p2\<bar> = Inr (int (N - n))"
    using s(1) N by (intro trans [OF int32_in]) (auto simp: p2_def pos)
  have avg: "d_div (whole (x * int N)) (whole (int (N - n))) = whole c"
    using b(2,3) N(4) by (intro d_div_whole) auto
  have money: "(x - c) * int (N - n) = - (x * int n)" using b(2) N(5) by (simp add: algebra_simps)
  have "revalued r2 p2 = Inr (p2\<lparr>unreal_pnl := whole (- (?s * x * int n))\<rparr>)"
    using s(1)
  proof
    assume l: "?s = 1 \<and> sideToValue (rs_side r2) = - 1 \<and> sideToIndex (rs_side r1) = 2"
    then have v: "open_vwap p2 (sideToIndex Side_BUY) = whole (x * int N)" using p1(4) by (simp add: p2_def)
    have "position p2 = int (N - n)" using l by (simp add: p2_def pos)
    moreover have "d_mul (d_sub (whole x) (whole c)) (whole (int (N - n))) = whole (- (x * int n))"
      using b(4,5) by (simp add: whole_simps money)
    ultimately show ?thesis using l N r1(5)
      unfolding revalued_def mark_position_def abs bindE_Inr v r2(3) by (simp add: d_of_int_whole avg [unfolded N(5)])
  next
    assume l: "?s = - 1 \<and> sideToValue (rs_side r2) = 1 \<and> sideToIndex (rs_side r1) = 0"
    then have v: "open_vwap p2 (sideToIndex Side_SELL) = whole (x * int N)" using p1(4) by (simp add: p2_def)
    have "position p2 = - int (N - n)" using l by (simp add: p2_def pos)
    moreover have "(c - x) * int (N - n) = x * int n" using money by (simp add: algebra_simps)
    then have "d_mul (d_sub (whole c) (whole x)) (whole (int (N - n))) = whole (x * int n)"
      using b(4,5) by (simp add: whole_simps abs_minus_commute)
    ultimately show ?thesis using l N r1(5)
      unfolding revalued_def mark_position_def abs bindE_Inr v r2(3) by (simp add: d_of_int_whole avg [unfolded N(5)])
  qed
  moreover have "\<not> 0 \<le> - int N" using N(1) by simp
  moreover have "\<bar>- (?s * x * int n)\<bar> \<le> 2 ^ 53" using s(1) b(5) by auto
  ultimately have "addFill r2 p1 = Inr (p2\<lparr>unreal_pnl := whole (- (?s * x * int n)), total_pnl := whole (- (?s * x * int n))\<rparr>)"
    by (simp add: addFill_unfold [OF int] 1 p2_def [symmetric] d_add_whole split del: if_split) (simp add: p2_def d_add_whole)
  with p1(1) pos show ?thesis by (simp add: p2_def)
qed

theorem partial_close_shows_false_loss_witness:
  "\<exists>p'. fold_res addFill [ex_fill Side_BUY 100 10, ex_fill Side_SELL 100 5] (new_position 0 (\<lambda>_. whole 0)) = Inr p' \<and>
    position p' = 5 \<and> total_pnl p' = whole (- 500)"
proof -
  have f: "flat (new_position 0 (\<lambda>_. whole 0))" "real_pnl (new_position 0 (\<lambda>_. whole 0)) = whole 0"
    by (simp_all add: flat_def new_position_def whole_0)
  have "\<exists>p'. fold_res addFill [ex_fill Side_BUY 100 10, ex_fill Side_SELL 100 5] (new_position 0 (\<lambda>_. whole 0)) = Inr p' \<and>
      position p' = sideToValue (rs_side (ex_fill Side_BUY 100 10)) * int (10 - 5) \<and> real_pnl p' = whole 0 \<and>
      total_pnl p' = whole (- (sideToValue (rs_side (ex_fill Side_BUY 100 10)) * 100 * int 5))"
    by (rule partial_close_shows_false_loss [OF f, where c = 200]) (simp_all add: ex_fill_def)
  then show ?thesis by (auto simp: ex_fill_def)
qed

text \<open>Flipping a large position overflows. A fill against the position that leaves the opposite position
  multiplies the two in 32 bits to see the change of sign; when the product of their sizes exceeds what a signed
  32-bit integer holds, that multiplication overflows, which is undefined behaviour. From a position of 50000 a
  change to -50000 does.\<close>

theorem large_flip_overflows:
  assumes "trading_side (rs_side r)" and "unat (rs_exec_quantity r) = n + m" and "n + m < 2 ^ 31"
    and "position p = - (sideToValue (rs_side r)) * int n" and "2 ^ 31 < int n * int m"
  shows "addFill r p = Inl SignedOverflow"
proof -
  let ?s = "sideToValue (rs_side r)"
  have s: "?s = 1 \<or> ?s = - 1" using assms(1) by (auto simp: trading_side_def)
  have n: "0 < n" using assms(5) by (cases n) auto
  have bound: "int n < 2 ^ 31" "int m < 2 ^ 31" using assms(3) by simp_all
  have sq: "position p + signed_quantity r = ?s * int m"
    using s unfolding signed_quantity_def assms(2,4) by auto
  have pos: "position (counted r p) = ?s * int m"
    using counted_position [of p r] s bound unfolding sq by auto
  have int: "int32 (position p * ?s) = Inr (- int n)"
    using s bound by (intro trans [OF int32_in]) (auto simp: assms(4))
  have abs: "int32 \<bar>position p\<bar> = Inr (int n)" using s bound by (intro trans [OF int32_in]) (auto simp: assms(4))
  have "position (counted r p) * position p = - (int n * int m)" using s by (auto simp: pos assms(4))
  then have "int32 (position (counted r p) * position p) = Inl SignedOverflow" using assms(5) by (simp add: int32_def)
  moreover have "\<not> 0 \<le> - int n" using n by simp
  ultimately show ?thesis by (simp add: addFill_unfold [OF int] close_open_def Let_def abs split del: if_split)
qed

theorem large_flip_overflows_witness:
  "addFill (ex_fill Side_SELL 10 100000) (new_position 50000 (\<lambda>_. whole 0)) = Inl SignedOverflow"
  by (rule large_flip_overflows [where n = 50000 and m = 50000])
     (simp_all add: ex_fill_def new_position_def)

end
