(* ===== verification/DeskRuns.thy ===== *)
theory DeskRuns
  imports DeskInvariant PositionProps
begin

section \<open>Runs of the trading desk\<close>

text \<open>
  The steps of the real client code, \<open>process_update\<close> and \<open>process_response\<close>, in terms of slots and
  positions, and the invariant of all reachable states.
\<close>

subsection \<open>Limits\<close>

text \<open>The quantity a slot may still add to its side.\<close>

definition at_risk :: "order_manager \<Rightarrow> slot \<Rightarrow> int" where
  "at_risk m c = (if idle (slot_order m c) then 0 else int (unat (om_quantity (slot_order m c))))"

definition position_limit :: "(nat \<Rightarrow> TradeEngineConfig) \<Rightarrow> nat \<Rightarrow> int" where
  "position_limit cfg t = int (unat (max_position (te_risk_config (cfg t))))"

definition limits_sane :: "(nat \<Rightarrow> TradeEngineConfig) \<Rightarrow> bool" where
  "limits_sane cfg \<longleftrightarrow> (\<forall>t<MATCHING_ENGINE_MAX_TICKERS.
     unat (max_order_size (te_risk_config (cfg t))) < 2 ^ 31 \<and> unat (max_position (te_risk_config (cfg t))) < 2 ^ 31)"

definition limit_inv :: "(nat \<Rightarrow> TradeEngineConfig) \<Rightarrow> order_manager \<Rightarrow> (nat \<Rightarrow> int) \<Rightarrow> bool" where
  "limit_inv cfg m pos \<longleftrightarrow> (\<forall>t<MATCHING_ENGINE_MAX_TICKERS.
     pos t + at_risk m (t, Side_BUY) \<le> position_limit cfg t \<and> - position_limit cfg t \<le> pos t - at_risk m (t, Side_SELL))"

definition positions :: "position_keeper \<Rightarrow> nat \<Rightarrow> int" where
  "positions k t = position (ticker_position k t)"

lemma at_risk_nonneg: "0 \<le> at_risk m c"
  by (simp add: at_risk_def)

lemma limit_inv_bound:
  assumes "limit_inv cfg m pos" and "t < MATCHING_ENGINE_MAX_TICKERS"
  shows "\<bar>pos t\<bar> \<le> position_limit cfg t"
  using assms at_risk_nonneg [of m "(t, Side_BUY)"] at_risk_nonneg [of m "(t, Side_SELL)"]
  unfolding limit_inv_def by fastforce

text \<open>An order that passes the check fits the limit on its side.\<close>

lemma allowed_fits:
  assumes "checkPreTradeRisk ticker_id sd quantity (RiskManager cfg) k = Inr ALLOWED" and "limits_sane cfg"
  shows "unat ticker_id < MATCHING_ENGINE_MAX_TICKERS"
    and "\<bar>positions k (unat ticker_id) + sideToValue sd * int (unat quantity)\<bar> \<le> position_limit cfg (unat ticker_id)"
proof -
  let ?t = "unat ticker_id"
  let ?c = "te_risk_config (cfg ?t)"
  from assms(1) have t: "?t < MATCHING_ENGINE_MAX_TICKERS" and q: "quantity \<le> max_order_size ?c"
    and p: "\<bar>position (ticker_position k ?t) + sideToValue sd * to_int32 quantity\<bar> \<le> to_int32 (max_position ?c)"
    by (auto simp: checkPreTradeRisk_def RiskManager_def info_checkPreTradeRisk_def Let_def res_simps arr_at_Inr_iff
        split: if_splits)
  show "?t < MATCHING_ENGINE_MAX_TICKERS" by (rule t)
  have "unat quantity < 2 ^ 31" "unat (max_position ?c) < 2 ^ 31"
    using assms(2) t q unfolding limits_sane_def by (auto simp: word_le_nat_alt intro: le_less_trans)
  with p show "\<bar>positions k ?t + sideToValue sd * int (unat quantity)\<bar> \<le> position_limit cfg ?t"
    by (simp add: to_int32_small positions_def position_limit_def)
qed

subsection \<open>The queue of requests has room\<close>

lemma length_by_slot:
  assumes "finite S" and "\<forall>r\<in>set R. request_slot r \<in> S"
  shows "length R = (\<Sum>c\<in>S. length (requests_at c R))"
  using assms(2)
proof (induction R)
  case (Cons r R)
  have "(\<Sum>c\<in>S. length (requests_at c (r # R))) = (\<Sum>c\<in>S. (if c = request_slot r then 1 else 0) + length (requests_at c R))"
    by (intro sum.cong) auto
  also have "\<dots> = 1 + (\<Sum>c\<in>S. length (requests_at c R))"
    using Cons.prems assms(1) by (simp add: sum.distrib)
  finally show ?case using Cons by simp
qed simp

definition slots :: "slot set" where
  "slots = {..<MATCHING_ENGINE_MAX_TICKERS} \<times> {Side_BUY, Side_SELL}"

lemma valid_slot_iff: "valid_slot c \<longleftrightarrow> c \<in> slots"
  by (cases c) (auto simp: valid_slot_def slots_def trading_side_def)

lemma requests_bound:
  assumes "orders_inv m R x A"
  shows "length R \<le> 32"
proof -
  have fin: "finite slots" "card slots = 16" by (simp_all add: slots_def limit_defs)
  have "length R = (\<Sum>c\<in>slots. length (requests_at c R))"
    using orders_invD(1) [OF assms] by (intro length_by_slot fin) (simp add: valid_slot_iff)
  also have "\<dots> \<le> (\<Sum>c\<in>slots. 2)"
    by (intro sum_mono slot_requests_bound [OF orders_invD(3) [OF assms]]) (simp add: valid_slot_iff)
  finally show ?thesis using fin by simp
qed

subsection \<open>Moving orders\<close>

text \<open>What the strategy's side of the desk keeps.\<close>

definition client_inv :: "(nat \<Rightarrow> TradeEngineConfig) \<Rightarrow> exchange_orders \<Rightarrow> slot_responses \<Rightarrow> (nat \<Rightarrow> int) \<Rightarrow> om_state \<Rightarrow> bool" where
  "client_inv cfg x A pos st \<longleftrightarrow> (case st of (m, q) \<Rightarrow>
     lf_inv q \<and> 34 \<le> lf_capacity q \<and> orders_inv m (lf_contents q) x A \<and> limit_inv cfg m pos)"

lemma client_push:
  assumes "lf_inv q" and "34 \<le> lf_capacity q" and "orders_inv m (lf_contents q) x A"
  shows "lf_inv (sendClientRequest r q)" and "lf_contents (sendClientRequest r q) = lf_contents q @ [r]"
    and "lf_capacity (sendClientRequest r q) = lf_capacity q"
proof -
  have "lf_count q + 1 < lf_capacity q" using requests_bound [OF assms(3)] assms(2) by simp
  with assms(1) show "lf_inv (sendClientRequest r q)" "lf_contents (sendClientRequest r q) = lf_contents q @ [r]"
    "lf_capacity (sendClientRequest r q) = lf_capacity q"
    by (simp_all add: sendClientRequest_def lf_inv_push lf_contents_push)
qed

lemma client_cancelOrder:
  assumes "client_inv cfg x A pos (m, q)" and c: "valid_slot c" and live: "om_order_state (slot_order m c) = OM_LIVE"
  shows "client_inv cfg x A pos (cancelOrder client_id (slot_address c) (m, q))"
proof -
  let ?v = "slot_order m c"
  let ?r = "\<lparr>rq_type = CRQ_CANCEL, rq_client_id = client_id, rq_ticker_id = om_ticker_id ?v,
       rq_order_id = om_order_id ?v, rq_side = om_side ?v, rq_price = om_price ?v, rq_quantity = om_quantity ?v\<rparr>"
  let ?m = "set_om_order (slot_address c) (?v\<lparr>om_order_state := OM_PENDING_CANCEL\<rparr>) m"
  from assms(1) have q: "lf_inv q" "34 \<le> lf_capacity q" "orders_inv m (lf_contents q) x A" "limit_inv cfg m pos"
    by (simp_all add: client_inv_def)
  have "cancelOrder client_id (slot_address c) (m, q) = (?m, sendClientRequest ?r q)"
    by (simp add: cancelOrder_def Let_def slot_order_def)
  moreover have "request_slot ?r = c"
    using orders_invD(4) [OF q(3) c] live by (simp add: own_fields_def request_slot_def idle_def)
  with orders_cancel [OF q(3) c live, of ?r] have "orders_inv ?m (lf_contents q @ [?r]) x A"
    by (simp add: withdraws_def)
  moreover have "at_risk ?m d = at_risk m d" if "valid_slot d" for d
    using live that c by (auto simp: at_risk_def slot_order_set idle_def)
  then have "limit_inv cfg ?m pos" using q(4) by (simp add: limit_inv_def valid_slot_def)
  ultimately show ?thesis using q client_push [OF q(1-3), of ?r] by (simp add: client_inv_def)
qed

lemma client_newOrder:
  assumes "client_inv cfg x A (positions k) (m, q)" and "limits_sane cfg" and sd: "trading_side sd"
    and idle: "idle (slot_order m (unat ticker_id, sd))" and left: "unat (next_order_id m) + 1 < 2 ^ 64"
    and risk: "checkPreTradeRisk ticker_id sd quantity (RiskManager cfg) k = Inr ALLOWED"
  shows "client_inv cfg x A (positions k)
    (newOrder client_id (slot_address (unat ticker_id, sd)) ticker_id price sd quantity (m, q))"
proof -
  let ?c = "(unat ticker_id, sd)"
  let ?r = "\<lparr>rq_type = CRQ_NEW, rq_client_id = client_id, rq_ticker_id = ticker_id,
       rq_order_id = next_order_id m, rq_side = sd, rq_price = price, rq_quantity = quantity\<rparr>"
  let ?v = "\<lparr>om_ticker_id = ticker_id, om_order_id = next_order_id m, om_side = sd, om_price = price,
       om_quantity = quantity, om_order_state = OM_PENDING_NEW\<rparr>"
  let ?m1 = "set_om_order (slot_address ?c) ?v m"
  let ?m = "?m1\<lparr>next_order_id := next_order_id m + 1\<rparr>"
  note fits = allowed_fits [OF risk assms(2)]
  have c: "valid_slot ?c" using fits(1) sd by (simp add: valid_slot_def)
  from assms(1) have q: "lf_inv q" "34 \<le> lf_capacity q" "orders_inv m (lf_contents q) x A" "limit_inv cfg m (positions k)"
    by (simp_all add: client_inv_def)
  have "newOrder client_id (slot_address ?c) ticker_id price sd quantity (m, q) = (?m, sendClientRequest ?r q)"
    by (simp add: newOrder_def Let_def)
  moreover have "orders_inv ?m (lf_contents q @ [?r]) x A"
    by (rule orders_new [OF q(3) c idle _ _ _ _ _ left]) (simp_all add: announces_def request_slot_def)
  moreover have "at_risk ?m d = (if d = ?c then int (unat quantity) else at_risk m d)" if "valid_slot d" for d
    using that c by (simp add: at_risk_def slot_order_set) (simp add: idle_def)
  then have "limit_inv cfg ?m (positions k)"
    using q(4) fits sd unfolding limit_inv_def valid_slot_def
    by (auto simp: at_risk_def trading_side_def split: if_splits)
  ultimately show ?thesis using q client_push [OF q(1-3), of ?r] by (simp add: client_inv_def)
qed

lemma moveOrder_cases:
  assumes "moveOrder client_id risk k a ticker_id price sd quantity (m, q) = Inr st"
  shows "st = (m, q) \<or> om_order_state (om_order a m) = OM_LIVE \<and> st = cancelOrder client_id a (m, q) \<or>
    idle (om_order a m) \<and> checkPreTradeRisk ticker_id sd quantity risk k = Inr ALLOWED \<and>
      st = newOrder client_id a ticker_id price sd quantity (m, q)"
  using assms
  by (cases "om_order_state (om_order a m)") (auto simp: moveOrder_def Let_def res_simps idle_def split: if_splits)

lemma next_order_id_sent:
  "next_order_id (fst (cancelOrder client_id a (m, q))) = next_order_id m"
  "next_order_id (fst (newOrder client_id a ticker_id price sd quantity (m, q))) = next_order_id m + 1"
  by (simp_all add: cancelOrder_def newOrder_def Let_def)

lemma client_moveOrder:
  assumes "moveOrder client_id (RiskManager cfg) k (unat ticker_id, sideToIndex sd) ticker_id price sd quantity (m, q) = Inr (m', q')"
    and "client_inv cfg x A (positions k) (m, q)" and "limits_sane cfg" and "valid_slot (unat ticker_id, sd)"
    and "unat (next_order_id m) + 1 < 2 ^ 64"
  shows "client_inv cfg x A (positions k) (m', q')" and "unat (next_order_id m') \<le> unat (next_order_id m) + 1"
proof -
  let ?c = "(unat ticker_id, sd)"
  have a: "(unat ticker_id, sideToIndex sd) = slot_address ?c" by (simp add: slot_address_def)
  have sd: "trading_side sd" using assms(4) by (simp add: valid_slot_def)
  from moveOrder_cases [OF assms(1)] consider "(m', q') = (m, q)"
    | "om_order_state (slot_order m ?c) = OM_LIVE" "(m', q') = cancelOrder client_id (slot_address ?c) (m, q)"
    | "idle (slot_order m ?c)" "checkPreTradeRisk ticker_id sd quantity (RiskManager cfg) k = Inr ALLOWED"
      "(m', q') = newOrder client_id (slot_address ?c) ticker_id price sd quantity (m, q)"
    unfolding a slot_order_def by blast
  then have "client_inv cfg x A (positions k) (m', q') \<and> unat (next_order_id m') \<le> unat (next_order_id m) + 1"
  proof cases
    case 1
    then show ?thesis using assms(2) by simp
  next
    case 2
    then show ?thesis
      using client_cancelOrder [OF assms(2,4) 2(1), of client_id] next_order_id_sent(1) [of client_id "slot_address ?c" m q]
      by (metis fst_conv le_add1)
  next
    case 3
    have "unat (next_order_id m + 1) \<le> unat (next_order_id m) + 1" by (simp add: unat_word_ariths)
    then show ?thesis
      using client_newOrder [OF assms(2,3) sd 3(1) assms(5) 3(2), of client_id price]
        next_order_id_sent(2) [of client_id "slot_address ?c" ticker_id price sd quantity m q] 3(3)
      by (metis fst_conv)
  qed
  then show "client_inv cfg x A (positions k) (m', q')" "unat (next_order_id m') \<le> unat (next_order_id m) + 1" by auto
qed

lemma client_moveOrders:
  assumes "moveOrders client_id (RiskManager cfg) k ticker_id bid ask quantity (m, q) = Inr (m', q')"
    and "client_inv cfg x A (positions k) (m, q)" and "limits_sane cfg" and "unat (next_order_id m) + 2 < 2 ^ 64"
  shows "client_inv cfg x A (positions k) (m', q')"
proof -
  from assms(1) obtain m1 q1 where t: "unat ticker_id < MATCHING_ENGINE_MAX_TICKERS"
    and 1: "moveOrder client_id (RiskManager cfg) k (unat ticker_id, sideToIndex Side_BUY) ticker_id bid Side_BUY quantity (m, q) = Inr (m1, q1)"
    and 2: "moveOrder client_id (RiskManager cfg) k (unat ticker_id, sideToIndex Side_SELL) ticker_id ask Side_SELL quantity (m1, q1) = Inr (m', q')"
    by (auto simp: moveOrders_def order_address_def res_simps arr_at_Inr_iff)
  have c: "valid_slot (unat ticker_id, Side_BUY)" "valid_slot (unat ticker_id, Side_SELL)" using t by (simp_all add: valid_slot_def)
  have left: "unat (next_order_id m) + 1 < 2 ^ 64" using assms(4) by simp
  note s1 = client_moveOrder [OF 1 assms(2,3) c(1) left]
  have left1: "unat (next_order_id m1) + 1 < 2 ^ 64" using s1(2) assms(4) by simp
  show ?thesis by (rule client_moveOrder(1) [OF 2 s1(1) assms(3) c(2) left1])
qed

subsection \<open>Market updates\<close>

text \<open>What the handlers of the trade engine do to positions, orders and requests: nothing, or \<open>moveOrders\<close>.\<close>

definition client_effect :: "trade_engine \<Rightarrow> trade_engine \<Rightarrow> bool" where
  "client_effect e e' \<longleftrightarrow> te_risk_manager e' = te_risk_manager e \<and>
     positions (te_position_keeper e') = positions (te_position_keeper e) \<and>
     (te_order_manager e' = te_order_manager e \<and> outgoing_gateway_request e' = outgoing_gateway_request e \<or>
      (\<exists>k ticker_id bid ask quantity. positions k = positions (te_position_keeper e) \<and>
         moveOrders (te_client_id e) (te_risk_manager e) k ticker_id bid ask quantity
           (te_order_manager e, outgoing_gateway_request e) = Inr (te_order_manager e', outgoing_gateway_request e')))"

lemma effect_refl: "client_effect e e"
  by (simp add: client_effect_def)

lemma effect_cong:
  assumes "client_effect e1 e'" and "te_client_id e1 = te_client_id e" and "te_risk_manager e1 = te_risk_manager e"
    and "positions (te_position_keeper e1) = positions (te_position_keeper e)"
    and "te_order_manager e1 = te_order_manager e" and "outgoing_gateway_request e1 = outgoing_gateway_request e"
  shows "client_effect e e'"
  using assms unfolding client_effect_def by auto

lemma effect_moveOrders: "te_moveOrders ticker_id bid ask quantity e = Inr e' \<Longrightarrow> client_effect e e'"
  unfolding client_effect_def by (auto simp: te_moveOrders_def res_simps split: prod.splits)

lemma effect_algoOnOrderBookUpdate: "algoOnOrderBookUpdate ticker_id x e = Inr e' \<Longrightarrow> client_effect e e'"
  by (auto simp: algoOnOrderBookUpdate_def mm_onOrderBookUpdate_def Let_def res_simps effect_refl effect_moveOrders
      split: strategy.splits if_splits)

lemma effect_algoOnTradeUpdate: "algoOnTradeUpdate u x e = Inr e' \<Longrightarrow> client_effect e e'"
  by (auto simp: algoOnTradeUpdate_def lt_onTradeUpdate_def Let_def res_simps effect_refl effect_moveOrders
      split: strategy.splits if_splits)

lemma keeper_updateBBO_positions:
  assumes "keeper_updateBBO ticker_id x k = Inr k'"
  shows "positions k' = positions k"
  using assms position_updateBBO_frame
  by (auto simp: keeper_updateBBO_def update_position_def res_simps positions_def fun_eq_iff)

lemma effect_process_update:
  assumes "process_update now u e = Inr e'"
  shows "client_effect e e'"
proof -
  obtain b ev e1 where 1: "book_callback (unat (mu_ticker_id u)) ev
      (e\<lparr>ticker_order_book := (ticker_order_book e)(unat (mu_ticker_id u) := b)\<rparr>) = Inr e1"
    and e': "e' = e1\<lparr>last_event_time := now\<rparr>"
    using assms by (auto simp: process_update_def Let_def res_simps split: prod.splits)
  let ?e = "e\<lparr>ticker_order_book := (ticker_order_book e)(unat (mu_ticker_id u) := b)\<rparr>"
  have "client_effect ?e e1"
  proof (cases ev)
    case (TradeUpdate w)
    with 1 show ?thesis
      by (auto simp: book_callback_def te_onTradeUpdate_def dest!: effect_algoOnTradeUpdate intro: effect_cong)
  next
    case (OrderBookUpdate ticker_id p sd)
    with 1 obtain k f where "keeper_updateBBO ticker_id (bbo b) (te_position_keeper e) = Inr k"
      and 2: "algoOnOrderBookUpdate ticker_id (bbo b) (?e\<lparr>te_position_keeper := k, te_feature_engine := f\<rparr>) = Inr e1"
      by (auto simp: book_callback_def te_onOrderBookUpdate_def res_simps)
    with keeper_updateBBO_positions effect_algoOnOrderBookUpdate [OF 2] show ?thesis
      by (auto intro: effect_cong)
  qed
  then have "client_effect e e1" by (rule effect_cong) simp_all
  then show ?thesis by (simp add: e' client_effect_def)
qed

subsection \<open>The invariant\<close>

definition desk_inv :: "(nat \<Rightarrow> TradeEngineConfig) \<Rightarrow> desk \<Rightarrow> bool" where
  "desk_inv cfg s \<longleftrightarrow> (case s of (e, x, A) \<Rightarrow>
     te_risk_manager e = RiskManager cfg \<and>
     client_inv cfg x A (positions (te_position_keeper e)) (te_order_manager e, outgoing_gateway_request e) \<and>
     (\<forall>a\<in>set A. rs_type a = CRS_FILLED \<longrightarrow> valid_slot (response_slot a)))"

lemma desk_update:
  assumes "desk_inv cfg (e, x, A)" and "limits_sane cfg" and "process_update now u e = Inr e'" and "ids_left e"
  shows "desk_inv cfg (e', x, A)"
proof -
  from assms(1) have e: "te_risk_manager e = RiskManager cfg"
      "client_inv cfg x A (positions (te_position_keeper e)) (te_order_manager e, outgoing_gateway_request e)"
    by (simp_all add: desk_inv_def)
  note eff = effect_process_update [OF assms(3)]
  have "client_inv cfg x A (positions (te_position_keeper e)) (te_order_manager e', outgoing_gateway_request e')"
  proof (cases "te_order_manager e' = te_order_manager e \<and> outgoing_gateway_request e' = outgoing_gateway_request e")
    case True
    then show ?thesis using e(2) by simp
  next
    case False
    then obtain k ticker_id bid ask quantity where k: "positions k = positions (te_position_keeper e)"
      and m: "moveOrders (te_client_id e) (RiskManager cfg) k ticker_id bid ask quantity
        (te_order_manager e, outgoing_gateway_request e) = Inr (te_order_manager e', outgoing_gateway_request e')"
      using eff e(1) unfolding client_effect_def by auto
    from client_moveOrders [OF m _ assms(2)] e(2) assms(4) show ?thesis by (simp add: k ids_left_def)
  qed
  then show ?thesis using assms(1) eff by (simp add: desk_inv_def client_effect_def)
qed

text \<open>A response: the slot moves on, and a fill moves quantity from the slot to the position.\<close>

lemma keeper_addFill_positions:
  assumes "keeper_addFill r k = Inr k'"
  shows "positions k' = (positions k)(unat (rs_ticker_id r) :=
    to_int32 (word_of_int (positions k (unat (rs_ticker_id r))) + rs_exec_quantity r * word_of_int (sideToValue (rs_side r))))"
  using assms addFill_frame(1)
  by (auto simp: keeper_addFill_def update_position_def res_simps positions_def fun_eq_iff)

lemma process_response_parts:
  assumes "process_response now r e = Inr e'"
  shows "te_risk_manager e' = te_risk_manager e" and "outgoing_gateway_request e' = outgoing_gateway_request e"
    and "om_onOrderUpdate r (te_order_manager e) = Inr (te_order_manager e')"
    and "rs_type r = CRS_FILLED \<Longrightarrow> keeper_addFill r (te_position_keeper e) = Inr (te_position_keeper e')"
    and "rs_type r \<noteq> CRS_FILLED \<Longrightarrow> te_position_keeper e' = te_position_keeper e"
  using assms
  by (auto simp: process_response_def te_onOrderUpdate_def algoOnOrderUpdate_def res_simps split: if_splits)

lemma at_risk_other:
  assumes "rs_type r \<noteq> CRS_FILLED" and "slot_ok v R (r # A) X"
  shows "idle (update_order r v) \<or> \<not> idle v \<and> om_quantity (update_order r v) = om_quantity v"
  using assms(2) by (cases rule: slot_cases) (use assms(1) in \<open>auto simp: stage_defs idle_def split: ClientResponseType.splits\<close>)

lemma limit_other:
  assumes inv: "orders_inv m R x (r # A)" and step: "om_onOrderUpdate r m = Inr m'"
    and other: "rs_type r \<noteq> CRS_FILLED" and limit: "limit_inv cfg m pos"
  shows "limit_inv cfg m' pos"
proof -
  have "at_risk m' c \<le> at_risk m c" if c: "valid_slot c" for c
  proof (cases "c = response_slot r")
    case True
    have "slot_ok (slot_order m c) (requests_at c R) (r # responses_at c A) (open_at c x)"
      using orders_invD(3) [OF inv c] True by simp
    note same = at_risk_other [OF other this]
    have "slot_order m' c = update_order r (slot_order m c)"
      using orders_receive(3) [OF inv step, rule_format, OF c] True by simp
    with same show ?thesis by (auto simp: at_risk_def simp del: update_order.simps)
  next
    case False
    then show ?thesis using orders_receive(3) [OF inv step, rule_format, OF c] by (simp add: at_risk_def)
  qed
  then have "at_risk m' (t, sd) \<le> at_risk m (t, sd)" if "t < MATCHING_ENGINE_MAX_TICKERS" "trading_side sd" for t sd
    using that by (simp add: valid_slot_def)
  then show ?thesis using limit unfolding limit_inv_def by (meson add_left_mono diff_left_mono order_trans trading_side_simps)
qed

lemma risk_of_fill:
  assumes "rs_type r = CRS_FILLED" and "\<not> idle v" and "rs_exec_quantity r \<le> om_quantity v"
    and "rs_leaves_quantity r = om_quantity v - rs_exec_quantity r"
  shows "(if idle (update_order r v) then 0 else int (unat (om_quantity (update_order r v)))) =
    int (unat (om_quantity v)) - int (unat (rs_exec_quantity r))"
proof -
  have le: "unat (rs_exec_quantity r) \<le> unat (om_quantity v)" using assms(3) by (simp only: word_le_nat_alt)
  have "unat (rs_leaves_quantity r) = unat (om_quantity v) - unat (rs_exec_quantity r)"
    using assms(3,4) by (simp add: unat_sub)
  then have leaves: "int (unat (rs_leaves_quantity r)) = int (unat (om_quantity v)) - int (unat (rs_exec_quantity r))"
    using le by linarith
  show ?thesis
  proof (cases "rs_leaves_quantity r = 0")
    case True
    then show ?thesis using leaves unfolding slot_fill_live [OF assms(1)] by (simp add: idle_def)
  next
    case False
    then show ?thesis using leaves assms(2) unfolding slot_fill_live [OF assms(1)] by (simp add: idle_def)
  qed
qed

lemma limit_fill:
  assumes inv: "orders_inv m R x (r # A)" and step: "om_onOrderUpdate r m = Inr m'"
    and filled: "rs_type r = CRS_FILLED" and c: "valid_slot (response_slot r)" and limit: "limit_inv cfg m pos"
    and sane: "limits_sane cfg"
    and pos': "pos' = pos(unat (rs_ticker_id r) :=
      to_int32 (word_of_int (pos (unat (rs_ticker_id r))) + rs_exec_quantity r * word_of_int (sideToValue (rs_side r))))"
  shows "limit_inv cfg m' pos'"
proof -
  let ?c = "response_slot r" and ?t = "unat (rs_ticker_id r)" and ?s = "sideToValue (rs_side r)"
  let ?x = "int (unat (rs_exec_quantity r))"
  have t: "?t < MATCHING_ENGINE_MAX_TICKERS" and sd: "trading_side (rs_side r)"
    using c by (simp_all add: valid_slot_def response_slot_def)
  have "slot_ok (slot_order m ?c) (requests_at ?c R) (r # responses_at ?c A) (open_at ?c x)"
    using orders_invD(3) [OF inv c] by simp
  note f = slot_receive_fill [OF this filled]
  have m': "slot_order m' d = (if d = ?c then update_order r (slot_order m d) else slot_order m d)" if "valid_slot d" for d
    using orders_receive(3) [OF inv step] that by blast
  have le: "?x \<le> int (unat (om_quantity (slot_order m ?c)))" using f(2) by (simp only: word_le_nat_alt of_nat_le_iff)
  have risk_c: "at_risk m' ?c = at_risk m ?c - ?x"
    unfolding at_risk_def m' [OF c] using risk_of_fill [OF filled f] f(1) by (simp only: if_True if_False simp_thms)
  have risk_d: "at_risk m' d = at_risk m d" if "valid_slot d" "d \<noteq> ?c" for d
    using m' [OF that(1)] that(2) by (simp add: at_risk_def)
  have bounds: "pos ?t + at_risk m (?t, Side_BUY) \<le> position_limit cfg ?t"
      "- position_limit cfg ?t \<le> pos ?t - at_risk m (?t, Side_SELL)"
    using limit t unfolding limit_inv_def by auto
  have lim: "position_limit cfg ?t < 2 ^ 31"
  proof -
    have "unat (max_position (te_risk_config (cfg ?t))) < 2 ^ 31" using sane t by (simp add: limits_sane_def)
    then show ?thesis unfolding position_limit_def by (metis of_nat_less_iff of_nat_numeral of_nat_power)
  qed
  have nn: "0 \<le> ?x" by (rule of_nat_0_le_iff)
  have cc: "?c = (?t, rs_side r)" by (simp add: response_slot_def)
  have "?x \<le> at_risk m ?c" using le f(1) by (simp add: at_risk_def)
  then have within: "\<bar>pos ?t + ?s * ?x\<bar> \<le> position_limit cfg ?t"
    unfolding cc
  proof (cases "rs_side r = Side_BUY")
    case True
    assume "?x \<le> at_risk m (?t, rs_side r)"
    with True bounds limit_inv_bound [OF limit t] nn show ?thesis unfolding True sideToValue.simps by linarith
  next
    case False
    assume "?x \<le> at_risk m (?t, rs_side r)"
    moreover have "rs_side r = Side_SELL" using False sd by (simp add: trading_side_def)
    ultimately show ?thesis using bounds limit_inv_bound [OF limit t] nn unfolding \<open>rs_side r = Side_SELL\<close> sideToValue.simps by linarith
  qed
  then have p: "pos' ?t = pos ?t + ?s * ?x"
    using lim unfolding pos' by (simp add: wrapped_position)
  have "pos' u + at_risk m' (u, Side_BUY) \<le> position_limit cfg u \<and> - position_limit cfg u \<le> pos' u - at_risk m' (u, Side_SELL)"
    if u: "u < MATCHING_ENGINE_MAX_TICKERS" for u
  proof (cases "u = ?t")
    case True
    have v: "valid_slot (?t, Side_BUY)" "valid_slot (?t, Side_SELL)" using t by (simp_all add: valid_slot_def)
    note facts = bounds risk_c [unfolded cc] nn p
    show ?thesis
    proof (cases "rs_side r = Side_BUY")
      case buy: True
      have "at_risk m' (?t, Side_SELL) = at_risk m (?t, Side_SELL)" using buy by (intro risk_d v) (simp add: cc)
      then show ?thesis using facts unfolding True buy sideToValue.simps by linarith
    next
      case False
      then have sell: "rs_side r = Side_SELL" using sd by (simp add: trading_side_def)
      have "at_risk m' (?t, Side_BUY) = at_risk m (?t, Side_BUY)" using sell by (intro risk_d v) (simp add: cc)
      then show ?thesis using facts unfolding True sell sideToValue.simps by linarith
    qed
  next
    case False
    then have "pos' u = pos u" by (simp add: pos')
    moreover have "at_risk m' (u, d) = at_risk m (u, d)" if "trading_side d" for d
      using False u that by (intro risk_d) (simp_all add: valid_slot_def cc)
    ultimately show ?thesis using limit u by (simp add: limit_inv_def)
  qed
  then show ?thesis unfolding limit_inv_def by blast
qed

lemma desk_response:
  assumes inv: "desk_inv cfg (e, x, r # A)" and sane: "limits_sane cfg" and step: "process_response now r e = Inr e'"
  shows "desk_inv cfg (e', x, A)"
proof -
  note parts = process_response_parts [OF step]
  from inv have e: "te_risk_manager e = RiskManager cfg" "lf_inv (outgoing_gateway_request e)"
      "34 \<le> lf_capacity (outgoing_gateway_request e)"
      "orders_inv (te_order_manager e) (lf_contents (outgoing_gateway_request e)) x (r # A)"
      "limit_inv cfg (te_order_manager e) (positions (te_position_keeper e))"
      "\<forall>a\<in>set (r # A). rs_type a = CRS_FILLED \<longrightarrow> valid_slot (response_slot a)"
    by (simp_all add: desk_inv_def client_inv_def)
  have "limit_inv cfg (te_order_manager e') (positions (te_position_keeper e'))"
  proof (cases "rs_type r = CRS_FILLED")
    case True
    from keeper_addFill_positions [OF parts(4) [OF True]] e(6) True show ?thesis
      by (intro limit_fill [OF e(4) parts(3) True _ e(5) sane]) auto
  next
    case False
    from limit_other [OF e(4) parts(3) False e(5)] parts(5) [OF False] show ?thesis by simp
  qed
  then show ?thesis
    using e orders_receive(1) [OF e(4) parts(3)] parts(1,2) by (simp add: desk_inv_def client_inv_def)
qed

lemma desk_request:
  assumes inv: "desk_inv cfg (e, x, A)" and "getNextToRead (outgoing_gateway_request e) = Some r"
    and "updateReadIndex (outgoing_gateway_request e) = Inr q" and step: "exchange_answers r x x' a"
  shows "desk_inv cfg (e\<lparr>outgoing_gateway_request := q\<rparr>, x', A @ [a])"
proof -
  from inv have e: "te_risk_manager e = RiskManager cfg" "lf_inv (outgoing_gateway_request e)"
      "34 \<le> lf_capacity (outgoing_gateway_request e)"
      "orders_inv (te_order_manager e) (lf_contents (outgoing_gateway_request e)) x A"
      "limit_inv cfg (te_order_manager e) (positions (te_position_keeper e))"
      "\<forall>a\<in>set A. rs_type a = CRS_FILLED \<longrightarrow> valid_slot (response_slot a)"
    by (simp_all add: desk_inv_def client_inv_def)
  from assms(2) obtain R where R: "lf_contents (outgoing_gateway_request e) = r # R"
    using getNextToRead_hd [OF e(2)] by (auto split: list.splits)
  then have q: "lf_inv q" "lf_contents q = R" "lf_capacity q = lf_capacity (outgoing_gateway_request e)"
    using updateReadIndex_tl [OF e(2)] assms(3) by auto
  have "rs_type a \<noteq> CRS_FILLED" using step by cases auto
  then show ?thesis using e q orders_request [OF e(4) [unfolded R] step] by (simp add: desk_inv_def client_inv_def)
qed

lemma desk_fill:
  assumes inv: "desk_inv cfg (e, x, A)" and v: "x i = Some v" and f: "f \<noteq> 0" "f \<le> oo_quantity v"
    and a: "rs_type a = CRS_FILLED" "rs_ticker_id a = oo_ticker v" "rs_side a = oo_side v" "rs_exec_quantity a = f"
      "rs_leaves_quantity a = oo_quantity v - f"
  shows "desk_inv cfg (e, (if f = oo_quantity v then x(i := None) else x(i \<mapsto> v\<lparr>oo_quantity := oo_quantity v - f\<rparr>)), A @ [a])"
proof -
  from inv have o: "orders_inv (te_order_manager e) (lf_contents (outgoing_gateway_request e)) x A"
    by (simp add: desk_inv_def client_inv_def)
  have "valid_slot (response_slot a)" using orders_invD(2) [OF o v] a by (simp add: response_slot_def open_slot_def)
  with inv orders_fill [OF o v f a] show ?thesis by (simp add: desk_inv_def client_inv_def)
qed

lemma desk_step_inv:
  assumes "desk_step s s'" and "desk_inv cfg s" and "limits_sane cfg"
  shows "desk_inv cfg s'"
  using assms
proof cases
  case market
  then show ?thesis using assms(2,3) desk_update by blast
next
  case response
  then show ?thesis using assms(2,3) desk_response by blast
next
  case request
  then show ?thesis using assms(2) desk_request by blast
next
  case (fill x i v f a e rs)
  from assms(2) have "desk_inv cfg (e, x, rs)" by (simp add: fill(1))
  from desk_fill [OF this fill(3-10)] show ?thesis by (simp add: fill(2))
qed

lemma desk_reachable_inv:
  assumes "desk_reachable s s'" and "desk_inv cfg s" and "limits_sane cfg"
  shows "desk_inv cfg s'"
  using assms by (induction rule: desk_reachable.induct) (auto intro: desk_step_inv)

end
