(* ===== verification/DeskProps.thy ===== *)
theory DeskProps
  imports DeskRuns
begin

section \<open>Properties of the trading desk\<close>

text \<open>
  What holds in every state the trade engine and a well-behaved exchange can reach, whatever the market
  data, the order of the messages and the fills.
\<close>

subsection \<open>Where a run starts\<close>

definition desk_start :: "(nat \<Rightarrow> TradeEngineConfig) \<Rightarrow> trade_engine \<Rightarrow> bool" where
  "desk_start cfg e \<longleftrightarrow> te_risk_manager e = RiskManager cfg \<and> te_order_manager e = OrderManager \<and>
     lf_inv (outgoing_gateway_request e) \<and> lf_contents (outgoing_gateway_request e) = [] \<and>
     34 \<le> lf_capacity (outgoing_gateway_request e) \<and>
     (\<forall>t<MATCHING_ENGINE_MAX_TICKERS. \<bar>positions (te_position_keeper e) t\<bar> \<le> position_limit cfg t)"

lemma constructor_starts:
  assumes "34 \<le> n" and "\<forall>t<MATCHING_ENGINE_MAX_TICKERS. \<bar>positions k t\<bar> \<le> position_limit cfg t"
  shows "desk_start cfg (TradeEngine client_id algo cfg k (LockFreeQueue d n) responses updates)"
  using assms by (simp add: desk_start_def TradeEngine_def lf_inv_LockFreeQueue)

lemma initial_orders: "orders_inv OrderManager [] Map.empty []"
proof -
  have "slot_order OrderManager c = default_om_order" for c
    by (simp add: slot_order_def OrderManager_def om_order_def)
  moreover have "idle default_om_order" by (simp add: idle_def default_om_order_def)
  moreover have "open_at c Map.empty = Map.empty" for c by (simp add: open_at_def)
  ultimately show ?thesis
    by (simp add: orders_inv_def slot_ids_def own_fields_def slot_ok_states stage_idle_def)
qed

lemma start_inv:
  assumes "desk_start cfg e"
  shows "desk_inv cfg (e, Map.empty, [])"
proof -
  have "at_risk OrderManager c = 0" for c
    by (simp add: at_risk_def slot_order_def OrderManager_def om_order_def idle_def default_om_order_def)
  then have "limit_inv cfg OrderManager (positions (te_position_keeper e))"
    using assms by (fastforce simp: limit_inv_def desk_start_def)
  then show ?thesis using assms initial_orders by (simp add: desk_inv_def client_inv_def desk_start_def)
qed

lemma reached:
  assumes "desk_start cfg e0" and "limits_sane cfg" and "desk_reachable (e0, Map.empty, []) (e, x, rs)"
  shows "lf_inv (outgoing_gateway_request e)"
    and "orders_inv (te_order_manager e) (lf_contents (outgoing_gateway_request e)) x rs"
    and "limit_inv cfg (te_order_manager e) (positions (te_position_keeper e))"
  using desk_reachable_inv [OF assms(3) start_inv [OF assms(1)] assms(2)] by (simp_all add: desk_inv_def client_inv_def)

subsection \<open>A run\<close>

definition ex_config :: "nat \<Rightarrow> TradeEngineConfig" where
  "ex_config = (\<lambda>_. \<lparr>clip = 5, threshold = Finite 0,
     te_risk_config = \<lparr>max_order_size = 10, max_position = 20, max_loss = Finite 0\<rparr>\<rparr>)"

definition ex_bbo :: BBO where
  "ex_bbo = \<lparr>best_bid_price = 100, best_ask_price = 101, best_bid_quantity = 5, best_ask_quantity = 5\<rparr>"

definition ex_taker :: trade_engine where
  "ex_taker = (TradeEngine 1 Algo_TAKER ex_config (PositionKeeper (\<lambda>_. 0) (\<lambda>_ _. Finite 0))
       (LockFreeQueue default_request 64) (LockFreeQueue default_response 64) (LockFreeQueue default_update 64))
     \<lparr>ticker_order_book := (\<lambda>_. (MarketOrderBook 0)\<lparr>bbo := ex_bbo\<rparr>)\<rparr>"

definition ex_trade :: MatchingEngineMarketUpdate where
  "ex_trade = \<lparr>mu_type = MU_TRADE, mu_order_id = 1, mu_ticker_id = 0, mu_side = Side_BUY, mu_price = 100,
     mu_quantity = 5, mu_priority = 1\<rparr>"

definition ex_order :: MatchingEngineClientRequest where
  "ex_order = \<lparr>rq_type = CRQ_NEW, rq_client_id = 1, rq_ticker_id = 0, rq_order_id = 1, rq_side = Side_BUY,
     rq_price = 101, rq_quantity = 5\<rparr>"

lemma d_of_small: "\<bar>i\<bar> \<le> 2 ^ 53 \<Longrightarrow> d_of_int i = Finite (of_int i)"
  by (simp add: d_of_int_def round_double_of_int)

lemma ex_taker_start: "desk_start ex_config ex_taker" "limits_sane ex_config"
  by (simp_all add: ex_taker_def desk_start_def TradeEngine_def lf_inv_LockFreeQueue positions_def PositionKeeper_def
      new_position_def position_limit_def ex_config_def limits_sane_def)

lemma ex_ratio: "fe_onTradeUpdate ex_trade ex_bbo f = f\<lparr>agg_trade_qty_ratio := Finite 1\<rparr>"
  using round_double_of_int [of 1]
  by (simp add: fe_onTradeUpdate_def two_sided_def ex_trade_def ex_bbo_def PRICE_INVALID_def d_of_small)

definition ex_live :: "OMOrderState \<Rightarrow> OMOrder" where
  "ex_live st = \<lparr>om_ticker_id = 0, om_order_id = 1, om_side = Side_BUY, om_price = 101, om_quantity = 5, om_order_state = st\<rparr>"

definition ex_manager :: "OMOrder \<Rightarrow> order_manager" where
  "ex_manager v = (set_om_order (0, 2) v OrderManager)\<lparr>next_order_id := 2\<rparr>"

definition ex_after :: "OMOrder \<Rightarrow> ClientRequestLFQueue \<Rightarrow> trade_engine" where
  "ex_after v q = ex_taker\<lparr>te_feature_engine := FeatureEngine\<lparr>agg_trade_qty_ratio := Finite 1\<rparr>,
     te_order_manager := ex_manager v, outgoing_gateway_request := q, last_event_time := 0\<rparr>"

definition ex_sent :: ClientRequestLFQueue where
  "ex_sent = sendClientRequest ex_order (LockFreeQueue default_request 64)"

lemma ex_sent_queue: "lf_contents ex_sent = [ex_order]" "lf_inv ex_sent"
  by (simp_all add: ex_sent_def sendClientRequest_def lf_contents_push lf_inv_push lf_inv_LockFreeQueue)

lemma ex_sends: "process_update 0 ex_trade ex_taker = Inr (ex_after (ex_live OM_PENDING_NEW) ex_sent)"
proof -
  have book: "onMarketUpdate ex_trade ((MarketOrderBook 0)\<lparr>bbo := ex_bbo\<rparr>) = Inr ((MarketOrderBook 0)\<lparr>bbo := ex_bbo\<rparr>, TradeUpdate ex_trade)"
    by (simp add: onMarketUpdate_def bid_updated_def ask_updated_def ex_trade_def MarketOrderBook_def)
  show ?thesis
    by (simp add: process_update_def Let_def ex_taker_def TradeEngine_def book book_callback_def te_onTradeUpdate_def
        ex_ratio algoOnTradeUpdate_def lt_onTradeUpdate_def fun_upd_idem)
      (simp add: ex_trade_def limit_defs two_sided_def ex_bbo_def PRICE_INVALID_def FEATURE_INVALID_def d_eq_def ex_config_def
        d_le_def te_moveOrders_def moveOrders_def order_address_def OrderManager_def arr_at_def moveOrder_def om_order_def
        default_om_order_def checkPreTradeRisk_def RiskManager_def info_checkPreTradeRisk_def Let_def to_int32_def
        int32_def PositionKeeper_def new_position_def newOrder_def ex_order_def set_om_order_def ex_after_def ex_manager_def
        ex_live_def ex_sent_def ex_taker_def TradeEngine_def)
qed

text \<open>The exchange acknowledges the order, and the client reads that.\<close>

definition ex_response :: "ClientResponseType \<Rightarrow> Quantity \<Rightarrow> Quantity \<Rightarrow> MatchingEngineClientResponse" where
  "ex_response ty exec leaves = \<lparr>rs_type = ty, rs_client_id = 1, rs_ticker_id = 0, rs_client_order_id = 1,
     rs_market_order_id = 1, rs_side = Side_BUY, rs_price = 101, rs_exec_quantity = exec, rs_leaves_quantity = leaves\<rparr>"

definition ex_open :: exchange_orders where
  "ex_open = [1 \<mapsto> \<lparr>oo_ticker = 0, oo_side = Side_BUY, oo_price = 101, oo_quantity = 5\<rparr>]"

definition ex_drained :: ClientRequestLFQueue where
  "ex_drained = lf_popped ex_sent"

lemma ex_drained_queue: "updateReadIndex ex_sent = Inr ex_drained" "lf_contents ex_drained = []"
  using updateReadIndex_tl [OF ex_sent_queue(2)] ex_sent_queue(1) by (simp_all add: ex_drained_def)

lemma ex_after_simps [simp]:
  "outgoing_gateway_request (ex_after v q) = q" "te_order_manager (ex_after v q) = ex_manager v"
  "(ex_after v q)\<lparr>outgoing_gateway_request := q'\<rparr> = ex_after v q'"
  by (simp_all add: ex_after_def)

lemma ex_acknowledged:
  "desk_reachable (ex_taker, Map.empty, [])
     (ex_after (ex_live OM_PENDING_NEW) ex_drained, ex_open, [ex_response CRS_ACCEPTED 0 5])"
proof -
  have "desk_step (ex_taker, Map.empty, []) (ex_after (ex_live OM_PENDING_NEW) ex_sent, Map.empty, [])"
    by (rule desk_step.market [OF ex_sends]) (simp add: ids_left_def ex_taker_def TradeEngine_def OrderManager_def)
  then have 1: "desk_reachable (ex_taker, Map.empty, []) (ex_after (ex_live OM_PENDING_NEW) ex_sent, Map.empty, [])"
    by (rule desk_reachable.step [OF desk_reachable.start])
  have "exchange_answers ex_order Map.empty ex_open (ex_response CRS_ACCEPTED 0 5)"
    using exchange_answers.accept [of ex_order "ex_response CRS_ACCEPTED 0 5" Map.empty]
    by (simp add: ex_order_def ex_response_def ex_open_def)
  then have "desk_step (ex_after (ex_live OM_PENDING_NEW) ex_sent, Map.empty, [])
      (ex_after (ex_live OM_PENDING_NEW) ex_drained, ex_open, [ex_response CRS_ACCEPTED 0 5])"
    using desk_step.request [of "ex_after (ex_live OM_PENDING_NEW) ex_sent" ex_order ex_drained Map.empty ex_open "ex_response CRS_ACCEPTED 0 5" "[]"]
      getNextToRead_hd [OF ex_sent_queue(2)] ex_sent_queue ex_drained_queue by simp
  then show ?thesis by (rule desk_reachable.step [OF 1])
qed

lemma ex_reads:
  "rs_type r \<noteq> CRS_FILLED \<Longrightarrow> response_slot r = (0, Side_BUY) \<Longrightarrow>
   process_response 0 r (ex_after v q) = Inr (ex_after (update_order r v) q)"
  by (simp add: process_response_def te_onOrderUpdate_def algoOnOrderUpdate_def om_onOrderUpdate_def order_address_def
      response_slot_def limit_defs arr_at_def ex_after_def ex_manager_def set_om_order_def om_order_def
      del: update_order.simps)

lemma ex_accepted: "desk_reachable (ex_taker, Map.empty, []) (ex_after (ex_live OM_LIVE) ex_drained, ex_open, [])"
proof -
  have "process_response 0 (ex_response CRS_ACCEPTED 0 5) (ex_after (ex_live OM_PENDING_NEW) ex_drained) =
      Inr (ex_after (ex_live OM_LIVE) ex_drained)"
    by (subst ex_reads) (simp_all add: ex_response_def response_slot_def ex_live_def)
  from desk_step.response [OF this] show ?thesis by (rule desk_reachable.step [OF ex_acknowledged])
qed

subsection \<open>The properties\<close>







lemma slot_request_cases:
  assumes "slot_ok v R A X" and "r \<in> set R"
  shows "rq_type r = CRQ_CANCEL \<or> announces v r \<and> om_order_state v = OM_PENDING_NEW"
  using assms(1) by (cases rule: slot_cases) (use assms(2) in \<open>auto simp: stage_defs withdraws_def is_cancel_other_def\<close>)



end
