(* ===== verification/StrategyProps.thy ===== *)
theory StrategyProps
  imports DeskProps MarketBookProps MarketProps
begin

section \<open>Properties of the strategies\<close>

text \<open>What features and quotes are worth, and what the strategies make of the exchange they are run against.\<close>

subsection \<open>The fair price\<close>


definition ex_quotes :: BBO where
  "ex_quotes = \<lparr>best_bid_price = 100, best_ask_price = 103, best_bid_quantity = 7, best_ask_quantity = 5\<rparr>"


subsection \<open>What a strategy sends\<close>

definition cancels_or_quotes :: "TickerID \<Rightarrow> Price \<Rightarrow> Side \<Rightarrow> Quantity \<Rightarrow> MatchingEngineClientRequest \<Rightarrow> bool" where
  "cancels_or_quotes ticker_id price sd quantity r \<longleftrightarrow> rq_type r = CRQ_CANCEL \<or>
     rq_type r = CRQ_NEW \<and> rq_ticker_id r = ticker_id \<and> rq_price r = price \<and> rq_side r = sd \<and> rq_quantity r = quantity"

lemma moveOrder_requests:
  assumes "moveOrder client_id risk k a ticker_id price sd quantity (m, q) = Inr (m', q')"
  shows "\<exists>R. q' = lf_push_all q R \<and> length R \<le> 1 \<and> (\<forall>r\<in>set R. cancels_or_quotes ticker_id price sd quantity r)"
proof -
  have one: ?thesis if "q' = lf_push q r" "cancels_or_quotes ticker_id price sd quantity r" for r
    by (rule exI [of _ "[r]"]) (use that in simp)
  from moveOrder_cases [OF assms] consider "q' = q" | r where "q' = lf_push q r" "cancels_or_quotes ticker_id price sd quantity r"
    by (auto simp: cancelOrder_def newOrder_def sendClientRequest_def Let_def cancels_or_quotes_def)
  then show ?thesis
  proof cases
    case 1
    then show ?thesis by (intro exI [of _ "[]"]) simp
  next
    case 2
    then show ?thesis by (rule one)
  qed
qed

lemma moveOrders_requests:
  assumes "moveOrders client_id risk k ticker_id bid ask quantity (m, q) = Inr (m', q')"
  shows "\<exists>R. q' = lf_push_all q R \<and> length R \<le> 2 \<and>
    (\<forall>r\<in>set R. cancels_or_quotes ticker_id bid Side_BUY quantity r \<or> cancels_or_quotes ticker_id ask Side_SELL quantity r)"
proof -
  from assms obtain m1 q1 a1 a2 where
    "moveOrder client_id risk k a1 ticker_id bid Side_BUY quantity (m, q) = Inr (m1, q1)"
    "moveOrder client_id risk k a2 ticker_id ask Side_SELL quantity (m1, q1) = Inr (m', q')"
    by (auto simp: moveOrders_def res_simps)
  from this [THEN moveOrder_requests] obtain R1 R2 where
    "q1 = lf_push_all q R1 \<and> length R1 \<le> 1 \<and> (\<forall>r\<in>set R1. cancels_or_quotes ticker_id bid Side_BUY quantity r)"
    "q' = lf_push_all q1 R2 \<and> length R2 \<le> 1 \<and> (\<forall>r\<in>set R2. cancels_or_quotes ticker_id ask Side_SELL quantity r)"
    by blast
  then show ?thesis by (intro exI [of _ "R1 @ R2"]) (auto simp: lf_push_all_append)
qed

text \<open>C24: the market maker does not cross the spread. Whatever it sends when a book changes is a cancel of an
  order of its own, or an order for its configured quantity: to buy at the best bid or one below it, or to sell
  at the best offer or one above it; at most two requests, and none while one of the sides is empty.\<close>

theorem market_maker_quotes:
  assumes "mm_onOrderBookUpdate cfg ticker_id x e = Inr e'"
  shows "\<exists>R. outgoing_gateway_request e' = lf_push_all (outgoing_gateway_request e) R \<and> length R \<le> 2 \<and>
    (\<forall>r\<in>set R. two_sided x \<and> (rq_type r = CRQ_CANCEL \<or>
       rq_type r = CRQ_NEW \<and> rq_ticker_id r = ticker_id \<and> rq_quantity r = clip (cfg (unat ticker_id)) \<and>
       (rq_side r = Side_BUY \<and> best_bid_price x - 1 \<le> rq_price r \<and> rq_price r \<le> best_bid_price x \<or>
        rq_side r = Side_SELL \<and> best_ask_price x \<le> rq_price r \<and> rq_price r \<le> best_ask_price x + 1)))"
proof (cases "two_sided x \<and> \<not> d_eq (market_price (te_feature_engine e)) FEATURE_INVALID")
  case False
  then have "e' = e" using assms unfolding mm_onOrderBookUpdate_def Let_def by (simp only: if_False sum.inject)
  then show ?thesis by (intro exI [of _ "[]"]) simp
next
  case True
  then obtain bid ask where q: "te_moveOrders ticker_id bid ask (clip (cfg (unat ticker_id))) e = Inr e'"
      "best_bid_price x - 1 \<le> bid" "bid \<le> best_bid_price x" "best_ask_price x \<le> ask" "ask \<le> best_ask_price x + 1"
    using assms by (auto simp: mm_onOrderBookUpdate_def Let_def res_simps arr_at_Inr_iff split: if_splits)
  then have "moveOrders (te_client_id e) (te_risk_manager e) (te_position_keeper e) ticker_id bid ask (clip (cfg (unat ticker_id)))
      (te_order_manager e, outgoing_gateway_request e) = Inr (te_order_manager e', outgoing_gateway_request e')"
    by (auto simp: te_moveOrders_def res_simps split: prod.splits)
  from moveOrders_requests [OF this] q(2-5) True show ?thesis
    unfolding cancels_or_quotes_def by (elim exE, intro exI conjI) (auto split: if_splits)
qed

definition ex_maker :: trade_engine where
  "ex_maker = ex_taker\<lparr>te_feature_engine := FeatureEngine\<lparr>market_price := Finite 100\<rparr>, te_algo := MarketMaker ex_config\<rparr>"

theorem market_maker_quotes_witness:
  "\<exists>e' R. mm_onOrderBookUpdate ex_config 0 ex_bbo ex_maker = Inr e' \<and>
    outgoing_gateway_request e' = lf_push_all (outgoing_gateway_request ex_maker) R \<and> length R \<le> 2 \<and>
    list_all (\<lambda>r. rq_type r = CRQ_CANCEL \<or> 99 \<le> rq_price r \<and> rq_price r \<le> 102) R"
proof -
  obtain e' where run: "mm_onOrderBookUpdate ex_config 0 ex_bbo ex_maker = Inr e'"
    using round_double_of_int [of 0] round_double_of_int [of 1]
    by (simp add: mm_onOrderBookUpdate_def Let_def ex_maker_def ex_taker_def ex_bbo_def two_sided_def PRICE_INVALID_def
        FEATURE_INVALID_def d_eq_def limit_defs arr_at_def ex_config_def d_of_small d_sub_def d_le_def int64_def
        te_moveOrders_def moveOrders_def order_address_def TradeEngine_def moveOrder_def om_order_def OrderManager_def
        default_om_order_def checkPreTradeRisk_def RiskManager_def info_checkPreTradeRisk_def to_int32_def int32_def
        PositionKeeper_def new_position_def newOrder_def set_om_order_def)
  from market_maker_quotes [OF run] obtain R where
    "outgoing_gateway_request e' = lf_push_all (outgoing_gateway_request ex_maker) R" "length R \<le> 2"
    "\<forall>r\<in>set R. rq_type r = CRQ_CANCEL \<or> 99 \<le> rq_price r \<and> rq_price r \<le> 102"
    by (fastforce simp: ex_bbo_def)
  then show ?thesis using run by (auto simp: list_all_iff)
qed

subsection \<open>The liquidity taker and the exchange\<close>

lemma updates_not_trades:
  "u \<in> set (request_updates r s) \<Longrightarrow> mu_type u \<noteq> MU_TRADE"
  by (cases s; cases "rq_type r")
    (auto simp: add_updates_def cancel_updates_def fill_update_def split: prod.splits option.splits if_splits)

lemma engine_updates_not_trades:
  "\<forall>u\<in>set (engine_updates rs S). mu_type u \<noteq> MU_TRADE"
  by (induction rs arbitrary: S) (auto dest: updates_not_trades)

lemma taker_without_trades:
  assumes "te_algo e = LiquidityTaker cfg" and "mu_type u \<noteq> MU_TRADE" and "process_update now u e = Inr e'"
  shows "te_algo e' = LiquidityTaker cfg \<and> outgoing_gateway_request e' = outgoing_gateway_request e"
  using assms
  by (auto simp: process_update_def Let_def res_simps onMarketUpdate_def book_callback_def te_onOrderBookUpdate_def
      algoOnOrderBookUpdate_def split: prod.splits if_splits)

lemma taker_stream:
  assumes "\<forall>u\<in>set us. mu_type u \<noteq> MU_TRADE" and "te_algo e = LiquidityTaker cfg"
    and "fold_res (process_update now) us e = Inr e'"
  shows "outgoing_gateway_request e' = outgoing_gateway_request e"
  using assms
proof (induction us arbitrary: e)
  case (Cons u us)
  from Cons.prems(3) obtain e1 where "process_update now u e = Inr e1" "fold_res (process_update now) us e1 = Inr e'"
    by (auto simp: res_simps)
  with Cons.IH [of e1] taker_without_trades [of e cfg u now e1] Cons.prems show ?case by simp
qed simp

text \<open>C40: against this exchange the liquidity taker never sends an order. Whatever requests the matching engine
  works off, none of the market updates it emits is a TRADE, the only kind the strategy acts on; a
  liquidity taker that processes all of them has queued no request.\<close>

theorem liquidity_taker_never_trades:
  assumes "lf_inv q" and "engine_admissible (lf_contents q) empty_market"
    and "lf_inv (outgoing_market_updates out)" and "lf_contents (outgoing_market_updates out) = []"
    and "length (engine_updates (lf_contents q) empty_market) < lf_capacity (outgoing_market_updates out)"
    and "te_algo e = LiquidityTaker cfg"
  shows "\<exists>m'. run (length (lf_contents q)) (start (MatchingEngine q out)) = Inr m' \<and>
    (\<forall>e'. fold_res (process_update now) (lf_contents (outgoing_market_updates (outgoing m'))) e = Inr e' \<longrightarrow>
       outgoing_gateway_request e' = outgoing_gateway_request e)"
  using engine_pass [OF assms(1-5)] taker_stream [OF engine_updates_not_trades assms(6)] by metis

text \<open>A taker that holds nothing reads the updates of a market with sellers only.\<close>

definition sellers_only :: "trade_engine \<Rightarrow> nat \<Rightarrow> market_book \<Rightarrow> bool" where
  "sellers_only e t v \<longleftrightarrow> te_algo e = LiquidityTaker ex_config \<and> mrep (trade_engine.ticker_order_book e t) v \<and> v Side_BUY = [] \<and>
     best_bid_price (bbo (trade_engine.ticker_order_book e t)) = PRICE_INVALID \<and> position (ticker_position (te_position_keeper e) t) = 0"

lemma reads_sellers:
  assumes "sellers_only e (unat (mu_ticker_id u)) v" and "fits u v" and "unat (mu_ticker_id u) < MATCHING_ENGINE_MAX_TICKERS"
    and "mu_side u = Side_SELL" and "mu_type u \<noteq> MU_TRADE" and "spec_update u v Side_BUY = []"
  shows "\<exists>e'. process_update now u e = Inr e' \<and> sellers_only e' (unat (mu_ticker_id u)) (spec_update u v)"
proof -
  let ?t = "unat (mu_ticker_id u)"
  from market_update_core [of "trade_engine.ticker_order_book e ?t" v u] assms(1,2) obtain b where
    b: "onMarketUpdate u (trade_engine.ticker_order_book e ?t) = Inr (b, event_of u)" "mrep b (spec_update u v)"
      "\<forall>sd. trading_side sd \<longrightarrow> bbo_side sd (bbo b) = bbo_after u v sd (bbo (trade_engine.ticker_order_book e ?t))"
    unfolding sellers_only_def by blast
  from b(3) [rule_format, of Side_BUY] assms(4)
  have "bbo_side Side_BUY (bbo b) = bbo_side Side_BUY (bbo (trade_engine.ticker_order_book e ?t))"
    by (simp add: bbo_after_def touches_def)
  with assms(1) have bid: "best_bid_price (bbo b) = PRICE_INVALID" by (simp add: sellers_only_def)
  then show ?thesis
    using assms b(1,2)
    by (simp add: process_update_def Let_def event_of_def book_callback_def te_onOrderBookUpdate_def keeper_updateBBO_def
        update_position_def arr_at_def position_updateBBO_def fe_onOrderBookUpdate_def two_sided_def algoOnOrderBookUpdate_def
        sellers_only_def)
qed

definition ex_seller :: "MarketUpdateType \<Rightarrow> Quantity \<Rightarrow> MatchingEngineMarketUpdate" where
  "ex_seller ty quantity = \<lparr>mu_type = ty, mu_order_id = 1, mu_ticker_id = 3, mu_side = Side_SELL, mu_price = 100,
     mu_quantity = quantity, mu_priority = 1\<rparr>"

lemma ex_seller_updates: "engine_updates ex_requests empty_market = [ex_seller MU_ADD 10, ex_seller MU_CANCEL 0]"
  by (simp add: ex_requests_def ex_seller_def engine_step_def add_updates_def cancel_updates_def spec_add_def
      spec_find_def has_key_def new_order_def next_priority_def)

definition ex_fresh_taker :: trade_engine where
  "ex_fresh_taker = TradeEngine 1 Algo_TAKER ex_config (PositionKeeper (\<lambda>_. 0) (\<lambda>_ _. Finite 0))
     (LockFreeQueue default_request 64) (LockFreeQueue default_response 64) (LockFreeQueue default_update 64)"

lemma ex_taker_sellers: "sellers_only ex_fresh_taker 3 (\<lambda>_. [])"
  using initial_market_book [of "word_of_nat 3"]
  by (simp add: sellers_only_def ex_fresh_taker_def TradeEngine_def PositionKeeper_def new_position_def)
    (simp add: MarketOrderBook_def default_BBO_def)

lemma ex_taker_reads:
  "\<exists>e'. fold_res (process_update 0) [ex_seller MU_ADD 10, ex_seller MU_CANCEL 0]
     ex_fresh_taker = Inr e'"
proof -
  let ?u = "ex_seller MU_ADD 10" and ?w = "ex_seller MU_CANCEL 0" and ?v = "\<lambda>_. [] :: MarketOrder book_side"
  have "fits ?u ?v" "spec_update ?u ?v Side_BUY = []" "fits ?w (spec_update ?u ?v)" "spec_update ?w (spec_update ?u ?v) Side_BUY = []"
    by (simp_all add: fits_def ex_seller_def known_id_def market_orders_def slot_free_def has_room_def limit_defs spec_update.simps
        market_order_def)
  moreover have "unat (mu_ticker_id (ex_seller ty n)) = 3" "mu_side (ex_seller ty n) = Side_SELL" "mu_type (ex_seller ty n) = ty"
    for ty n by (simp_all add: ex_seller_def)
  ultimately show ?thesis
    using reads_sellers [of _ ?u ?v 0] reads_sellers [of _ ?w "spec_update ?u ?v" 0] ex_taker_sellers
    by (fastforce simp: limit_defs)
qed

theorem liquidity_taker_never_trades_witness:
  "\<exists>m' e'. run 2 (start (MatchingEngine (lf_push_all (LockFreeQueue default_request 8) ex_requests) ex_out)) = Inr m' \<and>
    fold_res (process_update 0) (lf_contents (outgoing_market_updates (outgoing m')))
      ex_fresh_taker = Inr e' \<and>
    lf_contents (outgoing_gateway_request e') = []"
proof -
  let ?q = "lf_push_all (LockFreeQueue default_request 8) ex_requests"
  let ?e = ex_fresh_taker
  have "te_algo ?e = LiquidityTaker ex_config" using ex_taker_sellers by (simp add: sellers_only_def)
  then obtain m' where m': "run 2 (start (MatchingEngine ?q ex_out)) = Inr m'"
      "\<forall>e'. fold_res (process_update 0) (lf_contents (outgoing_market_updates (outgoing m'))) ?e = Inr e' \<longrightarrow>
         outgoing_gateway_request e' = outgoing_gateway_request ?e"
    using liquidity_taker_never_trades [of ?q ex_out ?e ex_config 0] ex_queue ex_out_empty by auto
  moreover have "lf_contents (outgoing_market_updates (outgoing m')) = [ex_seller MU_ADD 10, ex_seller MU_CANCEL 0]"
    using engine_pass [of ?q ex_out] m'(1) ex_queue ex_out_empty ex_seller_updates by simp
  moreover have "lf_contents (outgoing_gateway_request ?e) = []" by (simp add: ex_fresh_taker_def TradeEngine_def)
  ultimately show ?thesis using ex_taker_reads by metis
qed

end
