(* ===== verification/BookPrint.thy ===== *)
theory BookPrint
  imports OrderBook MarketOrderBook
begin

section \<open>Printing the order books\<close>

text \<open>
  The printers of \<^verbatim>\<open>exchange/matching/Order.cc\<close>, \<^verbatim>\<open>Order.hpp\<close>, \<^verbatim>\<open>trading/strategy/MarketOrder.cc\<close>, and
  \<^verbatim>\<open>toString\<close> of both books, with its optional check that the levels are sorted. The destructors of the books
  run it with the check. The two \<^verbatim>\<open>toString\<close> differ in the class of an order only, so they share a
  definition that is given what is particular to the class: how an order's identifier is read, and how a
  level prints itself.
\<close>

definition pad_left :: "nat \<Rightarrow> string \<Rightarrow> string" where
  "pad_left n s = replicate (n - length s) (CHR '' '') @ s"

definition pad_right :: "nat \<Rightarrow> string \<Rightarrow> string" where
  "pad_right n s = s @ replicate (n - length s) (CHR '' '')"

definition endl :: string where
  "endl = [CHR 0x0A]"

subsection \<open>Orders and levels\<close>

text \<open>\<^verbatim>\<open>p ? p->order_id : ORDER_ID_INVALID\<close> and \<^verbatim>\<open>p ? p->price : PRICE_INVALID\<close>.\<close>

definition oid_or_invalid :: "('o \<Rightarrow> OrderID) \<Rightarrow> ptr \<Rightarrow> ('o, 'z) price_ladder_scheme \<Rightarrow> OrderID res" where
  "oid_or_invalid oid p b = (if p = None then Inr ORDER_ID_INVALID else bindE (ord_at b p) (\<lambda>v. Inr (oid v)))"

definition price_or_invalid :: "ptr \<Rightarrow> ('o, 'z) price_ladder_scheme \<Rightarrow> Price res" where
  "price_or_invalid p b = (if p = None then Inr PRICE_INVALID else bindE (lvl_at b p) (\<lambda>l. Inr (l_price l)))"

definition MatchingEngineOrder_toString :: "order_book \<Rightarrow> MatchingEngineOrder \<Rightarrow> string res" where
  "MatchingEngineOrder_toString b v =
     bindE (oid_or_invalid o_market_order_id (prev_order v) b) (\<lambda>p.
     bindE (oid_or_invalid o_market_order_id (next_order v) b) (\<lambda>n.
     Inr (''MatchingEngineOrder'' @ ''['' @ ''ticker:'' @ tickerIdToString (o_ticker_id v) @ '' '' @
       ''cid:'' @ clientIdToString (o_client_id v) @ '' '' @ ''oid:'' @ orderIdToString (o_client_order_id v) @ '' '' @
       ''moid:'' @ orderIdToString (o_market_order_id v) @ '' '' @ ''side:'' @ sideToString (o_side v) @ '' '' @
       ''price:'' @ priceToString (o_price v) @ '' '' @ ''qty:'' @ quantityToString (o_quantity v) @ '' '' @
       ''prio:'' @ priorityToString (o_priority v) @ '' '' @ ''prev:'' @ orderIdToString p @ '' '' @
       ''next:'' @ orderIdToString n @ '']'')))"

definition MarketOrder_toString :: "market_order_book \<Rightarrow> MarketOrder \<Rightarrow> string res" where
  "MarketOrder_toString b v =
     bindE (oid_or_invalid mo_order_id (prev_order v) b) (\<lambda>p.
     bindE (oid_or_invalid mo_order_id (next_order v) b) (\<lambda>n.
     Inr (''MarketOrder'' @ ''['' @ ''oid:'' @ orderIdToString (mo_order_id v) @ '' '' @
       ''side:'' @ sideToString (o_side v) @ '' '' @ ''price:'' @ priceToString (o_price v) @ '' '' @
       ''qty:'' @ quantityToString (o_quantity v) @ '' '' @ ''prio:'' @ priorityToString (o_priority v) @ '' '' @
       ''prev:'' @ orderIdToString p @ '' '' @ ''next:'' @ orderIdToString n @ '']'')))"

definition level_text :: "string \<Rightarrow> string \<Rightarrow> (('o, 'z) price_ladder_scheme \<Rightarrow> 'o \<Rightarrow> string res) \<Rightarrow>
    ('o, 'z) price_ladder_scheme \<Rightarrow> orders_at_price \<Rightarrow> string res" where
  "level_text class first_label order_text b l =
     bindE (if first_order l = None then Inr ''null'' else bindE (ord_at b (first_order l)) (order_text b)) (\<lambda>first.
     bindE (price_or_invalid (prev_entry l) b) (\<lambda>p.
     bindE (price_or_invalid (next_entry l) b) (\<lambda>n.
     Inr (class @ ''['' @ ''side:'' @ sideToString (l_side l) @ '' '' @ ''price:'' @ priceToString (l_price l) @ '' '' @
       first_label @ first @ '' '' @ ''prev:'' @ priceToString p @ '' '' @ ''next:'' @ priceToString n @ '']''))))"

definition MatchingEngineOrderAtPrice_toString :: "order_book \<Rightarrow> orders_at_price \<Rightarrow> string res" where
  "MatchingEngineOrderAtPrice_toString =
     level_text ''MatchingEngineOrdersAtPrice'' ''first_me_order:'' MatchingEngineOrder_toString"

definition MarketOrdersAtPrice_toString :: "market_order_book \<Rightarrow> orders_at_price \<Rightarrow> string res" where
  "MarketOrdersAtPrice_toString = level_text ''MarketOrdersAtPrice'' ''first_mkt_order:'' MarketOrder_toString"

subsection \<open>A level in the book\<close>

text \<open>The first loop of \<open>printer\<close>: the quantity, which may wrap, and the number of the orders of a level.\<close>

fun level_totals :: "nat \<Rightarrow> ptr \<Rightarrow> ptr \<Rightarrow> Quantity \<Rightarrow> nat \<Rightarrow> ('x order_node_scheme, 'z) price_ladder_scheme \<Rightarrow>
    (Quantity \<times> nat) res" where
  "level_totals 0 first o_itr quantity num_orders b = Inl Diverges"
| "level_totals (Suc fuel) first o_itr quantity num_orders b =
     bindE (ord_at b o_itr) (\<lambda>v.
     if next_order v = first then Inr (quantity + o_quantity v, num_orders + 1)
     else level_totals fuel first (next_order v) (quantity + o_quantity v) (num_orders + 1) b)"

definition order_text :: "('x order_node_scheme \<Rightarrow> OrderID) \<Rightarrow> 'x order_node_scheme \<Rightarrow>
    ('x order_node_scheme, 'z) price_ladder_scheme \<Rightarrow> string res" where
  "order_text oid v b =
     bindE (oid_or_invalid oid (prev_order v) b) (\<lambda>p.
     bindE (oid_or_invalid oid (next_order v) b) (\<lambda>n.
     Inr (''[oid:'' @ orderIdToString (oid v) @ '' q:'' @ quantityToString (o_quantity v) @
       '' p:'' @ orderIdToString p @ '' n:'' @ orderIdToString n @ ''] '')))"

text \<open>The second loop.\<close>

fun print_queue :: "nat \<Rightarrow> ('x order_node_scheme \<Rightarrow> OrderID) \<Rightarrow> bool \<Rightarrow> ptr \<Rightarrow> ptr \<Rightarrow>
    ('x order_node_scheme, 'z) price_ladder_scheme \<Rightarrow> string res" where
  "print_queue 0 oid detailed first o_itr b = Inl Diverges"
| "print_queue (Suc fuel) oid detailed first o_itr b =
     bindE (ord_at b o_itr) (\<lambda>v.
     bindE (if detailed then order_text oid v b else Inr []) (\<lambda>t.
     if next_order v = first then Inr t
     else bindE (print_queue fuel oid detailed first (next_order v) b) (\<lambda>t'. Inr (t @ t'))))"

definition level_header :: "Price \<Rightarrow> Price \<Rightarrow> Price \<Rightarrow> Quantity \<Rightarrow> nat \<Rightarrow> string" where
  "level_header price prev_price next_price quantity num_orders =
     '' <px:'' @ pad_left 3 (priceToString price) @ '' p:'' @ pad_left 3 (priceToString prev_price) @
     '' n:'' @ pad_left 3 (priceToString next_price) @ ''> '' @ pad_right 3 (priceToString price) @ '' @ '' @
     pad_right 5 (quantityToString quantity) @ ''('' @ pad_right 4 (to_string_nat num_orders) @ '')''"

text \<open>\<open>printer\<close>: the text of a level, and the new value of \<^verbatim>\<open>last_price\<close>.\<close>

definition print_level :: "('x order_node_scheme \<Rightarrow> OrderID) \<Rightarrow>
    (('x order_node_scheme, 'z) price_ladder_scheme \<Rightarrow> orders_at_price \<Rightarrow> string res) \<Rightarrow> bool \<Rightarrow> bool \<Rightarrow> Side \<Rightarrow> ptr \<Rightarrow>
    Price \<Rightarrow> ('x order_node_scheme, 'z) price_ladder_scheme \<Rightarrow> (string \<times> Price) res" where
  "print_level oid lvl_text detailed sanity_check side itr last_price b =
     bindE (lvl_at b itr) (\<lambda>l.
     bindE (level_totals (pool_size (order_pool b)) (first_order l) (first_order l) 0 0 b) (\<lambda>(quantity, num_orders).
     bindE (lvl_at b (prev_entry l)) (\<lambda>p.
     bindE (lvl_at b (next_entry l)) (\<lambda>n.
     bindE (print_queue (pool_size (order_pool b)) oid detailed (first_order l) (first_order l) b) (\<lambda>t.
     let text = level_header (l_price l) (l_price p) (l_price n) quantity num_orders @ t @ endl in
     if sanity_check then
       if side = Side_SELL \<and> last_price \<ge> l_price l \<or> side = Side_BUY \<and> last_price \<le> l_price l
       then bindE (lvl_text b l) (\<lambda>m. FATAL (''Bids/Asks not sorted by descending/ascending prices last : '' @
              priceToString last_price @ ''itr : '' @ m))
       else Inr (text, l_price l)
     else Inr (text, last_price))))))"

subsection \<open>The book\<close>

text \<open>The loop over the levels of a side.\<close>

fun print_side :: "nat \<Rightarrow> string \<Rightarrow> ('x order_node_scheme \<Rightarrow> OrderID) \<Rightarrow>
    (('x order_node_scheme, 'z) price_ladder_scheme \<Rightarrow> orders_at_price \<Rightarrow> string res) \<Rightarrow> bool \<Rightarrow> bool \<Rightarrow> Side \<Rightarrow> ptr \<Rightarrow> ptr \<Rightarrow>
    nat \<Rightarrow> Price \<Rightarrow> ('x order_node_scheme, 'z) price_ladder_scheme \<Rightarrow> string res" where
  "print_side fuel label oid lvl_text detailed check side best itr count last_price b =
     (if itr = None then Inr []
      else case fuel of
        0 \<Rightarrow> Inl Diverges
      | Suc fuel' \<Rightarrow>
          bindE (lvl_at b itr) (\<lambda>l.
          bindE (print_level oid lvl_text detailed check side itr last_price b) (\<lambda>(t, last_price').
          bindE (print_side fuel' label oid lvl_text detailed check side best
                   (if next_entry l = best then None else next_entry l) (count + 1) last_price' b) (\<lambda>t'.
          Inr (label @ to_string_nat count @ '' => '' @ t @ t')))))"

declare print_side.simps [simp del]

text \<open>\<^verbatim>\<open>std::numeric_limits<Price>::min()\<close>, where both sides start.\<close>

definition PRICE_MIN :: Price where
  "PRICE_MIN = - (2 ^ 63)"

definition book_text :: "('x order_node_scheme \<Rightarrow> OrderID) \<Rightarrow>
    (('x order_node_scheme, 'z) price_ladder_scheme \<Rightarrow> orders_at_price \<Rightarrow> string res) \<Rightarrow> TickerID \<Rightarrow> bool \<Rightarrow> bool \<Rightarrow>
    ('x order_node_scheme, 'z) price_ladder_scheme \<Rightarrow> string res" where
  "book_text oid lvl_text ticker_id detailed validity_check b =
     (let fuel = pool_size (orders_at_price_pool b) in
      bindE (print_side fuel ''ASKS L : '' oid lvl_text detailed validity_check Side_SELL (asks_by_price b) (asks_by_price b) 0 PRICE_MIN b) (\<lambda>asks.
      bindE (print_side fuel ''BIDS L : '' oid lvl_text detailed validity_check Side_BUY (bids_by_price b) (bids_by_price b) 0 PRICE_MIN b) (\<lambda>bids.
      Inr (''Ticker : '' @ tickerIdToString ticker_id @ endl @ asks @
        endl @ ''                          X'' @ endl @ endl @ bids))))"

definition MatchingEngineOrderBook_toString :: "bool \<Rightarrow> bool \<Rightarrow> order_book \<Rightarrow> string res" where
  "MatchingEngineOrderBook_toString detailed validity_check b =
     book_text o_market_order_id MatchingEngineOrderAtPrice_toString (ob_ticker_id b) detailed validity_check b"

definition MarketOrderBook_toString :: "bool \<Rightarrow> bool \<Rightarrow> market_order_book \<Rightarrow> string res" where
  "MarketOrderBook_toString detailed validity_check b =
     book_text mo_order_id MarketOrdersAtPrice_toString (mb_ticker_id b) detailed validity_check b"

text \<open>The destructors: what they log, then the tables are emptied.\<close>

definition delete_order_book :: "order_book \<Rightarrow> (string \<times> order_book) res" where
  "delete_order_book b =
     bindE (MatchingEngineOrderBook_toString False True b) (\<lambda>t.
     Inr (t, b\<lparr>bids_by_price := None, asks_by_price := None, cid_oid_to_order := (\<lambda>_ _. None)\<rparr>))"

definition delete_market_order_book :: "market_order_book \<Rightarrow> (string \<times> market_order_book) res" where
  "delete_market_order_book b =
     bindE (MarketOrderBook_toString False True b) (\<lambda>t.
     Inr (t, b\<lparr>bids_by_price := None, asks_by_price := None, oid_to_order := (\<lambda>_. None)\<rparr>))"

end
