(* ===== verification/BookPrintProps.thy ===== *)
theory BookPrintProps
  imports BookPrint BookProps MarketBookProps
begin

section \<open>When the books can be printed\<close>

text \<open>
  Printing a book that holds what it should always ends; with the check of the prices it ends the process
  as soon as there is a bid.
\<close>

subsection \<open>A level\<close>

lemma level_totals_chain:
  assumes "chain (onx b) pv (x # xs @ [h])" and "h \<notin> set xs" and "length (x # xs) \<le> fuel"
  shows "level_totals fuel (Some h) (Some x) q n b =
    Inr (q + sum_list (map (\<lambda>a. o_quantity (Ord b a)) (x # xs)), n + length (x # xs))"
  using assms
proof (induction xs arbitrary: x fuel q n)
  case Nil
  then obtain k where "fuel = Suc k" by (cases fuel) auto
  then show ?case using Nil by simp
next
  case (Cons y ys)
  then obtain k where k: "fuel = Suc k" by (cases fuel) auto
  have "level_totals k (Some h) (Some y) (q + o_quantity (Ord b x)) (n + 1) b =
      Inr (q + o_quantity (Ord b x) + sum_list (map (\<lambda>a. o_quantity (Ord b a)) (y # ys)), n + 1 + length (y # ys))"
    by (rule Cons.IH) (use Cons.prems k in auto)
  then show ?case using Cons.prems k by (simp add: add.assoc)
qed

lemma oid_or_invalid_ok: "\<exists>i. oid_or_invalid oid p b = Inr i"
  by (cases p) (simp_all add: oid_or_invalid_def)

lemma price_or_invalid_ok: "\<exists>p'. price_or_invalid p b = Inr p'"
  by (cases p) (simp_all add: price_or_invalid_def)

lemma order_text_ok: "\<exists>t. order_text oid v b = Inr t"
  using oid_or_invalid_ok [of oid "prev_order v" b] oid_or_invalid_ok [of oid "next_order v" b]
  by (auto simp: order_text_def)

lemma order_toString_ok: "\<exists>t. MatchingEngineOrder_toString b v = Inr t" "\<exists>t. MarketOrder_toString mb w = Inr t"
  using oid_or_invalid_ok [of o_market_order_id "prev_order v" b] oid_or_invalid_ok [of o_market_order_id "next_order v" b]
    oid_or_invalid_ok [of mo_order_id "prev_order w" mb] oid_or_invalid_ok [of mo_order_id "next_order w" mb]
  by (auto simp: MatchingEngineOrder_toString_def MarketOrder_toString_def)

lemma level_text_ok:
  assumes "\<And>v. \<exists>t. show_order b v = Inr t"
  shows "\<exists>t. level_text class label show_order b l = Inr t"
proof (cases "first_order l")
  case None
  then show ?thesis
    using price_or_invalid_ok [of "prev_entry l" b] price_or_invalid_ok [of "next_entry l" b] by (auto simp: level_text_def)
next
  case (Some a)
  then show ?thesis
    using price_or_invalid_ok [of "prev_entry l" b] price_or_invalid_ok [of "next_entry l" b] assms [of "Ord b a"]
    by (auto simp: level_text_def)
qed

lemma level_toString_ok:
  "\<exists>t. MatchingEngineOrderAtPrice_toString b l = Inr t" "\<exists>t. MarketOrdersAtPrice_toString mb l = Inr t"
  by (simp_all add: MatchingEngineOrderAtPrice_toString_def MarketOrdersAtPrice_toString_def level_text_ok order_toString_ok)

lemma print_queue_chain:
  assumes "chain (onx b) pv (x # xs @ [h])" and "h \<notin> set xs" and "length (x # xs) \<le> fuel"
  shows "\<exists>t. print_queue fuel oid detailed (Some h) (Some x) b = Inr t"
  using assms
proof (induction xs arbitrary: x fuel)
  case Nil
  then obtain k where "fuel = Suc k" by (cases fuel) auto
  then show ?case using Nil order_text_ok [of oid "Ord b x" b] by (cases detailed) auto
next
  case (Cons y ys)
  then obtain k where k: "fuel = Suc k" by (cases fuel) auto
  obtain t where "print_queue k oid detailed (Some h) (Some y) b = Inr t"
    using Cons.IH [of y k] Cons.prems k by auto
  then show ?case using Cons.prems k order_text_ok [of oid "Ord b x" b] by (cases detailed) auto
qed

definition out_of_order :: "Side \<Rightarrow> Price \<Rightarrow> Price \<Rightarrow> bool" where
  "out_of_order side last_price price \<longleftrightarrow> side = Side_SELL \<and> last_price \<ge> price \<or> side = Side_BUY \<and> last_price \<le> price"

lemma print_level_ok:
  assumes side: "side_ok b sd ls" and l: "(l, qs) \<in> set ls" and sub: "set qs \<subseteq> live (order_pool b)"
    and shown: "\<And>e. \<exists>t. lvl_text b e = Inr t"
  shows "\<exists>t m. \<forall>last_price. print_level oid lvl_text detailed check side' (Some l) last_price b =
    (if check \<and> out_of_order side' last_price (l_price (L b l)) then
       FATAL (''Bids/Asks not sorted by descending/ascending prices last : '' @ priceToString last_price @ ''itr : '' @ m)
     else Inr (t, if check then l_price (L b l) else last_price))"
proof -
  have ring: "ring (onx b) (opv b) qs" and first: "first_order (L b l) = Some (hd qs)"
    using side_okD [OF side l] by simp_all
  then obtain a as where qs: "qs = a # as" by (cases qs) (auto simp: ring_def)
  have len: "length (a # as) \<le> pool_size (order_pool b)"
    using card_mono [OF finite_lessThan [of "pool_size (order_pool b)"], of "set qs"] sub ring qs
    by (simp add: distinct_card ring_def live_def subset_iff)
  have chain: "chain (onx b) (opv b) (a # as @ [a])" "a \<notin> set as" using ring qs by (simp_all add: ring_def)
  obtain us vs where "ls = us @ (l, qs) # vs" using split_list [OF l] by blast
  then have "ring (lnx b) (lpv b) (map fst us @ l # map fst vs)" using side by (auto simp: side_ok_def)
  from ring_nx [OF this] ring_pv [OF this] obtain n p where "next_entry (L b l) = Some n" "prev_entry (L b l) = Some p" by blast
  moreover obtain t where "print_queue (pool_size (order_pool b)) oid detailed (Some a) (Some a) b = Inr t"
    using print_queue_chain [OF chain len] by blast
  moreover obtain m where "lvl_text b (L b l) = Inr m" using shown by blast
  ultimately show ?thesis
    using first qs level_totals_chain [OF chain len, of 0 0]
    by (simp add: print_level_def out_of_order_def Let_def FATAL_def) blast
qed

subsection \<open>A side\<close>

lemma next_level:
  assumes side: "side_ok b sd (us @ e # vs)"
  shows "(if next_entry (L b (fst e)) = best_of sd b then None else next_entry (L b (fst e))) =
    (case vs of [] \<Rightarrow> None | v # _ \<Rightarrow> Some (fst v))"
proof -
  have ring: "ring (lnx b) (lpv b) (map fst us @ fst e # map fst vs)" and best: "best_of sd b = Some (fst (hd (us @ [e])))"
    using side by (auto simp: side_ok_def hd_append)
  have "distinct (map fst us @ fst e # map fst vs)" using ring by (simp add: ring_def)
  with ring_nx [OF ring] best show ?thesis by (cases vs; cases us) auto
qed

lemma print_side_ok:
  assumes "side_ok b sd ls" and "ls = us @ vs" and "\<forall>e\<in>set ls. set (snd e) \<subseteq> live (order_pool b)"
    and shown: "\<And>e. \<exists>t. lvl_text b e = Inr t" and "length vs \<le> fuel"
    and "\<not> check \<or> sd = Side_SELL \<and> sorted_wrt (<) (last_price # map (\<lambda>e. l_price (L b (fst e))) vs)"
  shows "\<exists>t. print_side fuel label oid lvl_text detailed check sd (best_of sd b)
    (case vs of [] \<Rightarrow> None | e # _ \<Rightarrow> Some (fst e)) k0 last_price b = Inr t"
  using assms(2,5,6)
proof (induction vs arbitrary: us fuel k0 last_price)
  case Nil
  then show ?case by (simp add: print_side.simps)
next
  case (Cons e vs)
  then obtain k where k: "fuel = Suc k" by (cases fuel) auto
  obtain l qs where e: "e = (l, qs)" by (cases e)
  obtain t m where lvl: "\<forall>last_price. print_level oid lvl_text detailed check sd (Some l) last_price b =
      (if check \<and> out_of_order sd last_price (l_price (L b l)) then
         FATAL (''Bids/Asks not sorted by descending/ascending prices last : '' @ priceToString last_price @ ''itr : '' @ m)
       else Inr (t, if check then l_price (L b l) else last_price))"
    using print_level_ok [OF assms(1), of l qs lvl_text oid detailed check sd] assms(3) shown Cons.prems(1) e by fastforce
  have "\<not> (check \<and> out_of_order sd last_price (l_price (L b l)))"
    using Cons.prems(3) e by (auto simp: out_of_order_def)
  with lvl have this_level: "print_level oid lvl_text detailed check sd (Some l) last_price b =
      Inr (t, if check then l_price (L b l) else last_price)" by simp
  obtain t' where rest: "print_side k label oid lvl_text detailed check sd (best_of sd b)
      (case vs of [] \<Rightarrow> None | v # _ \<Rightarrow> Some (fst v)) (Suc k0) (if check then l_price (L b l) else last_price) b = Inr t'"
    using Cons.IH [of "us @ [e]" k "if check then l_price (L b l) else last_price" "Suc k0"] Cons.prems k e by auto
  have "side_ok b sd (us @ e # vs)" using assms(1) Cons.prems(1) by simp
  from next_level [OF this] have next_itr: "(if next_entry (L b l) = best_of sd b then None else next_entry (L b l)) =
      (case vs of [] \<Rightarrow> None | v # _ \<Rightarrow> Some (fst v))" by (simp only: e fst_conv)
  show ?case
    by (subst print_side.simps) (simp add: k e next_itr rest this_level split del: if_split)
qed

text \<open>With the check, the first level of the bids already fails, whatever its price.\<close>

lemma print_bids_fatal:
  assumes "side_ok b Side_BUY ls" and "ls = e # vs" and "set (snd e) \<subseteq> live (order_pool b)"
    and shown: "\<And>e. \<exists>t. lvl_text b e = Inr t" and "PRICE_MIN \<le> l_price (L b (fst e))" and "0 < fuel"
  shows "\<exists>m. print_side fuel label oid lvl_text detailed True Side_BUY (best_of Side_BUY b) (Some (fst e)) k0 PRICE_MIN b = FATAL m"
proof -
  obtain k where k: "fuel = Suc k" using assms(6) by (cases fuel) auto
  obtain t m where "\<forall>last_price. print_level oid lvl_text detailed True Side_BUY (Some (fst e)) last_price b =
      (if True \<and> out_of_order Side_BUY last_price (l_price (L b (fst e))) then
         FATAL (''Bids/Asks not sorted by descending/ascending prices last : '' @ priceToString last_price @ ''itr : '' @ m)
       else Inr (t, if True then l_price (L b (fst e)) else last_price))"
    using print_level_ok [OF assms(1), of "fst e" "snd e" lvl_text oid detailed True Side_BUY] assms(2,3) shown by fastforce
  then show ?thesis
    using assms(5) by (subst print_side.simps) (simp add: k out_of_order_def FATAL_def)
qed

subsection \<open>The book\<close>

lemma side_length:
  assumes "side_ok b sd ls" and "fst ` set ls \<subseteq> live p"
  shows "length ls \<le> pool_size p"
proof -
  have "length ls = card (fst ` set ls)"
    using side_ok_distinct [OF assms(1)] distinct_card [of "map fst ls"] by simp
  also have "\<dots> \<le> card {..<pool_size p}" using assms(2) by (intro card_mono) (auto simp: live_def)
  finally show ?thesis by simp
qed

lemma book_text_prints:
  assumes inv: "ladder_inv b f {}" and shown: "\<And>e. \<exists>t. lvl_text b e = Inr t"
    and asks: "\<forall>e\<in>set (f Side_SELL). PRICE_MIN < l_price (L b (fst e))"
    and bids: "\<forall>e\<in>set (f Side_BUY). PRICE_MIN \<le> l_price (L b (fst e))"
  shows "(\<exists>t. book_text oid lvl_text ticker_id detailed check b = Inr t) \<longleftrightarrow> \<not> check \<or> f Side_BUY = []"
    and "check \<Longrightarrow> f Side_BUY \<noteq> [] \<Longrightarrow> \<exists>m. book_text oid lvl_text ticker_id detailed check b = FATAL m"
proof -
  let ?fuel = "pool_size (orders_at_price_pool b)"
  have sides: "side_ok b Side_BUY (f Side_BUY)" "side_ok b Side_SELL (f Side_SELL)"
    and live: "levels_of f = live (orders_at_price_pool b)" "orders_of f = live (order_pool b)"
    using inv by (auto simp: ladder_inv_def)
  have len: "length (f Side_BUY) \<le> ?fuel" "length (f Side_SELL) \<le> ?fuel"
    using live(1) unfolding levels_of_def by (intro side_length [OF sides(1)] side_length [OF sides(2)]; blast)+
  have sub: "\<forall>e\<in>set (f Side_BUY). set (snd e) \<subseteq> live (order_pool b)" "\<forall>e\<in>set (f Side_SELL). set (snd e) \<subseteq> live (order_pool b)"
    using live(2) by (auto simp: orders_of_def orders_in_def)
  have best: "best_of sd b = (case f sd of [] \<Rightarrow> None | e # _ \<Rightarrow> Some (fst e))" if "side_ok b sd (f sd)" for sd
    using that by (cases "f sd") (auto simp: side_ok_def)
  have "better Side_SELL = (<)" by (simp add: fun_eq_iff better_def)
  then have "sorted_wrt (<) (PRICE_MIN # level_prices b (f Side_SELL))"
    using sides(2) asks by (simp add: side_ok_def)
  then obtain t where a: "print_side ?fuel ''ASKS L : '' oid lvl_text detailed check Side_SELL (asks_by_price b) (asks_by_price b) 0 PRICE_MIN b = Inr t"
    using print_side_ok [OF sides(2) _ sub(2), of "[]" "f Side_SELL" lvl_text ?fuel check PRICE_MIN "''ASKS L : ''" oid detailed 0]
      shown len(2) best [OF sides(2)] by (auto simp: best_of_def)
  have b1: "\<exists>t. print_side ?fuel ''BIDS L : '' oid lvl_text detailed check Side_BUY (bids_by_price b) (bids_by_price b) 0 PRICE_MIN b = Inr t"
    if "\<not> check \<or> f Side_BUY = []"
  proof (cases "f Side_BUY")
    case Nil
    then show ?thesis using best [OF sides(1)] by (simp add: best_of_def print_side.simps)
  next
    case (Cons e vs)
    then show ?thesis
      using print_side_ok [OF sides(1) _ sub(1), of "[]" "f Side_BUY" lvl_text ?fuel check PRICE_MIN "''BIDS L : ''" oid detailed 0]
        that shown len(1) best [OF sides(1)] by (auto simp: best_of_def)
  qed
  have b2: "\<exists>m. print_side ?fuel ''BIDS L : '' oid lvl_text detailed check Side_BUY (bids_by_price b) (bids_by_price b) 0 PRICE_MIN b = FATAL m"
    if "check" "f Side_BUY = e # vs" for e vs
    using print_bids_fatal [OF sides(1) that(2), of lvl_text ?fuel "''BIDS L : ''" oid detailed 0] that shown sub(1) bids len(1)
      best [OF sides(1)] by (auto simp: best_of_def)
  show "(\<exists>t. book_text oid lvl_text ticker_id detailed check b = Inr t) \<longleftrightarrow> \<not> check \<or> f Side_BUY = []"
    using b1 b2 a by (cases "f Side_BUY"; cases check) (auto simp: book_text_def FATAL_def)
  show "\<exists>m. book_text oid lvl_text ticker_id detailed check b = FATAL m" if "check" "f Side_BUY \<noteq> []"
    using b2 a that by (cases "f Side_BUY") (auto simp: book_text_def FATAL_def)
qed

text \<open>A book with a bid cannot be destroyed. Printing a book always ends. But the destructor prints it with the
  check that its prices are sorted, which starts from the smallest price for the bids too, so the first bid
  always counts as out of order: the book is destroyed if it has no bid, and ends the process if it has one.\<close>

lemma book_with_bid_is_fatal:
  assumes "represents b v" and "\<forall>p\<in>prices (v Side_SELL). PRICE_MIN < p" and "\<forall>p\<in>prices (v Side_BUY). PRICE_MIN \<le> p"
  shows "(\<exists>t. MatchingEngineOrderBook_toString detailed False b = Inr t) \<and>
    (if v Side_BUY = [] then \<exists>r. delete_order_book b = Inr r else \<exists>m. delete_order_book b = Inl (FatalError m))"
proof -
  obtain f where core: "core_inv b f" and sides: "v Side_BUY = view b f Side_BUY" "v Side_SELL = view b f Side_SELL"
    by (rule represents_view [OF assms(1)])
  have inv: "ladder_inv b f {}" using core by (simp add: core_inv_def)
  have "\<forall>e\<in>set (f Side_SELL). PRICE_MIN < l_price (L b (fst e))" "\<forall>e\<in>set (f Side_BUY). PRICE_MIN \<le> l_price (L b (fst e))"
    using assms(2,3) sides by (auto simp: view_def side_view_def prices_def)
  note prints = book_text_prints [where lvl_text = MatchingEngineOrderAtPrice_toString, OF inv level_toString_ok(1) this, where oid = o_market_order_id and ticker_id = "ob_ticker_id b"]
  have "v Side_BUY = [] \<longleftrightarrow> f Side_BUY = []" using sides(1) by (simp add: view_def side_view_def)
  then show ?thesis
    using prints(1) [where detailed = detailed and check = False] prints(1) [where detailed = False and check = True]
      prints(2) [where detailed = False and check = True]
    by (auto simp: MatchingEngineOrderBook_toString_def delete_order_book_def FATAL_def)
qed

lemma book_with_bid_example:
  "\<exists>b out m. add 1 5 0 Side_BUY 100 10 (MatchingEngineOrderBook 0, ex_out) = Inr (b, out) \<and>
    delete_order_book b = Inl (FatalError m)"
proof -
  have book: "spec_add 1 5 0 Side_BUY 100 10 1 (\<lambda>_. []) Side_BUY = [(100, [new_order 1 5 0 Side_BUY 100 10 1 1])]"
    "spec_add 1 5 0 Side_BUY 100 10 1 (\<lambda>_. []) Side_SELL = []"
    by (simp_all add: spec_add_def next_priority_def)
  have "next_market_order_id (MatchingEngineOrderBook 0) = 1" by (simp add: MatchingEngineOrderBook_def)
  then obtain b out where b: "add 1 5 0 Side_BUY 100 10 (MatchingEngineOrderBook 0, ex_out) = Inr (b, out)"
      "represents b (spec_add 1 5 0 Side_BUY 100 10 1 (\<lambda>_. []))"
    using add_represents [OF initial_book [of 0], of Side_BUY 1 5 100 0 10 ex_out] by (auto simp: limit_defs)
  from book_with_bid_is_fatal [OF b(2), of False] b(1) show ?thesis by (simp add: book PRICE_MIN_def)
qed

text \<open>The client's book is printed and destroyed in the same way.\<close>

lemma market_book_with_bid_is_fatal:
  assumes "mrep b v" and "\<forall>p\<in>prices (v Side_SELL). PRICE_MIN < p" and "\<forall>p\<in>prices (v Side_BUY). PRICE_MIN \<le> p"
  shows "(\<exists>t. MarketOrderBook_toString detailed False b = Inr t) \<and>
    (if v Side_BUY = [] then \<exists>r. delete_market_order_book b = Inr r else \<exists>m. delete_market_order_book b = Inl (FatalError m))"
proof -
  obtain f where core: "mcore b f" and v: "\<forall>sd. trading_side sd \<longrightarrow> v sd = side_view b (f sd)"
    using assms(1) unfolding mrep_def by blast
  then have sides: "v Side_BUY = side_view b (f Side_BUY)" "v Side_SELL = side_view b (f Side_SELL)" by simp_all
  have inv: "ladder_inv b f {}" using core by (simp add: mcore_def)
  have "\<forall>e\<in>set (f Side_SELL). PRICE_MIN < l_price (L b (fst e))" "\<forall>e\<in>set (f Side_BUY). PRICE_MIN \<le> l_price (L b (fst e))"
    using assms(2,3) sides by (auto simp: side_view_def prices_def)
  note prints = book_text_prints [where lvl_text = MarketOrdersAtPrice_toString, OF inv level_toString_ok(2) this, where oid = mo_order_id and ticker_id = "mb_ticker_id b"]
  have "v Side_BUY = [] \<longleftrightarrow> f Side_BUY = []" using sides(1) by (simp add: side_view_def)
  then show ?thesis
    using prints(1) [where detailed = detailed and check = False] prints(1) [where detailed = False and check = True]
      prints(2) [where detailed = False and check = True]
    by (auto simp: MarketOrderBook_toString_def delete_market_order_book_def FATAL_def)
qed

end
