(* ===== verification/SocketUtil.thy ===== *)
theory SocketUtil
  imports Sockets
begin

section \<open>Creating sockets\<close>

text \<open>
  \<^verbatim>\<open>common/SocketUtil.hpp\<close> and the functions of \<^verbatim>\<open>TCPSocket\<close> and \<^verbatim>\<open>McastSocket\<close> that call it. The kernel's and
  the resolver's answers are inputs: for every address the resolver gives, what each system call on a socket
  for it would return. The result is the descriptor and the list of the calls that were made.
\<close>

unbundle bit_operations_syntax

record SocketConfig =
  sc_ip :: string
  sc_iface :: string
  sc_port :: int
  sc_is_udp :: bool
  sc_is_listening :: bool
  sc_needs_so_timestamp :: bool

definition bool_text :: "bool \<Rightarrow> string" where
  "bool_text b = (if b then ''1'' else ''0'')"

definition SocketConfig_toString :: "SocketConfig \<Rightarrow> string" where
  "SocketConfig_toString cfg =
     ''SocketCfg[ip:'' @ sc_ip cfg @ '' iface:'' @ sc_iface cfg @ '' port:'' @ to_string_int (sc_port cfg) @
     '' is_udp:'' @ bool_text (sc_is_udp cfg) @ '' is_listening:'' @ bool_text (sc_is_listening cfg) @
     '' needs_SO_timestamp:'' @ bool_text (sc_needs_so_timestamp cfg) @ '']''"

subsection \<open>The environment\<close>

text \<open>What the system calls answer for one address; \<open>errno\<close> is the one \<^verbatim>\<open>connect\<close> leaves.\<close>

record address =
  ans_socket :: int
  ans_getfl :: int
  ans_setfl :: int
  ans_nodelay :: int
  ans_connect :: int
  ans_errno :: int
  ans_reuseaddr :: int
  ans_bind :: int
  ans_listen :: int
  ans_timestamp :: int

datatype hint_flag = AI_PASSIVE | AI_NUMERICHOST | AI_NUMERICSERV

record addrinfo_hints =
  ai_flags :: "hint_flag list"
  ai_datagram :: bool

text \<open>
  \<open>interfaces\<close> are the entries of \<^verbatim>\<open>getifaddrs\<close>, each with its name and its numeric IPv4 address if it has one,
  \<open>None\<close> when the call fails; \<open>getaddrinfo\<close> gives a return code and the addresses.
\<close>

record network =
  interfaces :: "(string \<times> string option) list option"
  getaddrinfo :: "string \<Rightarrow> string \<Rightarrow> addrinfo_hints \<Rightarrow> int \<times> address list"
  gai_strerror :: "int \<Rightarrow> string"
  ans_join :: "int \<Rightarrow> string \<Rightarrow> int"

datatype sys_call =
    Sys_socket int
  | Sys_nonblock int
  | Sys_nodelay int
  | Sys_connect int
  | Sys_reuseaddr int
  | Sys_bind int
  | Sys_listen int
  | Sys_timestamp int
  | Sys_close int

definition EINPROGRESS :: int where
  "EINPROGRESS = 115"

definition EWOULDBLOCK :: int where
  "EWOULDBLOCK = 11"

definition O_NONBLOCK :: int where
  "O_NONBLOCK = 2048"

subsection \<open>The helpers\<close>

fun find_interface :: "string \<Rightarrow> (string \<times> string option) list \<Rightarrow> string" where
  "find_interface iface [] = []"
| "find_interface iface ((name, ip) # ifs) =
     (case ip of
        Some i \<Rightarrow> if iface = name then i else find_interface iface ifs
      | None \<Rightarrow> find_interface iface ifs)"

definition getIfaceIP :: "network \<Rightarrow> string \<Rightarrow> string" where
  "getIfaceIP net iface = (case interfaces net of None \<Rightarrow> [] | Some ifs \<Rightarrow> find_interface iface ifs)"

definition setNonBlockingFD :: "address \<Rightarrow> bool" where
  "setNonBlockingFD a =
     (if ans_getfl a = - 1 then False
      else if ans_getfl a AND O_NONBLOCK \<noteq> 0 then True
      else ans_setfl a \<noteq> - 1)"

definition setNoDelay :: "address \<Rightarrow> bool" where
  "setNoDelay a \<longleftrightarrow> ans_nodelay a \<noteq> - 1"

definition setSOTimestamp :: "address \<Rightarrow> bool" where
  "setSOTimestamp a \<longleftrightarrow> ans_timestamp a \<noteq> - 1"

definition wouldBlock :: "int \<Rightarrow> bool" where
  "wouldBlock errno \<longleftrightarrow> errno = EWOULDBLOCK \<or> errno = EINPROGRESS"

definition join_group :: "network \<Rightarrow> int \<Rightarrow> string \<Rightarrow> bool" where
  "join_group net fd ip \<longleftrightarrow> ans_join net fd ip \<noteq> - 1"

text \<open>
  Two helpers that are not called. \<open>setsockopt\<close> answers for a descriptor, a level, an option and its value. \<open>setTTL\<close> asks
  at the level of TCP, where the number of \<^verbatim>\<open>IP_TTL\<close> is that of the maximum segment size.
\<close>

definition IPPROTO_IP :: int where
  "IPPROTO_IP = 0"

definition IPPROTO_TCP :: int where
  "IPPROTO_TCP = 6"

definition IP_TTL :: int where
  "IP_TTL = 2"

definition IP_MULTICAST_TTL :: int where
  "IP_MULTICAST_TTL = 33"

definition TCP_MAXSEG :: int where
  "TCP_MAXSEG = 2"

definition setMcastTTL :: "(int \<Rightarrow> int \<Rightarrow> int \<Rightarrow> int \<Rightarrow> int) \<Rightarrow> int \<Rightarrow> int \<Rightarrow> bool" where
  "setMcastTTL setsockopt fd mcast_ttl \<longleftrightarrow> setsockopt fd IPPROTO_IP IP_MULTICAST_TTL mcast_ttl \<noteq> - 1"

definition setTTL :: "(int \<Rightarrow> int \<Rightarrow> int \<Rightarrow> int \<Rightarrow> int) \<Rightarrow> int \<Rightarrow> int \<Rightarrow> bool" where
  "setTTL setsockopt fd ttl \<longleftrightarrow> setsockopt fd IPPROTO_TCP IP_TTL ttl \<noteq> - 1"

lemma setTTL_sets_segment_size: "setTTL setsockopt fd ttl \<longleftrightarrow> setsockopt fd IPPROTO_TCP TCP_MAXSEG ttl \<noteq> - 1"
  by (simp add: setTTL_def IP_TTL_def TCP_MAXSEG_def)

subsection \<open>\<^verbatim>\<open>createSocket\<close>\<close>

text \<open>One turn of the loop over the addresses: the descriptor, if this address gave one, and the calls made.\<close>

definition try_connect :: "SocketConfig \<Rightarrow> address \<Rightarrow> bool \<times> sys_call list" where
  "try_connect cfg a =
     (let fd = ans_socket a in
      if \<not> sc_is_listening cfg then
        (\<not> (ans_connect a = - 1 \<and> ans_errno a \<noteq> EINPROGRESS), [Sys_connect fd])
      else if ans_reuseaddr a = - 1 then (False, [Sys_reuseaddr fd])
      else if ans_bind a = - 1 then (False, [Sys_reuseaddr fd, Sys_bind fd])
      else if \<not> sc_is_udp cfg then (ans_listen a \<noteq> - 1, [Sys_reuseaddr fd, Sys_bind fd, Sys_listen fd])
      else (True, [Sys_reuseaddr fd, Sys_bind fd]))"

definition try_timestamp :: "SocketConfig \<Rightarrow> address \<Rightarrow> bool \<times> sys_call list" where
  "try_timestamp cfg a =
     (if sc_needs_so_timestamp cfg then (setSOTimestamp a, [Sys_timestamp (ans_socket a)]) else (True, []))"

definition try_address :: "SocketConfig \<Rightarrow> address \<Rightarrow> int option \<times> sys_call list" where
  "try_address cfg a =
     (let fd = ans_socket a in
      if fd = - 1 then (None, [Sys_socket fd])
      else if \<not> setNonBlockingFD a then (None, [Sys_socket fd, Sys_nonblock fd, Sys_close fd])
      else if \<not> sc_is_udp cfg \<and> \<not> setNoDelay a then
        (None, [Sys_socket fd, Sys_nonblock fd, Sys_nodelay fd, Sys_close fd])
      else
        let opened = [Sys_socket fd, Sys_nonblock fd] @ (if sc_is_udp cfg then [] else [Sys_nodelay fd]);
            (connected, calls) = try_connect cfg a
        in if \<not> connected then (None, opened @ calls @ [Sys_close fd])
           else
             let (stamped, calls') = try_timestamp cfg a
             in if \<not> stamped then (None, opened @ calls @ calls' @ [Sys_close fd])
                else (Some fd, opened @ calls @ calls'))"

fun try_addresses :: "SocketConfig \<Rightarrow> address list \<Rightarrow> int \<times> sys_call list" where
  "try_addresses cfg [] = (- 1, [])"
| "try_addresses cfg (a # as) =
     (case try_address cfg a of
        (Some fd, calls) \<Rightarrow> (fd, calls)
      | (None, calls) \<Rightarrow> let (fd, calls') = try_addresses cfg as in (fd, calls @ calls'))"

definition createSocket :: "network \<Rightarrow> SocketConfig \<Rightarrow> (int \<times> sys_call list) res" where
  "createSocket net cfg =
     (let ip = (if sc_ip cfg = [] then getIfaceIP net (sc_iface cfg) else sc_ip cfg);
          hints = \<lparr>ai_flags = (if sc_is_listening cfg then [AI_PASSIVE] else []) @ [AI_NUMERICHOST, AI_NUMERICSERV],
                   ai_datagram = sc_is_udp cfg\<rparr>;
          (rc, as) = getaddrinfo net ip (to_string_int (sc_port cfg)) hints
      in bindE (ASSERT (rc = 0) (''getaddrinfo() failed: '' @ gai_strerror net rc)) (\<lambda>_. Inr (try_addresses cfg as)))"

subsection \<open>Sockets\<close>

definition TCPSocket_connect :: "network \<Rightarrow> string \<Rightarrow> string \<Rightarrow> int \<Rightarrow> bool \<Rightarrow> socket \<Rightarrow> (int \<times> socket) res" where
  "TCPSocket_connect net ip iface port is_listening s =
     bindE (createSocket net \<lparr>sc_ip = ip, sc_iface = iface, sc_port = port, sc_is_udp = False,
              sc_is_listening = is_listening, sc_needs_so_timestamp = True\<rparr>) (\<lambda>(fd, _).
     Inr (fd, s\<lparr>socket_fd := fd\<rparr>))"

definition McastSocket_init :: "network \<Rightarrow> string \<Rightarrow> string \<Rightarrow> int \<Rightarrow> bool \<Rightarrow> socket \<Rightarrow> (int \<times> socket) res" where
  "McastSocket_init net ip iface port is_listening s =
     bindE (createSocket net \<lparr>sc_ip = ip, sc_iface = iface, sc_port = port, sc_is_udp = True,
              sc_is_listening = is_listening, sc_needs_so_timestamp = False\<rparr>) (\<lambda>(fd, _).
     Inr (fd, s\<lparr>socket_fd := fd\<rparr>))"

definition McastSocket_join :: "network \<Rightarrow> string \<Rightarrow> socket \<Rightarrow> bool" where
  "McastSocket_join net ip s = join_group net (socket_fd s) ip"

definition McastSocket_leave :: "socket \<Rightarrow> socket" where
  "McastSocket_leave s = s\<lparr>socket_fd := - 1\<rparr>"

definition epoll_text :: "string \<Rightarrow> int \<Rightarrow> string" where
  "epoll_text iface port =
     ''Listener socket failed to connect. interface : '' @ iface @ '' port : '' @ to_string_int port @ '' error : ''"

text \<open>\<^verbatim>\<open>TCPServer::listen\<close>; \<open>epoll_fd\<close> and \<open>ctl\<close> are the answers of \<^verbatim>\<open>epoll_create\<close> and \<^verbatim>\<open>epoll_ctl\<close>.\<close>

definition TCPServer_listen :: "network \<Rightarrow> int \<Rightarrow> int \<Rightarrow> string \<Rightarrow> int \<Rightarrow> socket \<Rightarrow> socket res" where
  "TCPServer_listen net epoll_fd ctl iface port listener =
     bindE (ASSERT (epoll_fd \<ge> 0) ''epoll_create() failed error : '') (\<lambda>_.
     bindE (TCPSocket_connect net [] iface port True listener) (\<lambda>(fd, listener1).
     bindE (ASSERT (fd \<ge> 0) (epoll_text iface port)) (\<lambda>_.
     bindE (ASSERT (ctl = 0) ''epoll_ctl() failed. error : '') (\<lambda>_.
     Inr listener1))))"

subsection \<open>What \<open>createSocket\<close> leaves open\<close>

text \<open>The descriptors that are open after a list of calls; the kernel may give a closed one out again.\<close>

fun open_after :: "sys_call list \<Rightarrow> int set \<Rightarrow> int set" where
  "open_after [] D = D"
| "open_after (Sys_socket fd # cs) D = open_after cs (if fd = - 1 then D else insert fd D)"
| "open_after (Sys_close fd # cs) D = open_after cs (D - {fd})"
| "open_after (_ # cs) D = open_after cs D"

lemma open_after_append: "open_after (cs @ ds) D = open_after ds (open_after cs D)"
  by (induction cs D rule: open_after.induct) simp_all

text \<open>An address for which every call the configuration asks for succeeds.\<close>

definition usable :: "SocketConfig \<Rightarrow> address \<Rightarrow> bool" where
  "usable cfg a \<longleftrightarrow> ans_socket a \<noteq> - 1 \<and> setNonBlockingFD a \<and> (sc_is_udp cfg \<or> ans_nodelay a \<noteq> - 1) \<and>
     (if sc_is_listening cfg then ans_reuseaddr a \<noteq> - 1 \<and> ans_bind a \<noteq> - 1 \<and> (sc_is_udp cfg \<or> ans_listen a \<noteq> - 1)
      else ans_connect a \<noteq> - 1 \<or> ans_errno a = EINPROGRESS) \<and>
     (sc_needs_so_timestamp cfg \<longrightarrow> ans_timestamp a \<noteq> - 1)"

lemma try_address_ok:
  "fst (try_address cfg a) = (if usable cfg a then Some (ans_socket a) else None) \<and>
   open_after (snd (try_address cfg a)) {} = (if usable cfg a then {ans_socket a} else {})"
  by (simp add: try_address_def try_connect_def try_timestamp_def usable_def setNoDelay_def setSOTimestamp_def Let_def)

lemma try_addresses_ok:
  "fst (try_addresses cfg as) = (case find (usable cfg) as of None \<Rightarrow> - 1 | Some a \<Rightarrow> ans_socket a) \<and>
   open_after (snd (try_addresses cfg as)) {} = (case find (usable cfg) as of None \<Rightarrow> {} | Some a \<Rightarrow> {ans_socket a})"
proof (induction as)
  case (Cons a as)
  then show ?case
    using try_address_ok [of cfg a] by (auto simp: open_after_append split: prod.splits option.splits if_splits)
qed simp

text \<open>C37: a socket is made for the first address that works, and no descriptor is lost. If the resolver knows the
  host, \<open>createSocket\<close> returns the descriptor of the first address for which every call it needs succeeds, or
  -1 if there is none; and of all the descriptors it was given on the way exactly that one is still open.\<close>

theorem createSocket_leaks_nothing:
  assumes "getaddrinfo net (if sc_ip cfg = [] then getIfaceIP net (sc_iface cfg) else sc_ip cfg) (to_string_int (sc_port cfg))
      \<lparr>ai_flags = (if sc_is_listening cfg then [AI_PASSIVE] else []) @ [AI_NUMERICHOST, AI_NUMERICSERV],
       ai_datagram = sc_is_udp cfg\<rparr> = (0, as)"
  shows "\<exists>fd calls. createSocket net cfg = Inr (fd, calls) \<and>
    (case find (usable cfg) as of
       None \<Rightarrow> fd = - 1 \<and> open_after calls {} = {}
     | Some a \<Rightarrow> fd = ans_socket a \<and> open_after calls {} = {fd})"
proof -
  have "createSocket net cfg = Inr (try_addresses cfg as)"
    using assms by (simp add: createSocket_def Let_def)
  with try_addresses_ok [of cfg as] show ?thesis
    by (cases "try_addresses cfg as") (auto split: option.splits)
qed

text \<open>A host with two addresses; the first refuses the connection.\<close>

definition ex_address :: "int \<Rightarrow> int \<Rightarrow> address" where
  "ex_address fd connected = \<lparr>ans_socket = fd, ans_getfl = 2, ans_setfl = 0, ans_nodelay = 0, ans_connect = connected,
     ans_errno = 111, ans_reuseaddr = 0, ans_bind = 0, ans_listen = 0, ans_timestamp = 0\<rparr>"

definition ex_network :: network where
  "ex_network = \<lparr>interfaces = Some [(''lo'', Some ''127.0.0.1'')],
     getaddrinfo = (\<lambda>_ _ _. (0, [ex_address 7 (- 1), ex_address 7 0])), gai_strerror = (\<lambda>_. []), ans_join = (\<lambda>_ _. 0)\<rparr>"

definition ex_client_socket :: SocketConfig where
  "ex_client_socket = \<lparr>sc_ip = ''127.0.0.1'', sc_iface = ''lo'', sc_port = 12345, sc_is_udp = False,
     sc_is_listening = False, sc_needs_so_timestamp = True\<rparr>"

theorem createSocket_leaks_nothing_witness:
  "\<exists>calls. createSocket ex_network ex_client_socket = Inr (7, calls) \<and> open_after calls {} = {7}"
proof -
  have "setNonBlockingFD (ex_address 7 x)" for x by (simp add: setNonBlockingFD_def ex_address_def)
  then have "\<not> usable ex_client_socket (ex_address 7 (- 1))" "usable ex_client_socket (ex_address 7 0)"
    by (simp_all add: usable_def) (simp_all add: ex_address_def ex_client_socket_def EINPROGRESS_def)
  then have "find (usable ex_client_socket) [ex_address 7 (- 1), ex_address 7 0] = Some (ex_address 7 0)" by simp
  then show ?thesis
    using createSocket_leaks_nothing [of ex_network ex_client_socket "[ex_address 7 (- 1), ex_address 7 0]"]
    by (simp add: ex_network_def) (simp add: ex_address_def)
qed

end
