(* ===== verification/Decimals.thy ===== *)
theory Decimals
  imports Doubles
begin

section \<open>Doubles in decimal\<close>

text \<open>
  What \<^verbatim>\<open>operator<<\<close> writes for a \<^verbatim>\<open>double\<close> with a stream's default settings: the format \<open>%g\<close> with six
  significant digits, rounded to nearest with ties to even on the exact value, trailing zeros removed.
  The log and the diagnostic printers of the strategies use it.
\<close>

text \<open>The decimal exponent of a positive rational: \<open>10 powi decimal_exponent x \<le> x < 10 powi (decimal_exponent x + 1)\<close>.\<close>

definition decimal_exponent :: "rat \<Rightarrow> int" where
  "decimal_exponent x =
     (let (n, d) = quotient_of x; e = int (length (to_string_int n)) - int (length (to_string_int d))
      in if 10 powi e \<le> x then e else e - 1)"

text \<open>Six digits and the exponent after rounding, which may carry into a seventh digit.\<close>

definition six_digits :: "rat \<Rightarrow> int \<times> int" where
  "six_digits x =
     (let e = decimal_exponent x; m = round_even (x * 10 powi (5 - e))
      in if m = 10 ^ 6 then (10 ^ 5, e + 1) else (m, e))"

definition strip_zeros :: "string \<Rightarrow> string" where
  "strip_zeros s = rev (dropWhile (\<lambda>c. c = CHR ''0'') (rev s))"

definition with_fraction :: "string \<Rightarrow> string \<Rightarrow> string" where
  "with_fraction units digits = (let f = strip_zeros digits in if f = [] then units else units @ ''.'' @ f)"

definition exponent_text :: "int \<Rightarrow> string" where
  "exponent_text e =
     (let ds = to_string_nat (nat \<bar>e\<bar>)
      in ''e'' @ (if e < 0 then ''-'' else ''+'') @ (if length ds < 2 then ''0'' @ ds else ds))"

definition positive_toString :: "rat \<Rightarrow> string" where
  "positive_toString x =
     (let (m, e) = six_digits x; ds = to_string_int m
      in if e < - 4 \<or> 6 \<le> e then with_fraction (take 1 ds) (drop 1 ds) @ exponent_text e
         else if e < 0 then with_fraction ''0'' (replicate (nat (- e) - 1) (CHR ''0'') @ ds)
         else with_fraction (take (nat e + 1) ds) (drop (nat e + 1) ds))"

fun double_toString :: "double \<Rightarrow> string" where
  "double_toString NaN = ''nan''"
| "double_toString PosInf = ''inf''"
| "double_toString NegInf = ''-inf''"
| "double_toString (Finite x) =
     (if x = 0 then ''0'' else if x < 0 then ''-'' @ positive_toString (- x) else positive_toString x)"

subsection \<open>Whole numbers\<close>

lemma to_string_nat_bounds:
  "to_string_nat n \<noteq> [] \<and> n < 10 ^ length (to_string_nat n) \<and> (0 < n \<longrightarrow> 10 ^ (length (to_string_nat n) - 1) \<le> n)"
proof (induction n rule: to_string_nat.induct)
  case (1 n)
  show ?case
  proof (cases "n < 10")
    case True
    then show ?thesis by (subst (1 2 3) to_string_nat.simps) simp
  next
    case False
    let ?l = "length (to_string_nat (n div 10))"
    have IH: "n div 10 < 10 ^ ?l" "10 ^ (?l - 1) \<le> n div 10" "0 < ?l" using 1 False by auto
    have "n < 10 * 10 ^ ?l" using IH(1) by (simp add: less_mult_imp_div_less div_less_iff_less_mult mult.commute)
    moreover have "10 ^ ?l \<le> n"
    proof -
      have "10 * 10 ^ (?l - 1) \<le> n" using IH(2) by linarith
      then show ?thesis using IH(3) by (cases ?l) simp_all
    qed
    moreover have "to_string_nat n = to_string_nat (n div 10) @ [digit_char (n mod 10)]"
      using False by (subst to_string_nat.simps) simp
    ultimately show ?thesis by simp
  qed
qed

lemma digit_char_0: "digit_char 0 = CHR ''0''"
  by (simp add: digit_char_def char_of_def bit_0)

lemma to_string_nat_shift: "0 < n \<Longrightarrow> to_string_nat (n * 10 ^ k) = to_string_nat n @ replicate k (CHR ''0'')"
proof (induction k)
  case (Suc k)
  have "10 \<le> n * 10 ^ Suc k" using Suc.prems by simp
  then have "to_string_nat (n * 10 ^ Suc k) = to_string_nat (n * 10 ^ k) @ [digit_char 0]"
    by (subst to_string_nat.simps) simp
  then show ?case using Suc by (simp add: digit_char_0 replicate_append_same)
qed simp

lemma positive_whole:
  assumes "0 < n" and "n < 10 ^ 6"
  shows "positive_toString (of_nat n) = to_string_nat n"
proof -
  define e where "e = length (to_string_nat n) - 1"
  have len: "length (to_string_nat n) = e + 1" and low: "10 ^ e \<le> n" and high: "n < 10 ^ (e + 1)"
    using to_string_nat_bounds [of n] assms(1) by (simp_all add: e_def)
  have "(10 :: nat) ^ e < 10 ^ 6" using low assms(2) by (rule le_less_trans)
  then have "e < 6" by (rule power_less_imp_less_exp [rotated]) simp
  then have e: "e \<le> 5" by simp
  have "(of_nat (10 ^ e) :: rat) \<le> of_nat n" using low by (simp only: of_nat_le_iff)
  then have exponent: "decimal_exponent (of_nat n) = int e"
    using quotient_of_int [of "int n"] len
    by (simp add: decimal_exponent_def to_string_int_def to_string_nat.simps [of "Suc 0"] Let_def)
  have "(of_nat n :: rat) * 10 powi (5 - int e) = of_int (int (n * 10 ^ (5 - e)))"
    using e by (simp add: power_int_def nat_diff_distrib' )
  then have round: "round_even (of_nat n * 10 powi (5 - int e)) = int (n * 10 ^ (5 - e))"
    by (simp only: round_even_def floor_of_int) simp
  have "n * 10 ^ (5 - e) < 10 ^ (e + 1) * 10 ^ (5 - e)" using high by simp
  also have "\<dots> = 10 ^ 6" using e by (simp flip: power_add)
  finally have "int (n * 10 ^ (5 - e)) < int (10 ^ 6)" by (simp only: of_nat_less_iff)
  then have "int (n * 10 ^ (5 - e)) \<noteq> 10 ^ 6" by (simp del: of_nat_mult)
  then have six: "six_digits (of_nat n) = (int (n * 10 ^ (5 - e)), int e)"
    by (simp only: six_digits_def exponent Let_def round if_False)
  have "to_string_int (int (n * 10 ^ (5 - e))) = to_string_nat n @ replicate (5 - e) (CHR ''0'')"
    using to_string_nat_shift [OF assms(1), of "5 - e"] by (simp add: to_string_int_def del: of_nat_mult)
  moreover have "strip_zeros (replicate k (CHR ''0'')) = []" for k by (simp add: strip_zeros_def)
  ultimately show ?thesis
    using e len by (simp add: positive_toString_def six with_fraction_def del: of_nat_mult)
qed

text \<open>Whole numbers of up to six digits are written as such.\<close>

lemma double_toString_whole:
  assumes "\<bar>i\<bar> < 10 ^ 6"
  shows "double_toString (whole i) = to_string_int i"
proof -
  have "positive_toString (of_int j) = to_string_nat (nat j)" if "0 < j" "j < 10 ^ 6" for j
    using positive_whole [of "nat j"] that by simp
  from this [of i] this [of "- i"] assms show ?thesis
    by (auto simp: whole_def to_string_int_def to_string_nat.simps [of 0] digit_char_0)
qed

end
