(* ===== verification/Logging.thy ===== *)
theory Logging
  imports LockFreeQueue Decimals
begin

section \<open>The logger\<close>

text \<open>
  \<^verbatim>\<open>common/Logging.hpp\<close>: the callers' threads take a message apart into tagged elements and queue them; the
  logger's own thread writes them to the file. A value's C++ type chooses the overload of \<open>pushValue\<close>; a
  C string ends at its first NUL. The file is the text written to it.
\<close>

datatype LogElement =
    Log_CHAR char
  | Log_INTEGER int
  | Log_LONG_INTEGER int
  | Log_LONG_LONG_INTEGER int
  | Log_UNSIGNED_INTEGER "32 word"
  | Log_UNSIGNED_LONG_INTEGER "64 word"
  | Log_UNSIGNED_LONG_LONG_INTEGER "64 word"
  | Log_FLOAT double
  | Log_DOUBLE double

definition LOCK_FREE_QUEUE_SIZE :: nat where
  "LOCK_FREE_QUEUE_SIZE = 8 * 1024 * 1024"

text \<open>\<^verbatim>\<open>file << next->u_\<close>, by the type of the element.\<close>

fun element_text :: "LogElement \<Rightarrow> string" where
  "element_text (Log_CHAR c) = [c]"
| "element_text (Log_INTEGER i) = to_string_int i"
| "element_text (Log_LONG_INTEGER i) = to_string_int i"
| "element_text (Log_LONG_LONG_INTEGER i) = to_string_int i"
| "element_text (Log_UNSIGNED_INTEGER w) = to_string_nat (unat w)"
| "element_text (Log_UNSIGNED_LONG_INTEGER w) = to_string_nat (unat w)"
| "element_text (Log_UNSIGNED_LONG_LONG_INTEGER w) = to_string_nat (unat w)"
| "element_text (Log_FLOAT x) = double_toString x"
| "element_text (Log_DOUBLE x) = double_toString x"

record logger =
  log_file :: string
  log_queue :: "LogElement lfqueue"
  log_running :: bool

definition Logger :: logger where
  "Logger = \<lparr>log_file = [], log_queue = LockFreeQueue (Log_CHAR (CHR 0x00)) LOCK_FREE_QUEUE_SIZE, log_running = True\<rparr>"

subsection \<open>Queueing a message\<close>

text \<open>The arguments \<open>pushValue\<close> accepts: a value is a log element, or a C string or \<^verbatim>\<open>std::string\<close> taken apart.\<close>

datatype log_value =
    Element LogElement
  | C_string string
  | Std_string string

definition c_str :: "string \<Rightarrow> string" where
  "c_str s = takeWhile (\<lambda>c. c \<noteq> CHR 0x00) s"

fun push_string :: "string \<Rightarrow> LogElement lfqueue \<Rightarrow> LogElement lfqueue" where
  "push_string [] q = q"
| "push_string (c # s) q = (if c = CHR 0x00 then q else push_string s (lf_push q (Log_CHAR c)))"

fun pushValue :: "log_value \<Rightarrow> LogElement lfqueue \<Rightarrow> LogElement lfqueue" where
  "pushValue (Element x) q = lf_push q x"
| "pushValue (C_string s) q = push_string s q"
| "pushValue (Std_string s) q = push_string (c_str s) q"

text \<open>
  Both overloads of \<open>log\<close>. A percent sign stands for the next argument, two of them for one; too many and
  too few arguments are fatal, after what precedes has been queued.
\<close>

fun log_message :: "string \<Rightarrow> log_value list \<Rightarrow> LogElement lfqueue \<Rightarrow> LogElement lfqueue res" where
  "log_message [] [] q = Inr q"
| "log_message [] (v # vs) q = FATAL ''extra arguments provided to log()''"
| "log_message (c # s) vs q =
     (if c = CHR ''%'' then
        (if s \<noteq> [] \<and> hd s = CHR ''%'' then log_message (tl s) vs (lf_push q (Log_CHAR (CHR ''%'')))
         else
           case vs of
             [] \<Rightarrow> FATAL ''missing arguments to log()''
           | v # vs' \<Rightarrow> log_message s vs' (pushValue v q))
      else log_message s vs (lf_push q (Log_CHAR c)))"

subsection \<open>Writing the file\<close>

text \<open>The body of the loop of \<open>flushQueue\<close>, which runs while \<open>log_running\<close> holds, and the end of the destructor.\<close>

definition write_element :: "LogElement \<Rightarrow> string \<Rightarrow> string res" where
  "write_element x file = Inr (file @ element_text x)"

definition flushQueue :: "logger \<Rightarrow> logger res" where
  "flushQueue l =
     (if log_running l
      then bindE (lf_drain write_element (log_queue l) (log_file l)) (\<lambda>(q, file).
           Inr (l\<lparr>log_queue := q, log_file := file\<rparr>))
      else Inr l)"

text \<open>The destructor waits until the queue is empty, which one pass of the writing thread achieves.\<close>

definition delete_logger :: "logger \<Rightarrow> logger res" where
  "delete_logger l =
     bindE (if lf_size (log_queue l) \<noteq> 0 then flushQueue l else Inr l) (\<lambda>l1. Inr (l1\<lparr>log_running := False\<rparr>))"

subsection \<open>What a message says\<close>

definition value_elements :: "log_value \<Rightarrow> LogElement list" where
  "value_elements v = (case v of Element x \<Rightarrow> [x] | C_string s \<Rightarrow> map Log_CHAR (c_str s) | Std_string s \<Rightarrow> map Log_CHAR (c_str s))"

definition value_text :: "log_value \<Rightarrow> string" where
  "value_text v = (case v of Element x \<Rightarrow> element_text x | C_string s \<Rightarrow> c_str s | Std_string s \<Rightarrow> c_str s)"

text \<open>A format is literal text with places for arguments between; a percent sign in the text is doubled.\<close>

definition escape :: "string \<Rightarrow> string" where
  "escape s = concat (map (\<lambda>c. if c = CHR ''%'' then ''%%'' else [c]) s)"

definition message_format :: "string \<Rightarrow> string list \<Rightarrow> string" where
  "message_format p ps = escape p @ concat (map (\<lambda>p. ''%'' @ escape p) ps)"

fun message_elements :: "string list \<Rightarrow> log_value list \<Rightarrow> LogElement list" where
  "message_elements (p # ps) (v # vs) = value_elements v @ map Log_CHAR p @ message_elements ps vs"
| "message_elements _ _ = []"

definition message_text :: "string \<Rightarrow> string list \<Rightarrow> log_value list \<Rightarrow> string" where
  "message_text p ps vs = p @ concat (map2 (\<lambda>p v. value_text v @ p) ps vs)"

lemma push_string_all: "push_string s q = lf_push_all q (map Log_CHAR (c_str s))"
  by (induction s q rule: push_string.induct) (simp_all add: c_str_def)

lemma c_str_idem: "c_str (c_str s) = c_str s"
  by (simp add: c_str_def takeWhile_eq_all_conv)

lemma pushValue_all: "pushValue v q = lf_push_all q (value_elements v)"
  by (cases v) (simp_all add: push_string_all value_elements_def c_str_idem)

lemma value_elements_text: "concat (map element_text (value_elements v)) = value_text v"
  by (cases v) (simp_all add: value_elements_def value_text_def comp_def)

lemma log_literal:
  assumes "s = [] \<or> hd s = CHR ''%'' \<and> (tl s = [] \<or> hd (tl s) \<noteq> CHR ''%'')"
  shows "log_message (escape p @ s) vs q = log_message s vs (lf_push_all q (map Log_CHAR p))"
proof (induction p arbitrary: q)
  case (Cons c p)
  then show ?case by (simp add: escape_def)
qed (simp add: escape_def)

text \<open>A placeholder is told from a doubled percent sign by the literal text that follows it.\<close>

definition separate :: "string list \<Rightarrow> bool" where
  "separate ps \<longleftrightarrow> (\<forall>p\<in>set ps. p = [] \<or> hd p \<noteq> CHR ''%'') \<and> (\<forall>p\<in>set (butlast ps). p \<noteq> [])"

lemma separate_Cons: "separate (p # ps) \<Longrightarrow> separate ps \<and> (p = [] \<longrightarrow> ps = []) \<and> (p = [] \<or> hd p \<noteq> CHR ''%'')"
  by (cases ps) (auto simp: separate_def)

lemma message_format_simps:
  "message_format p [] = escape p" "message_format p (r # ps) = escape p @ CHR ''%'' # message_format r ps"
  by (simp_all add: message_format_def)

lemma message_format_hd:
  assumes "separate (p # ps)"
  shows "message_format p ps = [] \<or> hd (message_format p ps) \<noteq> CHR ''%''"
  using separate_Cons [OF assms] by (cases p) (auto simp: message_format_def escape_def)

lemma log_counts_arguments_of:
  assumes "separate ps"
  shows "log_message (message_format p ps) vs q =
    (if length vs = length ps then Inr (lf_push_all q (map Log_CHAR p @ message_elements ps vs))
     else if length vs < length ps then FATAL ''missing arguments to log()''
     else FATAL ''extra arguments provided to log()'')"
  using assms
proof (induction ps arbitrary: p vs q)
  case Nil
  show ?case using log_literal [of "[]" p vs q] by (cases vs) (simp_all add: message_format_simps)
next
  case (Cons r ps)
  let ?s = "CHR ''%'' # message_format r ps"
  have "?s = [] \<or> hd ?s = CHR ''%'' \<and> (tl ?s = [] \<or> hd (tl ?s) \<noteq> CHR ''%'')"
    using message_format_hd [OF Cons.prems] by simp
  note literal = log_literal [OF this, of p vs q]
  show ?case
  proof (cases vs)
    case Nil
    then show ?thesis using literal message_format_hd [OF Cons.prems] by (auto simp: message_format_simps)
  next
    case (Cons v vs')
    have "log_message ?s vs (lf_push_all q (map Log_CHAR p)) =
        log_message (message_format r ps) vs' (lf_push_all q (map Log_CHAR p @ value_elements v))"
      using message_format_hd [OF Cons.prems] by (auto simp: Cons pushValue_all lf_push_all_append)
    then show ?thesis
      using literal Cons.IH separate_Cons [OF Cons.prems]
      by (simp add: message_format_simps Cons flip: lf_push_all_append)
  qed
qed

text \<open>A message needs as many arguments as its format has places. Then \<open>log\<close> queues the literal text and the
  values in turn, doubled percent signs as one; with an argument too few or too many it ends the process.\<close>

theorem log_counts_arguments:
  assumes "separate ps"
  shows "log_message (message_format p ps) vs q =
    (if length vs = length ps then Inr (lf_push_all q (map Log_CHAR p @ message_elements ps vs))
     else if length vs < length ps then FATAL ''missing arguments to log()''
     else FATAL ''extra arguments provided to log()'')"
  by (rule log_counts_arguments_of [OF assms])

text \<open>The format of most messages, as the source writes it, with its file name, line and function.\<close>

definition ex_pieces :: "string list" where
  "ex_pieces = ['':'', '' '', ''() '', '' 100% of '', [CHR 0x0A]]"

definition ex_values :: "log_value list" where
  "ex_values = [C_string ''Order.cc'', Element (Log_INTEGER 42), C_string ''add'', Std_string (''noon'' @ [CHR 0x00]),
     Element (Log_DOUBLE (whole 12))]"

lemma ex_format:
  "message_format [] ex_pieces = ''%:% %() % 100%% of %'' @ [CHR 0x0A]" "separate ex_pieces" "length ex_values = length ex_pieces"
  by (simp_all add: message_format_def escape_def ex_pieces_def separate_def ex_values_def)

theorem log_counts_arguments_witness:
  "log_message (''%:% %() % 100%% of %'' @ [CHR 0x0A]) (tl ex_values) (LockFreeQueue (Log_CHAR (CHR 0x00)) 99) =
     FATAL ''missing arguments to log()''"
  using log_counts_arguments [OF ex_format(2), of "[]" "tl ex_values" "LockFreeQueue (Log_CHAR (CHR 0x00)) 99"] ex_format(1,3)
  by (simp add: ex_pieces_def del: log_message.simps)

lemma flushQueue_writes:
  assumes "log_running l" and "lf_inv (log_queue l)"
  shows "flushQueue l = Inr (l\<lparr>log_queue := lf_emptied (log_queue l),
    log_file := log_file l @ concat (map element_text (lf_contents (log_queue l)))\<rparr>)"
proof -
  have "fold_res write_element xs out = Inr (out @ concat (map element_text xs))" for xs out
    by (induction xs arbitrary: out) (simp_all add: write_element_def)
  then show ?thesis using assms by (simp add: flushQueue_def lf_drain_fold)
qed

lemma message_elements_text:
  "length vs = length ps \<Longrightarrow>
   concat (map element_text (map Log_CHAR p @ message_elements ps vs)) = message_text p ps vs"
proof (induction ps vs arbitrary: p rule: list_induct2')
  case (4 r ps v vs)
  then show ?case by (simp add: message_text_def value_elements_text comp_def)
qed (simp_all add: message_text_def comp_def)

text \<open>C35: what is logged is written. A message with the right number of arguments, queued while there is room, is
  in the file after the writing thread's next pass, after everything queued before, with the values in their
  places and the queue empty again.\<close>

theorem log_line_reaches_file:
  assumes "separate ps" and "length vs = length ps" and "log_running l" and "lf_inv (log_queue l)"
    and "lf_count (log_queue l) + length (map Log_CHAR p @ message_elements ps vs) < lf_capacity (log_queue l)"
  shows "\<exists>q l'. log_message (message_format p ps) vs (log_queue l) = Inr q \<and> flushQueue (l\<lparr>log_queue := q\<rparr>) = Inr l' \<and>
    log_file l' = log_file l @ concat (map element_text (lf_contents (log_queue l))) @ message_text p ps vs \<and>
    lf_contents (log_queue l') = []"
proof -
  let ?q = "lf_push_all (log_queue l) (map Log_CHAR p @ message_elements ps vs)"
  have q: "log_message (message_format p ps) vs (log_queue l) = Inr ?q"
    using log_counts_arguments_of [OF assms(1), of p vs "log_queue l"] assms(2) by simp
  note contents = lf_push_all_contents [OF assms(4,5)]
  then show ?thesis
    using q flushQueue_writes [of "l\<lparr>log_queue := ?q\<rparr>"] assms(3) message_elements_text [OF assms(2), of p]
      lf_emptied_inv [of ?q] by simp
qed

theorem log_line_reaches_file_witness:
  "\<exists>q l'. log_message (''%:% %() % 100%% of %'' @ [CHR 0x0A]) ex_values (log_queue Logger) = Inr q \<and>
    flushQueue (Logger\<lparr>log_queue := q\<rparr>) = Inr l' \<and> log_file l' = ''Order.cc:42 add() noon 100% of 12'' @ [CHR 0x0A]"
proof -
  have "lf_inv (log_queue Logger)" by (simp add: Logger_def lf_inv_LockFreeQueue LOCK_FREE_QUEUE_SIZE_def)
  moreover have "lf_count (log_queue Logger) = 0" "lf_contents (log_queue Logger) = []" "log_running Logger" "log_file Logger = []"
    "lf_capacity (log_queue Logger) = 8388608"
    by (simp_all add: Logger_def lf_count_def LockFreeQueue_def LOCK_FREE_QUEUE_SIZE_def lf_contents_def)
  moreover have "to_string_nat 12 = ''12''" "to_string_nat 42 = ''42''"
    by (simp_all add: to_string_nat.simps digit_char_def char_of_def bit_0)
  then have "message_text [] ex_pieces ex_values = ''Order.cc:42 add() noon 100% of 12'' @ [CHR 0x0A]"
    by (simp add: message_text_def ex_pieces_def ex_values_def value_text_def c_str_def double_toString_whole to_string_int_def)
  moreover have "length (message_elements ex_pieces ex_values) < 8388608"
    by (simp add: ex_pieces_def ex_values_def value_elements_def c_str_def)
  ultimately show ?thesis
    using log_line_reaches_file [OF ex_format(2,3), of Logger "[]"] ex_format(1) by (simp del: log_message.simps) blast
qed

end
