(* ===== verification/TradingMain.thy ===== *)
theory TradingMain
  imports TradeEngine
begin

section \<open>The trading program: its arguments and its random order flow\<close>

text \<open>
  \<^verbatim>\<open>trading/trading_main.cc\<close>: the configuration the command line gives, and the orders the program enters
  itself when the algorithm is \<^verbatim>\<open>RANDOM\<close>. The values of \<^verbatim>\<open>rand()\<close> are a sequence \<open>rnd\<close>, the answers of
  \<^verbatim>\<open>silentSeconds()\<close> a sequence \<open>silent\<close>; \<^verbatim>\<open>std::atof\<close> is a parameter.
\<close>

subsection \<open>Arguments\<close>

definition is_space :: "char \<Rightarrow> bool" where
  "is_space c \<longleftrightarrow> c = CHR '' '' \<or> 9 \<le> (of_char c :: nat) \<and> (of_char c :: nat) \<le> 13"

definition is_digit :: "char \<Rightarrow> bool" where
  "is_digit c \<longleftrightarrow> 48 \<le> (of_char c :: nat) \<and> (of_char c :: nat) \<le> 57"

fun digits_value :: "nat \<Rightarrow> string \<Rightarrow> nat" where
  "digits_value n [] = n"
| "digits_value n (c # s) = (if is_digit c then digits_value (10 * n + (of_char c - 48)) s else n)"

text \<open>\<^verbatim>\<open>std::atoi\<close>: white space, a sign, digits; a value outside of \<^verbatim>\<open>int\<close> is undefined behaviour.\<close>

definition atoi :: "string \<Rightarrow> int res" where
  "atoi s =
     (let s1 = dropWhile is_space s in
      if s1 \<noteq> [] \<and> hd s1 = CHR ''-'' then int32 (- int (digits_value 0 (tl s1)))
      else if s1 \<noteq> [] \<and> hd s1 = CHR ''+'' then int32 (int (digits_value 0 (tl s1)))
      else int32 (int (digits_value 0 s1)))"

text \<open>\<^verbatim>\<open>argv[i]\<close>: the arguments are followed by a null pointer, and by nothing.\<close>

definition argument :: "string list \<Rightarrow> nat \<Rightarrow> string res" where
  "argument argv i = (if i < length argv then Inr (argv ! i) else if i = length argv then Inl NullDeref else Inl OutOfBounds)"

text \<open>One turn of the loop over the arguments: five of them for each ticker, in order.\<close>

definition parse_ticker :: "(string \<Rightarrow> double) \<Rightarrow> string list \<Rightarrow> nat \<Rightarrow> TradeEngineConfig res" where
  "parse_ticker atof argv i =
     bindE (bindE (argument argv i) atoi) (\<lambda>clip0.
     bindE (argument argv (i + 1)) (\<lambda>threshold0.
     bindE (bindE (argument argv (i + 2)) atoi) (\<lambda>size0.
     bindE (bindE (argument argv (i + 3)) atoi) (\<lambda>position0.
     bindE (argument argv (i + 4)) (\<lambda>loss0.
     Inr \<lparr>clip = word_of_int clip0, threshold = atof threshold0,
          te_risk_config = \<lparr>max_order_size = word_of_int size0, max_position = word_of_int position0, max_loss = atof loss0\<rparr>\<rparr>)))))"

text \<open>The loop; every turn takes five arguments, so there are no more turns than arguments.\<close>

fun parse_config :: "(string \<Rightarrow> double) \<Rightarrow> string list \<Rightarrow> nat \<Rightarrow> nat \<Rightarrow> nat \<Rightarrow> (nat \<Rightarrow> TradeEngineConfig) \<Rightarrow>
    (nat \<Rightarrow> TradeEngineConfig) res" where
  "parse_config atof argv 0 i next_ticker_id cfg = Inr cfg"
| "parse_config atof argv (Suc turns) i next_ticker_id cfg =
     (if i < length argv
      then bindE (parse_ticker atof argv i) (\<lambda>c.
           bindE (arr_set MATCHING_ENGINE_MAX_TICKERS cfg next_ticker_id c) (\<lambda>cfg'.
           parse_config atof argv turns (i + 5) (next_ticker_id + 1) cfg'))
      else Inr cfg)"

record trading_arguments =
  arg_client_id :: ClientID
  arg_algo_type :: AlgoType
  arg_ticker_config :: "nat \<Rightarrow> TradeEngineConfig"

definition parse_arguments :: "(string \<Rightarrow> double) \<Rightarrow> string list \<Rightarrow> trading_arguments res" where
  "parse_arguments atof argv =
     bindE (bindE (argument argv 1) atoi) (\<lambda>client_id.
     bindE (argument argv 2) (\<lambda>algo.
     bindE (parse_config atof argv (length argv) 3 0 (\<lambda>_. default_config)) (\<lambda>cfg.
     Inr \<lparr>arg_client_id = word_of_int client_id, arg_algo_type = stringToAlgoType algo, arg_ticker_config = cfg\<rparr>)))"

subsection \<open>The random order flow\<close>

definition base_prices :: "(nat \<Rightarrow> nat) \<Rightarrow> nat \<Rightarrow> Price" where
  "base_prices rnd t = int (rnd t mod 100) + 100"

record random_flow =
  rf_order_id :: OrderID
  client_requests_storage :: "MatchingEngineClientRequest list"
  rf_requests :: ClientRequestLFQueue

definition random_order :: "ClientID \<Rightarrow> (nat \<Rightarrow> Price) \<Rightarrow> (nat \<Rightarrow> nat) \<Rightarrow> OrderID \<Rightarrow> MatchingEngineClientRequest" where
  "random_order client_id base r order_id =
     (let ticker = r 0 mod MATCHING_ENGINE_MAX_TICKERS in
      \<lparr>rq_type = CRQ_NEW, rq_client_id = client_id, rq_ticker_id = of_nat ticker, rq_order_id = order_id,
       rq_side = (if r 3 mod 2 \<noteq> 0 then Side_BUY else Side_SELL), rq_price = base ticker + int (r 1 mod 10) + 1,
       rq_quantity = of_nat (1 + r 2 mod 100 + 1)\<rparr>)"

text \<open>The body of the loop: a new order, and the cancel of one of the orders sent so far.\<close>

definition random_round :: "ClientID \<Rightarrow> (nat \<Rightarrow> Price) \<Rightarrow> (nat \<Rightarrow> nat) \<Rightarrow> random_flow \<Rightarrow> random_flow" where
  "random_round client_id base r s =
     (let new_request = random_order client_id base r (rf_order_id s);
          q1 = sendClientRequest new_request (rf_requests s);
          storage = client_requests_storage s @ [new_request];
          cxl_request = (storage ! (r 4 mod length storage))\<lparr>rq_type := CRQ_CANCEL\<rparr>
      in \<lparr>rf_order_id = rf_order_id s + 1, client_requests_storage = storage, rf_requests = sendClientRequest cxl_request q1\<rparr>)"

definition silent_limit :: nat where
  "silent_limit = 60"

fun random_loop :: "ClientID \<Rightarrow> (nat \<Rightarrow> Price) \<Rightarrow> (nat \<Rightarrow> nat) \<Rightarrow> (nat \<Rightarrow> nat) \<Rightarrow> nat \<Rightarrow> nat \<Rightarrow> random_flow \<Rightarrow> random_flow" where
  "random_loop client_id base rnd silent 0 i s = s"
| "random_loop client_id base rnd silent (Suc n) i s =
     (let s1 = random_round client_id base (\<lambda>k. rnd (5 * i + k)) s in
      if silent_limit \<le> silent i then s1 else random_loop client_id base rnd silent n (i + 1) s1)"

text \<open>The first eight values of \<^verbatim>\<open>rand()\<close> are the base prices.\<close>

definition random_orders :: "ClientID \<Rightarrow> (nat \<Rightarrow> nat) \<Rightarrow> (nat \<Rightarrow> nat) \<Rightarrow> ClientRequestLFQueue \<Rightarrow> random_flow" where
  "random_orders client_id rnd silent q =
     random_loop client_id (base_prices rnd) (\<lambda>k. rnd (MATCHING_ENGINE_MAX_TICKERS + k)) silent 10000 0
       \<lparr>rf_order_id = ucast (client_id * 1000), client_requests_storage = [], rf_requests = q\<rparr>"

end
