(* ===== verification/ThreadStart.thy ===== *)
theory ThreadStart
  imports Prelude
begin

section \<open>Starting a thread\<close>

text \<open>
  \<^verbatim>\<open>common/ThreadUtil.hpp\<close>: \<^verbatim>\<open>createAndStartThread\<close> starts a thread, waits until it reports that it runs or
  has failed to move to its core, and returns. The two threads are interleaved by a step relation. The body of
  the new thread captures everything by reference, the flags and the function to run included; they live in
  the frame of the call, until it returns.
\<close>

subsection \<open>The two threads\<close>

datatype thread_pc = Thread_begins | Thread_reports | Thread_calls | Thread_runs | Thread_ended

text \<open>\<open>Main_returned b\<close>: the call has returned, a pointer to the thread if \<open>b\<close>, else the null pointer.\<close>

datatype main_pc = Main_checks | Main_sleeps | Main_returned bool

text \<open>\<open>frame\<close> says whether the frame of the call still exists, \<open>dangling\<close> whether the new thread used it after its end.\<close>

record start_state =
  running :: bool
  failed :: bool
  thread_at :: thread_pc
  main_at :: main_pc
  frame :: bool
  dangling :: bool

definition createAndStartThread :: start_state where
  "createAndStartThread =
     \<lparr>running = False, failed = False, thread_at = Thread_begins, main_at = Main_checks, frame = True, dangling = False\<rparr>"

text \<open>\<open>pinned\<close> is the answer of \<^verbatim>\<open>setThreadCore\<close>, asked only for a core that is not negative.\<close>

definition affinity_fails :: "int \<Rightarrow> bool \<Rightarrow> bool" where
  "affinity_fails core_id pinned \<longleftrightarrow> core_id \<ge> 0 \<and> \<not> pinned"

inductive thread_step :: "int \<Rightarrow> bool \<Rightarrow> start_state \<Rightarrow> start_state \<Rightarrow> bool" for core_id pinned where
  fails: "thread_at s = Thread_begins \<Longrightarrow> affinity_fails core_id pinned \<Longrightarrow>
    thread_step core_id pinned s (s\<lparr>failed := True, thread_at := Thread_ended, dangling := dangling s \<or> \<not> frame s\<rparr>)"
| prints: "thread_at s = Thread_begins \<Longrightarrow> \<not> affinity_fails core_id pinned \<Longrightarrow>
    thread_step core_id pinned s (s\<lparr>thread_at := Thread_reports, dangling := dangling s \<or> \<not> frame s\<rparr>)"
| reports: "thread_at s = Thread_reports \<Longrightarrow>
    thread_step core_id pinned s (s\<lparr>running := True, thread_at := Thread_calls, dangling := dangling s \<or> \<not> frame s\<rparr>)"
| calls: "thread_at s = Thread_calls \<Longrightarrow>
    thread_step core_id pinned s (s\<lparr>thread_at := Thread_runs, dangling := dangling s \<or> \<not> frame s\<rparr>)"

text \<open>The caller: the loop on the two flags, then the join of a failed thread and the return.\<close>

inductive main_step :: "start_state \<Rightarrow> start_state \<Rightarrow> bool" where
  waits: "main_at s = Main_checks \<Longrightarrow> \<not> running s \<Longrightarrow> \<not> failed s \<Longrightarrow> main_step s (s\<lparr>main_at := Main_sleeps\<rparr>)"
| wakes: "main_at s = Main_sleeps \<Longrightarrow> main_step s (s\<lparr>main_at := Main_checks\<rparr>)"
| returns_null: "main_at s = Main_checks \<Longrightarrow> failed s \<Longrightarrow> thread_at s = Thread_ended \<Longrightarrow>
    main_step s (s\<lparr>main_at := Main_returned False, frame := False\<rparr>)"
| returns_thread: "main_at s = Main_checks \<Longrightarrow> running s \<Longrightarrow> \<not> failed s \<Longrightarrow>
    main_step s (s\<lparr>main_at := Main_returned True, frame := False\<rparr>)"

inductive start_reach :: "int \<Rightarrow> bool \<Rightarrow> start_state \<Rightarrow> bool" for core_id pinned where
  initial: "start_reach core_id pinned createAndStartThread"
| thread: "start_reach core_id pinned s \<Longrightarrow> thread_step core_id pinned s s' \<Longrightarrow> start_reach core_id pinned s'"
| main: "start_reach core_id pinned s \<Longrightarrow> main_step s s' \<Longrightarrow> start_reach core_id pinned s'"

subsection \<open>What the caller gets\<close>

definition start_inv :: "int \<Rightarrow> bool \<Rightarrow> start_state \<Rightarrow> bool" where
  "start_inv core_id pinned s \<longleftrightarrow>
     (running s \<longleftrightarrow> thread_at s = Thread_calls \<or> thread_at s = Thread_runs) \<and>
     (failed s \<longleftrightarrow> thread_at s = Thread_ended) \<and>
     (thread_at s \<noteq> Thread_begins \<longrightarrow> (thread_at s = Thread_ended \<longleftrightarrow> affinity_fails core_id pinned)) \<and>
     (frame s \<longleftrightarrow> \<not> (\<exists>h. main_at s = Main_returned h)) \<and>
     (\<forall>h. main_at s = Main_returned h \<longrightarrow> (if h then running s else failed s))"

lemma start_reach_inv:
  assumes "start_reach core_id pinned s"
  shows "start_inv core_id pinned s"
  using assms
proof (induction rule: start_reach.induct)
  case initial
  show ?case by (simp add: start_inv_def createAndStartThread_def)
next
  case (thread s s')
  from thread(2,3) show ?case by (cases rule: thread_step.cases) (auto simp: start_inv_def split: if_splits)
next
  case (main s s')
  from main(2,3) show ?case by (cases rule: main_step.cases) (auto simp: start_inv_def)
qed

text \<open>The null pointer means that the thread could not be moved to its core, and nothing else. In every
  interleaving the caller that has returned holds a null pointer exactly if the affinity call failed; it then has
  joined the thread, and otherwise the thread has reported that it runs.\<close>

theorem createAndStartThread_result:
  assumes "start_reach core_id pinned s" and "main_at s = Main_returned h"
  shows "(h \<longleftrightarrow> \<not> affinity_fails core_id pinned) \<and>
    (if h then running s \<and> \<not> failed s else thread_at s = Thread_ended)"
  using start_reach_inv [OF assms(1)] assms(2) by (cases h) (auto simp: start_inv_def)

text \<open>A caller that waits can always still return.\<close>

lemma main_can_return:
  assumes "start_reach core_id pinned s"
  shows "\<exists>s' h. start_reach core_id pinned s' \<and> main_at s' = Main_returned h"
proof -
  have ret: "\<exists>s' h. start_reach core_id pinned s' \<and> main_at s' = Main_returned h"
    if s: "start_reach core_id pinned s" "running s \<or> failed s" "main_at s = Main_checks" for s
  proof (cases "failed s")
    case True
    then have "main_step s (s\<lparr>main_at := Main_returned False, frame := False\<rparr>)"
      using start_reach_inv [OF s(1)] s(3) by (intro returns_null) (auto simp: start_inv_def)
    from main [OF s(1) this] show ?thesis by force
  next
    case False
    with s have "main_step s (s\<lparr>main_at := Main_returned True, frame := False\<rparr>)"
      by (intro returns_thread) auto
    from main [OF s(1) this] show ?thesis by force
  qed
  have report: "\<exists>s'. start_reach core_id pinned s' \<and> (running s' \<or> failed s') \<and> main_at s' = main_at s"
    if s: "start_reach core_id pinned s" for s
  proof (cases "thread_at s")
    case Thread_begins
    show ?thesis
    proof (cases "affinity_fails core_id pinned")
      case True
      from thread [OF s fails [OF Thread_begins True]] show ?thesis by force
    next
      case False
      note s1 = thread [OF s prints [OF Thread_begins False]]
      from thread [OF s1 reports] show ?thesis by force
    qed
  next
    case Thread_reports
    from thread [OF s reports [OF this]] show ?thesis by force
  qed (use start_reach_inv [OF s] s in \<open>auto simp: start_inv_def\<close>)
  obtain s1 where s1: "start_reach core_id pinned s1" "running s1 \<or> failed s1" using report [OF assms] by blast
  show ?thesis
  proof (cases "main_at s1")
    case Main_checks
    with ret s1 show ?thesis by blast
  next
    case Main_sleeps
    from ret [OF main [OF s1(1) wakes [OF this]]] s1(2) show ?thesis by simp
  qed (use s1(1) in blast)
qed

text \<open>An interleaving in which the caller is faster than the thread it has started.\<close>

definition returned_early :: start_state where
  "returned_early = createAndStartThread\<lparr>running := True, thread_at := Thread_calls, main_at := Main_returned True, frame := False\<rparr>"

lemma returned_early_reach: "start_reach (- 1) pinned returned_early"
proof -
  have "\<not> affinity_fails (- 1) pinned" by (simp add: affinity_fails_def)
  then have s1: "start_reach (- 1) pinned (createAndStartThread\<lparr>thread_at := Thread_reports\<rparr>)"
    using thread [OF initial prints, of "- 1" pinned] by (simp add: createAndStartThread_def)
  have s2: "start_reach (- 1) pinned (createAndStartThread\<lparr>running := True, thread_at := Thread_calls\<rparr>)"
    using thread [OF s1 reports] by (simp add: createAndStartThread_def)
  show ?thesis using main [OF s2 returns_thread] by (simp add: createAndStartThread_def returned_early_def)
qed

theorem createAndStartThread_result_witness:
  "start_reach (- 1) False returned_early \<and> main_at returned_early = Main_returned True \<and>
   running returned_early \<and> \<not> failed returned_early"
  using createAndStartThread_result [OF returned_early_reach [of False], of True]
  by (simp add: returned_early_reach) (simp add: returned_early_def)

text \<open>
  The thread may find the frame gone: after it has set \<open>running\<close> and before it has taken the function to
  run out of the frame of the caller, the caller may return.
\<close>

lemma thread_function_may_dangle:
  "\<exists>s. start_reach (- 1) pinned s \<and> thread_at s = Thread_runs \<and> dangling s"
  using thread [OF returned_early_reach calls, of pinned]
  by (force simp: returned_early_def createAndStartThread_def)

end
