(* ===== verification/MainPrograms.thy ===== *)
theory MainPrograms
  imports BookPrintProps SocketUtil Logging TradingMain ThreadStart MarketProps ConsumerProps Gateway "HOL-Library.Signed_Division"
begin

section \<open>The two programs: start and shutdown\<close>

text \<open>
  \<^verbatim>\<open>exchange/exchange_main.cc\<close> and \<^verbatim>\<open>trading/trading_main.cc\<close>: the queues, the components in the order they are
  made and started, the addresses they are given, and what happens when they are deleted. A queue that two
  components share appears in both of their states. Threads are started on no particular core, which cannot
  fail (theory \<open>ThreadStart\<close>); sleeping is left out.
\<close>

subsection \<open>The exchange\<close>

record exchange =
  x_matching_engine :: matching_engine
  x_market_data_publisher :: publisher
  x_snapshot_synthesizer :: synthesizer
  x_order_server :: order_server

definition start_thread :: "bool \<Rightarrow> string \<Rightarrow> unit res" where
  "start_thread pinned msg = ASSERT (\<not> affinity_fails (- 1) pinned) msg"

definition client_request_queue :: ClientRequestLFQueue where
  "client_request_queue = LockFreeQueue default_request MATCHING_ENGINE_MAX_CLIENT_UPDATES"

definition client_response_queue :: "nat \<Rightarrow> ClientResponseLFQueue" where
  "client_response_queue n = LockFreeQueue default_response n"

definition market_update_queue :: MarketUpdateLFQueue where
  "market_update_queue = LockFreeQueue default_update MATCHING_ENGINE_MAX_MARKET_UPDATES"

definition lo :: string where
  "lo = ''lo''"

text \<open>Host and port of the streams and of the order server, as each program has them.\<close>

definition exchange_snapshot_address :: "string \<times> int" where
  "exchange_snapshot_address = (''233.252.14.1'', 20000)"

definition exchange_incremental_address :: "string \<times> int" where
  "exchange_incremental_address = (''233.252.14.5'', 20002)"

definition exchange_order_port :: int where
  "exchange_order_port = 12345"

text \<open>The constructor of \<^verbatim>\<open>MarketDataPublisher\<close>, with the synthesizer it makes.\<close>

definition make_publisher :: "network \<Rightarrow> MarketUpdateLFQueue \<Rightarrow> string \<Rightarrow> string \<times> int \<Rightarrow> string \<times> int \<Rightarrow>
    (publisher \<times> synthesizer) res" where
  "make_publisher net updates iface snapshot incremental =
     bindE (McastSocket_init net (fst incremental) iface (snd incremental) False (new_socket (- 1))) (\<lambda>(fd, _).
     bindE (MarketDataPublisher updates fd) (\<lambda>p.
     bindE (McastSocket_init net (fst snapshot) iface (snd snapshot) False (new_socket (- 1))) (\<lambda>(fd', _).
     bindE (SnapshotSynthesizer (snapshot_market_updates p) fd') (\<lambda>s.
     Inr (p, s)))))"

text \<open>\<^verbatim>\<open>OrderServer::start\<close>; \<open>epoll_fd\<close> and \<open>ctl\<close> are what \<^verbatim>\<open>epoll_create\<close> and \<^verbatim>\<open>epoll_ctl\<close> answer.\<close>

definition order_server_start :: "network \<Rightarrow> int \<Rightarrow> int \<Rightarrow> bool \<Rightarrow> string \<Rightarrow> int \<Rightarrow> order_server \<Rightarrow> order_server res" where
  "order_server_start net epoll_fd ctl pinned iface port s =
     bindE (TCPServer_listen net epoll_fd ctl iface port (sockets s (listener_socket s))) (\<lambda>listener.
     bindE (start_thread pinned ''Failed to start OrderServer thread.'') (\<lambda>_.
     Inr (put_socket (listener_socket s) listener s)))"

definition exchange_main :: "network \<Rightarrow> int \<Rightarrow> int \<Rightarrow> bool \<Rightarrow> exchange res" where
  "exchange_main net epoll_fd ctl pinned =
     (let client_request = client_request_queue;
          client_response = client_response_queue MATCHING_ENGINE_MAX_CLIENT_UPDATES;
          market_update = market_update_queue;
          engine = start (MatchingEngine client_request
                     \<lparr>outgoing_responses = client_response, outgoing_market_updates = market_update\<rparr>)
      in
      bindE (start_thread pinned ''Failed to start Matching Engine thread.'') (\<lambda>_.
      bindE (make_publisher net market_update lo exchange_snapshot_address exchange_incremental_address) (\<lambda>(p, s).
      bindE (start_thread pinned ''Failed to start Market Data thread.'') (\<lambda>_.
      bindE (start_thread pinned ''Failed to start SnapshotSynthesizer thread.'') (\<lambda>_.
      bindE (order_server_start net epoll_fd ctl pinned lo exchange_order_port (OrderServer client_request client_response)) (\<lambda>srv.
      Inr \<lparr>x_matching_engine = engine, x_market_data_publisher = p, x_snapshot_synthesizer = s, x_order_server = srv\<rparr>))))))"

subsection \<open>The end of the exchange\<close>

text \<open>\<^verbatim>\<open>~MatchingEngine\<close>: the books of the tickers \<open>ts\<close>, one after the other.\<close>

definition delete_book :: "nat \<Rightarrow> matching_engine \<Rightarrow> matching_engine res" where
  "delete_book t e =
     bindE (delete_order_book (matching_engine.ticker_order_book e t)) (\<lambda>(_, b).
     Inr (e\<lparr>matching_engine.ticker_order_book := (matching_engine.ticker_order_book e)(t := b)\<rparr>))"

definition delete_matching_engine :: "matching_engine \<Rightarrow> matching_engine res" where
  "delete_matching_engine e = fold_res delete_book [0..<MATCHING_ENGINE_MAX_TICKERS] (stop e)"

text \<open>Publisher, synthesizer and order server are only stopped; they hold nothing that is checked at the end.\<close>

definition signal_handler :: "logger \<Rightarrow> exchange \<Rightarrow> (logger \<times> exchange) res" where
  "signal_handler l x =
     bindE (delete_logger l) (\<lambda>l'.
     bindE (delete_matching_engine (x_matching_engine x)) (\<lambda>e.
     Inr (l', x\<lparr>x_matching_engine := e\<rparr>)))"

subsection \<open>The trading program\<close>

record trading =
  t_trade_engine :: trade_engine
  t_order_gateway :: gateway
  t_market_data_consumer :: consumer

definition client_snapshot_address :: "string \<times> int" where
  "client_snapshot_address = (''233.252.14.1'', 20000)"

definition client_incremental_address :: "string \<times> int" where
  "client_incremental_address = (''233.252.14.3'', 20001)"

definition order_gateway_address :: "string \<times> int" where
  "order_gateway_address = (''127.0.0.1'', 12345)"

text \<open>\<^verbatim>\<open>OrderGateway::start\<close>.\<close>

definition gateway_start :: "network \<Rightarrow> bool \<Rightarrow> string \<Rightarrow> string \<times> int \<Rightarrow> gateway \<Rightarrow> gateway res" where
  "gateway_start net pinned iface address g =
     bindE (TCPSocket_connect net (fst address) iface (snd address) False (tcp_socket g)) (\<lambda>(fd, sock).
     bindE (ASSERT (fd \<ge> 0) (''Unable to connect to ip: '' @ fst address @ '' port :'' @ to_string_int (snd address) @
       '' on iface : '' @ iface @ '' error: '')) (\<lambda>_.
     bindE (start_thread pinned ''Failed to start order gateway thread.'') (\<lambda>_.
     Inr (put_tcp_socket sock g))))"

text \<open>The constructor of \<^verbatim>\<open>MarketDataConsumer\<close>; the snapshot stream is joined when it is needed.\<close>

definition make_consumer :: "network \<Rightarrow> MarketUpdateLFQueue \<Rightarrow> string \<Rightarrow> string \<times> int \<Rightarrow> consumer res" where
  "make_consumer net updates iface incremental =
     bindE (McastSocket_init net (fst incremental) iface (snd incremental) True (new_socket (- 1))) (\<lambda>(fd, sock).
     MarketDataConsumer updates \<lparr>init_fd = fd, joined = McastSocket_join net (fst incremental) sock\<rparr>)"

definition trading_main :: "(string \<Rightarrow> double) \<Rightarrow> network \<Rightarrow> bool \<Rightarrow> position_keeper \<Rightarrow> string list \<Rightarrow> trading res" where
  "trading_main atof net pinned keeper argv =
     bindE (parse_arguments atof argv) (\<lambda>a.
     let client_requests = client_request_queue;
         client_responses = client_response_queue MATCHING_ENGINE_MAX_MARKET_UPDATES;
         market_updates = market_update_queue;
         engine = TradeEngine (arg_client_id a) (arg_algo_type a) (arg_ticker_config a) keeper
                    client_requests client_responses market_updates
     in
     bindE (start_thread pinned ''Failed to start Trade Engine Thread.'') (\<lambda>_.
     bindE (gateway_start net pinned lo order_gateway_address
              (OrderGateway (arg_client_id a) client_requests client_responses)) (\<lambda>g.
     bindE (make_consumer net market_updates lo client_incremental_address) (\<lambda>c.
     bindE (start_thread pinned ''Failed to start MarketDataConsumer thread'') (\<lambda>_.
     Inr \<lparr>t_trade_engine = engine, t_order_gateway = g, t_market_data_consumer = c\<rparr>)))))"

text \<open>\<^verbatim>\<open>TradeEngine::initLastEventTime\<close> and \<^verbatim>\<open>silentSeconds\<close>, and the loop that waits until nothing happens any more.\<close>

definition initLastEventTime :: "Nanos \<Rightarrow> trade_engine \<Rightarrow> trade_engine" where
  "initLastEventTime now e = e\<lparr>last_event_time := now\<rparr>"

definition silentSeconds :: "Nanos \<Rightarrow> trade_engine \<Rightarrow> Nanos res" where
  "silentSeconds now e = bindE (int64 (now - last_event_time e)) (\<lambda>d. Inr (d sdiv NANOS_TO_SECS))"

fun wait_for_silence :: "nat \<Rightarrow> (nat \<Rightarrow> Nanos) \<Rightarrow> (nat \<Rightarrow> trade_engine) \<Rightarrow> nat \<Rightarrow> nat res" where
  "wait_for_silence 0 clock engine i = Inl Diverges"
| "wait_for_silence (Suc n) clock engine i =
     bindE (silentSeconds (clock i) (engine i)) (\<lambda>secs.
     if secs < int silent_limit then wait_for_silence n clock engine (i + 1) else Inr i)"

text \<open>\<^verbatim>\<open>~TradeEngine\<close>.\<close>

definition delete_client_book :: "nat \<Rightarrow> trade_engine \<Rightarrow> trade_engine res" where
  "delete_client_book t e =
     bindE (delete_market_order_book (trade_engine.ticker_order_book e t)) (\<lambda>(_, b).
     Inr (e\<lparr>trade_engine.ticker_order_book := (trade_engine.ticker_order_book e)(t := b)\<rparr>))"

definition delete_trade_engine :: "trade_engine \<Rightarrow> trade_engine res" where
  "delete_trade_engine e = fold_res delete_client_book [0..<MATCHING_ENGINE_MAX_TICKERS] e"

end
