(* ===== verification/RandomFlow.thy ===== *)
theory RandomFlow
  imports TradingMain MarketProps
begin

section \<open>The random order flow against the exchange\<close>

text \<open>
  The orders \<^verbatim>\<open>trading_main\<close> enters at random are requests the matching engine can handle, whatever the
  values of \<^verbatim>\<open>rand()\<close>: the identifiers of new orders count up, and all prices lie in a range that is narrower
  than the table of prices.
\<close>

subsection \<open>The books such orders leave\<close>

definition random_prices :: "Price set" where
  "random_prices = {101..209}"

definition resting_ok :: "nat \<Rightarrow> nat \<Rightarrow> book \<Rightarrow> bool" where
  "resting_ok N n v \<longleftrightarrow> book_wf v \<and> prices (v Side_BUY) \<subseteq> random_prices \<and> prices (v Side_SELL) \<subseteq> random_prices \<and>
     length (book_orders v) \<le> n \<and> (\<forall>x\<in>set (book_orders v). unat (o_client_order_id x) < N)"

lemma resting_side:
  assumes "trading_side sd"
  shows "resting_ok N n v \<longleftrightarrow> book_wf v \<and> prices (v sd) \<subseteq> random_prices \<and> prices (v (opposite sd)) \<subseteq> random_prices \<and>
     length (all_orders (v sd)) + length (all_orders (v (opposite sd))) \<le> n \<and>
     (\<forall>x\<in>set (all_orders (v sd)) \<union> set (all_orders (v (opposite sd))). unat (o_client_order_id x) < N)"
  using assms by (auto simp: resting_ok_def book_orders_def trading_side_def)

lemma length_enqueue: "length (all_orders (enqueue sd p x ls)) = Suc (length (all_orders ls))"
  using arg_cong [OF mset_enqueue [of sd p x ls], of size] by simp

lemma resting_new:
  assumes ok: "resting_ok N n v" and sd: "trading_side sd" and p: "p \<in> random_prices" and id: "unat coid = N"
  shows "resting_ok (Suc N) (Suc n) (spec_add cid coid tid sd p qty m0 v)"
proof -
  obtain fs rest leaves where m: "spec_match sd p qty (v (opposite sd)) = (fs, rest, leaves)" by (metis prod_cases3)
  note old = ok [unfolded resting_side [OF sd]]
  have rest: "prices rest \<subseteq> random_prices" "length (all_orders rest) \<le> length (all_orders (v (opposite sd)))"
    using spec_match_facts(3,4) [OF m] old by auto
  have "o_client_order_id ` set (all_orders rest) \<subseteq> o_client_order_id ` set (all_orders (v (opposite sd)))"
    by (rule spec_match_ids(2) [OF m]) simp
  then have ids: "unat (o_client_order_id x) < N" if "x \<in> set (all_orders rest)" for x
    using that old by fastforce
  have wf: "book_wf (spec_add cid coid tid sd p qty m0 v)" using old by (intro spec_add_wf [OF _ sd]) simp
  show ?thesis
  proof (cases "leaves = 0")
    case True
    then have v': "spec_add cid coid tid sd p qty m0 v = v(opposite sd := rest)" by (simp add: spec_add_def m)
    show ?thesis
      unfolding resting_side [OF sd] v' using wf [unfolded v'] old rest ids sd by (fastforce simp: less_Suc_eq)
  next
    case False
    let ?x = "new_order cid coid tid sd p leaves m0 (next_priority p (v sd))"
    have v': "spec_add cid coid tid sd p qty m0 v = (v(opposite sd := rest))(sd := enqueue sd p ?x (v sd))"
      using False by (simp add: spec_add_def m)
    have "o_client_order_id ?x = coid" by (simp add: new_order_def)
    then show ?thesis
      unfolding resting_side [OF sd] v' using wf [unfolded v'] old rest ids sd p id
      by (auto simp: length_enqueue all_orders_enqueue prices_enqueue less_Suc_eq)
  qed
qed

lemma resting_cancel:
  assumes ok: "resting_ok N n v"
  shows "resting_ok N n (spec_cancel cid coid v)"
proof (cases "spec_find cid coid v")
  case None
  then show ?thesis using ok by (simp add: spec_cancel_def)
next
  case (Some x)
  have wf: "book_wf v" using ok by (simp add: resting_ok_def)
  note sd = spec_find_side(1) [OF wf Some]
  let ?r = "remove_where (has_key cid coid) (v (o_side x))"
  have v': "spec_cancel cid coid v = v(o_side x := ?r)" by (simp add: spec_cancel_def Some)
  show ?thesis
    using spec_cancel_wf [OF wf, of cid coid] ok sd remove_where_prices [of "has_key cid coid" "v (o_side x)"]
    unfolding resting_side [OF sd] v'
    by (auto simp: all_orders_remove_where intro: order_trans [OF add_right_mono [OF length_filter_le]])
qed

lemma resting_room:
  assumes "resting_ok N n v" and "n + 2 \<le> MATCHING_ENGINE_MAX_ORDER_IDS"
  shows "has_room v"
proof -
  have "length ls \<le> 109" if "side_wf sd ls" "prices ls \<subseteq> random_prices" for sd and ls :: "MatchingEngineOrder book_side"
  proof -
    have "distinct (map fst ls)"
      using that(1) by (induction ls) (auto simp: side_wf_def better_def split: if_splits)
    then have "length ls = card (prices ls)" using distinct_card [of "map fst ls"] by (simp add: prices_def)
    also have "\<dots> \<le> card random_prices" using that(2) by (intro card_mono) (simp_all add: random_prices_def)
    finally show ?thesis by (simp add: random_prices_def)
  qed
  from this [of Side_BUY "v Side_BUY"] this [of Side_SELL "v Side_SELL"] show ?thesis
    using assms by (simp add: has_room_def resting_ok_def book_wf_def book_orders_def limit_defs)
qed

lemma random_slot:
  assumes "p \<in> random_prices" and "prices ls \<subseteq> random_prices"
  shows "slot_free p ls"
proof -
  have "q = p" if "q \<in> random_prices" "priceToIndex q = priceToIndex p" for q
    using that assms(1) by (auto simp: random_prices_def priceToIndex_def limit_defs nat_less_iff)
  then show ?thesis using assms(2) unfolding slot_free_def by blast
qed

subsection \<open>A flow of requests\<close>

text \<open>New orders with identifiers counting up from \<open>N\<close>, and cancels, all within the tables.\<close>

fun flow :: "nat \<Rightarrow> MatchingEngineClientRequest list \<Rightarrow> bool" where
  "flow N [] = True"
| "flow N (r # rs) \<longleftrightarrow>
     ticker_of r < MATCHING_ENGINE_MAX_TICKERS \<and> unat (rq_client_id r) < MATCHING_ENGINE_MAX_NUM_CLIENTS \<and>
     unat (rq_order_id r) < MATCHING_ENGINE_MAX_ORDER_IDS \<and>
     (case rq_type r of
        CRQ_NEW \<Rightarrow> unat (rq_order_id r) = N \<and> trading_side (rq_side r) \<and> rq_price r \<in> random_prices \<and> flow (Suc N) rs
      | CRQ_CANCEL \<Rightarrow> flow N rs
      | CRQ_INVALID \<Rightarrow> False)"

lemma resting_admissible:
  assumes ok: "resting_ok N n (fst s)" and f: "flow N (r # rs)" and room: "n + 2 \<le> MATCHING_ENGINE_MAX_ORDER_IDS"
  shows "admissible r s \<and> (\<exists>N' n'. n' \<le> Suc n \<and> N \<le> N' \<and> n \<le> n' \<and> resting_ok N' n' (fst (spec_request r s)) \<and> flow N' rs)"
proof (cases s)
  case (Pair v n0)
  show ?thesis
  proof (cases "rq_type r")
    case CRQ_NEW
    then have r: "trading_side (rq_side r)" "rq_price r \<in> random_prices" "unat (rq_order_id r) = N" "flow (Suc N) rs"
      using f by simp_all
    have v: "resting_ok N n v" using ok Pair by simp
    then have "prices (v Side_BUY) \<subseteq> random_prices" "prices (v Side_SELL) \<subseteq> random_prices"
      by (simp_all add: resting_ok_def)
    then have "slot_free (rq_price r) (v Side_BUY)" "slot_free (rq_price r) (v Side_SELL)"
      by (auto intro: random_slot [OF r(2)])
    moreover have "spec_find (rq_client_id r) (rq_order_id r) v = None"
    proof -
      have "unat (o_client_order_id x) < unat (rq_order_id r)" if "x \<in> set (book_orders v)" for x
        using v r(3) that by (simp add: resting_ok_def)
      then have "\<not> has_key (rq_client_id r) (rq_order_id r) x" if "x \<in> set (book_orders v)" for x
        using that by (metis has_key_def less_irrefl)
      then show ?thesis by (auto simp: spec_find_None book_orders_def)
    qed
    moreover have "resting_ok (Suc N) (Suc n) (fst (spec_request r s))"
      using resting_new [OF v r(1,2,3)] CRQ_NEW Pair by simp
    ultimately show ?thesis
      using f r resting_room [OF v room] CRQ_NEW Pair by (intro conjI exI [of _ "Suc N"] exI [of _ "Suc n"]) simp_all
  next
    case CRQ_CANCEL
    then have "resting_ok N n (fst (spec_request r s))" "flow N rs"
      using resting_cancel [of N n v "rq_client_id r" "rq_order_id r"] ok f Pair by simp_all
    then show ?thesis using f CRQ_CANCEL Pair by (intro conjI exI [of _ N] exI [of _ n]) simp_all
  qed (use f in simp)
qed

lemma resting_mono: "resting_ok N n v \<Longrightarrow> N \<le> N' \<Longrightarrow> n \<le> n' \<Longrightarrow> resting_ok N' n' v"
  by (fastforce simp: resting_ok_def)

lemma flow_admissible:
  assumes "flow N rs" and "\<forall>t. resting_ok N n (fst (S t))" and "n + length rs + 2 \<le> MATCHING_ENGINE_MAX_ORDER_IDS"
  shows "engine_admissible rs S"
  using assms
proof (induction rs arbitrary: N n S)
  case (Cons r rs)
  from resting_admissible [OF spec [OF Cons.prems(2)] Cons.prems(1), of "ticker_of r"] Cons.prems(3)
  obtain N' n' where r: "admissible r (S (ticker_of r))" "n' \<le> Suc n" "N \<le> N'" "n \<le> n'"
      "resting_ok N' n' (fst (spec_request r (S (ticker_of r))))" "flow N' rs" by auto
  have "\<forall>t. resting_ok N' n' (fst (engine_step r S t))"
    using r(5) resting_mono [OF spec [OF Cons.prems(2)] r(3,4)] by (simp add: engine_step_def)
  with Cons.IH [OF r(6), of n' "engine_step r S"] r(1,2) Cons.prems show ?case by simp
qed simp

subsection \<open>The program's requests\<close>

definition storage_ok :: "MatchingEngineClientRequest list \<Rightarrow> bool" where
  "storage_ok st \<longleftrightarrow> (\<forall>r\<in>set st. ticker_of r < MATCHING_ENGINE_MAX_TICKERS \<and>
     unat (rq_client_id r) < MATCHING_ENGINE_MAX_NUM_CLIENTS \<and> unat (rq_order_id r) < MATCHING_ENGINE_MAX_ORDER_IDS)"

lemma random_order_ok:
  assumes "\<forall>t. base t \<in> {100..199}"
  shows "ticker_of (random_order client_id base r k) < MATCHING_ENGINE_MAX_TICKERS"
    "trading_side (rq_side (random_order client_id base r k))" "rq_price (random_order client_id base r k) \<in> random_prices"
    "rq_client_id (random_order client_id base r k) = client_id" "rq_order_id (random_order client_id base r k) = k"
    "rq_type (random_order client_id base r k) = CRQ_NEW"
proof -
  have "int (r 1 mod 10) < 10" by simp
  then show "rq_price (random_order client_id base r k) \<in> random_prices"
    using spec [OF assms, of "r 0 mod MATCHING_ENGINE_MAX_TICKERS"] by (auto simp: random_order_def random_prices_def Let_def)
  have "r 0 mod 8 < 8" by simp
  then have "unat (word_of_nat (r 0 mod 8) :: TickerID) = r 0 mod 8" by (simp add: unat_of_nat take_bit_nat_eq_self)
  then show "ticker_of (random_order client_id base r k) < MATCHING_ENGINE_MAX_TICKERS"
    by (simp add: random_order_def limit_defs Let_def)
qed (simp_all add: random_order_def Let_def)

lemma random_round_flow:
  assumes base: "\<forall>t. base t \<in> {100..199}" and cid: "unat client_id < MATCHING_ENGINE_MAX_NUM_CLIENTS"
    and id: "unat (rf_order_id s) < MATCHING_ENGINE_MAX_ORDER_IDS" and st: "storage_ok (client_requests_storage s)"
  shows "\<exists>a c. rf_requests (random_round client_id base r s) = lf_push_all (rf_requests s) [a, c] \<and>
    storage_ok (client_requests_storage (random_round client_id base r s)) \<and>
    unat (rf_order_id (random_round client_id base r s)) = Suc (unat (rf_order_id s)) \<and>
    (\<forall>rs. flow (Suc (unat (rf_order_id s))) rs \<longrightarrow> flow (unat (rf_order_id s)) (a # c # rs))"
proof -
  let ?a = "random_order client_id base r (rf_order_id s)"
  define st' where "st' = client_requests_storage s @ [?a]"
  let ?c = "(st' ! (r 4 mod length st'))\<lparr>rq_type := CRQ_CANCEL\<rparr>"
  note a = random_order_ok [OF base, of client_id r "rf_order_id s"]
  have ok: "storage_ok st'" using st a cid id by (simp add: storage_ok_def st'_def)
  have "r 4 mod length st' < length st'" by (simp add: st'_def)
  then have "st' ! (r 4 mod length st') \<in> set st'" by simp
  then have c: "flow (Suc (unat (rf_order_id s))) (?c # rs)" if "flow (Suc (unat (rf_order_id s))) rs" for rs
    using ok that by (simp add: storage_ok_def)
  have "unat (rf_order_id s + 1) = Suc (unat (rf_order_id s))"
    using id by (simp add: unat_word_ariths limit_defs)
  moreover have "flow (unat (rf_order_id s)) (?a # ?c # rs)" if "flow (Suc (unat (rf_order_id s))) rs" for rs
    using a cid id c [OF that] unfolding flow.simps(2) [of _ ?a] by (simp only: ClientRequestType.case)
  ultimately show ?thesis
    using ok by (intro exI [of _ ?a] exI [of _ ?c]) (simp add: random_round_def Let_def sendClientRequest_def st'_def)
qed

lemma random_loop_flow:
  assumes base: "\<forall>t. base t \<in> {100..199}" and cid: "unat client_id < MATCHING_ENGINE_MAX_NUM_CLIENTS"
    and "unat (rf_order_id s) + n \<le> MATCHING_ENGINE_MAX_ORDER_IDS" and "storage_ok (client_requests_storage s)"
  shows "\<exists>rs. rf_requests (random_loop client_id base rnd silent n i s) = lf_push_all (rf_requests s) rs \<and>
    length rs \<le> 2 * n \<and> flow (unat (rf_order_id s)) rs"
  using assms(3,4)
proof (induction n arbitrary: i s)
  case 0
  then show ?case by (auto intro!: exI [of _ "[]"])
next
  case (Suc n)
  let ?s = "random_round client_id base (\<lambda>k. rnd (5 * i + k)) s"
  obtain a c where r: "rf_requests ?s = lf_push_all (rf_requests s) [a, c]" "storage_ok (client_requests_storage ?s)"
      "unat (rf_order_id ?s) = Suc (unat (rf_order_id s))"
      "\<forall>rs. flow (Suc (unat (rf_order_id s))) rs \<longrightarrow> flow (unat (rf_order_id s)) (a # c # rs)"
    using random_round_flow [OF base cid, of s "\<lambda>k. rnd (5 * i + k)"] Suc.prems by auto
  obtain rs where rs: "rf_requests (if silent_limit \<le> silent i then ?s else random_loop client_id base rnd silent n (i + 1) ?s) =
      lf_push_all (rf_requests ?s) rs" "length rs \<le> 2 * n" "flow (unat (rf_order_id ?s)) rs"
  proof (cases "silent_limit \<le> silent i")
    case True
    then show ?thesis using that [of "[]"] by simp
  next
    case False
    then show ?thesis using that Suc.IH [of ?s "i + 1"] Suc.prems r by auto
  qed
  then show ?case using r by (intro exI [of _ "a # c # rs"]) (simp add: Let_def)
qed

text \<open>C13: the random order flow never stops the matching engine. Whatever \<^verbatim>\<open>rand()\<close> returns, however long the
  program stays silent, and for every client identifier the exchange knows: run against all requests the program
  queues, the engine returns with its queue empty and every book in the state the specification prescribes; no
  assertion fails, no pool runs out, no table is left and no two prices share a slot.\<close>

theorem random_orders_are_handled:
  assumes "unat client_id < MATCHING_ENGINE_MAX_NUM_CLIENTS" and "lf_inv q" and "lf_contents q = []" and "20000 < lf_capacity q"
    and "requests = rf_requests (random_orders client_id rnd silent q)"
  shows "\<exists>e'. run (length (lf_contents requests)) (start (MatchingEngine requests out)) = Inr e' \<and>
    lf_contents (incoming_requests e') = [] \<and>
    engine_holds e' (fold engine_step (lf_contents requests) empty_market)"
proof -
  let ?s = "\<lparr>rf_order_id = ucast (client_id * 1000), client_requests_storage = [], rf_requests = q\<rparr>"
  have small: "unat client_id * 1000 < 256000" using assms(1) by (simp add: limit_defs)
  then have "unat (client_id * 1000) = unat client_id * 1000" by (simp add: unat_word_ariths)
  then have id: "unat (rf_order_id ?s) = unat client_id * 1000" using small by (simp add: unsigned_ucast_eq take_bit_nat_eq_self)
  have base: "\<forall>t. base_prices rnd t \<in> {100..199}" by (auto simp: base_prices_def)
  obtain rs where rs: "requests = lf_push_all q rs" "length rs \<le> 20000" "flow (unat client_id * 1000) rs"
    using random_loop_flow [OF base assms(1), of ?s 10000 "\<lambda>k. rnd (MATCHING_ENGINE_MAX_TICKERS + k)" silent 0] id small
    unfolding assms(5) random_orders_def by (auto simp: storage_ok_def limit_defs)
  have "lf_count q = 0" using assms(3) length_lf_contents by (metis list.size(3))
  then have contents: "lf_inv requests" "lf_contents requests = rs"
    using lf_push_all_contents [OF assms(2), of rs] rs(1,2) assms(3,4) by auto
  have "\<forall>t. resting_ok (unat client_id * 1000) 0 (fst (empty_market t))"
    by (simp add: resting_ok_def book_wf_def uncrossed_def book_orders_def)
  from flow_admissible [OF rs(3) this] rs(2) have adm: "engine_admissible rs empty_market" by (simp add: limit_defs)
  let ?e = "start (MatchingEngine requests out)"
  have e: "me_is_running ?e" "incoming_requests ?e = requests" by (simp_all add: start_def MatchingEngine_def)
  have "engine_holds ?e empty_market"
    using initial_holds by (simp add: engine_holds_def MatchingEngine_def start_def)
  from run_spec [OF e(1) _ this] contents adm e(2) show ?thesis by auto
qed

theorem random_orders_are_handled_witness:
  "\<exists>requests e'. requests = rf_requests (random_orders 7 (\<lambda>k. 31 * k + 5) (\<lambda>_. 0) (LockFreeQueue default_request 262144)) \<and>
    run (length (lf_contents requests)) (start (MatchingEngine requests ex_out)) = Inr e' \<and>
    lf_contents (incoming_requests e') = []"
proof -
  have "lf_inv (LockFreeQueue default_request 262144)" "lf_contents (LockFreeQueue default_request 262144) = []"
    by (simp_all add: lf_inv_LockFreeQueue)
  then show ?thesis
    using random_orders_are_handled [of 7 "LockFreeQueue default_request 262144" _ "\<lambda>k. 31 * k + 5" "\<lambda>_. 0" ex_out]
    by (fastforce simp: limit_defs)
qed

end
