(* ===== verification/StrategyPrint.thy ===== *)
theory StrategyPrint
  imports Decimals RiskManager
begin

section \<open>Printing positions, risk limits and configurations\<close>

text \<open>
  The \<^verbatim>\<open>toString\<close> functions of \<^verbatim>\<open>trading/strategy/PositionKeeper.hpp\<close>, \<^verbatim>\<open>RiskManager.hpp\<close> and of the
  configuration structs of \<^verbatim>\<open>common/Types.hpp\<close>. A position points at the best bid and offer of a book, so its
  printer is given the books' values.
\<close>

subsection \<open>Configurations\<close>

definition RiskConfig_toString :: "RiskConfig \<Rightarrow> string" where
  "RiskConfig_toString c =
     ''RiskCfg{'' @ ''max-order-size:'' @ quantityToString (max_order_size c) @ '' '' @
     ''max-position:'' @ quantityToString (max_position c) @ '' '' @ ''max-loss:'' @ double_toString (max_loss c) @ ''}''"

definition TradeEngineConfig_toString :: "TradeEngineConfig \<Rightarrow> string" where
  "TradeEngineConfig_toString c =
     ''TradeEngineCfg{'' @ ''clip:'' @ quantityToString (clip c) @ '' '' @
     ''thresh:'' @ double_toString (threshold c) @ '' '' @ ''risk:'' @ RiskConfig_toString (te_risk_config c) @ ''}''"

subsection \<open>Positions\<close>

text \<open>\<^verbatim>\<open>position ? open_vwap.at(side) / std::abs(position) : 0\<close>.\<close>

definition average_price :: "Side \<Rightarrow> PositionInfo \<Rightarrow> double res" where
  "average_price side p =
     (if position p \<noteq> 0
      then bindE (int32 \<bar>position p\<bar>) (\<lambda>a. Inr (d_div (open_vwap p (sideToIndex side)) (d_of_int a)))
      else Inr (Finite 0))"

definition PositionInfo_toString :: "(nat \<Rightarrow> BBO) \<Rightarrow> PositionInfo \<Rightarrow> string res" where
  "PositionInfo_toString bbos p =
     bindE (average_price Side_BUY p) (\<lambda>buy.
     bindE (average_price Side_SELL p) (\<lambda>sell.
     Inr (''Position{'' @ ''pos:'' @ to_string_int (position p) @ '' u-pnl:'' @ double_toString (unreal_pnl p) @
       '' r-pnl:'' @ double_toString (real_pnl p) @ '' t-pnl:'' @ double_toString (total_pnl p) @
       '' vol:'' @ quantityToString (volume p) @ '' vwaps:['' @ double_toString buy @ ''X'' @ double_toString sell @ ''] '' @
       (case pi_bbo p of None \<Rightarrow> [] | Some t \<Rightarrow> BBO_toString (bbos t)) @ ''}'')))"

text \<open>The loop of \<^verbatim>\<open>PositionKeeper::toString\<close>, over the tickers \<open>ts\<close>.\<close>

fun keeper_lines :: "(nat \<Rightarrow> BBO) \<Rightarrow> position_keeper \<Rightarrow> nat list \<Rightarrow> double \<Rightarrow> Quantity \<Rightarrow> string \<Rightarrow> string res" where
  "keeper_lines bbos k [] pnl vol ss =
     Inr (ss @ ''Total PnL:'' @ double_toString pnl @ '' Vol:'' @ to_string_nat (unat vol) @ [CHR 0x0A])"
| "keeper_lines bbos k (t # ts) pnl vol ss =
     bindE (PositionInfo_toString bbos (ticker_position k t)) (\<lambda>line.
     keeper_lines bbos k ts (d_add pnl (total_pnl (ticker_position k t))) (vol + volume (ticker_position k t))
       (ss @ ''TickerId:'' @ tickerIdToString (word_of_nat t) @ '' '' @ line @ [CHR 0x0A]))"

definition PositionKeeper_toString :: "(nat \<Rightarrow> BBO) \<Rightarrow> position_keeper \<Rightarrow> string res" where
  "PositionKeeper_toString bbos k = keeper_lines bbos k [0..<MATCHING_ENGINE_MAX_TICKERS] (Finite 0) 0 []"

definition RiskInfo_toString :: "(nat \<Rightarrow> BBO) \<Rightarrow> RiskInfo \<Rightarrow> position_keeper \<Rightarrow> string res" where
  "RiskInfo_toString bbos r k =
     bindE (PositionInfo_toString bbos (ticker_position k (position_info r))) (\<lambda>pos.
     Inr (''RiskInfo'' @ ''['' @ ''pos:'' @ pos @ '' '' @ RiskConfig_toString (risk_config r) @ '']''))"

subsection \<open>When printing is defined\<close>

text \<open>A position prints unless it is the one number whose absolute value is no \<^verbatim>\<open>int32_t\<close>.\<close>

lemma PositionInfo_toString_ok:
  assumes "- (2 ^ 31) < position p" and "position p < 2 ^ 31"
  shows "\<exists>s. PositionInfo_toString bbos p = Inr s"
proof -
  have "int32 \<bar>position p\<bar> = Inr \<bar>position p\<bar>" using assms by (auto simp: int32_def)
  then show ?thesis by (simp add: PositionInfo_toString_def average_price_def)
qed

lemma PositionKeeper_toString_ok:
  assumes "\<forall>t<MATCHING_ENGINE_MAX_TICKERS. - (2 ^ 31) < position (ticker_position k t) \<and> position (ticker_position k t) < 2 ^ 31"
  shows "\<exists>s. PositionKeeper_toString bbos k = Inr s"
proof -
  have "\<exists>s. keeper_lines bbos k ts pnl vol ss = Inr s"
    if "set ts \<subseteq> {..<MATCHING_ENGINE_MAX_TICKERS}" for ts pnl vol ss
    using that
  proof (induction ts arbitrary: pnl vol ss)
    case (Cons t ts)
    then obtain line where "PositionInfo_toString bbos (ticker_position k t) = Inr line"
      using PositionInfo_toString_ok [of "ticker_position k t" bbos] assms by auto
    then show ?case using Cons by simp
  qed simp
  then show ?thesis unfolding PositionKeeper_toString_def by (simp add: atLeast0LessThan)
qed

text \<open>An example: a flat position, and one of three bought at 100.\<close>

lemma flat_position_text:
  "PositionInfo_toString bbos (new_position 0 vwap0) =
     Inr ''Position{pos:0 u-pnl:0 r-pnl:0 t-pnl:0 vol:0 vwaps:[0X0] }''"
  by (simp add: PositionInfo_toString_def average_price_def new_position_def quantityToString_def QUANTITY_INVALID_def
      to_string_int_def to_string_nat.simps [of 0] digit_char_def char_of_def bit_0)

end
