(* ===== verification/ProgramProps.thy ===== *)
theory ProgramProps
  imports MainPrograms RandomFlow StrategyPrint DeskProps
begin

section \<open>The programs' start, wait and shutdown\<close>

subsection \<open>Start\<close>

text \<open>A machine on which all names resolve and every call that makes a socket succeeds for some address.\<close>

definition network_up :: "network \<Rightarrow> bool" where
  "network_up net \<longleftrightarrow> (\<forall>host port hints. \<exists>as. getaddrinfo net host port hints = (0, as) \<and>
     (\<exists>a\<in>set as. \<forall>cfg. usable cfg a) \<and> (\<forall>a\<in>set as. - 1 \<le> ans_socket a))"

lemma createSocket_up:
  assumes "network_up net"
  shows "\<exists>fd calls. createSocket net cfg = Inr (fd, calls) \<and> 0 \<le> fd"
proof -
  let ?ip = "if sc_ip cfg = [] then getIfaceIP net (sc_iface cfg) else sc_ip cfg"
  let ?hints = "\<lparr>ai_flags = (if sc_is_listening cfg then [AI_PASSIVE] else []) @ [AI_NUMERICHOST, AI_NUMERICSERV],
       ai_datagram = sc_is_udp cfg\<rparr>"
  obtain as where as: "getaddrinfo net ?ip (to_string_int (sc_port cfg)) ?hints = (0, as)"
      "\<exists>a\<in>set as. usable cfg a" "\<forall>a\<in>set as. - 1 \<le> ans_socket a"
    using assms unfolding network_up_def by metis
  obtain a where a: "find (usable cfg) as = Some a" using as(2) by (cases "find (usable cfg) as") (auto simp: find_None_iff)
  then have "a \<in> set as" "usable cfg a" by (auto simp: find_Some_iff)
  then have "0 \<le> ans_socket a" using as(3) by (force simp: usable_def)
  then show ?thesis
    using try_addresses_ok [of cfg as] a as(1) by (cases "try_addresses cfg as") (simp add: createSocket_def Let_def)
qed

lemma sockets_up:
  assumes "network_up net"
  shows "\<exists>fd. McastSocket_init net ip iface port is_listening s = Inr (fd, s\<lparr>socket_fd := fd\<rparr>) \<and> 0 \<le> fd"
    "\<exists>fd. TCPSocket_connect net ip iface port is_listening s = Inr (fd, s\<lparr>socket_fd := fd\<rparr>) \<and> 0 \<le> fd"
proof -
  show "\<exists>fd. McastSocket_init net ip iface port is_listening s = Inr (fd, s\<lparr>socket_fd := fd\<rparr>) \<and> 0 \<le> fd"
    using createSocket_up [OF assms, of "\<lparr>sc_ip = ip, sc_iface = iface, sc_port = port, sc_is_udp = True,
      sc_is_listening = is_listening, sc_needs_so_timestamp = False\<rparr>"]
    by (auto simp: McastSocket_init_def)
  show "\<exists>fd. TCPSocket_connect net ip iface port is_listening s = Inr (fd, s\<lparr>socket_fd := fd\<rparr>) \<and> 0 \<le> fd"
    using createSocket_up [OF assms, of "\<lparr>sc_ip = ip, sc_iface = iface, sc_port = port, sc_is_udp = False,
      sc_is_listening = is_listening, sc_needs_so_timestamp = True\<rparr>"]
    by (auto simp: TCPSocket_connect_def)
qed

lemma start_thread_ok [simp]: "start_thread pinned msg = Inr ()"
  by (simp add: start_thread_def affinity_fails_def)


definition ex_network_up :: network where
  "ex_network_up = \<lparr>interfaces = Some [(''lo'', Some ''127.0.0.1'')],
     getaddrinfo = (\<lambda>_ _ _. (0, [ex_address 7 0])), gai_strerror = (\<lambda>_. []), ans_join = (\<lambda>_ _. 0)\<rparr>"

lemma ex_network_is_up: "network_up ex_network_up"
proof -
  have "setNonBlockingFD (ex_address 7 0)" by (simp add: setNonBlockingFD_def ex_address_def)
  then show ?thesis by (simp add: network_up_def ex_network_up_def usable_def) (simp add: ex_address_def)
qed


text \<open>
  The trading program comes up likewise: the trade engine is in the state from which the properties of the
  trading desk start, gateway and consumer are at their first message.
\<close>

lemma trading_starts:
  assumes "network_up net" and "\<forall>fd ip. ans_join net fd ip \<noteq> - 1" and "parse_arguments atof argv = Inr a"
    and "\<forall>t<MATCHING_ENGINE_MAX_TICKERS. \<bar>positions keeper t\<bar> \<le> position_limit (arg_ticker_config a) t"
  shows "\<exists>t. trading_main atof net pinned keeper argv = Inr t \<and>
    desk_start (arg_ticker_config a) (t_trade_engine t) \<and> te_client_id (t_trade_engine t) = arg_client_id a \<and>
    next_outgoing_sequence_number (t_order_gateway t) = 1 \<and> gw_next_expected_sequence_number (t_order_gateway t) = 1 \<and>
    \<not> in_recovery_mode (t_market_data_consumer t) \<and> mc_next_expected_sequence_number (t_market_data_consumer t) = 1"
proof -
  let ?responses = "client_response_queue MATCHING_ENGINE_MAX_MARKET_UPDATES"
  let ?engine = "TradeEngine (arg_client_id a) (arg_algo_type a) (arg_ticker_config a) keeper client_request_queue ?responses market_update_queue"
  let ?g = "OrderGateway (arg_client_id a) client_request_queue ?responses"
  have engine: "desk_start (arg_ticker_config a) ?engine"
    unfolding client_request_queue_def by (rule constructor_starts) (use assms(4) in \<open>simp_all add: limit_defs\<close>)
  have id: "te_client_id ?engine = arg_client_id a" by (simp add: TradeEngine_def)
  obtain fd where "TCPSocket_connect net (fst order_gateway_address) lo (snd order_gateway_address) False (tcp_socket ?g) =
      Inr (fd, (tcp_socket ?g)\<lparr>socket_fd := fd\<rparr>)" "0 \<le> fd" using sockets_up(2) [OF assms(1)] by blast
  then have g: "gateway_start net pinned lo order_gateway_address ?g = Inr (put_tcp_socket ((tcp_socket ?g)\<lparr>socket_fd := fd\<rparr>) ?g)"
    by (simp add: gateway_start_def)
  obtain fd' where "McastSocket_init net (fst client_incremental_address) lo (snd client_incremental_address) True (new_socket (- 1)) =
      Inr (fd', (new_socket (- 1))\<lparr>socket_fd := fd'\<rparr>)" "0 \<le> fd'" using sockets_up(1) [OF assms(1)] by blast
  then have "\<exists>c. make_consumer net market_update_queue lo client_incremental_address = Inr c \<and>
      \<not> in_recovery_mode c \<and> mc_next_expected_sequence_number c = 1"
    using assms(2) by (simp add: make_consumer_def MarketDataConsumer_def McastSocket_join_def join_group_def)
  then obtain c where c: "make_consumer net market_update_queue lo client_incremental_address = Inr c"
      "\<not> in_recovery_mode c" "mc_next_expected_sequence_number c = 1" by blast
  show ?thesis
    using assms(3) engine id g c by (simp add: trading_main_def Let_def) (simp add: put_tcp_socket_def OrderGateway_def)
qed

text \<open>
  The addresses the two programs are given. The order port and the snapshot stream agree; the group and the port
  on which the client waits for increments are not those the exchange sends them to.
\<close>

lemma stream_addresses:
  "snd order_gateway_address = exchange_order_port" "client_snapshot_address = exchange_snapshot_address"
  "fst client_incremental_address \<noteq> fst exchange_incremental_address"
  "snd client_incremental_address \<noteq> snd exchange_incremental_address"
  by (simp_all add: order_gateway_address_def exchange_order_port_def client_snapshot_address_def
      exchange_snapshot_address_def client_incremental_address_def exchange_incremental_address_def)

subsection \<open>Shutdown\<close>

text \<open>
  Books destroyed one after the other: \<open>del t\<close> touches the book of \<open>t\<close> alone and is fatal or not by what that book
  holds, so the whole is fatal when one of them is.
\<close>

lemma delete_all:
  assumes "\<forall>t e e'. del t e = Inr e' \<longrightarrow> (\<forall>t'. t' \<noteq> t \<longrightarrow> book e' t' = book e t')" and "distinct ts"
    and "\<forall>t\<in>set ts. \<forall>e'. book e' t = book e t \<longrightarrow>
      (if bids t then \<exists>m. del t e' = Inl (FatalError m) else \<exists>e''. del t e' = Inr e'')"
  shows "if \<exists>t\<in>set ts. bids t then \<exists>m. fold_res del ts e = Inl (FatalError m) else \<exists>e'. fold_res del ts e = Inr e'"
  using assms(2,3)
proof (induction ts arbitrary: e)
  case (Cons t ts)
  show ?case
  proof (cases "bids t")
    case True
    then show ?thesis using Cons.prems(2) by auto
  next
    case False
    then obtain e1 where e1: "del t e = Inr e1" using Cons.prems(2) by auto
    have "book e1 t' = book e t'" if "t' \<in> set ts" for t'
      using assms(1) e1 Cons.prems(1) that by (metis distinct.simps(2))
    then have "\<forall>t\<in>set ts. \<forall>e'. book e' t = book e1 t \<longrightarrow>
        (if bids t then \<exists>m. del t e' = Inl (FatalError m) else \<exists>e''. del t e' = Inr e'')"
      using Cons.prems(2) by simp
    from Cons.IH [OF _ this] Cons.prems(1) False e1 show ?thesis by simp
  qed
qed simp

text \<open>C16: the exchange ends in order only when nobody bids. The interrupt handler destroys the books one after
  the other; if in the state the specification prescribes no book has a bid, the matching engine is
  destroyed, and if one has, the process ends with a fatal error on the way, whatever else the books hold.\<close>

theorem shutdown_needs_no_bids:
  assumes "engine_holds e S"
    and "\<forall>t<MATCHING_ENGINE_MAX_TICKERS. (\<forall>p\<in>prices (fst (S t) Side_SELL). PRICE_MIN < p) \<and>
      (\<forall>p\<in>prices (fst (S t) Side_BUY). PRICE_MIN \<le> p)"
  shows "if \<exists>t<MATCHING_ENGINE_MAX_TICKERS. fst (S t) Side_BUY \<noteq> []
    then \<exists>m. delete_matching_engine e = Inl (FatalError m) else \<exists>e'. delete_matching_engine e = Inr e'"
proof -
  have "if fst (S t) Side_BUY \<noteq> [] then \<exists>m. delete_book t e' = Inl (FatalError m) else \<exists>e''. delete_book t e' = Inr e''"
    if "t < MATCHING_ENGINE_MAX_TICKERS" "matching_engine.ticker_order_book e' t = matching_engine.ticker_order_book (stop e) t" for t e'
    using book_with_bid_is_fatal [of "matching_engine.ticker_order_book e t" "fst (S t)" False] assms that
    by (auto simp: engine_holds_def holds_book_def stop_def delete_book_def)
  moreover have "\<forall>t e e'. delete_book t e = Inr e' \<longrightarrow>
      (\<forall>t'. t' \<noteq> t \<longrightarrow> matching_engine.ticker_order_book e' t' = matching_engine.ticker_order_book e t')"
    by (auto simp: delete_book_def bindE_eq_Inr_iff)
  ultimately show ?thesis
    using delete_all [where book = matching_engine.ticker_order_book and del = delete_book and e = "stop e"
        and ts = "[0..<MATCHING_ENGINE_MAX_TICKERS]" and bids = "\<lambda>t. fst (S t) Side_BUY \<noteq> []"]
    unfolding delete_matching_engine_def by (simp add: Bex_def)
qed

theorem shutdown_needs_no_bids_witness:
  "\<exists>e'. delete_matching_engine (start (MatchingEngine client_request_queue ex_out)) = Inr e'"
proof -
  have "engine_holds (start (MatchingEngine client_request_queue ex_out)) empty_market"
    using initial_holds by (simp add: engine_holds_def MatchingEngine_def start_def)
  from shutdown_needs_no_bids [OF this] show ?thesis by (simp add: prices_def)
qed

subsection \<open>Waiting\<close>

lemma silentSeconds_bounds:
  assumes "0 \<le> last_event_time e" and "last_event_time e \<le> quiet" and "quiet \<le> now" and "now < 2 ^ 63"
  shows "\<exists>secs. silentSeconds now e = Inr secs \<and> (now - quiet) div NANOS_TO_SECS \<le> secs"
proof -
  have "int64 (now - last_event_time e) = Inr (now - last_event_time e)" using assms by (simp add: int64_def)
  moreover have "(now - last_event_time e) sdiv NANOS_TO_SECS = (now - last_event_time e) div NANOS_TO_SECS"
    using assms by (simp add: signed_divide_int_def NANOS_TO_SECS_def sgn_if abs_if)
  moreover have "(now - quiet) div NANOS_TO_SECS \<le> (now - last_event_time e) div NANOS_TO_SECS"
    using assms by (intro zdiv_mono1) (simp_all add: NANOS_TO_SECS_def)
  ultimately show ?thesis by (simp add: silentSeconds_def)
qed

text \<open>If no event comes after the time \<open>quiet\<close>, the loop that waits for the
  silence is left, in a turn in which the engine has been silent for the 60 seconds, at the latest in the
  first turn whose clock shows a minute after \<open>quiet\<close>; the clock need not move by a fixed step.\<close>

lemma silence_ends_wait:
  assumes "\<forall>j. 0 \<le> last_event_time (engine j) \<and> last_event_time (engine j) \<le> quiet"
    and "\<forall>j. quiet \<le> clock j \<and> clock j < 2 ^ 63" and "quiet + 60 * NANOS_TO_SECS \<le> clock (i + n)"
  shows "\<exists>k secs. wait_for_silence (Suc n) clock engine i = Inr k \<and> k \<le> i + n \<and>
    silentSeconds (clock k) (engine k) = Inr secs \<and> 60 \<le> secs"
  using assms(3)
proof (induction n arbitrary: i)
  case 0
  obtain secs where s: "silentSeconds (clock i) (engine i) = Inr secs" "(clock i - quiet) div NANOS_TO_SECS \<le> secs"
    using silentSeconds_bounds [of "engine i" quiet "clock i"] assms(1,2) by auto
  have "60 \<le> (clock i - quiet) div NANOS_TO_SECS" using 0 by (simp add: NANOS_TO_SECS_def)
  then show ?case using s by (simp add: silent_limit_def)
next
  case (Suc n)
  obtain secs where s: "silentSeconds (clock i) (engine i) = Inr secs"
    using silentSeconds_bounds [of "engine i" quiet "clock i"] assms(1,2) by auto
  show ?case
  proof (cases "secs < 60")
    case True
    then show ?thesis using Suc.IH [of "i + 1"] Suc.prems s by (auto simp: silent_limit_def simp del: wait_for_silence.simps) (auto simp: silent_limit_def)
  next
    case False
    then show ?thesis using s by (auto simp: silent_limit_def)
  qed
qed

end
