(* ===== verification/TradeEngineFrame.thy ===== *)
theory TradeEngineFrame
  imports TradeEngine
begin

section \<open>What the strategies leave alone\<close>

text \<open>Whatever a strategy does when it is called, the books and the two incoming queues stay as they are.\<close>

definition inputs_kept :: "trade_engine \<Rightarrow> trade_engine \<Rightarrow> bool" where
  "inputs_kept e e' \<longleftrightarrow> ticker_order_book e' = ticker_order_book e \<and>
     incoming_gateway_response e' = incoming_gateway_response e \<and> incoming_md_updates e' = incoming_md_updates e"

lemma te_moveOrders_kept: "te_moveOrders t bid ask qty e = Inr e' \<Longrightarrow> inputs_kept e e'"
  by (auto simp: te_moveOrders_def bindE_eq_Inr_iff inputs_kept_def)

lemma inputs_kept_refl [simp]: "inputs_kept e e"
  by (simp add: inputs_kept_def)

lemma algo_kept:
  "algoOnOrderBookUpdate t x e = Inr e' \<Longrightarrow> inputs_kept e e'"
  "algoOnTradeUpdate u x e = Inr e' \<Longrightarrow> inputs_kept e e'"
  by (auto simp: algoOnOrderBookUpdate_def algoOnTradeUpdate_def mm_onOrderBookUpdate_def lt_onTradeUpdate_def Let_def
      bindE_eq_Inr_iff split: strategy.splits if_splits dest: te_moveOrders_kept)

lemma book_callback_kept: "book_callback t ev e = Inr e' \<Longrightarrow> inputs_kept e e'"
  by (auto simp: book_callback_def te_onTradeUpdate_def te_onOrderBookUpdate_def bindE_eq_Inr_iff inputs_kept_def
      split: book_event.splits dest!: algo_kept)

lemma process_response_kept: "process_response now r e = Inr e' \<Longrightarrow> inputs_kept e e'"
  by (auto simp: process_response_def te_onOrderUpdate_def algoOnOrderUpdate_def bindE_eq_Inr_iff inputs_kept_def
      split: if_splits)

lemma process_update_queues:
  assumes "process_update now u e = Inr e'"
  shows "incoming_gateway_response e' = incoming_gateway_response e" and "incoming_md_updates e' = incoming_md_updates e"
  using assms by (auto simp: process_update_def Let_def bindE_eq_Inr_iff inputs_kept_def dest!: book_callback_kept)

lemma fold_res_frame:
  assumes "\<forall>x s s'. body x s = Inr s' \<longrightarrow> f s' = f s" and "fold_res body xs s = Inr s'"
  shows "f s' = f s"
  using assms(2)
proof (induction xs arbitrary: s)
  case (Cons x xs)
  then obtain s1 where "body x s = Inr s1" "fold_res body xs s1 = Inr s'" by (auto simp: bindE_eq_Inr_iff)
  then show ?case using Cons.IH assms(1) by metis
qed simp

text \<open>The two loops of \<open>run\<close> one after the other.\<close>

lemma run_once_phases:
  assumes "lf_inv (incoming_gateway_response e)" and "lf_inv (incoming_md_updates e)" and "trade_engine_run_once now e = Inr e'"
  shows "\<exists>e1 e2. fold_res (process_response now) (lf_contents (incoming_gateway_response e)) e = Inr e1 \<and>
    fold_res (process_update now) (lf_contents (incoming_md_updates e))
      (e1\<lparr>incoming_gateway_response := lf_emptied (incoming_gateway_response e)\<rparr>) = Inr e2 \<and>
    e' = e2\<lparr>incoming_md_updates := lf_emptied (incoming_md_updates e)\<rparr> \<and>
    incoming_gateway_response e' = lf_emptied (incoming_gateway_response e)"
proof -
  let ?q = "lf_emptied (incoming_gateway_response e)"
  obtain e1 where e1: "fold_res (process_response now) (lf_contents (incoming_gateway_response e)) e = Inr e1"
      "bindE (lf_drain (process_update now) (incoming_md_updates e1) (e1\<lparr>incoming_gateway_response := ?q\<rparr>))
        (\<lambda>(q', e3). Inr (e3\<lparr>incoming_md_updates := q'\<rparr>)) = Inr e'"
    using assms(3) by (auto simp: trade_engine_run_once_def lf_drain_fold [OF assms(1)] bindE_eq_Inr_iff)
  have "incoming_md_updates e1 = incoming_md_updates e"
    by (rule fold_res_frame [OF _ e1(1)]) (auto simp: inputs_kept_def dest!: process_response_kept)
  then obtain e2 where e2: "fold_res (process_update now) (lf_contents (incoming_md_updates e))
        (e1\<lparr>incoming_gateway_response := ?q\<rparr>) = Inr e2" "e' = e2\<lparr>incoming_md_updates := lf_emptied (incoming_md_updates e)\<rparr>"
    using e1(2) by (auto simp: lf_drain_fold [OF assms(2)] bindE_eq_Inr_iff)
  have "incoming_gateway_response e2 = incoming_gateway_response (e1\<lparr>incoming_gateway_response := ?q\<rparr>)"
    by (rule fold_res_frame [OF _ e2(1)]) (auto dest: process_update_queues(1))
  then show ?thesis using e1(1) e2 by simp
qed

end
