(* ===== verification/EndToEnd.thy ===== *)
theory EndToEnd
  imports ServerProps ProgramProps MarketBookProps TradeEngineFrame
begin

section \<open>From an order queue to the clients' books\<close>

text \<open>
  The whole way through both programs: the requests a strategy has queued, the gateway, the order server and its
  sequencer, the matching engine, the publisher, and on the client's side the consumer and the books. Every
  component is in the state its constructor makes and the queues are those of the two programs.
\<close>

subsection \<open>The engine, seen from one ticker\<close>

abbreviation of_ticker :: "nat \<Rightarrow> MatchingEngineClientRequest list \<Rightarrow> MatchingEngineClientRequest list" where
  "of_ticker t \<equiv> filter (\<lambda>r. ticker_of r = t)"

abbreviation updates_of_ticker :: "nat \<Rightarrow> MatchingEngineMarketUpdate list \<Rightarrow> MatchingEngineMarketUpdate list" where
  "updates_of_ticker t \<equiv> filter (\<lambda>u. unat (mu_ticker_id u) = t)"

lemma add_updates_ticker: "u \<in> set (add_updates tid sd p qty n v) \<Longrightarrow> mu_ticker_id u = tid"
  by (auto simp: add_updates_def fill_update_def split: prod.splits if_splits)

lemma cancel_updates_ticker: "u \<in> set (cancel_updates cid coid tid v) \<Longrightarrow> mu_ticker_id u = tid"
  by (auto simp: cancel_updates_def split: option.splits)

lemma request_updates_ticker: "u \<in> set (request_updates r s) \<Longrightarrow> mu_ticker_id u = rq_ticker_id r"
  by (cases s; cases "rq_type r") (auto dest: add_updates_ticker cancel_updates_ticker)

lemma updates_of_request:
  "updates_of_ticker t (request_updates r s) = (if ticker_of r = t then request_updates r s else [])"
  using request_updates_ticker by (auto simp: filter_empty_conv filter_id_conv)

text \<open>What the engine does to one book, and says about it, is what that book does with its own requests.\<close>

lemma engine_step_at: "fold engine_step rs S t = fold spec_request (of_ticker t rs) (S t)"
  by (induction rs arbitrary: S) (auto simp: engine_step_def)

lemma engine_updates_at: "updates_of_ticker t (engine_updates rs S) = all_updates (of_ticker t rs) (S t)"
  by (induction rs arbitrary: S) (auto simp: engine_step_def updates_of_request)

lemma engine_admissible_at: "engine_admissible rs S \<Longrightarrow> admissible_all (of_ticker t rs) (S t)"
  by (induction rs arbitrary: S) (force simp: engine_step_def)+

subsection \<open>Prices that fit the wire\<close>

definition prices_ok :: "book_state \<Rightarrow> bool" where
  "prices_ok s \<longleftrightarrow> (\<forall>x\<in>set (book_orders (fst s)). price_ok (o_price x))"

lemma add_prices:
  assumes "trading_side sd" and "prices_ok (v, n)" and "price_ok p"
  shows "\<forall>u\<in>set (add_updates tid sd p qty k v). price_ok (mu_price u)"
    and "prices_ok (spec_add cid coid tid sd p qty k v, n')"
proof -
  obtain fs rest leaves where m: "spec_match sd p qty (v (opposite sd)) = (fs, rest, leaves)" by (metis prod_cases3)
  let ?x = "new_order cid coid tid sd p leaves k (next_priority p (v sd))"
  have ok: "price_ok (o_price x)" if "x \<in> set (all_orders (v sd)) \<union> set (all_orders (v (opposite sd)))" for x
    using that assms(1,2) by (auto simp: prices_ok_def book_orders_def trading_side_def)
  have "price_ok (mu_price (fill_update tid f))" if "f \<in> set fs" for f
    using ok fills_in_book [OF m that] by (cases f) (simp add: fill_update_def)
  then show "\<forall>u\<in>set (add_updates tid sd p qty k v). price_ok (mu_price u)"
    using m assms(3) by (auto simp: add_updates_def)
  have "o_price ` set (all_orders rest) \<subseteq> o_price ` set (all_orders (v (opposite sd)))"
    by (rule spec_match_ids(2) [OF m]) simp
  then have rest: "price_ok (o_price x)" if "x \<in> set (all_orders rest)" for x using that ok by fastforce
  have "mset (book_orders (spec_add cid coid tid sd p qty k v)) =
      mset ((if leaves = 0 then [] else [?x]) @ all_orders rest @ all_orders (v sd))"
    using spec_add_orders [OF assms(1), of p qty v fs rest leaves ?x cid coid tid k] m by simp
  from mset_eq_setD [OF this] show "prices_ok (spec_add cid coid tid sd p qty k v, n')"
    using ok rest assms(3) by (auto simp: prices_ok_def new_order_def)
qed

lemma cancel_prices:
  assumes "book_wf v" and "prices_ok (v, n)"
  shows "\<forall>u\<in>set (cancel_updates cid coid tid v). price_ok (mu_price u)"
    and "prices_ok (spec_cancel cid coid v, n')"
proof -
  have ok: "price_ok (o_price x)" if "trading_side s" "x \<in> set (all_orders (v s))" for s x
    using that assms(2) by (auto simp: prices_ok_def book_orders_def trading_side_def)
  have found: "price_ok (o_price x)" if "spec_find cid coid v = Some x" for x
    using spec_find_side(1,2) [OF assms(1) that] by (rule ok)
  show "\<forall>u\<in>set (cancel_updates cid coid tid v). price_ok (mu_price u)"
    using found by (auto simp: cancel_updates_def split: option.splits)
  show "prices_ok (spec_cancel cid coid v, n')"
    using ok [of Side_BUY] ok [of Side_SELL]
    by (auto simp: prices_ok_def book_orders_def spec_cancel_def all_orders_remove_where split: option.splits if_splits)
qed

lemma request_prices:
  assumes "book_wf (fst s)" and "prices_ok s" and "admissible r s" and "price_ok (rq_price r)"
  shows "\<forall>u\<in>set (request_updates r s). price_ok (mu_price u)" and "prices_ok (spec_request r s)"
proof -
  obtain v n where s: "s = (v, n)" by (cases s)
  have "(\<forall>u\<in>set (request_updates r s). price_ok (mu_price u)) \<and> prices_ok (spec_request r s)"
    using assms add_prices [of "rq_side r" v n "rq_price r"] cancel_prices [of v n]
    by (cases "rq_type r") (simp_all add: s)
  then show "\<forall>u\<in>set (request_updates r s). price_ok (mu_price u)" "prices_ok (spec_request r s)" by simp_all
qed

lemma engine_prices:
  assumes "\<forall>t. holds_book (b t) (S t)" and "\<forall>t. prices_ok (S t)" and "engine_admissible rs S"
    and "\<forall>r\<in>set rs. price_ok (rq_price r)"
  shows "\<forall>u\<in>set (engine_updates rs S). price_ok (mu_price u)"
  using assms
proof (induction rs arbitrary: S b)
  case (Cons r rs)
  let ?t = "ticker_of r"
  have adm: "admissible r (S ?t)" and ok: "prices_ok (S ?t)" "price_ok (rq_price r)" using Cons.prems by simp_all
  have holds: "holds_book (b ?t) (S ?t)" using Cons.prems(1) by simp
  note step = request_prices [OF ob.holds_wf [OF holds] ok(1) adm ok(2)]
  obtain b' where "holds_book b' (spec_request r (S ?t))" using ob.handle_spec [OF holds adm] by blast
  then have "\<forall>t. holds_book ((b(?t := b')) t) (engine_step r S t)" using Cons.prems(1) by (simp add: engine_step_def)
  moreover have "\<forall>t. prices_ok (engine_step r S t)" using Cons.prems(2) step(2) by (simp add: engine_step_def)
  ultimately have "\<forall>u\<in>set (engine_updates rs (engine_step r S)). price_ok (mu_price u)"
    using Cons.prems(3,4) by (intro Cons.IH) simp_all
  then show ?case using step(1) by auto
qed simp

subsection \<open>The trade engine's books\<close>

text \<open>Whatever the strategy does on the way, a book of the trade engine has followed the updates of its ticker.\<close>

lemma process_update_books:
  assumes "process_update now u e = Inr e'"
  shows "(if unat (mu_ticker_id u) = t then follow_update u else Inr) (trade_engine.ticker_order_book e t) =
    Inr (trade_engine.ticker_order_book e' t)"
  using assms by (auto simp: process_update_def Let_def bindE_eq_Inr_iff follow_update_def inputs_kept_def dest!: book_callback_kept)

lemma process_updates_books:
  assumes "fold_res (process_update now) us e = Inr e'"
  shows "fold_res follow_update (updates_of_ticker t us) (trade_engine.ticker_order_book e t) =
    Inr (trade_engine.ticker_order_book e' t)"
  using assms
proof (induction us arbitrary: e)
  case (Cons u us)
  then obtain e1 where e1: "process_update now u e = Inr e1" "fold_res (process_update now) us e1 = Inr e'"
    by (auto simp: bindE_eq_Inr_iff)
  from process_update_books [OF e1(1), of t] Cons.IH [OF e1(2)] show ?case by (auto split: if_splits)
qed simp

lemma run_once_books:
  assumes "lf_inv (incoming_gateway_response e)" and "lf_inv (incoming_md_updates e)" and "trade_engine_run_once now e = Inr e'"
  shows "fold_res follow_update (updates_of_ticker t (lf_contents (incoming_md_updates e))) (trade_engine.ticker_order_book e t) =
    Inr (trade_engine.ticker_order_book e' t)"
proof -
  obtain e1 e2 where e: "fold_res (process_response now) (lf_contents (incoming_gateway_response e)) e = Inr e1"
      "fold_res (process_update now) (lf_contents (incoming_md_updates e))
        (e1\<lparr>incoming_gateway_response := lf_emptied (incoming_gateway_response e)\<rparr>) = Inr e2"
      "e' = e2\<lparr>incoming_md_updates := lf_emptied (incoming_md_updates e)\<rparr>"
    using run_once_phases [OF assms] by blast
  have "trade_engine.ticker_order_book e1 = trade_engine.ticker_order_book e"
    by (rule fold_res_frame [OF _ e(1)]) (auto simp: inputs_kept_def dest!: process_response_kept)
  then show ?thesis using process_updates_books [OF e(2), of t] e(3) by simp
qed

subsection \<open>The passage\<close>

abbreviation sequenced :: "(RecvTimeClientRequest list \<Rightarrow> RecvTimeClientRequest list) \<Rightarrow> order_server \<Rightarrow> ClientRequestLFQueue" where
  "sequenced srt s \<equiv> sq_incoming_requests (sequenceAndPublish srt (fifo_sequencer s))"

lemma orders_are_sequenced:
  assumes "lf_inv requests" and "lf_contents requests = rs" and "length rs \<le> MATCHING_ENGINE_MAX_PENDING_REQUESTS"
    and "\<forall>r \<in> set rs. rq_client_id r = client \<and> price_ok (rq_price r)" and "unat client < MATCHING_ENGINE_MAX_NUM_CLIENTS"
    and "\<And>xs. mset (srt xs) = mset xs"
  shows "\<exists>g1 g2 s. gateway_run_once None (OrderGateway client requests responses) = Inr g1 \<and> gateway_run_once None g1 = Inr g2 \<and>
    recvCallBack k now (put_socket k ((new_socket fd)\<lparr>recv_buffer := sent_bytes (tcp_socket g2)\<rparr>)
      (OrderServer client_request_queue out)) = Inr s \<and>
    lf_inv (sequenced srt s) \<and> lf_contents (sequenced srt s) = map request (srt (stamped now rs))"
proof -
  let ?g = "OrderGateway client requests responses"
  define s0 where "s0 = put_socket k (new_socket fd) (OrderServer client_request_queue out)"
  have g: "outgoing_request ?g = requests" "gw_client_id ?g = client" "tcp_socket ?g = new_socket (- 1)"
      "next_outgoing_sequence_number ?g = 1"
    by (simp_all add: OrderGateway_def)
  have s0: "served k (unat client) s0" "recv_buffer (sockets s0 k) = []" "cid_next_expected_sequence_number s0 (unat client) = 1"
      "pending (fifo_sequencer s0) = []" "pending_size (fifo_sequencer s0) = 0"
      "sq_incoming_requests (fifo_sequencer s0) = client_request_queue" "sockets s0 k = new_socket fd"
    using assms(5) by (simp_all add: s0_def served_def put_socket_def OrderServer_def new_sequencer_def pending_def)
  have "SIZEOF_OM_REQUEST * length rs \<le> BUFFER_SIZE"
    using assms(3) by (simp add: SIZEOF_OM_REQUEST_def BUFFER_SIZE_def MATCHING_ENGINE_MAX_PENDING_REQUESTS_def)
  then obtain g1 g2 s where gs: "gateway_run_once None ?g = Inr g1" "gateway_run_once None g1 = Inr g2"
      "recvCallBack k now (put_socket k ((sockets s0 k)\<lparr>recv_buffer := sent_bytes (tcp_socket g2)\<rparr>) s0) = Inr s"
      "pending (fifo_sequencer s) = stamped now rs" "sq_incoming_requests (fifo_sequencer s) = client_request_queue"
    using gateway_to_sequencer [of ?g rs "unat client" k s0 now] assms(1-4) g s0(1-6) by auto
  have q: "lf_inv client_request_queue" "lf_contents client_request_queue = []" "lf_count client_request_queue = 0"
      "lf_capacity client_request_queue = MATCHING_ENGINE_MAX_CLIENT_UPDATES"
    by (simp_all add: client_request_queue_def lf_inv_LockFreeQueue limit_defs)
  have "pending_size (fifo_sequencer s) = length rs" using gs(4) by (metis length_map length_pending)
  then have "lf_inv (sequenced srt s)" "lf_contents (sequenced srt s) = map request (srt (stamped now rs))"
    using sequenceAndPublish_contents [of "fifo_sequencer s" srt] gs(4,5) q assms(3,6)
    by (simp_all add: limit_defs MATCHING_ENGINE_MAX_PENDING_REQUESTS_def)
  moreover have "put_socket k ((sockets s0 k)\<lparr>recv_buffer := sent_bytes (tcp_socket g2)\<rparr>) s0 =
      put_socket k ((new_socket fd)\<lparr>recv_buffer := sent_bytes (tcp_socket g2)\<rparr>) (OrderServer client_request_queue out)"
    by (simp add: s0_def put_socket_def)
  ultimately show ?thesis using gs(1-3) by metis
qed

lemma market_update_queue_facts:
  "lf_inv market_update_queue" "lf_contents market_update_queue = []" "lf_count market_update_queue = 0"
  "lf_capacity market_update_queue = MATCHING_ENGINE_MAX_MARKET_UPDATES"
  by (simp_all add: market_update_queue_def lf_inv_LockFreeQueue limit_defs)

lemma updates_are_published:
  assumes "lf_inv q" and "lf_contents q = rs" and "engine_admissible rs empty_market" and "0 \<le> fd"
    and "length (engine_updates rs empty_market) < MATCHING_ENGINE_MAX_MARKET_UPDATES"
  shows "\<exists>e p p'. run (length rs) (start (MatchingEngine q \<lparr>outgoing_responses = out, outgoing_market_updates = market_update_queue\<rparr>)) = Inr e \<and>
    engine_holds e (fold engine_step rs empty_market) \<and>
    MarketDataPublisher (outgoing_market_updates (outgoing e)) fd = Inr p \<and> publisher_run_once p = Inr p' \<and>
    sent_bytes (incremental_socket p') = stream_bytes 1 (engine_updates rs empty_market)"
proof -
  let ?out = "\<lparr>outgoing_responses = out, outgoing_market_updates = market_update_queue\<rparr>"
  obtain e where e: "run (length rs) (start (MatchingEngine q ?out)) = Inr e" "engine_holds e (fold engine_step rs empty_market)"
      "lf_inv (outgoing_market_updates (outgoing e))"
      "lf_contents (outgoing_market_updates (outgoing e)) = engine_updates rs empty_market"
    using engine_pass [OF assms(1), of ?out] assms(2,3,5) market_update_queue_facts by auto
  obtain p where p: "MarketDataPublisher (outgoing_market_updates (outgoing e)) fd = Inr p"
    using assms(4) by (simp add: MarketDataPublisher_def)
  from publisher_pass [OF e(3,4) assms(5) p] e p show ?thesis by blast
qed

lemma updates_are_received:
  assumes "0 \<le> init_fd env" and "joined env" and "length us < MATCHING_ENGINE_MAX_MARKET_UPDATES"
    and "\<forall>u \<in> set us. price_ok (mu_price u)"
  shows "\<exists>c c'. MarketDataConsumer market_update_queue env = Inr c \<and>
    consumer_recvCallback env Incremental (put_mcast_socket Incremental
      ((incremental_mcast_socket c)\<lparr>recv_buffer := stream_bytes 1 us\<rparr>) c) = Inr c' \<and>
    \<not> in_recovery_mode c' \<and> lf_contents (incoming_md_queue c') = us \<and> lf_inv (incoming_md_queue c')"
proof -
  obtain c where c: "MarketDataConsumer market_update_queue env = Inr c" "\<not> in_recovery_mode c"
      "mc_next_expected_sequence_number c = 1" "incoming_md_queue c = market_update_queue"
      "incremental_mcast_socket c = new_socket (init_fd env)" "snapshot_mcast_socket c = new_socket (- 1)"
    using assms(1,2) by (auto simp: MarketDataConsumer_def)
  let ?c = "put_mcast_socket Incremental ((incremental_mcast_socket c)\<lparr>recv_buffer := stream_bytes 1 us\<rparr>) c"
  have "socket_fd (incremental_mcast_socket ?c) \<noteq> socket_fd (snapshot_mcast_socket ?c)"
    using c(5,6) assms(1) by (simp add: new_socket_def)
  then obtain c' where "consumer_recvCallback env Incremental ?c = Inr c'" "\<not> in_recovery_mode c'"
      "lf_contents (incoming_md_queue c') = us" "lf_inv (incoming_md_queue c')"
    using deliver_stream [of ?c us env] assms(3,4) c market_update_queue_facts by auto
  then show ?thesis using c(1) by blast
qed

text \<open>A client's book of one ticker, fed with the updates the engine has sent of it.\<close>

lemma updates_build_books:
  assumes "engine_admissible rs empty_market" and "length rs < MATCHING_ENGINE_MAX_ORDER_IDS"
  shows "\<exists>b. fold_res follow_update (updates_of_ticker t (engine_updates rs empty_market)) (MarketOrderBook i) = Inr b \<and>
    mrep b (mirror_book (fst (fold engine_step rs empty_market t)))"
proof -
  let ?s = "(\<lambda>_. [], 1) :: book_state" and ?rs = "of_ticker t rs"
  have "book_wf (fst ?s)" "ids_wf ?s" by (simp_all add: book_wf_def uncrossed_def book_orders_def)
  moreover have "admissible_all ?rs ?s" using engine_admissible_at [OF assms(1), of t] by simp
  moreover have "length ?rs < MATCHING_ENGINE_MAX_ORDER_IDS"
    using assms(2) length_filter_le [of "\<lambda>r. ticker_of r = t" rs] by linarith
  ultimately have m: "fold spec_update (all_updates ?rs ?s) (mirror_book (fst ?s)) = mirror_book (fst (fold spec_request ?rs ?s))"
      "fits_all (all_updates ?rs ?s) (mirror_book (fst ?s))"
    using mirror_requests [of ?s ?rs] by auto
  have "mirror_book (fst ?s) = (\<lambda>_. [])" by (auto simp: mirror_book_def map_orders_def)
  then have "mrep (MarketOrderBook i) (mirror_book (fst ?s))" using initial_market_book by simp
  from follow_updates [OF this m(2)] m(1) show ?thesis by (simp add: engine_updates_at engine_step_at)
qed

lemma books_agree:
  assumes "engine_holds e (fold engine_step rs empty_market)" and "engine_admissible rs empty_market"
    and "length rs < MATCHING_ENGINE_MAX_ORDER_IDS" and "t < MATCHING_ENGINE_MAX_TICKERS"
    and "lf_inv q" and "lf_contents q = engine_updates rs empty_market"
  shows "let v = fold spec_request (of_ticker t rs) (\<lambda>_. [], 1); us = lf_contents q in
      holds_book (matching_engine.ticker_order_book e t) v \<and>
      (\<exists>b. fold_res follow_update (updates_of_ticker t us) (MarketOrderBook (of_nat t)) = Inr b \<and> mrep b (mirror_book (fst v))) \<and>
      (\<forall>d d' time. trade_engine.ticker_order_book d t = MarketOrderBook (of_nat t) \<and> incoming_md_updates d = q \<and>
        lf_inv (incoming_gateway_response d) \<and> trade_engine_run_once time d = Inr d' \<longrightarrow>
        mrep (trade_engine.ticker_order_book d' t) (mirror_book (fst v)))"
proof -
  let ?v = "fold spec_request (of_ticker t rs) (\<lambda>_. [], 1)"
  obtain b where b: "fold_res follow_update (updates_of_ticker t (lf_contents q)) (MarketOrderBook (of_nat t)) = Inr b"
      "mrep b (mirror_book (fst ?v))"
    using updates_build_books [OF assms(2,3), of t "of_nat t"] assms(6) by (auto simp: engine_step_at)
  have "holds_book (matching_engine.ticker_order_book e t) ?v"
    using assms(1,4) by (simp add: engine_holds_def engine_step_at)
  moreover have "trade_engine.ticker_order_book d' t = b"
    if "trade_engine.ticker_order_book d t = MarketOrderBook (of_nat t)" "incoming_md_updates d = q"
      "lf_inv (incoming_gateway_response d)" "trade_engine_run_once time d = Inr d'" for d d' time
    using run_once_books [OF that(3) _ that(4), of t] that(1,2) assms(5) b(1) by simp
  ultimately show ?thesis using b unfolding Let_def by blast
qed

subsection \<open>End to end\<close>


text \<open>Two orders of one client: it sells ten and then buys four of them back.\<close>

definition ex_orders :: "MatchingEngineClientRequest list" where
  "ex_orders = [ex_sell, ex_buy\<lparr>rq_client_id := 1\<rparr>]"

definition ex_order_queue :: ClientRequestLFQueue where
  "ex_order_queue = lf_push_all (LockFreeQueue default_request 8) ex_orders"

lemma ex_orders_facts:
  "lf_inv ex_order_queue" "lf_contents ex_order_queue = ex_orders" "engine_admissible ex_orders empty_market"
  "length (engine_updates ex_orders empty_market) < MATCHING_ENGINE_MAX_MARKET_UPDATES"
  "map request (sort_key recv_time (stamped 9 ex_orders)) = ex_orders"
  "\<forall>r \<in> set ex_orders. rq_client_id r = 1 \<and> price_ok (rq_price r)" "length ex_orders = 2"
proof -
  have "lf_inv (LockFreeQueue default_request 8)" by (rule lf_inv_LockFreeQueue) simp
  then show "lf_inv ex_order_queue" "lf_contents ex_order_queue = ex_orders"
    using lf_push_all_contents [of "LockFreeQueue default_request 8" ex_orders]
    by (simp_all add: ex_order_queue_def ex_orders_def)
qed (simp_all add: ex_orders_def ex_sell_def ex_buy_def limit_defs spec_find_def has_room_def slot_free_def spec_add_def
      new_order_def has_key_def next_priority_def no_match_def engine_step_def add_updates_def price_ok_def)


end
