(* ===== verification/TradingShutdown.thy ===== *)
theory TradingShutdown
  imports ProgramProps TradeEngineFrame
begin

section \<open>The end of the trading program\<close>

text \<open>
  The last part of \<^verbatim>\<open>trading/trading_main.cc\<close>: wait for a minute of silence, stop the three components, delete the
  logger and then the trade engine with its books. The engine's thread goes on while the main thread waits;
  \<open>engine i\<close> is the state the main thread sees when it looks for the \<open>i\<close>-th time, and \<open>clock i\<close> the time then.
  Consumer and gateway hold nothing that is checked when they are stopped or deleted.
\<close>

subsection \<open>Stopping\<close>

text \<open>The loop of \<^verbatim>\<open>TradeEngine::stop\<close>, from look \<open>i\<close> on, for at most \<open>n\<close> turns; it gives the look at which it ends.\<close>

definition queues_empty :: "trade_engine \<Rightarrow> bool" where
  "queues_empty e \<longleftrightarrow> \<not> (lf_size (incoming_gateway_response e) \<noteq> 0 \<or> lf_size (incoming_md_updates e) \<noteq> 0)"

fun trade_engine_stop :: "nat \<Rightarrow> (nat \<Rightarrow> trade_engine) \<Rightarrow> nat \<Rightarrow> nat res" where
  "trade_engine_stop 0 engine i = Inl Diverges"
| "trade_engine_stop (Suc n) engine i =
     (if \<not> queues_empty (engine i) then trade_engine_stop n engine (i + 1) else Inr i)"

definition trading_shutdown :: "nat \<Rightarrow> (nat \<Rightarrow> Nanos) \<Rightarrow> (nat \<Rightarrow> trade_engine) \<Rightarrow> logger \<Rightarrow> (logger \<times> trade_engine) res" where
  "trading_shutdown n clock engine l =
     bindE (wait_for_silence n clock engine 0) (\<lambda>i.
     bindE (trade_engine_stop n engine i) (\<lambda>j.
     bindE (delete_logger l) (\<lambda>l'.
     bindE (delete_trade_engine (engine j)) (\<lambda>e.
     Inr (l', e)))))"

subsection \<open>The loops end\<close>

lemma stop_ends:
  assumes "queues_empty (engine (i + n))"
  shows "\<exists>j. trade_engine_stop (Suc n) engine i = Inr j \<and> i \<le> j \<and> j \<le> i + n \<and> queues_empty (engine j)"
  using assms
proof (induction n arbitrary: i)
  case (Suc n)
  then show ?case using Suc.IH [of "i + 1"] by (auto simp del: trade_engine_stop.simps) (auto simp: trade_engine_stop.simps)
qed simp

text \<open>One pass of the engine's thread over its queues is enough for that.\<close>

lemma engine_pass_empties:
  assumes "lf_inv (incoming_gateway_response e)" and "lf_inv (incoming_md_updates e)" and "trade_engine_run_once now e = Inr e'"
  shows "queues_empty e'"
  using run_once_phases [OF assms] by (auto simp: queues_empty_def lf_emptied_def lf_size_def)

subsection \<open>The end\<close>

lemma delete_logger_ok:
  assumes "lf_inv (log_queue l)"
  shows "\<exists>l'. delete_logger l = Inr l'"
  using flushQueue_writes [OF _ assms] by (cases "log_running l") (auto simp: delete_logger_def flushQueue_def)

lemma delete_trade_engine_outcome:
  assumes "\<forall>t<MATCHING_ENGINE_MAX_TICKERS. mrep (trade_engine.ticker_order_book e t) (v t) \<and>
      (\<forall>p\<in>prices (v t Side_SELL). PRICE_MIN < p) \<and> (\<forall>p\<in>prices (v t Side_BUY). PRICE_MIN \<le> p)"
  shows "if \<exists>t<MATCHING_ENGINE_MAX_TICKERS. v t Side_BUY \<noteq> []
    then \<exists>m. delete_trade_engine e = Inl (FatalError m) else \<exists>e'. delete_trade_engine e = Inr e'"
proof -
  have "if v t Side_BUY \<noteq> [] then \<exists>m. delete_client_book t e' = Inl (FatalError m) else \<exists>e''. delete_client_book t e' = Inr e''"
    if "t < MATCHING_ENGINE_MAX_TICKERS" "trade_engine.ticker_order_book e' t = trade_engine.ticker_order_book e t" for t e'
    using market_book_with_bid_is_fatal [of "trade_engine.ticker_order_book e t" "v t" False] assms that
    by (auto simp: delete_client_book_def)
  moreover have "\<forall>t e e'. delete_client_book t e = Inr e' \<longrightarrow>
      (\<forall>t'. t' \<noteq> t \<longrightarrow> trade_engine.ticker_order_book e' t' = trade_engine.ticker_order_book e t')"
    by (auto simp: delete_client_book_def bindE_eq_Inr_iff)
  ultimately show ?thesis
    using delete_all [where book = trade_engine.ticker_order_book and del = delete_client_book and e = e
        and ts = "[0..<MATCHING_ENGINE_MAX_TICKERS]" and bids = "\<lambda>t. v t Side_BUY \<noteq> []"]
    unfolding delete_trade_engine_def by (simp add: Bex_def)
qed


definition ex_quiet_engine :: trade_engine where
  "ex_quiet_engine = TradeEngine 7 Algo_MAKER (\<lambda>_. default_config) (PositionKeeper (\<lambda>_. 0) (\<lambda>_ _. Finite 0))
     client_request_queue (client_response_queue 8) market_update_queue"

definition ex_clock :: "nat \<Rightarrow> Nanos" where
  "ex_clock j = 30000000000 * int (min j 5)"


end
