(* ===== verification/QueueThreads.thy ===== *)
theory QueueThreads
  imports LockFreeQueue
begin

section \<open>The queue between two threads\<close>

text \<open>
  \<^verbatim>\<open>common/LockFreeQueue.hpp\<close> under true concurrency. The indices and the counter are sequentially consistent
  atomics, so a run is an interleaving of the atomic accesses of the two threads, and that is the step relation
  here: each step is one access to shared memory, or one access to a slot. Slots are not atomic; that the two
  threads never touch the same one at a time is part of what is proved.

  Theory \<open>LockFreeQueue\<close> has the operations as single steps. Between two operations of either thread the state
  here is a state of that theory with the contents it should have.
\<close>

subsection \<open>The threads\<close>

text \<open>The producer: \<^verbatim>\<open>auto p = getNextToWrite(); *p = x; updateWriteIndex();\<close>\<close>

datatype 'a producer_pc =
    P_idle
  | P_fill nat 'a     \<comment> \<open>before \<^verbatim>\<open>*p = x\<close>\<close>
  | P_load 'a         \<comment> \<open>before \<^verbatim>\<open>next_write_index\<close> is read\<close>
  | P_store nat 'a    \<comment> \<open>before \<^verbatim>\<open>next_write_index\<close> is written\<close>
  | P_count           \<comment> \<open>before \<^verbatim>\<open>num_elements++\<close>\<close>

text \<open>The consumer: \<^verbatim>\<open>for (x = getNextToRead(); size() && x; x = getNextToRead()) { body(x); updateReadIndex(); }\<close>\<close>

datatype consumer_pc =
    C_idle
  | C_check nat       \<comment> \<open>before \<^verbatim>\<open>size()\<close>\<close>
  | C_body nat        \<comment> \<open>before the body reads the slot\<close>
  | C_load            \<comment> \<open>before \<^verbatim>\<open>next_read_index\<close> is read\<close>
  | C_store nat       \<comment> \<open>before \<^verbatim>\<open>next_read_index\<close> is written\<close>
  | C_assert          \<comment> \<open>before \<^verbatim>\<open>ASSERT(num_elements != 0)\<close>\<close>
  | C_count           \<comment> \<open>before \<^verbatim>\<open>num_elements--\<close>\<close>
  | C_failed

text \<open>\<open>published\<close> and \<open>taken\<close> record what the producer has made visible and what the body was run on.\<close>

record 'a spsc =
  shared :: "'a lfqueue"
  producer :: "'a producer_pc"
  consumer :: consumer_pc
  published :: "'a list"
  taken :: "'a list"

definition spsc_start :: "'a \<Rightarrow> nat \<Rightarrow> 'a spsc" where
  "spsc_start d n = \<lparr>shared = LockFreeQueue d n, producer = P_idle, consumer = C_idle, published = [], taken = []\<rparr>"

text \<open>
  The code does not look whether there is room. That the producer does not fill the ring is an assumption on
  its client, the condition of \<open>begins\<close>.
\<close>

inductive producer_step :: "'a spsc \<Rightarrow> 'a spsc \<Rightarrow> bool" where
  begins: "producer s = P_idle \<Longrightarrow>
    (next_write_index (shared s) + 1) mod lf_capacity (shared s) \<noteq> next_read_index (shared s) \<Longrightarrow>
    producer_step s (s\<lparr>producer := P_fill (getNextToWrite (shared s)) x\<rparr>)"
| fills: "producer s = P_fill slot x \<Longrightarrow>
    producer_step s (s\<lparr>shared := (shared s)\<lparr>lf_store := (lf_store (shared s))(slot := x)\<rparr>, producer := P_load x\<rparr>)"
| loads: "producer s = P_load x \<Longrightarrow>
    producer_step s (s\<lparr>producer := P_store ((next_write_index (shared s) + 1) mod lf_capacity (shared s)) x\<rparr>)"
| stores: "producer s = P_store v x \<Longrightarrow>
    producer_step s (s\<lparr>shared := (shared s)\<lparr>next_write_index := v\<rparr>, producer := P_count, published := published s @ [x]\<rparr>)"
| counts: "producer s = P_count \<Longrightarrow>
    producer_step s (s\<lparr>shared := (shared s)\<lparr>num_elements := num_elements (shared s) + 1\<rparr>, producer := P_idle\<rparr>)"

text \<open>
  \<open>checks\<close>: whether the loop's condition has \<^verbatim>\<open>size()\<close>, as in all readers but the matching engine. A null
  pointer from \<open>getNextToRead\<close> leaves the state as it is.
\<close>

inductive consumer_step :: "bool \<Rightarrow> 'a spsc \<Rightarrow> 'a spsc \<Rightarrow> bool" for checks where
  gets: "consumer s = C_idle \<Longrightarrow> next_read_index (shared s) \<noteq> next_write_index (shared s) \<Longrightarrow>
    consumer_step checks s (s\<lparr>consumer := C_check (next_read_index (shared s))\<rparr>)"
| leaves: "consumer s = C_check slot \<Longrightarrow> checks \<Longrightarrow> lf_size (shared s) = 0 \<Longrightarrow>
    consumer_step checks s (s\<lparr>consumer := C_idle\<rparr>)"
| enters: "consumer s = C_check slot \<Longrightarrow> \<not> (checks \<and> lf_size (shared s) = 0) \<Longrightarrow>
    consumer_step checks s (s\<lparr>consumer := C_body slot\<rparr>)"
| takes: "consumer s = C_body slot \<Longrightarrow>
    consumer_step checks s (s\<lparr>consumer := C_load, taken := taken s @ [lf_store (shared s) slot]\<rparr>)"
| loads: "consumer s = C_load \<Longrightarrow>
    consumer_step checks s (s\<lparr>consumer := C_store ((next_read_index (shared s) + 1) mod lf_capacity (shared s))\<rparr>)"
| stores: "consumer s = C_store v \<Longrightarrow>
    consumer_step checks s (s\<lparr>shared := (shared s)\<lparr>next_read_index := v\<rparr>, consumer := C_assert\<rparr>)"
| fails: "consumer s = C_assert \<Longrightarrow> num_elements (shared s) = 0 \<Longrightarrow>
    consumer_step checks s (s\<lparr>consumer := C_failed\<rparr>)"
| passes: "consumer s = C_assert \<Longrightarrow> num_elements (shared s) \<noteq> 0 \<Longrightarrow>
    consumer_step checks s (s\<lparr>consumer := C_count\<rparr>)"
| counts: "consumer s = C_count \<Longrightarrow>
    consumer_step checks s (s\<lparr>shared := (shared s)\<lparr>num_elements := num_elements (shared s) - 1\<rparr>, consumer := C_idle\<rparr>)"

inductive spsc_reach :: "bool \<Rightarrow> 'a spsc \<Rightarrow> 'a spsc \<Rightarrow> bool" for checks s0 where
  initial: "spsc_reach checks s0 s0"
| produce: "spsc_reach checks s0 s \<Longrightarrow> producer_step s s' \<Longrightarrow> spsc_reach checks s0 s'"
| consume: "spsc_reach checks s0 s \<Longrightarrow> consumer_step checks s s' \<Longrightarrow> spsc_reach checks s0 s'"

subsection \<open>The invariant\<close>

text \<open>
  \<open>released\<close> counts how often the read index has moved. What is published but not released is in the ring; the
  counter lags behind by the halves of the two updates that are still to come.
\<close>

definition released :: "'a spsc \<Rightarrow> nat" where
  "released s = length (taken s) - (case consumer s of C_load \<Rightarrow> 1 | C_store _ \<Rightarrow> 1 | _ \<Rightarrow> 0)"

definition uncounted :: "'a spsc \<Rightarrow> nat" where
  "uncounted s = (case producer s of P_count \<Rightarrow> 1 | _ \<Rightarrow> 0)"

definition undiscounted :: "'a spsc \<Rightarrow> nat" where
  "undiscounted s = (case consumer s of C_assert \<Rightarrow> 1 | C_count \<Rightarrow> 1 | C_failed \<Rightarrow> 1 | _ \<Rightarrow> 0)"

definition ring_inv :: "'a spsc \<Rightarrow> nat \<Rightarrow> nat \<Rightarrow> bool" where
  "ring_inv s W R \<longleftrightarrow>
     (let q = shared s; n = lf_capacity q in
      0 < n \<and> W = length (published s) \<and> R = released s \<and> R \<le> W \<and> W < R + n \<and>
      next_write_index q = W mod n \<and> next_read_index q = R mod n \<and>
      taken s = take (length (taken s)) (published s) \<and> length (taken s) \<le> W \<and>
      (\<forall>k. R \<le> k \<longrightarrow> k < W \<longrightarrow> lf_store q (k mod n) = published s ! k) \<and>
      num_elements q + uncounted s + R = W + undiscounted s)"

definition producer_inv :: "'a spsc \<Rightarrow> nat \<Rightarrow> nat \<Rightarrow> bool" where
  "producer_inv s W R \<longleftrightarrow>
     (let q = shared s; n = lf_capacity q in
      case producer s of
        P_fill slot x \<Rightarrow> slot = W mod n \<and> W + 1 < R + n
      | P_load x \<Rightarrow> lf_store q (W mod n) = x \<and> W + 1 < R + n
      | P_store v x \<Rightarrow> v = (W + 1) mod n \<and> lf_store q (W mod n) = x \<and> W + 1 < R + n
      | _ \<Rightarrow> True)"

definition consumer_inv :: "'a spsc \<Rightarrow> nat \<Rightarrow> nat \<Rightarrow> bool" where
  "consumer_inv s W R \<longleftrightarrow>
     (let n = lf_capacity (shared s) in
      case consumer s of
        C_check slot \<Rightarrow> slot = R mod n \<and> R < W
      | C_body slot \<Rightarrow> slot = R mod n \<and> R < W
      | C_load \<Rightarrow> R < W \<and> length (taken s) = R + 1
      | C_store v \<Rightarrow> v = (R + 1) mod n \<and> R < W \<and> length (taken s) = R + 1
      | _ \<Rightarrow> True)"

text \<open>With the check, an element that has been seen is counted until the consumer itself takes it off.\<close>

definition counted :: "'a spsc \<Rightarrow> bool" where
  "counted s \<longleftrightarrow>
     (case consumer s of
        C_body _ \<Rightarrow> num_elements (shared s) \<noteq> 0
      | C_load \<Rightarrow> num_elements (shared s) \<noteq> 0
      | C_store _ \<Rightarrow> num_elements (shared s) \<noteq> 0
      | C_assert \<Rightarrow> num_elements (shared s) \<noteq> 0
      | C_failed \<Rightarrow> False
      | _ \<Rightarrow> True)"

definition spsc_inv :: "bool \<Rightarrow> 'a spsc \<Rightarrow> bool" where
  "spsc_inv checks s \<longleftrightarrow>
     (\<exists>W R. ring_inv s W R \<and> producer_inv s W R \<and> consumer_inv s W R) \<and>
     (consumer s = C_count \<longrightarrow> num_elements (shared s) \<noteq> 0) \<and> (checks \<longrightarrow> counted s)"

lemma mod_near_neq:
  assumes "a < b" and "b < a + (n :: nat)"
  shows "a mod n \<noteq> b mod n"
proof
  assume "a mod n = b mod n"
  then have "n dvd b - a" using assms(1) by (metis mod_eq_dvd_iff_nat less_imp_le)
  then show False using assms by (auto dest: dvd_imp_le)
qed

lemma released_frame [simp]:
  "released (s\<lparr>shared := q\<rparr>) = released s" "released (s\<lparr>producer := p\<rparr>) = released s" "released (s\<lparr>published := ps\<rparr>) = released s"
  "undiscounted (s\<lparr>shared := q\<rparr>) = undiscounted s" "undiscounted (s\<lparr>producer := p\<rparr>) = undiscounted s"
  "undiscounted (s\<lparr>published := ps\<rparr>) = undiscounted s"
  "uncounted (s\<lparr>shared := q\<rparr>) = uncounted s" "uncounted (s\<lparr>consumer := c\<rparr>) = uncounted s"
  "uncounted (s\<lparr>taken := ts\<rparr>) = uncounted s"
  by (simp_all add: released_def undiscounted_def uncounted_def)

lemma counter_cases [simp]:
  "producer s = P_count \<Longrightarrow> uncounted s = 1" "producer s \<noteq> P_count \<Longrightarrow> uncounted s = 0"
  "uncounted (s\<lparr>producer := p\<rparr>) = (if p = P_count then 1 else 0)"
  by (auto simp: uncounted_def split: producer_pc.splits)

lemmas spsc_defs = ring_inv_def producer_inv_def consumer_inv_def Let_def

lemma inv_start: "0 < n \<Longrightarrow> spsc_inv checks (spsc_start d n)"
  by (simp add: spsc_inv_def spsc_defs counted_def released_def uncounted_def undiscounted_def spsc_start_def LockFreeQueue_def)

text \<open>What a thread knows does not depend on what the other one does.\<close>

lemma consumer_frame:
  assumes "consumer_inv s W R" and "W \<le> W'"
    and "consumer s' = consumer s" "taken s' = taken s" "lf_capacity (shared s') = lf_capacity (shared s)"
  shows "consumer_inv s' W' R"
  using assms by (cases "consumer s") (simp_all add: consumer_inv_def Let_def)

lemma producer_frame:
  assumes "producer_inv s W R" and "R \<le> R'"
    and "producer s' = producer s" "lf_store (shared s') = lf_store (shared s)" "lf_capacity (shared s') = lf_capacity (shared s)"
  shows "producer_inv s' W R'"
  using assms by (cases "producer s") (simp_all add: producer_inv_def Let_def)

lemma counted_same:
  assumes "counted s" and "consumer s' = consumer s" and "num_elements (shared s) \<le> num_elements (shared s')"
  shows "counted s'"
  using assms by (cases "consumer s") (simp_all add: counted_def)

lemma inv_producer:
  assumes "spsc_inv checks s" and "producer_step s s'"
  shows "spsc_inv checks s'"
proof -
  obtain W R where ring: "ring_inv s W R" and p: "producer_inv s W R" and c: "consumer_inv s W R"
    using assms(1) unfolding spsc_inv_def by blast
  let ?n = "lf_capacity (shared s)"
  have same: "consumer s' = consumer s" "taken s' = taken s" "lf_capacity (shared s') = ?n"
    "num_elements (shared s) \<le> num_elements (shared s')"
    using assms(2) by (auto elim: producer_step.cases)
  note c' = consumer_frame [OF c _ same(1-3)]
  have rest: "consumer s' = C_count \<longrightarrow> num_elements (shared s') \<noteq> 0" "checks \<longrightarrow> counted s'"
    using assms(1) same counted_same [OF _ same(1,4)] by (auto simp: spsc_inv_def)
  have "\<exists>W'. W \<le> W' \<and> ring_inv s' W' R \<and> producer_inv s' W' R"
    using assms(2)
  proof (cases rule: producer_step.cases)
    case (begins x)
    have "W + 1 \<noteq> R + ?n"
      using begins(3) ring by (auto simp: ring_inv_def Let_def mod_Suc_eq)
    then show ?thesis using begins ring by (intro exI [of _ W]) (simp add: spsc_defs getNextToWrite_def)
  next
    case (fills slot x)
    have "k mod ?n \<noteq> slot" if "R \<le> k" "k < W" for k
      using mod_near_neq [of k W ?n] that p ring fills by (simp add: spsc_defs)
    then show ?thesis using fills ring p by (intro exI [of _ W]) (simp add: spsc_defs)
  next
    case (loads x)
    then show ?thesis using ring p by (intro exI [of _ W]) (simp add: spsc_defs mod_Suc_eq)
  next
    case (stores v x)
    then show ?thesis
      using ring p by (intro exI [of _ "W + 1"]) (auto simp: spsc_defs nth_append less_Suc_eq)
  next
    case counts
    then show ?thesis using ring by (intro exI [of _ W]) (simp add: spsc_defs)
  qed
  then show ?thesis using c' rest unfolding spsc_inv_def by blast
qed

lemma inv_consumer:
  assumes "spsc_inv checks s" and "consumer_step checks s s'"
  shows "spsc_inv checks s'"
proof -
  obtain W R where ring: "ring_inv s W R" and p: "producer_inv s W R" and c: "consumer_inv s W R"
    using assms(1) unfolding spsc_inv_def by blast
  have num: "consumer s = C_count \<longrightarrow> num_elements (shared s) \<noteq> 0" and counted: "checks \<longrightarrow> counted s"
    using assms(1) by (simp_all add: spsc_inv_def)
  let ?n = "lf_capacity (shared s)"
  have same: "producer s' = producer s" "lf_store (shared s') = lf_store (shared s)" "lf_capacity (shared s') = ?n"
    using assms(2) by (auto elim: consumer_step.cases)
  note p' = producer_frame [OF p _ same]
  have "\<exists>R'. R \<le> R' \<and> ring_inv s' W R' \<and> consumer_inv s' W R'"
    using assms(2)
  proof (cases rule: consumer_step.cases)
    case gets
    then have "R \<noteq> W" using ring by (auto simp: ring_inv_def Let_def)
    then show ?thesis
      using gets ring by (intro exI [of _ R]) (simp add: spsc_defs released_def undiscounted_def)
  next
    case (takes slot)
    have "lf_store (shared s) slot = published s ! R" "length (taken s) = R" "R < W"
      using takes ring c by (simp_all add: spsc_defs released_def)
    then show ?thesis
      using takes ring by (intro exI [of _ R]) (simp add: spsc_defs released_def undiscounted_def take_Suc_conv_app_nth)
  next
    case loads
    then show ?thesis
      using ring c by (intro exI [of _ R]) (auto simp: spsc_defs released_def undiscounted_def mod_Suc_eq)
  next
    case (stores v)
    then show ?thesis
      using ring c by (intro exI [of _ "R + 1"]) (simp add: spsc_defs released_def undiscounted_def)
  next
    case counts
    then show ?thesis
      using ring num by (intro exI [of _ R]) (auto simp: spsc_defs released_def undiscounted_def)
  qed (use ring c in \<open>intro exI [of _ R]; simp add: spsc_defs released_def undiscounted_def\<close>)+
  moreover have "consumer s' = C_count \<longrightarrow> num_elements (shared s') \<noteq> 0" "checks \<longrightarrow> counted s'"
    using assms(2) counted by (auto elim!: consumer_step.cases simp: counted_def lf_size_def)
  ultimately show ?thesis using p' unfolding spsc_inv_def by blast
qed

lemma reach_inv:
  assumes "spsc_reach checks (spsc_start d n) s" and "0 < n"
  shows "spsc_inv checks s"
  using assms(1)
proof (induction rule: spsc_reach.induct)
  case initial
  show ?case by (rule inv_start [OF assms(2)])
next
  case (produce s s')
  show ?case by (rule inv_producer [OF produce.IH produce.hyps(2)])
next
  case (consume s s')
  show ?case by (rule inv_consumer [OF consume.IH consume.hyps(2)])
qed

subsection \<open>The ring holds what is published and not released\<close>

lemma ring_distance:
  assumes "r < n" and "d < (n :: nat)"
  shows "((r + d) mod n + n - r) mod n = d"
proof (cases "r + d < n")
  case False
  then have "(r + d) mod n = r + d - n" using assms mod_once [of "r + d" n] by simp
  then show ?thesis using False assms by simp
qed (use assms in simp)

lemma ring_contents:
  assumes "ring_inv s W R"
  shows "lf_contents (shared s) = drop R (published s)"
proof -
  let ?q = "shared s" and ?n = "lf_capacity (shared s)"
  have r: "0 < ?n" "W = length (published s)" "R \<le> W" "W < R + ?n" "next_write_index ?q = W mod ?n" "next_read_index ?q = R mod ?n"
    and slots: "\<forall>k. R \<le> k \<longrightarrow> k < W \<longrightarrow> lf_store ?q (k mod ?n) = published s ! k"
    using assms by (simp_all add: ring_inv_def Let_def)
  have at: "(R mod ?n + (W - R)) mod ?n = W mod ?n" unfolding mod_add_left_eq using r(3) by simp
  have "lf_count ?q = ((R mod ?n + (W - R)) mod ?n + ?n - R mod ?n) mod ?n" unfolding at by (simp add: lf_count_def r(5,6))
  also have "\<dots> = W - R"
    using r(1,3,4) by (intro ring_distance) simp_all
  finally have count: "lf_count ?q = W - R" .
  have "lf_store ?q ((R mod ?n + k) mod ?n) = published s ! (R + k)" if "k < W - R" for k
    using slots [rule_format, of "R + k"] that by (simp add: mod_add_left_eq)
  then show ?thesis
    by (intro nth_equalityI) (simp_all add: count r(2), simp add: lf_contents_def count r(2,6))
qed

text \<open>C7: the queue is a FIFO between two threads. In every interleaving of the atomic accesses of one producer that
  leaves one slot free and one consumer that looks at \<open>size()\<close>: the consumer's assertion does not fail, it
  has been handed a prefix of what was published, in order and each element once, and it never reads the slot
  the producer is filling. When both are between two operations, the queue is well formed and its contents are
  just the elements that are published and not taken, as the model with whole operations has it.\<close>

theorem queue_is_fifo_between_threads:
  assumes "spsc_reach True (spsc_start d n) s" and "0 < n"
  shows "consumer s \<noteq> C_failed \<and> (\<exists>rest. published s = taken s @ rest) \<and>
    (\<forall>slot x. producer s = P_fill slot x \<longrightarrow> consumer s \<noteq> C_body slot) \<and>
    (producer s = P_idle \<and> consumer s = C_idle \<longrightarrow>
      lf_inv (shared s) \<and> published s = taken s @ lf_contents (shared s))"
proof -
  obtain W R where ring: "ring_inv s W R" and p: "producer_inv s W R" and c: "consumer_inv s W R" and counted: "counted s"
    using reach_inv [OF assms] unfolding spsc_inv_def by blast
  have "taken s = take (length (taken s)) (published s)" using ring by (simp add: ring_inv_def Let_def)
  then have prefix: "published s = taken s @ drop (length (taken s)) (published s)" by (metis append_take_drop_id)
  have "consumer s \<noteq> C_body slot" if "producer s = P_fill slot x" for slot x
    using mod_near_neq [of R W "lf_capacity (shared s)"] ring p c that by (auto simp: spsc_defs)
  moreover have "lf_inv (shared s)" "drop (length (taken s)) (published s) = lf_contents (shared s)"
    if "producer s = P_idle" "consumer s = C_idle"
  proof -
    have R: "R = length (taken s)" "num_elements (shared s) + R = W"
      using ring that by (simp_all add: ring_inv_def Let_def released_def undiscounted_def)
    show "drop (length (taken s)) (published s) = lf_contents (shared s)" using ring_contents [OF ring] R(1) by simp
    have "lf_count (shared s) = W - R"
      using arg_cong [OF ring_contents [OF ring], of length] ring by (simp add: ring_inv_def Let_def)
    then show "lf_inv (shared s)" using ring R(2) by (simp add: lf_inv_def ring_inv_def Let_def)
  qed
  ultimately show ?thesis using prefix counted by (auto simp: counted_def)
qed

subsection \<open>A run\<close>

text \<open>The producer has made its first element visible and not yet counted it.\<close>

definition half_written :: "'a \<Rightarrow> nat \<Rightarrow> 'a \<Rightarrow> 'a spsc" where
  "half_written d n x = \<lparr>shared = (LockFreeQueue d n)\<lparr>lf_store := (\<lambda>_. d)(0 := x), next_write_index := 1\<rparr>,
     producer = P_count, consumer = C_idle, published = [x], taken = []\<rparr>"

lemma half_written_reach:
  assumes "1 < n"
  shows "spsc_reach checks (spsc_start d n) (half_written d n x)"
proof -
  let ?q = "LockFreeQueue d n"
  let ?s = "\<lambda>q p. \<lparr>shared = q, producer = p, consumer = C_idle, published = [], taken = []\<rparr>"
  have "spsc_reach checks (spsc_start d n) (?s ?q P_idle)"
    using spsc_reach.initial [of checks "spsc_start d n"] by (simp add: spsc_start_def)
  from spsc_reach.produce [OF this producer_step.begins [where x = x]]
  have "spsc_reach checks (spsc_start d n) (?s ?q (P_fill 0 x))"
    using assms by (simp add: LockFreeQueue_def getNextToWrite_def)
  from spsc_reach.produce [OF this producer_step.fills]
  have "spsc_reach checks (spsc_start d n) (?s (?q\<lparr>lf_store := (\<lambda>_. d)(0 := x)\<rparr>) (P_load x))"
    by (simp add: LockFreeQueue_def)
  from spsc_reach.produce [OF this producer_step.loads]
  have "spsc_reach checks (spsc_start d n) (?s (?q\<lparr>lf_store := (\<lambda>_. d)(0 := x)\<rparr>) (P_store 1 x))"
    using assms by (simp add: LockFreeQueue_def)
  from spsc_reach.produce [OF this producer_step.stores] show ?thesis by (simp add: half_written_def)
qed

theorem queue_is_fifo_between_threads_witness:
  "\<exists>s. spsc_reach True (spsc_start (0 :: nat) 4) s \<and> producer s = P_idle \<and> consumer s = C_idle \<and> published s = [7] \<and>
     lf_contents (shared s) = [7]"
proof -
  let ?s = "(half_written (0 :: nat) 4 7)\<lparr>shared := (shared (half_written 0 4 7))\<lparr>num_elements := 1\<rparr>, producer := P_idle\<rparr>"
  have r: "spsc_reach True (spsc_start 0 4) ?s"
    using spsc_reach.produce [OF half_written_reach [of 4 True 0 7] producer_step.counts]
    by (simp add: half_written_def LockFreeQueue_def)
  have "producer ?s = P_idle" "consumer ?s = C_idle" "published ?s = [7]" "taken ?s = []" by (simp_all add: half_written_def)
  with queue_is_fifo_between_threads [OF r] r show ?thesis by (intro exI [of _ ?s]) simp
qed

text \<open>
  The loop of the matching engine does not look at \<open>size()\<close>. It may see the element before it is counted, process
  it and find the counter at zero: the assertion fails and the exchange ends.
\<close>

lemma unchecked_reader_may_fail:
  assumes "1 < n"
  shows "\<exists>s. spsc_reach False (spsc_start d n) s \<and> consumer s = C_failed \<and> taken s = [x]"
proof -
  let ?h = "half_written d n x"
  have "spsc_reach False (spsc_start d n) (?h\<lparr>consumer := C_check 0\<rparr>)"
    using spsc_reach.consume [OF half_written_reach [OF assms, of False d x] consumer_step.gets] by (simp add: half_written_def LockFreeQueue_def)
  from spsc_reach.consume [OF this consumer_step.enters]
  have "spsc_reach False (spsc_start d n) (?h\<lparr>consumer := C_body 0\<rparr>)" by simp
  from spsc_reach.consume [OF this consumer_step.takes]
  have "spsc_reach False (spsc_start d n) (?h\<lparr>consumer := C_load, taken := [x]\<rparr>)" by (simp add: half_written_def)
  from spsc_reach.consume [OF this consumer_step.loads]
  have "spsc_reach False (spsc_start d n) (?h\<lparr>consumer := C_store 1, taken := [x]\<rparr>)"
    using assms by (simp add: half_written_def LockFreeQueue_def)
  from spsc_reach.consume [OF this consumer_step.stores]
  have "spsc_reach False (spsc_start d n) (?h\<lparr>shared := (shared ?h)\<lparr>next_read_index := 1\<rparr>, consumer := C_assert, taken := [x]\<rparr>)"
    by (simp add: half_written_def)
  from spsc_reach.consume [OF this consumer_step.fails] show ?thesis by (force simp: half_written_def LockFreeQueue_def)
qed

end
