(* ===== verification/Workers.thy ===== *)
theory Workers
  imports MainPrograms
begin

section \<open>The components' threads\<close>

text \<open>
  Every component runs its loop in a thread of its own while its flag \<^verbatim>\<open>is_running\<close> is set. A pass of the loop is an
  operation of the component's theory; what happens in between, on the other side of a queue or of a socket, is
  the input of the next pass. The matching engine's thread is in \<open>MatchingEngine\<close>, the trade engine's end in
  \<open>TradingShutdown\<close>.
\<close>

record 's worker =
  is_running :: bool
  component :: 's

text \<open>\<^verbatim>\<open>start\<close>, \<^verbatim>\<open>stop\<close> and \<^verbatim>\<open>while (is_running)\<close>; \<open>passes\<close> are the passes there would be time for.\<close>

definition start_worker :: "bool \<Rightarrow> string \<Rightarrow> 's worker \<Rightarrow> 's worker res" where
  "start_worker pinned msg w =
     (let w1 = w\<lparr>is_running := True\<rparr> in bindE (start_thread pinned msg) (\<lambda>_. Inr w1))"

definition stop_worker :: "'s worker \<Rightarrow> 's worker" where
  "stop_worker w = w\<lparr>is_running := False\<rparr>"

fun run_worker :: "('s \<Rightarrow> 's res) list \<Rightarrow> 's worker \<Rightarrow> 's worker res" where
  "run_worker [] w = Inr w"
| "run_worker (pass # passes) w =
     (if is_running w then bindE (pass (component w)) (\<lambda>s. run_worker passes (w\<lparr>component := s\<rparr>)) else Inr w)"

lemma stopped_worker_rests: "run_worker passes (stop_worker w) = Inr (stop_worker w)"
  by (cases passes) (simp_all add: stop_worker_def)

lemma run_worker_append: "run_worker (ps @ qs) w = bindE (run_worker ps w) (run_worker qs)"
proof (induction ps w rule: run_worker.induct)
  case (2 pass passes w)
  show ?case
  proof (cases "is_running w")
    case True
    then show ?thesis using 2 by (cases "pass (component w)") simp_all
  next
    case False
    then show ?thesis by (cases qs) simp_all
  qed
qed simp

subsection \<open>The exchange\<close>

definition synthesizer_start :: "bool \<Rightarrow> synthesizer worker \<Rightarrow> synthesizer worker res" where
  "synthesizer_start pinned = start_worker pinned ''Failed to start SnapshotSynthesizer thread.''"

definition synthesizer_stop :: "synthesizer worker \<Rightarrow> synthesizer worker" where
  "synthesizer_stop = stop_worker"

text \<open>The times of the clock in every pass, and what the publisher has queued before it.\<close>

definition synthesizer_run :: "(MDPMarketUpdate list \<times> Nanos \<times> Nanos) list \<Rightarrow> synthesizer worker \<Rightarrow> synthesizer worker res" where
  "synthesizer_run inputs =
     run_worker (map (\<lambda>(ms, now, now') s.
       synthesizer_run_once now now' (s\<lparr>snapshot_md_updates := lf_push_all (snapshot_md_updates s) ms\<rparr>)) inputs)"

definition publisher_start :: "bool \<Rightarrow> publisher worker \<times> synthesizer worker \<Rightarrow> (publisher worker \<times> synthesizer worker) res" where
  "publisher_start pinned = (\<lambda>(p, s).
     bindE (start_worker pinned ''Failed to start Market Data thread.'' p) (\<lambda>p'.
     bindE (synthesizer_start pinned s) (\<lambda>s'.
     Inr (p', s'))))"

definition publisher_stop :: "publisher worker \<times> synthesizer worker \<Rightarrow> publisher worker \<times> synthesizer worker" where
  "publisher_stop = (\<lambda>(p, s). (stop_worker p, synthesizer_stop s))"

text \<open>What the engine has queued before every pass.\<close>

definition publisher_turn :: "MatchingEngineMarketUpdate list \<Rightarrow> publisher \<Rightarrow> publisher res" where
  "publisher_turn us p =
     publisher_run_once (p\<lparr>pb_outgoing_market_updates := lf_push_all (pb_outgoing_market_updates p) us\<rparr>)"

definition publisher_run :: "MatchingEngineMarketUpdate list list \<Rightarrow> publisher worker \<Rightarrow> publisher worker res" where
  "publisher_run inputs = run_worker (map publisher_turn inputs)"

text \<open>The destructors stop the component; sleeping and the freeing of memory are left out.\<close>

definition delete_synthesizer :: "synthesizer worker \<Rightarrow> synthesizer worker" where
  "delete_synthesizer = synthesizer_stop"

definition delete_publisher :: "publisher worker \<times> synthesizer worker \<Rightarrow> publisher worker \<times> synthesizer worker" where
  "delete_publisher w = (case publisher_stop w of (p, s) \<Rightarrow> (p, delete_synthesizer s))"

definition order_server_stop :: "order_server worker \<Rightarrow> order_server worker" where
  "order_server_stop = stop_worker"

definition delete_order_server :: "order_server worker \<Rightarrow> order_server worker" where
  "delete_order_server = order_server_stop"

text \<open>What \<^verbatim>\<open>epoll\<close>, \<^verbatim>\<open>accept\<close> and the sockets answer in every pass.\<close>

definition order_server_run :: "(RecvTimeClientRequest list \<Rightarrow> RecvTimeClientRequest list) \<Rightarrow>
    (poll_event list \<times> (nat \<times> int) list \<times> (nat \<Rightarrow> (byte list \<times> Nanos) option) \<times> (nat \<Rightarrow> (byte list \<times> Nanos) option)) list \<Rightarrow>
    order_server worker \<Rightarrow> order_server worker res" where
  "order_server_run srt inputs =
     run_worker (map (\<lambda>(events, accepted, input, input'). order_server_run_once srt events accepted input input') inputs)"

subsection \<open>The trading program\<close>

definition gateway_stop :: "gateway worker \<Rightarrow> gateway worker" where
  "gateway_stop = stop_worker"

definition delete_gateway :: "gateway worker \<Rightarrow> gateway worker" where
  "delete_gateway = gateway_stop"

text \<open>The requests queued before every pass, and the bytes the connection delivers in it.\<close>

definition gateway_turn :: "MatchingEngineClientRequest list \<times> (byte list \<times> Nanos) option \<Rightarrow> gateway \<Rightarrow> gateway res" where
  "gateway_turn = (\<lambda>(rs, input) g. gateway_run_once input (g\<lparr>outgoing_request := lf_push_all (outgoing_request g) rs\<rparr>))"

definition gateway_run :: "(MatchingEngineClientRequest list \<times> (byte list \<times> Nanos) option) list \<Rightarrow> gateway worker \<Rightarrow>
    gateway worker res" where
  "gateway_run inputs = run_worker (map gateway_turn inputs)"

definition consumer_start :: "bool \<Rightarrow> consumer worker \<Rightarrow> consumer worker res" where
  "consumer_start pinned = start_worker pinned ''Failed to start MarketDataConsumer thread''"

definition consumer_stop :: "consumer worker \<Rightarrow> consumer worker" where
  "consumer_stop = stop_worker"

definition delete_consumer :: "consumer worker \<Rightarrow> consumer worker" where
  "delete_consumer = consumer_stop"

text \<open>The bytes the two sockets deliver in every pass.\<close>

definition consumer_run :: "join_result \<Rightarrow> (byte list \<times> byte list) list \<Rightarrow> consumer worker \<Rightarrow> consumer worker res" where
  "consumer_run env inputs = run_worker (map (\<lambda>(incremental, snapshot). consumer_run_once env incremental snapshot) inputs)"

text \<open>After its destructor no component does another pass.\<close>

lemma deleted_components_rest:
  "run_worker passes (delete_synthesizer s) = Inr (delete_synthesizer s)"
  "run_worker passes' (fst (delete_publisher (p, s))) = Inr (stop_worker p)"
  "run_worker passes'' (delete_order_server o') = Inr (delete_order_server o')"
  "run_worker passes3 (delete_gateway g) = Inr (delete_gateway g)"
  "run_worker passes4 (delete_consumer c) = Inr (delete_consumer c)"
  by (simp_all add: delete_synthesizer_def synthesizer_stop_def delete_publisher_def publisher_stop_def delete_order_server_def
      order_server_stop_def delete_gateway_def gateway_stop_def delete_consumer_def consumer_stop_def stopped_worker_rests)

subsection \<open>The streams over many passes\<close>

lemma publisher_turn_spec:
  assumes "lf_inv (pb_outgoing_market_updates p)" and "lf_contents (pb_outgoing_market_updates p) = []"
    and "send_buffer (incremental_socket p) = []" and "length us < lf_capacity (pb_outgoing_market_updates p)"
    and "SIZEOF_MDP * length us < BUFFER_SIZE"
  shows "\<exists>p'. publisher_turn us p = Inr p' \<and>
    sent_bytes (incremental_socket p') = sent_bytes (incremental_socket p) @ stream_bytes (next_increment_sequence_number p) us \<and>
    next_increment_sequence_number p' = next_increment_sequence_number p + of_nat (length us) \<and>
    lf_inv (pb_outgoing_market_updates p') \<and> lf_contents (pb_outgoing_market_updates p') = [] \<and>
    send_buffer (incremental_socket p') = [] \<and>
    lf_capacity (pb_outgoing_market_updates p') = lf_capacity (pb_outgoing_market_updates p)"
proof -
  let ?q = "lf_push_all (pb_outgoing_market_updates p) us"
  have "lf_count (pb_outgoing_market_updates p) = 0" using assms(2) length_lf_contents by (metis list.size(3))
  then have q: "lf_inv ?q" "lf_contents ?q = us" using lf_push_all_contents [OF assms(1), of us] assms(2,4) by simp_all
  have "lf_inv (lf_emptied ?q) \<and> lf_contents (lf_emptied ?q) = []" by (rule lf_emptied_inv [OF q(1)])
  moreover have "lf_capacity (lf_emptied ?q) = lf_capacity (pb_outgoing_market_updates p)" by (simp add: lf_emptied_def)
  ultimately show ?thesis
    using publisher_run_once_spec [of "p\<lparr>pb_outgoing_market_updates := ?q\<rparr>" us] q assms(3,5)
    by (auto simp: publisher_turn_def written_def)
qed

text \<open>C32: the stream has no gap, however the work is cut into passes. While the publisher runs, let the engine queue any
  batches of updates before its passes, each smaller than the queue. Every pass returns, the numbers go on from
  pass to pass, and what has been sent is the one stream of all updates in order.\<close>

theorem published_stream_is_gapless:
  assumes "is_running w" and "lf_inv (pb_outgoing_market_updates (component w))"
    and "lf_contents (pb_outgoing_market_updates (component w)) = []" and "send_buffer (incremental_socket (component w)) = []"
    and "\<forall>us \<in> set batches. length us < lf_capacity (pb_outgoing_market_updates (component w)) \<and> SIZEOF_MDP * length us < BUFFER_SIZE"
  shows "\<exists>w'. publisher_run batches w = Inr w' \<and> is_running w' \<and>
    sent_bytes (incremental_socket (component w')) =
      sent_bytes (incremental_socket (component w)) @ stream_bytes (next_increment_sequence_number (component w)) (concat batches) \<and>
    next_increment_sequence_number (component w') =
      next_increment_sequence_number (component w) + of_nat (length (concat batches))"
  using assms
proof (induction batches arbitrary: w)
  case (Cons us batches)
  obtain p where p: "publisher_turn us (component w) = Inr p"
      "sent_bytes (incremental_socket p) =
        sent_bytes (incremental_socket (component w)) @ stream_bytes (next_increment_sequence_number (component w)) us"
      "next_increment_sequence_number p = next_increment_sequence_number (component w) + of_nat (length us)"
      "lf_inv (pb_outgoing_market_updates p)" "lf_contents (pb_outgoing_market_updates p) = []"
      "send_buffer (incremental_socket p) = []"
      "lf_capacity (pb_outgoing_market_updates p) = lf_capacity (pb_outgoing_market_updates (component w))"
    using publisher_turn_spec [of "component w" us] Cons.prems by auto
  obtain w' where "publisher_run batches (w\<lparr>component := p\<rparr>) = Inr w'" "is_running w'"
      "sent_bytes (incremental_socket (component w')) =
        sent_bytes (incremental_socket p) @ stream_bytes (next_increment_sequence_number p) (concat batches)"
      "next_increment_sequence_number (component w') = next_increment_sequence_number p + of_nat (length (concat batches))"
    using Cons.IH [of "w\<lparr>component := p\<rparr>"] Cons.prems(1,5) p(4-7) by auto
  then show ?case using p(1-3) Cons.prems(1) by (auto simp: publisher_run_def number_from_append add.assoc)
qed (simp add: publisher_run_def)

theorem published_stream_is_gapless_witness:
  "\<exists>p w'. MarketDataPublisher market_update_queue 3 = Inr p \<and>
    publisher_run [[ex_add], [], [ex_add, ex_add]] \<lparr>is_running = True, component = p\<rparr> = Inr w' \<and>
    sent_bytes (incremental_socket (component w')) = stream_bytes 1 [ex_add, ex_add, ex_add]"
proof -
  obtain p where p: "MarketDataPublisher market_update_queue 3 = Inr p" "pb_outgoing_market_updates p = market_update_queue"
      "incremental_socket p = new_socket 3" "next_increment_sequence_number p = 1"
    by (simp add: MarketDataPublisher_def)
  have q: "lf_inv market_update_queue" "lf_contents market_update_queue = []" "lf_capacity market_update_queue = 262144"
    by (simp_all add: market_update_queue_def lf_inv_LockFreeQueue limit_defs)
  show ?thesis
    using published_stream_is_gapless [of "\<lparr>is_running = True, component = p\<rparr>" "[[ex_add], [], [ex_add, ex_add]]"] p q
    by (auto simp: SIZEOF_MDP_def BUFFER_SIZE_def)
qed

end
