(* ===== verification/Clock.thy ===== *)
theory Clock
  imports CommonTypes
begin

section \<open>The clock\<close>

text \<open>
  \<^verbatim>\<open>common/TimeUtil.hpp\<close>. The constants and \<open>Nanos\<close> are in \<open>CommonTypes\<close>. What \<^verbatim>\<open>getCurrentNanos\<close> answers is an input of
  every operation that asks for the time; \<open>ctime\<close> is the text the C library has for a moment, which by its
  documentation is not empty and ends in a newline.
\<close>

definition getCurrentTimeStr :: "(Nanos \<Rightarrow> string) \<Rightarrow> Nanos \<Rightarrow> string" where
  "getCurrentTimeStr ctime now =
     (let time_str = ctime now in
      if time_str \<noteq> [] then time_str[length time_str - 1 := CHR 0x00] else time_str)"

text \<open>Its last character becomes a NUL, so what is printed is the text without the newline.\<close>

lemma getCurrentTimeStr_text:
  assumes "CHR 0x00 \<notin> set (ctime now)"
  shows "takeWhile (\<lambda>c. c \<noteq> CHR 0x00) (getCurrentTimeStr ctime now) = butlast (ctime now)"
    and "length (getCurrentTimeStr ctime now) = length (ctime now)"
proof -
  show "takeWhile (\<lambda>c. c \<noteq> CHR 0x00) (getCurrentTimeStr ctime now) = butlast (ctime now)"
  proof (cases "ctime now" rule: rev_cases)
    case (snoc cs c)
    then have "getCurrentTimeStr ctime now = cs @ [CHR 0x00]" by (simp add: getCurrentTimeStr_def list_update_append)
    moreover have "\<forall>c \<in> set cs. c \<noteq> CHR 0x00" using assms snoc by auto
    then have "takeWhile (\<lambda>c. c \<noteq> CHR 0x00) (cs @ [CHR 0x00]) = cs" by (induction cs) auto
    ultimately show ?thesis using snoc by simp
  qed (simp add: getCurrentTimeStr_def)
  show "length (getCurrentTimeStr ctime now) = length (ctime now)" by (simp add: getCurrentTimeStr_def Let_def)
qed

end
