(* ===== verification/LogStatements.thy ===== *)
theory LogStatements
  imports Logging Clock TradeEngine
begin

section \<open>The log statements\<close>

text \<open>
  \<^verbatim>\<open>log\<close> ends the process when a format has more or fewer places than there are arguments, and the compiler does
  not look. This theory holds every call of \<^verbatim>\<open>log\<close> in the program with its file, its line, its format and the number
  of its arguments, and shows that none is fatal; the other theories leave the calls out. The functions
  that do nothing but log are here too.
\<close>

subsection \<open>Places of a format\<close>

fun places :: "string \<Rightarrow> nat" where
  "places [] = 0"
| "places (c # s) =
     (if c = CHR ''%'' then (if s \<noteq> [] \<and> hd s = CHR ''%'' then places (tl s) else Suc (places s)) else places s)"

lemma log_fits: "length vs = places s \<Longrightarrow> \<exists>es. log_message s vs q = Inr (lf_push_all q es)"
proof (induction s vs q rule: log_message.induct)
  case (1 q)
  show ?case by (intro exI [of _ "[]"]) simp
next
  case (3 c s vs q)
  have push: "\<exists>es'. Inr (lf_push_all (lf_push_all q es) xs) = Inr (lf_push_all q es')" for es xs
    by (intro exI [of _ "es @ xs"]) (simp add: lf_push_all_append)
  show ?case
  proof (cases "c = CHR ''%'' \<and> \<not> (s \<noteq> [] \<and> hd s = CHR ''%'')")
    case True
    then obtain v vs' where v: "vs = v # vs'" using "3.prems" by (cases vs) auto
    then obtain es where "log_message s vs' (pushValue v q) = Inr (lf_push_all (pushValue v q) es)"
      using "3.IH"(2) [of v vs'] "3.prems" True by auto
    then show ?thesis using True push v by (auto simp: pushValue_all)
  next
    case False
    then show ?thesis
      using "3.IH"(1) "3.IH"(3) "3.prems" push [of "[_]"] by (auto split: if_splits)
  qed
qed simp

lemma log_misfits: "length vs \<noteq> places s \<Longrightarrow> \<exists>m. log_message s vs q = Inl (FatalError m)"
proof (induction s vs q rule: log_message.induct)
  case (3 c s vs q)
  then show ?case by (cases vs) (auto simp: FATAL_def split: if_splits)
qed (simp_all add: FATAL_def)

subsection \<open>All statements\<close>

text \<open>Line, format and number of arguments, by file.\<close>

type_synonym log_statement = "nat \<times> string \<times> nat"

definition nl :: string where
  "nl = [CHR 0x0A]"

definition common_logs :: "(string \<times> log_statement list) list" where
  "common_logs =
    [(''common/McastSocket.cc'',
       [(24, ''%:% %() % read socket:% len:%'' @ nl, 6),
        (31, ''%:% %() % send socket:% len:%'' @ nl, 6)]),
     (''common/SocketUtil.hpp'',
       [(110, ''%:% %() % cfg:%'' @ nl, 5),
        (128, ''socket() failed: %'' @ nl, 1),
        (132, ''setNonBlockingFD() failed: %'' @ nl, 1),
        (137, ''setNoDelay() failed: %'' @ nl, 1),
        (144, ''connect() failed: %'' @ nl, 1),
        (154, ''bind() failed: %'' @ nl, 1),
        (160, ''listen() failed: %'' @ nl, 1),
        (168, ''setSOTimestamp() failed: %'' @ nl, 1)]),
     (''common/TCPServer.cc'',
       [(31, ''%:% %() % EPOLLIN listener_socket:%'' @ nl, 5),
        (37, ''%:% %() % EPOLLIN socket:%'' @ nl, 5),
        (46, ''%:% %() % EPOLLOUT socket:%'' @ nl, 5),
        (55, ''%:% %() % EPOLLERR socket:%'' @ nl, 5),
        (65, ''%:% %() % have_new_connection'' @ nl, 4),
        (76, ''%:% %() % accepted socket:%'' @ nl, 5)]),
     (''common/TCPSocket.cc'',
       [(45, ''%:% %() % read socket:% len:% utime:% ktime:% diff:%'' @ nl, 9),
        (56, ''%:% %() % send socket:% len:%'' @ nl, 6)])]"

definition exchange_logs :: "(string \<times> log_statement list) list" where
  "exchange_logs =
    [(''exchange/exchange_main.cc'',
       [(41, ''%:% %() % Starting Matching Engine...'' @ nl, 4),
        (54, ''%:% %() % Starting Market Data Publisher...'' @ nl, 4),
        (64, ''%:% %() % Starting Order Server...'' @ nl, 4),
        (72, ''%:% %() % Sleeping for a few milliseconds..'' @ nl, 4)]),
     (''exchange/market_data/MarketDataPublisher.cc'',
       [(40, ''%:% %() %'' @ nl, 4),
        (44, ''%:% %() % Sending seq:% %'' @ nl, 6)]),
     (''exchange/market_data/SnapshotSynthesizer.cc'',
       [(87, ''%:% %() % %'' @ nl, 5),
        (106, ''%:% %() % %'' @ nl, 5),
        (118, ''%:% %() % %'' @ nl, 5),
        (131, ''%:% %() % %'' @ nl, 5),
        (137, ''%:% %() % Published snapshot of % orders.'' @ nl, 5),
        (144, ''%:% %() %'' @ nl, 4),
        (148, ''%:% %() % Processing %'' @ nl, 5)]),
     (''exchange/matching/MatchingEngine.hpp'',
       [(54, ''%:% %() % Sending %'' @ nl, 5),
        (64, ''%:% %() % Sending %'' @ nl, 5),
        (73, ''%:% %() %'' @ nl, 4),
        (78, ''%:% %() % Processing %'' @ nl, 5)]),
     (''exchange/matching/OrderBook.cc'',
       [(16, ''%:% %() % OrderBook'' @ nl @ ''%'' @ nl, 5)]),
     (''exchange/order_server/FifoSequencer.hpp'',
       [(25, ''%:% %() % Processing % requests.'' @ nl, 5),
        (32, ''%:% %() % Writing RX:% Req:% to FIFO.'' @ nl, 6)]),
     (''exchange/order_server/OrderServer.hpp'',
       [(23, ''%:% %() %'' @ nl, 4),
        (33, ''%:% %() % Processing cid:% seq:% %'' @ nl, 7),
        (54, ''%:% %() % Received socket:% len:% rx:%'' @ nl, 7),
        (62, ''%:% %() % Received %'' @ nl, 5),
        (70, ''%:% %() % Received ClientRequest from ClientId:% on different socket:% expected:%'' @ nl, 7),
        (79, ''%:% %() % Incorrect sequence number. ClientId:% SeqNum expected:% received:%'' @ nl, 7)])]"

definition trading_logs :: "(string \<times> log_statement list) list" where
  "trading_logs =
    [(''trading/market_data/MarketDataConsumer.cc'',
       [(48, ''%:% %() %'' @ nl, 4),
        (78, ''%:% %() % Returning because have not seen a SNAPSHOT_START yet.'' @ nl, 4),
        (89, ''%:% %() % % => %'' @ nl, 6),
        (95, ''%:% %() % Detected gap in snapshot stream expected:% found:% %.'' @ nl, 7),
        (111, ''%:% %() % Returning because found gaps in snapshot stream.'' @ nl, 4),
        (122, ''%:% %() % Returning because have not seen a SNAPSHOT_END yet.'' @ nl, 4),
        (134, ''%:% %() % Checking next_exp:% vs. seq:% %.'' @ nl, 7),
        (146, ''%:% %() % Detected gap in incremental stream expected:% found:% %.'' @ nl, 7),
        (157, ''%:% %() % % => %'' @ nl, 6),
        (173, ''%:% %() % Returning because have gaps in queued incrementals.'' @ nl, 4),
        (187, ''%:% %() % Recovered % snapshot and % incremental orders.'' @ nl, 6),
        (205, ''%:% %() % Packet drops on snapshot socket. Received for a 2nd time:%'' @ nl, 5),
        (217, ''%:% %() % size snapshot:% incremental:% % => %'' @ nl, 8),
        (234, ''%:% %() % WARN Not expecting snapshot messages.'' @ nl, 4),
        (245, ''%:% %() % Received % socket len:% %'' @ nl, 7),
        (258, ''%:% %() % Packet drops on % socket. SeqNum expected:% received:%'' @ nl, 7),
        (271, ''%:% %() % %'' @ nl, 5)]),
     (''trading/order_gateway/Gateway.cc'',
       [(45, ''%:% %() %'' @ nl, 4),
        (56, ''%:% %() % Sending cid:% seq:% %'' @ nl, 7),
        (72, ''%:% %() % Received socket:% len:% %'' @ nl, 7),
        (86, ''%:% %() % Received %'' @ nl, 5),
        (92, ''%:% %() % ERROR Incorrect client id. ClientId expected:% received:%.'' @ nl, 6),
        (101, ''%:% %() % ERROR Incorrect sequence number. ClientId:%. SeqNum expected:% received:%.'' @ nl, 7)]),
     (''trading/strategy/FeatureEngine.hpp'',
       [(22, ''%:% %() % ticker:% price:% side:% mkt-price:% agg-trade-ratio:%'' @ nl, 9),
        (39, ''%:% %() % % mkt-price:% agg-trade-ratio:%'' @ nl, 7)]),
     (''trading/strategy/LiquidityTaker.cc'',
       [(25, ''%:% %() % %'' @ nl, 5),
        (34, ''%:% %() % % agg-qty-ratio:%'' @ nl, 6),
        (53, ''%:% %() % ticker:% price:% side:%'' @ nl, 7),
        (63, ''%:% %() % %'' @ nl, 5)]),
     (''trading/strategy/MarketMaker.cc'',
       [(26, ''%:% %() % ticker:% price:% side:%'' @ nl, 7),
        (38, ''%:% %() % % fair-price:%'' @ nl, 6),
        (53, ''%:% %() % %'' @ nl, 5),
        (61, ''%:% %() % %'' @ nl, 5)]),
     (''trading/strategy/MarketOrderBook.cc'',
       [(12, ''%:% %() % OrderBook'' @ nl @ ''%'' @ nl, 5),
        (96, ''%:% %() % % %'', 6)]),
     (''trading/strategy/OrderManager.cc'',
       [(18, ''%:% %() % Sent new order % for %'' @ nl, 6),
        (38, ''%:% %() % Sent cancel % for %'' @ nl, 6),
        (62, ''%:% %() % Ticker:% Side:% Qty:%RiskCheckResult:%'' @ nl, 8),
        (91, ''%:% %() % %'' @ nl, 5),
        (97, ''%:% %() % %'' @ nl, 5)]),
     (''trading/strategy/PositionKeeper.hpp'',
       [(68, ''%:% %() % % %'' @ nl, 6),
        (90, ''%:% %() % % %'' @ nl, 6)]),
     (''trading/strategy/TradeEngine.cc'',
       [(40, ''%:% %() % Initialized % Ticker:% %.'' @ nl, 7),
        (76, ''%:% %() %'' @ nl, 4),
        (81, ''%:% %() % Processing %'' @ nl, 5),
        (106, ''%:% %() % Sleeping till all updates are consumed ogw-size:% md-size:%'' @ nl, 6),
        (115, ''%:% %() % POSITIONS'' @ nl @ ''%'' @ nl, 5),
        (124, ''%:% %() % Sending %'' @ nl, 5),
        (136, ''%:% %() % ticker:% price:% side:%'' @ nl, 7),
        (150, ''%:% %() % %'' @ nl, 5),
        (160, ''%:% %() % %'' @ nl, 5)]),
     (''trading/strategy/TradeEngine.hpp'',
       [(93, ''%:% %() % ticker:% price:% side:%'' @ nl, 7),
        (103, ''%:% %() % %'' @ nl, 5),
        (111, ''%:% %() % %'' @ nl, 5)]),
     (''trading/trading_main.cc'',
       [(42, ''%:% %() % Starting Trade Engine...'' @ nl, 4),
        (63, ''%:% %() % Starting Order Gateway...'' @ nl, 4),
        (85, ''%:% %() % Starting Market Data Consumer...'' @ nl, 4),
        (137, ''%:% %() % Stopping early because been silent for % seconds...'' @ nl, 5),
        (148, ''%:% %() % Waiting till no activity, been silent for % seconds...'' @ nl, 5)])]"

definition log_statements :: "log_statement list" where
  "log_statements = concat (map snd (common_logs @ exchange_logs @ trading_logs))"

lemma statements_fit: "\<forall>(line, format, n) \<in> set log_statements. places format = n"
  by code_simp

text \<open>C36: no call of \<open>log\<close> in the program is fatal, whatever the values of its arguments are: with as many arguments
  as the statement has, and only then, the message is queued.\<close>

theorem no_log_statement_is_fatal:
  assumes "(line, format, n) \<in> set log_statements"
  shows "if length vs = n then \<exists>es. log_message format vs q = Inr (lf_push_all q es)
    else \<exists>m. log_message format vs q = Inl (FatalError m)"
  using statements_fit assms log_fits [of vs format q] log_misfits [of vs format q] by auto

theorem no_log_statement_is_fatal_witness:
  "length log_statements = 103 \<and> (\<exists>es. log_message (''%:% %() % Sending %'' @ nl)
     [C_string ''TradeEngine.cc'', Element (Log_INTEGER 124), C_string ''sendClientRequest'', Std_string ''noon'', C_string ''order'']
     (LockFreeQueue (Log_CHAR (CHR 0x00)) 99) = Inr (lf_push_all (LockFreeQueue (Log_CHAR (CHR 0x00)) 99) es))"
proof -
  have count: "length log_statements = 103" by code_simp
  have "(124, ''%:% %() % Sending %'' @ nl, 5) \<in> set log_statements"
    by (simp add: log_statements_def common_logs_def exchange_logs_def trading_logs_def nl_def)
  from no_log_statement_is_fatal [OF this, of "[C_string ''TradeEngine.cc'', Element (Log_INTEGER 124),
      C_string ''sendClientRequest'', Std_string ''noon'', C_string ''order'']" "LockFreeQueue (Log_CHAR (CHR 0x00)) 99"]
  have "\<exists>es. log_message (''%:% %() % Sending %'' @ nl)
     [C_string ''TradeEngine.cc'', Element (Log_INTEGER 124), C_string ''sendClientRequest'', Std_string ''noon'', C_string ''order'']
     (LockFreeQueue (Log_CHAR (CHR 0x00)) 99) = Inr (lf_push_all (LockFreeQueue (Log_CHAR (CHR 0x00)) 99) es)"
    by (simp del: log_message.simps append.simps)
  with count show ?thesis by blast
qed

subsection \<open>Handlers that only log\<close>

text \<open>
  The callbacks of a trade engine without a strategy and the callbacks its strategies have no use for. \<open>file\<close> is
  \<^verbatim>\<open>__FILE__\<close> and \<open>time_str\<close> what \<open>getCurrentTimeStr\<close> gives.
\<close>

definition log_place :: "string \<Rightarrow> int \<Rightarrow> string \<Rightarrow> string \<Rightarrow> log_value list" where
  "log_place file line function time_str =
     [C_string file, Element (Log_INTEGER line), C_string function, Std_string time_str]"

definition log_book_update :: "log_value list \<Rightarrow> TickerID \<Rightarrow> Price \<Rightarrow> Side \<Rightarrow> LogElement lfqueue \<Rightarrow> LogElement lfqueue res" where
  "log_book_update place ticker_id price side =
     log_message (''%:% %() % ticker:% price:% side:%'' @ nl)
       (place @ [Element (Log_UNSIGNED_INTEGER ticker_id), C_string (priceToString price), C_string (sideToString side)])"

definition log_text :: "log_value list \<Rightarrow> string \<Rightarrow> LogElement lfqueue \<Rightarrow> LogElement lfqueue res" where
  "log_text place text = log_message (''%:% %() % %'' @ nl) (place @ [C_string text])"

definition defaultAlgoOnOrderBookUpdate :: "string \<Rightarrow> string \<Rightarrow> TickerID \<Rightarrow> Price \<Rightarrow> Side \<Rightarrow> LogElement lfqueue \<Rightarrow>
    LogElement lfqueue res" where
  "defaultAlgoOnOrderBookUpdate file time_str = log_book_update (log_place file 94 ''defaultAlgoOnOrderBookUpdate'' time_str)"

definition defaultAlgoOnTradeUpdate :: "string \<Rightarrow> string \<Rightarrow> MatchingEngineMarketUpdate \<Rightarrow> LogElement lfqueue \<Rightarrow>
    LogElement lfqueue res" where
  "defaultAlgoOnTradeUpdate file time_str market_update =
     log_text (log_place file 104 ''defaultAlgoOnTradeUpdate'' time_str) (update_toString market_update)"

definition defaultAlgoOnOrderUpdate :: "string \<Rightarrow> string \<Rightarrow> MatchingEngineClientResponse \<Rightarrow> LogElement lfqueue \<Rightarrow>
    LogElement lfqueue res" where
  "defaultAlgoOnOrderUpdate file time_str client_response =
     log_text (log_place file 112 ''defaultAlgoOnOrderUpdate'' time_str) (response_toString client_response)"

definition lt_onOrderBookUpdate :: "string \<Rightarrow> string \<Rightarrow> TickerID \<Rightarrow> Price \<Rightarrow> Side \<Rightarrow> LogElement lfqueue \<Rightarrow>
    LogElement lfqueue res" where
  "lt_onOrderBookUpdate file time_str = log_book_update (log_place file 54 ''onOrderBookUpdate'' time_str)"

definition mm_onTradeUpdate :: "string \<Rightarrow> string \<Rightarrow> MatchingEngineMarketUpdate \<Rightarrow> LogElement lfqueue \<Rightarrow>
    LogElement lfqueue res" where
  "mm_onTradeUpdate file time_str market_update =
     log_text (log_place file 54 ''onTradeUpdate'' time_str) (update_toString market_update)"

lemma logging_handlers_return:
  "\<exists>es. defaultAlgoOnOrderBookUpdate file time_str t p sd q = Inr (lf_push_all q es)"
  "\<exists>es. defaultAlgoOnTradeUpdate file time_str u q = Inr (lf_push_all q es)"
  "\<exists>es. defaultAlgoOnOrderUpdate file time_str r q = Inr (lf_push_all q es)"
  "\<exists>es. lt_onOrderBookUpdate file time_str t p sd q = Inr (lf_push_all q es)"
  "\<exists>es. mm_onTradeUpdate file time_str u q = Inr (lf_push_all q es)"
  unfolding defaultAlgoOnOrderBookUpdate_def defaultAlgoOnTradeUpdate_def defaultAlgoOnOrderUpdate_def lt_onOrderBookUpdate_def
    mm_onTradeUpdate_def log_book_update_def log_text_def
  by (rule log_fits, simp add: log_place_def nl_def)+

end
